(* ===== verification/Prelude.thy ===== *)
theory Prelude
  imports Main "HOL-Library.Word"
begin

text \<open>
  Shared vocabulary of the development: the machine types the C code uses, the named
  collections that the component theories extend, and the generic facts on lists,
  words and integers that more than one component needs.
\<close>

unbundle bit_operations_syntax

section \<open>Machine types\<close>

text \<open>
  An \<open>unsigned char\<close> is a \<open>byte\<close>; \<open>u_long\<close> is taken at 64 bits (LP64). A pointer
  into a character array is its address, an \<open>int\<close>; the null pointer is \<open>0\<close>.
\<close>

type_synonym byte = "8 word"
type_synonym u_long = "64 word"
type_synonym addr = int

text \<open>
  A C string is the list of its characters before the terminating NUL; \<open>c_string\<close> reads a
  string literal.
\<close>

type_synonym cstr = "byte list"

definition c_string :: "string \<Rightarrow> byte list" where
  "c_string = List.map of_char"

section \<open>Named collections\<close>

named_theorems wf_intro \<open>operations preserve their component's invariant\<close>
named_theorems frame_simps \<open>fields an operation leaves alone\<close>

section \<open>Lists\<close>

lemma take_Suc_snoc: "n < length xs \<Longrightarrow> take (Suc n) xs = take n xs @ [xs ! n]"
  by (rule take_Suc_conv_app_nth)

lemma map_upt_shift: "map f [a..<a + n] = map (\<lambda>i. f (a + i)) [0..<n]"
  by (rule nth_equalityI) auto

lemma map_upt_split:
  "m \<le> n \<Longrightarrow> map f [0..<n] = map f [0..<m] @ map (\<lambda>i. f (m + i)) [0..<n - m]"
proof -
  assume "m \<le> n"
  then have "[0..<n] = [0..<m] @ [m..<m + (n - m)]"
    by (metis le_add_diff_inverse upt_add_eq_append zero_le)
  then show ?thesis
    by (metis map_append map_upt_shift)
qed

lemma map_upt_nth: "map (\<lambda>i. xs ! i) [0..<length xs] = xs"
  by (rule map_nth)

section \<open>Words\<close>

text \<open>Two bytes are equal when their eight bits are.\<close>

lemma byte_eqI:
  fixes a b :: byte
  assumes "bit a 0 = bit b 0" "bit a 1 = bit b 1" "bit a 2 = bit b 2" "bit a 3 = bit b 3"
    "bit a 4 = bit b 4" "bit a 5 = bit b 5" "bit a 6 = bit b 6" "bit a 7 = bit b 7"
  shows "a = b"
proof (rule bit_word_eqI)
  fix n assume "n < LENGTH(8)"
  then have "n = 0 \<or> n = 1 \<or> n = 2 \<or> n = 3 \<or> n = 4 \<or> n = 5 \<or> n = 6 \<or> n = 7" by auto
  with assms show "bit a n = bit b n" by (elim disjE) simp_all
qed

lemma bit_byte_high [simp]: "8 \<le> n \<Longrightarrow> \<not> bit (x :: byte) n"
  using bit_imp_le_length [of x n] by auto

text \<open>A counter that has not reached its last value grows when it is incremented.\<close>

lemma word_succ_greater: "(c :: 'a::len word) < - 1 \<Longrightarrow> c < c + 1"
  using inc_less_eq_triv_imp [of c] by (auto simp: not_le [symmetric])

lemma word_le_succ_greater: "(c :: 'a::len word) < - 1 \<Longrightarrow> t \<le> c \<Longrightarrow> t < c + 1"
  by (metis order_le_less_trans word_succ_greater)

end
