(* ===== verification/Memory.thy ===== *)
theory Memory
  imports Prelude
begin

text \<open>
  Character arrays as functions of an offset: that a list of bytes lies at an offset
  (\<open>reads\<close>), and the array after a list of bytes has been written there (\<open>overwrite\<close>).
\<close>

section \<open>Memory\<close>

definition reads :: "(int \<Rightarrow> byte) \<Rightarrow> int \<Rightarrow> byte list \<Rightarrow> bool" where
  "reads m p xs = (\<forall>i < length xs. m (p + int i) = xs ! i)"

lemma reads_Cons: "reads m p (x # xs) \<longleftrightarrow> m p = x \<and> reads m (p + 1) xs"
proof
  assume r: "reads m p (x # xs)"
  have "m (p + 1 + int i) = xs ! i" if "i < length xs" for i
    using r that unfolding reads_def by (drule_tac spec [of _ "Suc i"]) (simp add: algebra_simps)
  moreover have "m p = x" using r unfolding reads_def by (drule_tac spec [of _ 0]) simp
  ultimately show "m p = x \<and> reads m (p + 1) xs" by (simp add: reads_def)
next
  assume r: "m p = x \<and> reads m (p + 1) xs"
  have "m (p + int i) = (x # xs) ! i" if "i < length (x # xs)" for i
    using r that by (cases i) (auto simp: reads_def algebra_simps)
  then show "reads m p (x # xs)" by (simp add: reads_def)
qed

lemma reads_Nil [simp]: "reads m p []"
  by (simp add: reads_def)

lemma reads_append: "reads m p (xs @ ys) \<longleftrightarrow> reads m p xs \<and> reads m (p + int (length xs)) ys"
  by (induction xs arbitrary: p) (auto simp: reads_Cons algebra_simps)

lemma reads_cong: "(\<And>i. p \<le> i \<Longrightarrow> i < p + int (length xs) \<Longrightarrow> m i = m' i) \<Longrightarrow> reads m p xs = reads m' p xs"
  by (simp add: reads_def)

definition overwrite :: "int \<Rightarrow> byte list \<Rightarrow> (int \<Rightarrow> byte) \<Rightarrow> int \<Rightarrow> byte" where
  "overwrite p xs m = (\<lambda>i. if p \<le> i \<and> i < p + int (length xs) then xs ! nat (i - p) else m i)"

lemma overwrite_Nil [simp]: "overwrite p [] m = m"
proof
  show "overwrite p [] m i = m i" for i by (cases "p \<le> i") (simp_all add: overwrite_def)
qed

lemma overwrite_Cons: "overwrite (p + 1) xs (m(p := x)) = overwrite p (x # xs) m"
proof
  fix i
  have "nat (i - p) = Suc (nat (i - (p + 1)))" if "p + 1 \<le> i" using that by simp
  then show "overwrite (p + 1) xs (m(p := x)) i = overwrite p (x # xs) m i"
    by (auto simp: overwrite_def nth_Cons' )
qed

lemma reads_overwrite: "reads (overwrite p xs m) p xs"
  by (simp add: reads_def overwrite_def)

lemma overwrite_other: "i < p \<or> p + int (length xs) \<le> i \<Longrightarrow> overwrite p xs m i = m i"
  by (auto simp: overwrite_def)

end
