(* ===== verification/Fifo.thy ===== *)
theory Fifo
  imports Prelude
begin

text \<open>
  The interface of a byte queue, as the I/O code of the programs uses it: a producer
  puts bytes at the end, a consumer takes them from the front. The client's ring
  buffer and the server's linear output buffer both provide it. The law proved once
  here is what a reader of the far end relies on: whatever the interleaving of puts and
  gets, the bytes come out in the order they went in, none lost and none repeated.
\<close>

datatype fifo_op = Put "byte list" | Get nat

text \<open>
  A run of operations over a queue, given by its guards and its two operations; the run
  stops with \<open>None\<close> at an operation its guard forbids. The first component of the
  result is the concatenation of what the gets returned.
\<close>

fun fifo_run ::
  "(byte list \<Rightarrow> 's \<Rightarrow> bool) \<Rightarrow> (byte list \<Rightarrow> 's \<Rightarrow> 's) \<Rightarrow>
   (nat \<Rightarrow> 's \<Rightarrow> bool) \<Rightarrow> (nat \<Rightarrow> 's \<Rightarrow> byte list \<times> 's) \<Rightarrow>
   fifo_op list \<Rightarrow> 's \<Rightarrow> (byte list \<times> 's) option" where
  "fifo_run gp put gg get [] s = Some ([], s)"
| "fifo_run gp put gg get (Put xs # ops) s =
     (if gp xs s then fifo_run gp put gg get ops (put xs s) else None)"
| "fifo_run gp put gg get (Get n # ops) s =
     (if gg n s
      then (let (ys, s') = get n s in
            map_option (\<lambda>(zs, s''). (ys @ zs, s'')) (fifo_run gp put gg get ops s'))
      else None)"

fun fifo_input :: "fifo_op list \<Rightarrow> byte list" where
  "fifo_input [] = []"
| "fifo_input (Put xs # ops) = xs @ fifo_input ops"
| "fifo_input (Get n # ops) = fifo_input ops"

locale byte_fifo =
  fixes inv :: "'s \<Rightarrow> bool"
    and contents :: "'s \<Rightarrow> byte list"
    and can_put :: "byte list \<Rightarrow> 's \<Rightarrow> bool"
    and put :: "byte list \<Rightarrow> 's \<Rightarrow> 's"
    and can_get :: "nat \<Rightarrow> 's \<Rightarrow> bool"
    and get :: "nat \<Rightarrow> 's \<Rightarrow> byte list \<times> 's"
  assumes put_inv: "inv s \<Longrightarrow> can_put xs s \<Longrightarrow> inv (put xs s)"
    and put_contents: "inv s \<Longrightarrow> can_put xs s \<Longrightarrow> contents (put xs s) = contents s @ xs"
    and get_inv: "inv s \<Longrightarrow> can_get n s \<Longrightarrow> inv (snd (get n s))"
    and get_contents:
      "inv s \<Longrightarrow> can_get n s \<Longrightarrow> contents s = fst (get n s) @ contents (snd (get n s))"
begin

lemma run_inv:
  "inv s \<Longrightarrow> fifo_run can_put put can_get get ops s = Some (ys, s') \<Longrightarrow> inv s'"
proof (induction ops arbitrary: s ys)
  case Nil
  then show ?case by simp
next
  case (Cons op ops)
  show ?case
  proof (cases op)
    case (Put xs)
    with Cons show ?thesis by (auto split: if_splits intro: put_inv)
  next
    case (Get n)
    obtain zs t where t: "get n s = (zs, t)" by (cases "get n s")
    with Cons.prems Get obtain us where g: "can_get n s"
      and r: "fifo_run can_put put can_get get ops t = Some (us, s')"
      by (auto split: if_splits)
    from get_inv [OF Cons.prems(1) g] t have "inv t" by simp
    then show ?thesis using r by (rule Cons.IH)
  qed
qed

lemma run_fifo:
  "inv s \<Longrightarrow> fifo_run can_put put can_get get ops s = Some (ys, s') \<Longrightarrow>
   contents s @ fifo_input ops = ys @ contents s'"
proof (induction ops arbitrary: s ys)
  case Nil
  then show ?case by simp
next
  case (Cons op ops)
  show ?case
  proof (cases op)
    case (Put xs)
    with Cons.prems have g: "can_put xs s"
      and r: "fifo_run can_put put can_get get ops (put xs s) = Some (ys, s')"
      by (auto split: if_splits)
    from Cons.IH [OF put_inv [OF Cons.prems(1) g] r] Put show ?thesis
      by (simp add: put_contents [OF Cons.prems(1) g])
  next
    case (Get n)
    obtain zs t where t: "get n s = (zs, t)" by (cases "get n s")
    with Cons.prems Get obtain us where g: "can_get n s"
      and r: "fifo_run can_put put can_get get ops t = Some (us, s')" and ys: "ys = zs @ us"
      by (auto split: if_splits)
    from get_inv [OF Cons.prems(1) g] t have "inv t" by simp
    from Cons.IH [OF this r] have "contents t @ fifo_input ops = us @ contents s'" .
    with get_contents [OF Cons.prems(1) g] t ys Get show ?thesis by simp
  qed
qed

end

end
