(* ===== verification/Cipher.thy ===== *)
theory Cipher
  imports Prelude
begin

text \<open>
  The interface of a stream cipher, as the libraries hand it to the network code: an
  encryptor that rewrites a run of bytes in place and carries its state to the next run
  (\<open>encrypt_output\<close>), and a decryptor that takes one byte at a time (\<open>decrypt_input\<close>).
\<close>

text \<open>Decrypting a received run, byte by byte.\<close>

fun decrypt_run :: "('d \<Rightarrow> byte \<Rightarrow> byte \<times> 'd) \<Rightarrow> 'd \<Rightarrow> byte list \<Rightarrow> byte list \<times> 'd" where
  "decrypt_run dec d [] = ([], d)"
| "decrypt_run dec d (x # xs) =
     (let (y, d) = dec d x; (ys, d) = decrypt_run dec d xs in (y # ys, d))"

locale stream_encryptor =
  fixes enc :: "'k \<Rightarrow> byte list \<Rightarrow> byte list \<times> 'k"
  assumes enc_nil [simp]: "enc k [] = ([], k)"
    and enc_append: "enc k (xs @ ys) =
      (fst (enc k xs) @ fst (enc (snd (enc k xs)) ys), snd (enc (snd (enc k xs)) ys))"
    and enc_length [simp]: "length (fst (enc k xs)) = length xs"
begin

lemma enc_Cons:
  "enc k (x # xs) =
     (fst (enc k [x]) @ fst (enc (snd (enc k [x])) xs), snd (enc (snd (enc k [x])) xs))"
  using enc_append [of k "[x]" xs] by simp

end

text \<open>
  A cipher whose two ends agree: while they do, a byte that is encrypted and then
  decrypted is the byte itself, and the ends agree again.
\<close>

locale stream_cipher = stream_encryptor enc
  for enc :: "'k \<Rightarrow> byte list \<Rightarrow> byte list \<times> 'k" +
  fixes dec :: "'d \<Rightarrow> byte \<Rightarrow> byte \<times> 'd"
    and agree :: "'k \<Rightarrow> 'd \<Rightarrow> bool"
  assumes dec_byte: "agree k d \<Longrightarrow> fst (dec d (hd (fst (enc k [x])))) = x"
    and agree_byte: "agree k d \<Longrightarrow> agree (snd (enc k [x])) (snd (dec d (hd (fst (enc k [x])))))"
begin

lemma decrypt_run_enc:
  "agree k d \<Longrightarrow>
   fst (decrypt_run dec d (fst (enc k xs))) = xs \<and>
   agree (snd (enc k xs)) (snd (decrypt_run dec d (fst (enc k xs))))"
proof (induction xs arbitrary: k d)
  case Nil
  then show ?case by simp
next
  case (Cons x xs)
  obtain y where y: "fst (enc k [x]) = [y]"
    using enc_length [of k "[x]"] by (metis length_0_conv length_Suc_conv list.size(3))
  note E = enc_Cons [of k x xs]
  have "fst (dec d y) = x" "agree (snd (enc k [x])) (snd (dec d y))"
    using dec_byte [OF Cons.prems, of x] agree_byte [OF Cons.prems, of x] y by simp_all
  with Cons.IH [OF this(2)] show ?case
    by (simp add: E y case_prod_beta)
qed

lemma decrypt_run_enc_eq: "agree k d \<Longrightarrow> fst (decrypt_run dec d (fst (enc k xs))) = xs"
  using decrypt_run_enc by blast

end

end
