(* ===== verification/Ring.thy ===== *)
theory Ring
  imports Prelude Fifo Cipher
begin

text \<open>
  The circular byte buffer of the telnet client (telnet/telnet/ring.c, ring.h), built as
  telnet/telnet/Makefile.in builds it, with \<open>ENCRYPTION\<close>. The record is the \<open>Ring\<close> struct,
  extended with the two things its operations share with the rest of the client: the
  static \<open>ring_clock\<close> and the memory its pointers point into.
\<close>

section \<open>The structure\<close>

record ring =
  r_consume :: addr
  r_supply :: addr
  r_bottom :: addr
  r_top :: addr
  r_mark :: addr
  r_clearto :: addr
  r_encryyptedto :: addr
  r_size :: int
  r_consumetime :: u_long
  r_supplytime :: u_long

record ring_sys = ring +
  ring_clock :: u_long
  r_mem :: "addr \<Rightarrow> byte"

text \<open>\<open>memcpy\<close> out of and into memory.\<close>

definition mem_read :: "(addr \<Rightarrow> byte) \<Rightarrow> addr \<Rightarrow> nat \<Rightarrow> byte list" where
  "mem_read m p n = map (\<lambda>i. m (p + int i)) [0..<n]"

definition mem_write :: "(addr \<Rightarrow> byte) \<Rightarrow> addr \<Rightarrow> byte list \<Rightarrow> (addr \<Rightarrow> byte)" where
  "mem_write m p xs =
     (\<lambda>a. if p \<le> a \<and> a < p + int (length xs) then xs ! nat (a - p) else m a)"

section \<open>The macros\<close>

definition ring_subtract :: "ring_sys \<Rightarrow> addr \<Rightarrow> addr \<Rightarrow> int" where
  "ring_subtract d a b = (if a - b \<ge> 0 then a - b else (a - b) + r_size d)"

definition ring_increment :: "ring_sys \<Rightarrow> addr \<Rightarrow> int \<Rightarrow> addr" where
  "ring_increment d a c = (if a + c < r_top d then a + c else (a + c) - r_size d)"

definition ring_decrement :: "ring_sys \<Rightarrow> addr \<Rightarrow> int \<Rightarrow> addr" where
  "ring_decrement d a c = (if a - c \<ge> r_bottom d then a - c else (a - c) - r_size d)"

definition ring_empty :: "ring_sys \<Rightarrow> bool" where
  "ring_empty d \<longleftrightarrow> r_consume d = r_supply d \<and> r_consumetime d \<ge> r_supplytime d"

definition ring_full :: "ring_sys \<Rightarrow> bool" where
  "ring_full d \<longleftrightarrow> r_supply d = r_consume d \<and> r_supplytime d > r_consumetime d"

section \<open>State transitions\<close>

definition ring_init :: "ring_sys \<Rightarrow> addr \<Rightarrow> int \<Rightarrow> ring_sys" where
  "ring_init r buffer count =
     r\<lparr>r_consume := buffer, r_supply := buffer, r_bottom := buffer, r_top := buffer + count,
       r_mark := 0, r_clearto := 0, r_encryyptedto := 0, r_size := count,
       r_consumetime := 0, r_supplytime := 0\<rparr>"

definition ring_mark :: "ring_sys \<Rightarrow> ring_sys" where
  "ring_mark r = r\<lparr>r_mark := ring_decrement r (r_supply r) 1\<rparr>"

definition ring_at_mark :: "ring_sys \<Rightarrow> bool" where
  "ring_at_mark r = (if r_mark r = r_consume r then True else False)"

definition ring_clear_mark :: "ring_sys \<Rightarrow> ring_sys" where
  "ring_clear_mark r = r\<lparr>r_mark := 0\<rparr>"

definition ring_supplied :: "ring_sys \<Rightarrow> int \<Rightarrow> ring_sys" where
  "ring_supplied r count =
     r\<lparr>r_supply := ring_increment r (r_supply r) count,
       ring_clock := ring_clock r + 1,
       r_supplytime := ring_clock r + 1\<rparr>"

text \<open>
  \<open>ring_consumed\<close> drops a mark the consumption passes, then the clear-text pointer, then
  advances; the third operand of the second clear-text test is the pointer
  \<open>bottom + (consume + count - top)\<close> itself, tested for being non-null, as the source has it.
\<close>

definition ring_consumed :: "ring_sys \<Rightarrow> int \<Rightarrow> ring_sys" where
  "ring_consumed r count =
     (if count = 0 then r
      else
        let r = (if r_mark r \<noteq> 0 \<and> ring_subtract r (r_mark r) (r_consume r) < count
                 then r\<lparr>r_mark := 0\<rparr> else r);
            r = (if r_consume r < r_clearto r \<and> r_clearto r \<le> r_consume r + count
                 then r\<lparr>r_clearto := 0\<rparr>
                 else if r_consume r + count > r_top r \<and> r_bottom r \<le> r_clearto r \<and>
                         r_bottom r + ((r_consume r + count) - r_top r) \<noteq> 0
                 then r\<lparr>r_clearto := 0\<rparr> else r);
            r = r\<lparr>r_consume := ring_increment r (r_consume r) count,
                  ring_clock := ring_clock r + 1,
                  r_consumetime := ring_clock r + 1\<rparr>
        in if ring_empty r then r\<lparr>r_consume := r_bottom r, r_supply := r_bottom r\<rparr> else r)"

section \<open>State queries\<close>

definition ring_empty_count :: "ring_sys \<Rightarrow> int" where
  "ring_empty_count r =
     (if ring_empty r then r_size r else ring_subtract r (r_consume r) (r_supply r))"

definition ring_empty_consecutive :: "ring_sys \<Rightarrow> int" where
  "ring_empty_consecutive r =
     (if r_consume r < r_supply r \<or> ring_empty r
      then ring_subtract r (r_top r) (r_supply r)
      else ring_subtract r (r_consume r) (r_supply r))"

definition ring_full_count :: "ring_sys \<Rightarrow> int" where
  "ring_full_count r =
     (if r_mark r = 0 \<or> r_mark r = r_consume r
      then (if ring_full r then r_size r else ring_subtract r (r_supply r) (r_consume r))
      else ring_subtract r (r_mark r) (r_consume r))"

definition ring_full_consecutive :: "ring_sys \<Rightarrow> int" where
  "ring_full_consecutive r =
     (if r_mark r = 0 \<or> r_mark r = r_consume r
      then (if r_supply r < r_consume r \<or> ring_full r
            then ring_subtract r (r_top r) (r_consume r)
            else ring_subtract r (r_supply r) (r_consume r))
      else (if r_mark r < r_consume r
            then ring_subtract r (r_top r) (r_consume r)
            else ring_subtract r (r_mark r) (r_consume r)))"

section \<open>Moving data\<close>

text \<open>
  The loop of \<open>ring_supply_data\<close>. It does not end while the ring stays full, so the model
  has fuel: one unit per evaluation of the loop's condition.
\<close>

fun ring_supply_data :: "nat \<Rightarrow> ring_sys \<Rightarrow> byte list \<Rightarrow> int \<Rightarrow> ring_sys option" where
  "ring_supply_data 0 r buffer count = None"
| "ring_supply_data (Suc fuel) r buffer count =
     (if count = 0 then Some r
      else
        let i = min count (ring_empty_consecutive r);
            r = r\<lparr>r_mem := mem_write (r_mem r) (r_supply r) (take (nat i) buffer)\<rparr>
        in ring_supply_data fuel (ring_supplied r i) (drop (nat i) buffer) (count - i))"

text \<open>
  The encryptor is a function on the cipher's state and a run of bytes; it rewrites the
  bytes in place, so the model writes its result back where it was read.
\<close>

definition encrypt_span ::
  "('k \<Rightarrow> byte list \<Rightarrow> byte list \<times> 'k) \<Rightarrow> 'k \<times> ring_sys \<Rightarrow> addr \<Rightarrow> int \<Rightarrow> 'k \<times> ring_sys" where
  "encrypt_span encryptor kr p n =
     (let (k, r) = kr; (ys, k') = encryptor k (mem_read (r_mem r) p (nat n))
      in (k', r\<lparr>r_mem := mem_write (r_mem r) p ys\<rparr>))"

definition ring_encrypt ::
  "('k \<Rightarrow> byte list \<Rightarrow> byte list \<times> 'k) \<Rightarrow> 'k \<times> ring_sys \<Rightarrow> 'k \<times> ring_sys" where
  "ring_encrypt encryptor kr =
     (let (k, r) = kr
      in if ring_empty r \<or> r_clearto r = r_supply r then kr
         else
           let c = (if r_clearto r = 0 then r_consume r else r_clearto r);
               s = r_supply r;
               (k, r) = (if s \<le> c
                         then encrypt_span encryptor
                                (encrypt_span encryptor kr c (r_top r - c))
                                (r_bottom r) (s - r_bottom r)
                         else encrypt_span encryptor kr c (s - c))
           in (k, r\<lparr>r_clearto := r_supply r\<rparr>))"

definition ring_clearto :: "ring_sys \<Rightarrow> ring_sys" where
  "ring_clearto r =
     (if \<not> ring_empty r then r\<lparr>r_clearto := r_supply r\<rparr> else r\<lparr>r_clearto := 0\<rparr>)"

section \<open>Memory\<close>

lemma length_mem_read [simp]: "length (mem_read m p n) = n"
  by (simp add: mem_read_def)

lemma mem_read_write_same: "mem_read (mem_write m p xs) p (length xs) = xs"
  by (rule nth_equalityI) (auto simp: mem_read_def mem_write_def)

lemma mem_write_other: "a < p \<or> p + int (length xs) \<le> a \<Longrightarrow> mem_write m p xs a = m a"
  by (auto simp: mem_write_def)

lemma mem_write_nil [simp]: "mem_write m p [] = m"
  by (auto simp: mem_write_def fun_eq_iff)

lemma mem_write_at: "i < length xs \<Longrightarrow> mem_write m p xs (p + int i) = xs ! i"
  by (simp add: mem_write_def)

section \<open>Well-formed rings and their contents\<close>

text \<open>
  The pointers stay inside the buffer, and neither timestamp is ahead of the clock. The
  number of bytes held, and the bytes themselves in the order they will be consumed:
\<close>

definition ring_wf :: "ring_sys \<Rightarrow> bool" where
  "ring_wf r \<longleftrightarrow>
     0 < r_bottom r \<and> 0 < r_size r \<and> r_top r = r_bottom r + r_size r \<and>
     r_bottom r \<le> r_consume r \<and> r_consume r < r_top r \<and>
     r_bottom r \<le> r_supply r \<and> r_supply r < r_top r \<and>
     r_consumetime r \<le> ring_clock r \<and> r_supplytime r \<le> ring_clock r"

definition ring_used :: "ring_sys \<Rightarrow> int" where
  "ring_used r = (if ring_full r then r_size r else ring_subtract r (r_supply r) (r_consume r))"

definition ring_contents :: "ring_sys \<Rightarrow> byte list" where
  "ring_contents r =
     map (\<lambda>i. r_mem r (ring_increment r (r_consume r) (int i))) [0..<nat (ring_used r)]"

text \<open>The clock has not reached its last value; each operation of any ring advances it.\<close>

definition clock_ok :: "ring_sys \<Rightarrow> bool" where
  "clock_ok r \<longleftrightarrow> ring_clock r < - 1"

lemmas ring_arith = ring_subtract_def ring_increment_def ring_decrement_def
lemmas ring_defs = ring_wf_def ring_used_def ring_empty_def ring_full_def ring_arith

lemma ring_used_bounds: "ring_wf r \<Longrightarrow> 0 \<le> ring_used r \<and> ring_used r \<le> r_size r"
  by (auto simp: ring_defs)

lemma ring_used_zero_iff: "ring_wf r \<Longrightarrow> ring_used r = 0 \<longleftrightarrow> ring_empty r"
  by (auto simp: ring_defs)

lemma length_ring_contents: "ring_wf r \<Longrightarrow> int (length (ring_contents r)) = ring_used r"
  using ring_used_bounds [of r] by (simp add: ring_contents_def)

lemma ring_empty_count_eq: "ring_wf r \<Longrightarrow> ring_empty_count r = r_size r - ring_used r"
  by (auto simp: ring_empty_count_def ring_defs)

lemma ring_empty_consecutive_le: "ring_wf r \<Longrightarrow> ring_empty_consecutive r \<le> ring_empty_count r"
  by (auto simp: ring_empty_count_def ring_empty_consecutive_def ring_defs)

lemma ring_empty_consecutive_nonneg: "ring_wf r \<Longrightarrow> 0 \<le> ring_empty_consecutive r"
  by (auto simp: ring_empty_consecutive_def ring_defs)

lemma ring_empty_consecutive_top:
  "ring_wf r \<Longrightarrow> r_supply r + ring_empty_consecutive r \<le> r_top r"
  by (auto simp: ring_empty_consecutive_def ring_defs)

lemma ring_empty_consecutive_zero:
  "ring_wf r \<Longrightarrow> ring_empty_consecutive r = 0 \<longleftrightarrow> ring_full r"
  by (auto simp: ring_empty_consecutive_def ring_defs)

section \<open>Supplying\<close>

lemma ring_wf_init:
  "0 < buffer \<Longrightarrow> 0 < count \<Longrightarrow> ring_wf (ring_init r buffer count)"
  by (simp add: ring_wf_def ring_init_def)

lemma ring_contents_init: "ring_contents (ring_init r buffer count) = []"
  by (simp add: ring_contents_def ring_used_def ring_full_def ring_init_def ring_subtract_def)

lemma ring_supplied_wf [wf_intro]:
  assumes "ring_wf r" "clock_ok r" "0 \<le> count" "count \<le> ring_empty_count r"
  shows "ring_wf (ring_supplied r count)"
proof -
  have "ring_clock r < ring_clock r + 1"
    using assms(2) by (simp add: clock_ok_def word_succ_greater)
  then show ?thesis
    using assms by (auto simp: ring_supplied_def ring_empty_count_def ring_defs split: if_splits)
qed

lemma ring_used_supplied:
  assumes "ring_wf r" "clock_ok r" "0 < count" "count \<le> ring_empty_count r"
  shows "ring_used (ring_supplied r count) = ring_used r + count"
proof -
  have "ring_clock r < ring_clock r + 1" "r_consumetime r < ring_clock r + 1"
    using assms(1,2) by (simp_all add: clock_ok_def word_succ_greater word_le_succ_greater ring_wf_def)
  then show ?thesis
    using assms by (auto simp: ring_supplied_def ring_empty_count_def ring_defs split: if_splits)
qed

text \<open>Writing at the supply pointer, within the consecutive room, appends to the contents.\<close>

lemma slot_old:
  assumes "ring_wf r" "0 \<le> i" "i < ring_used r" "count \<le> ring_empty_consecutive r"
  shows "ring_increment r (r_consume r) i < r_supply r \<or>
         r_supply r + count \<le> ring_increment r (r_consume r) i"
  using assms by (auto simp: ring_empty_consecutive_def ring_defs split: if_splits)

lemma slot_new:
  assumes "ring_wf r" "0 \<le> i" "i < ring_empty_consecutive r"
  shows "ring_increment r (r_consume r) (ring_used r + i) = r_supply r + i"
  using assms by (auto simp: ring_empty_consecutive_def ring_defs split: if_splits)

lemma ring_contents_supplied:
  assumes wf: "ring_wf r" and ck: "clock_ok r"
    and n: "0 < length xs" "int (length xs) \<le> ring_empty_consecutive r"
  shows "ring_contents (ring_supplied (r\<lparr>r_mem := mem_write (r_mem r) (r_supply r) xs\<rparr>)
           (int (length xs))) = ring_contents r @ xs"
    (is "ring_contents ?r' = _")
proof -
  let ?n = "int (length xs)" and ?w = "r\<lparr>r_mem := mem_write (r_mem r) (r_supply r) xs\<rparr>"
  have same: "ring_wf ?w = ring_wf r" "clock_ok ?w = clock_ok r" "ring_used ?w = ring_used r"
    "ring_empty_count ?w = ring_empty_count r"
    by (simp_all add: clock_ok_def ring_empty_count_def ring_defs)
  have le: "?n \<le> ring_empty_count r"
    using n ring_empty_consecutive_le [OF wf] by simp
  have used: "ring_used ?r' = ring_used r + ?n"
    using ring_used_supplied [of ?w ?n] wf ck n le same by simp
  have inc: "ring_increment ?r' (r_consume ?r') i = ring_increment r (r_consume r) i" for i
    by (simp add: ring_supplied_def ring_increment_def)
  have ub: "0 \<le> ring_used r" using ring_used_bounds [OF wf] by simp
  show ?thesis
  proof (rule nth_equalityI)
    show "length (ring_contents ?r') = length (ring_contents r @ xs)"
      using used ub by (simp add: ring_contents_def nat_add_distrib)
  next
    fix i assume i: "i < length (ring_contents ?r')"
    then have i': "i < nat (ring_used r + ?n)" using used by (simp add: ring_contents_def)
    then have lhs: "ring_contents ?r' ! i =
        mem_write (r_mem r) (r_supply r) xs (ring_increment r (r_consume r) (int i))"
      using used inc by (simp add: ring_contents_def ring_supplied_def)
    show "ring_contents ?r' ! i = (ring_contents r @ xs) ! i"
    proof (cases "int i < ring_used r")
      case True
      then have "mem_write (r_mem r) (r_supply r) xs (ring_increment r (r_consume r) (int i)) =
          r_mem r (ring_increment r (r_consume r) (int i))"
        using slot_old [OF wf _ True, of ?n] n by (intro mem_write_other) auto
      moreover have "i < length (ring_contents r)"
        using True by (simp add: ring_contents_def)
      ultimately show ?thesis
        using lhs by (simp add: nth_append) (simp add: ring_contents_def)
    next
      case False
      define j where "j = nat (int i - ring_used r)"
      have j: "int i = ring_used r + int j" "j < length xs"
        using False i' ub by (auto simp: j_def)
      then have "ring_increment r (r_consume r) (int i) = r_supply r + int j"
        using slot_new [OF wf, of "int j"] n by simp
      moreover have "i - length (ring_contents r) = j" "\<not> i < length (ring_contents r)"
        using j ub by (auto simp: ring_contents_def)
      ultimately show ?thesis using lhs j by (simp add: nth_append mem_write_at)
    qed
  qed
qed

section \<open>Consuming\<close>

lemma ring_full_consecutive_bounds:
  assumes "ring_wf r" "r_mark r = 0"
  shows "0 \<le> ring_full_consecutive r \<and> ring_full_consecutive r \<le> ring_used r \<and>
         r_consume r + ring_full_consecutive r \<le> r_top r"
  using assms by (auto simp: ring_full_consecutive_def ring_defs split: if_splits)

lemma ring_full_consecutive_zero:
  "ring_wf r \<Longrightarrow> r_mark r = 0 \<Longrightarrow> ring_full_consecutive r = 0 \<longleftrightarrow> ring_empty r"
  by (auto simp: ring_full_consecutive_def ring_defs)

text \<open>\<open>ring_consumed\<close> by the fields it leaves, when the amount fits below the top.\<close>

lemma ring_consumed_frame [frame_simps]:
  "r_bottom (ring_consumed r c) = r_bottom r" "r_top (ring_consumed r c) = r_top r"
  "r_size (ring_consumed r c) = r_size r" "r_mem (ring_consumed r c) = r_mem r"
  "r_supplytime (ring_consumed r c) = r_supplytime r"
  by (simp_all add: ring_consumed_def Let_def)

lemma ring_consumed_clock:
  "ring_clock (ring_consumed r c) = (if c = 0 then ring_clock r else ring_clock r + 1)"
  "c \<noteq> 0 \<Longrightarrow> r_consumetime (ring_consumed r c) = ring_clock r + 1"
  by (simp_all add: ring_consumed_def Let_def)

lemma ring_consumed_pointers:
  assumes "c \<noteq> 0" "r_supplytime r \<le> ring_clock r" "clock_ok r"
  shows "r_consume (ring_consumed r c) =
           (if ring_increment r (r_consume r) c = r_supply r then r_bottom r
            else ring_increment r (r_consume r) c)"
    and "r_supply (ring_consumed r c) =
           (if ring_increment r (r_consume r) c = r_supply r then r_bottom r else r_supply r)"
proof -
  have "r_supplytime r \<le> ring_clock r + 1"
    using assms(2,3) by (simp add: clock_ok_def word_le_succ_greater less_imp_le)
  with assms(1) show "r_consume (ring_consumed r c) =
           (if ring_increment r (r_consume r) c = r_supply r then r_bottom r
            else ring_increment r (r_consume r) c)"
    and "r_supply (ring_consumed r c) =
           (if ring_increment r (r_consume r) c = r_supply r then r_bottom r else r_supply r)"
    by (simp_all add: ring_consumed_def Let_def ring_empty_def ring_increment_def)
qed

lemma ring_consumed_wf [wf_intro]:
  assumes "ring_wf r" "clock_ok r" "0 \<le> c" "c \<le> ring_used r"
  shows "ring_wf (ring_consumed r c)"
proof (cases "c = 0")
  case True
  with assms show ?thesis by (simp add: ring_consumed_def)
next
  case False
  have "r_supplytime r < ring_clock r + 1"
    using assms(1,2) by (simp add: clock_ok_def word_le_succ_greater ring_wf_def)
  moreover note ring_consumed_pointers [OF False _ assms(2)]
  ultimately show ?thesis
    using assms False
    by (auto simp: ring_wf_def frame_simps ring_consumed_clock ring_increment_def ring_defs
        split: if_splits)
qed

lemma ring_used_consumed:
  assumes "ring_wf r" "clock_ok r" "0 \<le> c" "c \<le> ring_used r"
  shows "ring_used (ring_consumed r c) = ring_used r - c"
proof (cases "c = 0")
  case True
  with assms show ?thesis by (simp add: ring_consumed_def)
next
  case False
  have "r_supplytime r < ring_clock r + 1"
    using assms(1,2) by (simp add: clock_ok_def word_le_succ_greater ring_wf_def)
  moreover note ring_consumed_pointers [OF False _ assms(2)]
  ultimately show ?thesis
    using assms False
    by (auto simp: ring_wf_def frame_simps ring_consumed_clock ring_increment_def ring_defs
        split: if_splits)
qed

lemma ring_contents_consumed:
  assumes wf: "ring_wf r" and ck: "clock_ok r" and c: "0 \<le> c" "c \<le> ring_used r"
  shows "ring_contents (ring_consumed r c) = drop (nat c) (ring_contents r)"
proof (cases "c = 0")
  case True
  then show ?thesis by (simp add: ring_consumed_def)
next
  case False
  have st: "r_supplytime r \<le> ring_clock r" using wf by (simp add: ring_wf_def)
  let ?r = "ring_consumed r c"
  note used = ring_used_consumed [OF wf ck c]
  have slot: "ring_increment ?r (r_consume ?r) (int i) = ring_increment r (r_consume r) (c + int i)"
    if "int i < ring_used r - c" for i
    using that wf c False ring_used_bounds [OF wf] ring_consumed_pointers [OF False st ck]
    by (auto simp: ring_increment_def frame_simps ring_wf_def ring_used_def ring_subtract_def
        ring_full_def split: if_splits)
  show ?thesis
  proof (rule nth_equalityI)
    show "length (ring_contents ?r) = length (drop (nat c) (ring_contents r))"
      using used c by (simp add: ring_contents_def nat_diff_distrib)
  next
    fix i assume "i < length (ring_contents ?r)"
    then have i: "int i < ring_used r - c" using used by (simp add: ring_contents_def)
    then have "ring_contents ?r ! i = r_mem r (ring_increment r (r_consume r) (c + int i))"
      using used slot [OF i] i by (simp add: ring_contents_def frame_simps nth_map_upt)
    also have "\<dots> = drop (nat c) (ring_contents r) ! i"
    proof -
      have "nat c + i < nat (ring_used r)" "int (nat c + i) = c + int i" using i c by auto
      then show ?thesis by (simp add: ring_contents_def nth_append)
    qed
    finally show "ring_contents ?r ! i = drop (nat c) (ring_contents r) ! i" .
  qed
qed

text \<open>The consecutive bytes at the consume pointer are the front of the contents.\<close>

lemma mem_read_contents:
  assumes "ring_wf r" "0 \<le> n" "n \<le> ring_used r" "r_consume r + n \<le> r_top r"
  shows "mem_read (r_mem r) (r_consume r) (nat n) = take (nat n) (ring_contents r)"
proof (rule nth_equalityI)
  show "length (mem_read (r_mem r) (r_consume r) (nat n)) =
      length (take (nat n) (ring_contents r))"
    using assms by (simp add: ring_contents_def)
next
  fix i assume "i < length (mem_read (r_mem r) (r_consume r) (nat n))"
  then have "int i < n" by simp
  moreover from this have "i < nat n" "i < nat (ring_used r)" using assms by auto
  ultimately show "mem_read (r_mem r) (r_consume r) (nat n) ! i =
      take (nat n) (ring_contents r) ! i"
    using assms by (simp add: mem_read_def ring_contents_def ring_increment_def)
qed

section \<open>The urgent mark\<close>

text \<open>
  A mark is unset or designates one of the bytes held; the number of bytes in front of
  it is \<open>mark_dist\<close>.
\<close>

definition mark_wf :: "ring_sys \<Rightarrow> bool" where
  "mark_wf r \<longleftrightarrow> r_mark r = 0 \<or>
     (r_bottom r \<le> r_mark r \<and> r_mark r < r_top r \<and>
      ring_subtract r (r_mark r) (r_consume r) < ring_used r)"

definition mark_dist :: "ring_sys \<Rightarrow> int" where
  "mark_dist r = ring_subtract r (r_mark r) (r_consume r)"

lemma ring_mark_wf:
  assumes "ring_wf r" "\<not> ring_empty r" "r_supply r \<noteq> r_bottom r"
  shows "mark_wf (ring_mark r)" "mark_dist (ring_mark r) = ring_used r - 1" "r_mark (ring_mark r) \<noteq> 0"
  using assms by (auto simp: mark_wf_def mark_dist_def ring_mark_def ring_defs split: if_splits)

lemma ring_consumed_mark:
  "c \<noteq> 0 \<Longrightarrow> r_mark (ring_consumed r c) =
     (if r_mark r \<noteq> 0 \<and> mark_dist r < c then 0 else r_mark r)"
  by (simp add: ring_consumed_def Let_def mark_dist_def)

lemma ring_full_count_mark:
  assumes "ring_wf r" "mark_wf r" "r_mark r \<noteq> 0"
  shows "ring_full_count r = (if ring_at_mark r then ring_used r else mark_dist r)"
  using assms by (auto simp: ring_full_count_def mark_wf_def mark_dist_def ring_at_mark_def ring_defs)

lemma ring_full_consecutive_le:
  assumes "ring_wf r" "mark_wf r"
  shows "0 \<le> ring_full_consecutive r \<and> ring_full_consecutive r \<le> ring_full_count r \<and>
         ring_full_count r \<le> ring_used r \<and> r_consume r + ring_full_consecutive r \<le> r_top r"
  using assms
  by (auto simp: ring_full_count_def ring_full_consecutive_def mark_wf_def ring_defs split: if_splits)

lemma ring_full_consecutive_pos:
  assumes "ring_wf r" "mark_wf r" "\<not> ring_empty r"
  shows "0 < ring_full_consecutive r"
  using assms
  by (auto simp: ring_full_consecutive_def mark_wf_def ring_defs split: if_splits)

lemma mark_wf_consumed:
  assumes "ring_wf r" "clock_ok r" "mark_wf r" "0 \<le> c" "c \<le> ring_used r"
  shows "mark_wf (ring_consumed r c)"
    and "r_mark (ring_consumed r c) \<noteq> 0 \<Longrightarrow> mark_dist (ring_consumed r c) = mark_dist r - c"
proof -
  have st: "r_supplytime r \<le> ring_clock r" using assms(1) by (simp add: ring_wf_def)
  note P = ring_consumed_pointers [OF _ st assms(2), of c]
  note U = ring_used_consumed [OF assms(1,2,4,5)]
  have "mark_wf (ring_consumed r c) \<and>
    (r_mark (ring_consumed r c) \<noteq> 0 \<longrightarrow> mark_dist (ring_consumed r c) = mark_dist r - c)"
  proof (cases "c = 0 \<or> r_mark r = 0 \<or> mark_dist r < c")
    case True
    with assms(3) show ?thesis
      by (cases "c = 0") (auto simp: ring_consumed_mark mark_wf_def, auto simp: ring_consumed_def)
  next
    case False
    with assms P U show ?thesis
      by (auto simp: mark_wf_def mark_dist_def frame_simps ring_consumed_mark ring_used_def
          ring_full_def ring_wf_def ring_arith split: if_splits)
  qed
  then show "mark_wf (ring_consumed r c)"
    and "r_mark (ring_consumed r c) \<noteq> 0 \<Longrightarrow> mark_dist (ring_consumed r c) = mark_dist r - c"
    by auto
qed

section \<open>The supply loop\<close>

text \<open>The clock can take \<open>n\<close> more ticks.\<close>

definition clock_room :: "nat \<Rightarrow> ring_sys \<Rightarrow> bool" where
  "clock_room n r \<longleftrightarrow> uint (ring_clock r) + int n < 2 ^ 64"

lemma clock_room_ok: "clock_room (Suc n) r \<Longrightarrow> clock_ok r"
  by (simp add: clock_room_def clock_ok_def word_less_def unsigned_minus_1_eq_mask mask_eq_exp_minus_1)

lemma clock_room_supplied: "clock_room (Suc n) r \<Longrightarrow> clock_room n (ring_supplied r c)"
  by (simp add: clock_room_def ring_supplied_def uint_word_ariths)

definition supply_step :: "ring_sys \<Rightarrow> byte list \<Rightarrow> ring_sys" where
  "supply_step r xs =
     ring_supplied (r\<lparr>r_mem := mem_write (r_mem r) (r_supply r) xs\<rparr>) (int (length xs))"

lemma mem_update_same [simp]:
  "ring_wf (r\<lparr>r_mem := m\<rparr>) = ring_wf r" "clock_ok (r\<lparr>r_mem := m\<rparr>) = clock_ok r"
  "ring_used (r\<lparr>r_mem := m\<rparr>) = ring_used r" "mark_wf (r\<lparr>r_mem := m\<rparr>) = mark_wf r"
  "ring_empty_count (r\<lparr>r_mem := m\<rparr>) = ring_empty_count r" "ring_empty (r\<lparr>r_mem := m\<rparr>) = ring_empty r"
  "ring_empty_consecutive (r\<lparr>r_mem := m\<rparr>) = ring_empty_consecutive r"
  "ring_full (r\<lparr>r_mem := m\<rparr>) = ring_full r" "clock_room n (r\<lparr>r_mem := m\<rparr>) = clock_room n r"
  by (simp_all add: clock_ok_def clock_room_def mark_wf_def ring_empty_count_def
      ring_empty_consecutive_def ring_defs)

lemma mark_wf_supplied:
  assumes "ring_wf r" "clock_ok r" "mark_wf r" "0 < c" "c \<le> ring_empty_count r"
  shows "mark_wf (ring_supplied r c)"
  using assms ring_used_supplied [OF assms(1,2,4,5)]
  by (auto simp: mark_wf_def ring_supplied_def ring_subtract_def)

lemma supply_step:
  assumes "ring_wf r" "clock_room (Suc n) r" "0 < length xs" "int (length xs) \<le> ring_empty_consecutive r"
  shows "ring_wf (supply_step r xs)" "ring_contents (supply_step r xs) = ring_contents r @ xs"
    "clock_room n (supply_step r xs)" "mark_wf r \<Longrightarrow> mark_wf (supply_step r xs)"
    "ring_empty_count (supply_step r xs) = ring_empty_count r - int (length xs)"
proof -
  note ck = clock_room_ok [OF assms(2)]
  have le: "int (length xs) \<le> ring_empty_count r"
    using assms(4) ring_empty_consecutive_le [OF assms(1)] by simp
  show wf: "ring_wf (supply_step r xs)"
    unfolding supply_step_def using assms(1) ck le by (intro ring_supplied_wf) simp_all
  show "ring_contents (supply_step r xs) = ring_contents r @ xs"
    unfolding supply_step_def using assms(1,3,4) ck by (intro ring_contents_supplied)
  show "clock_room n (supply_step r xs)"
    unfolding supply_step_def using assms(2) by (intro clock_room_supplied) simp
  show "mark_wf r \<Longrightarrow> mark_wf (supply_step r xs)"
    unfolding supply_step_def using assms(1,3) ck le by (intro mark_wf_supplied) simp_all
  have "ring_used (supply_step r xs) = ring_used r + int (length xs)"
    unfolding supply_step_def using assms(1,3) ck le by (subst ring_used_supplied) simp_all
  then show "ring_empty_count (supply_step r xs) = ring_empty_count r - int (length xs)"
    using assms(1) wf by (simp add: ring_empty_count_eq) (simp add: supply_step_def ring_supplied_def)
qed

text \<open>When the room up to the top is used up, what is left of the room is consecutive.\<close>

lemma empty_consecutive_after:
  assumes "ring_wf r" "clock_ok r" "0 < c" "c = ring_empty_consecutive r"
  shows "ring_empty_consecutive (ring_supplied r c) = ring_empty_count (ring_supplied r c)"
proof -
  have "r_consumetime r < ring_clock r + 1"
    using assms(1,2) by (simp_all add: clock_ok_def word_le_succ_greater ring_wf_def)
  with assms(1,3,4) show ?thesis
    by (auto simp: ring_supplied_def ring_empty_count_def ring_empty_consecutive_def ring_defs
        split: if_splits)
qed

lemma ring_supply_data_step:
  assumes "xs \<noteq> []" and "n = nat (min (int (length xs)) (ring_empty_consecutive r))"
    and "0 \<le> ring_empty_consecutive r"
  shows "ring_supply_data (Suc fuel) r xs (int (length xs)) =
    ring_supply_data fuel (supply_step r (take n xs)) (drop n xs) (int (length (drop n xs)))"
proof -
  have "min (int (length xs)) (ring_empty_consecutive r) = int n"
    "int (length xs) - int n = int (length (drop n xs))" "int (length (take n xs)) = int n"
    using assms by auto
  with assms(1) show ?thesis by (simp add: Let_def supply_step_def)
qed

lemma ring_supply_data_fits:
  assumes wf: "ring_wf r" and ck: "clock_room 2 r" and m: "mark_wf r"
    and fit: "int (length xs) \<le> ring_empty_count r"
  shows "\<exists>r'. ring_supply_data (Suc (Suc (Suc fuel))) r xs (int (length xs)) = Some r' \<and>
    ring_wf r' \<and> mark_wf r' \<and> ring_contents r' = ring_contents r @ xs"
proof (cases "xs = []")
  case True
  with wf m show ?thesis by simp
next
  case False
  define n where "n = nat (min (int (length xs)) (ring_empty_consecutive r))"
  have c0: "0 \<le> ring_empty_consecutive r" by (rule ring_empty_consecutive_nonneg [OF wf])
  have nz: "ring_empty_consecutive r \<noteq> 0"
    using fit False ring_empty_consecutive_zero [OF wf] ring_empty_count_eq [OF wf]
    by (auto simp: ring_used_def)
  let ?r1 = "supply_step r (take n xs)"
  have n: "0 < length (take n xs)" "int (length (take n xs)) \<le> ring_empty_consecutive r"
    using False c0 nz by (auto simp: n_def)
  have ck': "clock_room (Suc 1) r" using ck by (simp add: numeral_2_eq_2)
  note s1 = supply_step [OF wf ck' n]
  show ?thesis
  proof (cases "length xs \<le> n")
    case True
    then have "ring_supply_data (Suc (Suc (Suc fuel))) r xs (int (length xs)) = Some ?r1"
      by (simp only: ring_supply_data_step [OF False n_def c0]) simp
    with s1 m True show ?thesis by simp
  next
    case rest: False
    then have full: "int (length (take n xs)) = ring_empty_consecutive r" using c0 by (auto simp: n_def)
    have "ring_empty_consecutive ?r1 = ring_empty_count ?r1"
      unfolding supply_step_def
      using wf clock_room_ok [OF ck'] c0 nz full
      by (intro empty_consecutive_after) simp_all
    then have fit2: "int (length (drop n xs)) \<le> ring_empty_consecutive ?r1"
      using s1(5) fit rest by simp
    have ne: "drop n xs \<noteq> []" using rest by simp
    have n2: "length (drop n xs) = nat (min (int (length (drop n xs))) (ring_empty_consecutive ?r1))"
      using fit2 by simp
    note s2 = supply_step [OF s1(1), of 0 "drop n xs"]
    have "ring_supply_data (Suc (Suc (Suc fuel))) r xs (int (length xs)) =
        Some (supply_step ?r1 (drop n xs))"
      using ring_supply_data_step [OF False n_def c0]
        ring_supply_data_step [OF ne n2 ring_empty_consecutive_nonneg [OF s1(1)]]
      by (simp del: ring_supply_data.simps) simp
    moreover have "clock_room (Suc 0) ?r1" using s1(3) by simp
    ultimately show ?thesis
      using s2 s1 m fit2 ne by simp
  qed
qed

text \<open>A full ring stays full under the loop, for as long as the clock does not wrap.\<close>

lemma ring_supply_data_full:
  assumes "ring_wf r" "ring_full r" "0 < count" "clock_room fuel r"
  shows "ring_supply_data fuel r buffer count = None"
  using assms
proof (induction fuel arbitrary: r buffer)
  case 0
  then show ?case by simp
next
  case (Suc fuel)
  have e: "ring_empty_consecutive r = 0" using Suc.prems by (simp add: ring_empty_consecutive_zero)
  let ?r = "ring_supplied r 0"
  have ck: "clock_ok r" by (rule clock_room_ok [OF Suc.prems(4)])
  have "ring_wf ?r"
    using Suc.prems ck by (intro ring_supplied_wf) (simp_all add: ring_empty_count_eq ring_used_def)
  moreover have "ring_full ?r"
    using Suc.prems(1,2) ck
    by (auto simp: ring_full_def ring_supplied_def ring_wf_def ring_increment_def clock_ok_def
        word_le_succ_greater)
  moreover have "clock_room fuel ?r" by (rule clock_room_supplied [OF Suc.prems(4)])
  ultimately have "ring_supply_data fuel ?r buffer count = None" using Suc.prems(3) by (intro Suc.IH)
  moreover have "r\<lparr>r_mem := r_mem r\<rparr> = r" by simp
  ultimately show ?case using Suc.prems(3) e by (simp add: Let_def min_def)
qed

text \<open>More fuel does not change a result.\<close>

lemma ring_supply_data_mono:
  "ring_supply_data n r xs c = Some r' \<Longrightarrow> ring_supply_data (n + m) r xs c = Some r'"
  by (induction n r xs c rule: ring_supply_data.induct) (auto simp: Let_def split: if_splits)

section \<open>The ring as a queue\<close>

definition ring_put :: "byte list \<Rightarrow> ring_sys \<Rightarrow> ring_sys" where
  "ring_put xs r =
     (case ring_supply_data 3 r xs (int (length xs)) of None \<Rightarrow> r | Some r' \<Rightarrow> r')"

definition ring_take :: "nat \<Rightarrow> ring_sys \<Rightarrow> byte list \<times> ring_sys" where
  "ring_take n r = (mem_read (r_mem r) (r_consume r) n, ring_consumed r (int n))"

definition ring_inv :: "ring_sys \<Rightarrow> bool" where
  "ring_inv r \<longleftrightarrow> ring_wf r \<and> mark_wf r"

definition ring_can_put :: "byte list \<Rightarrow> ring_sys \<Rightarrow> bool" where
  "ring_can_put xs r \<longleftrightarrow> clock_room 2 r \<and> int (length xs) \<le> ring_empty_count r"

definition ring_can_take :: "nat \<Rightarrow> ring_sys \<Rightarrow> bool" where
  "ring_can_take n r \<longleftrightarrow> clock_room 1 r \<and> int n \<le> ring_full_consecutive r"

lemma ring_put_spec:
  assumes "ring_inv r" "ring_can_put xs r"
  shows "ring_inv (ring_put xs r) \<and> ring_contents (ring_put xs r) = ring_contents r @ xs"
  using ring_supply_data_fits [of r xs 0] assms
  by (auto simp: ring_inv_def ring_can_put_def ring_put_def numeral_3_eq_3)

lemma ring_take_spec:
  assumes "ring_inv r" "ring_can_take n r"
  shows "ring_inv (snd (ring_take n r)) \<and> fst (ring_take n r) = take n (ring_contents r) \<and>
    ring_contents (snd (ring_take n r)) = drop n (ring_contents r)"
proof -
  have wf: "ring_wf r" "mark_wf r" and ck: "clock_ok r"
    using assms by (auto simp: ring_inv_def ring_can_take_def intro: clock_room_ok)
  have "int n \<le> ring_used r" "r_consume r + int n \<le> r_top r"
    using ring_full_consecutive_le [OF wf] assms(2) by (auto simp: ring_can_take_def)
  then show ?thesis
    using mem_read_contents [OF wf(1), of "int n"] ring_contents_consumed [OF wf(1) ck, of "int n"]
      ring_consumed_wf [OF wf(1) ck, of "int n"] mark_wf_consumed [OF wf(1) ck wf(2), of "int n"]
    by (simp add: ring_take_def ring_inv_def)
qed

interpretation ring_fifo: byte_fifo ring_inv ring_contents ring_can_put ring_put ring_can_take ring_take
  by unfold_locales (simp_all add: ring_put_spec ring_take_spec)

section \<open>Encrypting what has been supplied\<close>

text \<open>
  The number of bytes at the front of the ring that are already encrypted, as
  \<open>ring_encrypt\<close> reads the clear-text pointer: none if it is null, everything if it is the
  supply pointer of a ring that holds something, and else the distance to it.
\<close>

definition enc_prefix :: "ring_sys \<Rightarrow> int" where
  "enc_prefix r =
     (if r_clearto r = 0 \<or> ring_empty r then 0
      else if r_clearto r = r_supply r then ring_used r
      else ring_subtract r (r_clearto r) (r_consume r))"

definition clear_wf :: "ring_sys \<Rightarrow> bool" where
  "clear_wf r \<longleftrightarrow> r_clearto r = 0 \<or>
     (r_bottom r \<le> r_clearto r \<and> r_clearto r < r_top r \<and>
      ring_subtract r (r_clearto r) (r_consume r) \<le> ring_used r)"

lemma ring_contents_update_span:
  assumes wf: "ring_wf r" and j: "0 \<le> j" "j + int (length ys) \<le> ring_used r"
    and p: "p = ring_increment r (r_consume r) j" "p + int (length ys) \<le> r_top r"
  shows "ring_contents (r\<lparr>r_mem := mem_write (r_mem r) p ys\<rparr>) =
    take (nat j) (ring_contents r) @ ys @ drop (nat j + length ys) (ring_contents r)"
    (is "?lhs = ?rhs")
proof (rule nth_equalityI)
  have [simp]: "length (ring_contents r) = nat (ring_used r)" by (simp add: ring_contents_def)
  show "length ?lhs = length ?rhs"
    using j by (simp add: ring_contents_def)
  fix i assume "i < length ?lhs"
  then have i: "i < nat (ring_used r)" by (simp add: ring_contents_def)
  let ?a = "ring_increment r (r_consume r) (int i)"
  have lhs: "?lhs ! i = mem_write (r_mem r) p ys ?a"
    using i by (simp add: ring_contents_def ring_increment_def)
  have old: "ring_contents r ! i = r_mem r ?a" using i by (simp add: ring_contents_def)
  have le: "ring_used r \<le> r_size r" using ring_used_bounds [OF wf] by simp
  consider "i < nat j" | "nat j \<le> i" "i < nat j + length ys" | "nat j + length ys \<le> i" by linarith
  then show "?lhs ! i = ?rhs ! i"
  proof cases
    case 1
    then have "?a < p \<or> p + int (length ys) \<le> ?a"
      using i j p le wf by (auto simp: ring_increment_def ring_wf_def split: if_splits)
    with 1 i j lhs old show ?thesis by (simp add: mem_write_other nth_append)
  next
    case 2
    then have "?a = p + int (i - nat j)"
      using i j p le wf by (auto simp: ring_increment_def ring_wf_def split: if_splits)
    moreover have lt: "i - nat j < length ys" using 2 by linarith
    ultimately have "?lhs ! i = ys ! (i - nat j)" using lhs mem_write_at by simp
    with 2 i j lt show ?thesis by (simp add: nth_append)
  next
    case 3
    then have "?a < p \<or> p + int (length ys) \<le> ?a"
      using i j p le wf by (auto simp: ring_increment_def ring_wf_def split: if_splits)
    moreover have "\<not> i - nat j < length ys" "nat j + length ys + (i - nat j - length ys) = i"
      using 3 by linarith+
    ultimately show ?thesis using 3 i j lhs old by (simp add: mem_write_other nth_append)
  qed
qed

lemma mem_read_span:
  assumes wf: "ring_wf r" and j: "0 \<le> j" "0 \<le> n" "j + n \<le> ring_used r"
    and p: "p = ring_increment r (r_consume r) j" "p + n \<le> r_top r"
  shows "mem_read (r_mem r) p (nat n) = take (nat n) (drop (nat j) (ring_contents r))"
proof (rule nth_equalityI)
  have len [simp]: "length (ring_contents r) = nat (ring_used r)" by (simp add: ring_contents_def)
  show "length (mem_read (r_mem r) p (nat n)) = length (take (nat n) (drop (nat j) (ring_contents r)))"
    using j by simp
  fix i assume "i < length (mem_read (r_mem r) p (nat n))"
  then have i: "i < nat n" by simp
  then have i': "nat j + i < nat (ring_used r)" using j by linarith
  have "int (nat j + i) = j + int i" using j by simp
  moreover have "ring_increment r (r_consume r) (j + int i) = p + int i"
    using i j p wf ring_used_bounds [OF wf]
    by (auto simp: ring_increment_def ring_wf_def split: if_splits)
  ultimately have "ring_contents r ! (nat j + i) = r_mem r (p + int i)"
    using i' by (simp add: ring_contents_def)
  with i i' show "mem_read (r_mem r) p (nat n) ! i = take (nat n) (drop (nat j) (ring_contents r)) ! i"
    by (simp add: mem_read_def)
qed

lemma ring_fields_mem [simp]:
  "r_consume (r\<lparr>r_mem := m\<rparr>) = r_consume r" "ring_increment (r\<lparr>r_mem := m\<rparr>) a c = ring_increment r a c"
  by (simp_all add: ring_increment_def)

lemma clearto_update_same [simp]:
  "ring_wf (r\<lparr>r_clearto := c\<rparr>) = ring_wf r" "ring_contents (r\<lparr>r_clearto := c\<rparr>) = ring_contents r"
  "ring_used (r\<lparr>r_clearto := c\<rparr>) = ring_used r" "ring_empty (r\<lparr>r_clearto := c\<rparr>) = ring_empty r"
  by (simp_all add: ring_contents_def ring_defs)

text \<open>Where the encryption starts and how the span to the supply pointer lies in the buffer.\<close>

lemma enc_start:
  assumes "ring_wf r" "clear_wf r" "\<not> ring_empty r" "r_clearto r \<noteq> r_supply r"
    and "c = (if r_clearto r = 0 then r_consume r else r_clearto r)"
  shows "c = ring_increment r (r_consume r) (enc_prefix r)"
    and "0 \<le> enc_prefix r" and "enc_prefix r \<le> ring_used r"
    and "\<not> r_supply r \<le> c \<Longrightarrow> enc_prefix r + (r_supply r - c) = ring_used r"
    and "r_supply r \<le> c \<Longrightarrow> enc_prefix r + (r_top r - c) + (r_supply r - r_bottom r) = ring_used r"
    and "r_supply r \<le> c \<Longrightarrow> r_supply r = r_bottom r \<or>
           ring_increment r (r_consume r) (enc_prefix r + (r_top r - c)) = r_bottom r"
    and "c < r_top r"
  using assms
  by (auto simp: clear_wf_def enc_prefix_def ring_defs split: if_splits)

context stream_encryptor
begin

lemma encrypt_span_contents:
  assumes wf: "ring_wf r" and j: "0 \<le> j" "0 \<le> n" "j + n \<le> ring_used r"
    and p: "n = 0 \<or> p = ring_increment r (r_consume r) j" "p + n \<le> r_top r"
  shows "\<exists>m. encrypt_span enc (k, r) p n =
      (snd (enc k (take (nat n) (drop (nat j) (ring_contents r)))), r\<lparr>r_mem := m\<rparr>) \<and>
    ring_contents (r\<lparr>r_mem := m\<rparr>) =
      take (nat j) (ring_contents r) @
      fst (enc k (take (nat n) (drop (nat j) (ring_contents r)))) @
      drop (nat j + nat n) (ring_contents r)"
proof (cases "n = 0")
  case True
  then show ?thesis
    by (intro exI [of _ "r_mem r"]) (simp add: encrypt_span_def mem_read_def)
next
  case False
  with p have p1: "p = ring_increment r (r_consume r) j" by simp
  let ?xs = "take (nat n) (drop (nat j) (ring_contents r))"
  have len: "length (fst (enc k ?xs)) = nat n"
    using j by (simp add: ring_contents_def)
  have rd: "mem_read (r_mem r) p (nat n) = ?xs"
    by (rule mem_read_span [OF wf j p1 p(2)])
  show ?thesis
    using ring_contents_update_span [OF wf j(1) _ p1, of "fst (enc k ?xs)"] len j p(2)
    by (intro exI [of _ "mem_write (r_mem r) p (fst (enc k ?xs))"])
      (simp add: encrypt_span_def rd case_prod_beta)
qed

lemma ring_encrypt_contents:
  assumes wf: "ring_wf r" and cw: "clear_wf r" and ne: "\<not> ring_empty r"
    and c: "r_clearto r \<noteq> r_supply r"
  shows "\<exists>m. ring_encrypt enc (k, r) =
      (snd (enc k (drop (nat (enc_prefix r)) (ring_contents r))),
       r\<lparr>r_mem := m, r_clearto := r_supply r\<rparr>) \<and>
    ring_contents (r\<lparr>r_mem := m\<rparr>) =
      take (nat (enc_prefix r)) (ring_contents r) @
      fst (enc k (drop (nat (enc_prefix r)) (ring_contents r)))"
proof -
  define c' where "c' = (if r_clearto r = 0 then r_consume r else r_clearto r)"
  define e where "e = enc_prefix r"
  note S = enc_start [OF wf cw ne c c'_def, folded e_def]
  let ?C = "ring_contents r" and ?s = "r_supply r"
  have len: "length ?C = nat (ring_used r)" by (simp add: ring_contents_def)
  show ?thesis
  proof (cases "?s \<le> c'")
    case False
    have "\<exists>m. encrypt_span enc (k, r) c' (?s - c') =
        (snd (enc k (take (nat (?s - c')) (drop (nat e) ?C))), r\<lparr>r_mem := m\<rparr>) \<and>
      ring_contents (r\<lparr>r_mem := m\<rparr>) =
        take (nat e) ?C @ fst (enc k (take (nat (?s - c')) (drop (nat e) ?C))) @
        drop (nat e + nat (?s - c')) ?C"
      using S(1,2,3,4) False wf by (intro encrypt_span_contents) (auto simp: ring_wf_def)
    moreover have "take (nat (?s - c')) (drop (nat e) ?C) = drop (nat e) ?C"
      "drop (nat e + nat (?s - c')) ?C = []"
      using S(2,4) False len by (auto simp: nat_add_distrib)
    ultimately show ?thesis
      using False ne c by (auto simp: ring_encrypt_def c'_def [symmetric] e_def [symmetric] Let_def)
  next
    case True
    define n1 where "n1 = r_top r - c'"
    define n2 where "n2 = ?s - r_bottom r"
    have nn: "0 < n1" "0 \<le> n2" "e + n1 + n2 = ring_used r"
      using S(5,7) True wf by (auto simp: n1_def n2_def ring_wf_def)
    let ?x1 = "take (nat n1) (drop (nat e) ?C)"
    have "\<exists>m. encrypt_span enc (k, r) c' n1 = (snd (enc k ?x1), r\<lparr>r_mem := m\<rparr>) \<and>
      ring_contents (r\<lparr>r_mem := m\<rparr>) =
        take (nat e) ?C @ fst (enc k ?x1) @ drop (nat e + nat n1) ?C"
      using S(1,2) nn wf by (intro encrypt_span_contents) (auto simp: n1_def)
    then obtain m1 where m1: "encrypt_span enc (k, r) c' n1 = (snd (enc k ?x1), r\<lparr>r_mem := m1\<rparr>)"
      "ring_contents (r\<lparr>r_mem := m1\<rparr>) = take (nat e) ?C @ fst (enc k ?x1) @ drop (nat e + nat n1) ?C"
      by blast
    let ?r1 = "r\<lparr>r_mem := m1\<rparr>" and ?k1 = "snd (enc k ?x1)"
    let ?x2 = "drop (nat e + nat n1) ?C"
    have x1: "length ?x1 = nat n1" using nn S(2) len by simp
    have d2: "drop (nat (e + n1)) (ring_contents ?r1) = ?x2"
      "take (nat (e + n1)) (ring_contents ?r1) = take (nat e) ?C @ fst (enc k ?x1)"
      "length (ring_contents ?r1) = nat (ring_used r)"
      using nn S(2) len x1 m1(2) by (simp_all add: nat_add_distrib)
    have "\<exists>m. encrypt_span enc (?k1, ?r1) (r_bottom r) n2 =
        (snd (enc ?k1 (take (nat n2) (drop (nat (e + n1)) (ring_contents ?r1)))), ?r1\<lparr>r_mem := m\<rparr>) \<and>
      ring_contents (?r1\<lparr>r_mem := m\<rparr>) =
        take (nat (e + n1)) (ring_contents ?r1) @
        fst (enc ?k1 (take (nat n2) (drop (nat (e + n1)) (ring_contents ?r1)))) @
        drop (nat (e + n1) + nat n2) (ring_contents ?r1)"
      using S(2,6) True nn wf by (intro encrypt_span_contents) (auto simp: n1_def n2_def ring_wf_def)
    moreover have "take (nat n2) ?x2 = ?x2" using nn S(2) len by simp
    moreover have "drop (nat (e + n1) + nat n2) (ring_contents ?r1) = []"
      using nn S(2) d2(3) by simp
    ultimately obtain m2 where m2:
      "encrypt_span enc (?k1, ?r1) (r_bottom r) n2 = (snd (enc ?k1 ?x2), r\<lparr>r_mem := m2\<rparr>)"
      "ring_contents (r\<lparr>r_mem := m2\<rparr>) = take (nat e) ?C @ fst (enc k ?x1) @ fst (enc ?k1 ?x2)"
      using d2 by auto
    have split: "drop (nat e) ?C = ?x1 @ ?x2" by (metis append_take_drop_id drop_drop add.commute)
    have E: "fst (enc k (drop (nat e) ?C)) = fst (enc k ?x1) @ fst (enc ?k1 ?x2)"
      "snd (enc k (drop (nat e) ?C)) = snd (enc ?k1 ?x2)"
      using arg_cong [OF split, of "enc k"] enc_append [of k ?x1 ?x2] by simp_all
    have "ring_encrypt enc (k, r) = (snd (enc ?k1 ?x2), r\<lparr>r_mem := m2, r_clearto := ?s\<rparr>)"
      using True ne c m1(1) m2(1)
      by (simp add: ring_encrypt_def c'_def [symmetric] n1_def n2_def Let_def)
    with E m2(2) show ?thesis by (auto simp: e_def)
  qed
qed

end

section \<open>The encrypted prefix through the other operations\<close>

lemma enc_prefix_bounds:
  "ring_wf r \<Longrightarrow> clear_wf r \<Longrightarrow> 0 \<le> enc_prefix r \<and> enc_prefix r \<le> ring_used r"
  by (auto simp: enc_prefix_def clear_wf_def ring_defs)

lemma enc_prefix_supplied:
  assumes "ring_wf r" "clock_ok r" "clear_wf r" "0 < c" "c \<le> ring_empty_count r"
    and "r_clearto r = 0 \<or> r_supply (ring_supplied r c) \<noteq> r_clearto r"
  shows "clear_wf (ring_supplied r c)" "enc_prefix (ring_supplied r c) = enc_prefix r"
proof -
  have "r_consumetime r < ring_clock r + 1"
    using assms(1,2) by (simp_all add: clock_ok_def word_le_succ_greater ring_wf_def)
  with assms show "clear_wf (ring_supplied r c)" "enc_prefix (ring_supplied r c) = enc_prefix r"
    by (auto simp: ring_supplied_def clear_wf_def enc_prefix_def ring_empty_count_def ring_defs
        split: if_splits)
qed

lemma ring_consumed_clearto:
  assumes "c \<noteq> 0" "r_consume r + c \<le> r_top r"
  shows "r_clearto (ring_consumed r c) =
    (if r_consume r < r_clearto r \<and> r_clearto r \<le> r_consume r + c then 0 else r_clearto r)"
  using assms by (auto simp: ring_consumed_def Let_def)

lemma enc_prefix_consumed:
  assumes wf: "ring_wf r" and ck: "clock_ok r" and cw: "clear_wf r"
    and c: "0 \<le> c" "c \<le> enc_prefix r" "r_consume r + c \<le> r_top r"
  shows "clear_wf (ring_consumed r c) \<and> enc_prefix (ring_consumed r c) = enc_prefix r - c"
proof (cases "c = 0")
  case True
  with cw show ?thesis by (simp add: ring_consumed_def)
next
  case False
  have st: "r_supplytime r \<le> ring_clock r" using wf by (simp add: ring_wf_def)
  have "r_supplytime r < ring_clock r + 1"
    using wf ck by (simp add: clock_ok_def word_le_succ_greater ring_wf_def)
  moreover have "c \<le> ring_used r" using c(2) enc_prefix_bounds [OF wf cw] by simp
  note U = ring_used_consumed [OF wf ck c(1) this]
  note P = ring_consumed_pointers [OF False st ck]
  note Q = ring_consumed_clearto [OF False c(3)]
  have E: "ring_empty (ring_consumed r c) \<longleftrightarrow> ring_increment r (r_consume r) c = r_supply r"
    using P False \<open>r_supplytime r < ring_clock r + 1\<close> wf
    by (auto simp: ring_empty_def frame_simps ring_consumed_clock ring_increment_def ring_wf_def
        split: if_splits)
  have ne: "\<not> ring_empty r" using c False by (auto simp: enc_prefix_def split: if_splits)
  have nz: "r_clearto r \<noteq> 0" using c False by (auto simp: enc_prefix_def split: if_splits)
  have ep: "enc_prefix r = (if r_clearto r = r_supply r then ring_used r
      else ring_subtract r (r_clearto r) (r_consume r))"
    using ne nz by (simp add: enc_prefix_def)
  have cwr: "r_bottom r \<le> r_clearto r" "r_clearto r < r_top r"
    "ring_subtract r (r_clearto r) (r_consume r) \<le> ring_used r"
    using cw nz by (auto simp: clear_wf_def)
  note geo = wf [unfolded ring_wf_def]
  show ?thesis
  proof (cases "ring_increment r (r_consume r) c = r_supply r")
    case True
    then have used: "ring_used r = c"
      using U E ring_used_zero_iff [OF ring_consumed_wf [OF wf ck c(1) \<open>c \<le> ring_used r\<close>]] by simp
    then have e: "enc_prefix r = c" using c enc_prefix_bounds [OF wf cw] by simp
    have "r_clearto (ring_consumed r c) = 0 \<or> r_clearto r = r_bottom r"
      using Q True e ep used cwr geo c False
      by (auto simp: ring_increment_def ring_subtract_def split: if_splits)
    then show ?thesis
      using True E P Q U used e geo
      by (auto simp: clear_wf_def enc_prefix_def frame_simps ring_subtract_def)
  next
    case notempty: False
    have U': "ring_used (ring_consumed r c) = ring_used r - c" by (rule U)
    have P': "r_consume (ring_consumed r c) = ring_increment r (r_consume r) c"
      "r_supply (ring_consumed r c) = r_supply r"
      using P notempty by simp_all
    have sub: "ring_subtract (ring_consumed r c) a b = ring_subtract r a b" for a b
      by (simp add: ring_subtract_def frame_simps)
    have used: "ring_used r = (if r_supply r = r_consume r then r_size r
        else ring_subtract r (r_supply r) (r_consume r))"
      using ne by (auto simp: ring_used_def ring_full_def ring_empty_def)
    show ?thesis
    proof (cases "r_consume r < r_clearto r \<and> r_clearto r \<le> r_consume r + c")
      case True
      then have "r_clearto r \<noteq> r_supply r"
        using notempty geo used c cwr \<open>c \<le> ring_used r\<close> by (auto simp: ring_increment_def ring_subtract_def split: if_splits)
      then have "enc_prefix r = c"
        using True ep c geo by (auto simp: ring_subtract_def)
      with True Q show ?thesis by (simp add: clear_wf_def enc_prefix_def)
    next
      case stays: False
      have dist: "ring_subtract r (r_clearto r) (ring_increment r (r_consume r) c) = enc_prefix r - c"
        using stays notempty ep used c cwr geo False
        by (auto simp: ring_increment_def ring_subtract_def split: if_splits)
      have Q': "r_clearto (ring_consumed r c) = r_clearto r"
        using stays Q by argo
      have "enc_prefix (ring_consumed r c) =
          (if r_clearto r = r_supply r then ring_used r - c
           else ring_subtract r (r_clearto r) (ring_increment r (r_consume r) c))"
        using nz E notempty Q' P' U' sub unfolding enc_prefix_def [of "ring_consumed r c"] by simp
      then have "enc_prefix (ring_consumed r c) = enc_prefix r - c"
        using dist ep by argo
      moreover have "clear_wf (ring_consumed r c)"
        unfolding clear_wf_def Q' P' U' sub frame_simps
        using cwr dist enc_prefix_bounds [OF wf cw] by linarith
      ultimately show ?thesis by simp
    qed
  qed
qed

section \<open>Properties of the ring\<close>

text \<open>A small ring for the witnesses: four bytes at address 100.\<close>

definition demo_ring :: ring_sys where
  "demo_ring = ring_init
     \<lparr>r_consume = 0, r_supply = 0, r_bottom = 0, r_top = 0, r_mark = 0, r_clearto = 0,
      r_encryyptedto = 0, r_size = 0, r_consumetime = 0, r_supplytime = 0,
      ring_clock = 0, r_mem = (\<lambda>_. 0)\<rparr> 100 4"

lemma demo_ring_inv: "ring_inv demo_ring" "clock_room n demo_ring = (n < 2 ^ 64)"
  by (simp_all add: demo_ring_def ring_inv_def ring_wf_init mark_wf_def clock_room_def)
    (simp_all add: ring_init_def)

lemmas ring_eval = ring_put_def ring_take_def ring_can_put_def ring_can_take_def ring_init_def
  ring_supplied_def ring_consumed_def ring_empty_count_def ring_empty_consecutive_def
  ring_full_consecutive_def ring_empty_def ring_full_def ring_arith mem_read_def mem_write_def
  clock_room_def numeral_3_eq_3 numeral_2_eq_2

text \<open>
  C8. The ring is a first-in first-out queue: whatever supplies and consumptions the
  client makes of a freshly initialised ring, within the room and the bytes the ring
  reports, the bytes consumed followed by those still held are the bytes supplied, in order.
\<close>

theorem ring_fifo_order:
  assumes "0 < buffer" "0 < count"
    and "fifo_run ring_can_put ring_put ring_can_take ring_take ops (ring_init r buffer count)
           = Some (ys, r')"
  shows "fifo_input ops = ys @ ring_contents r'"
proof -
  have "ring_inv (ring_init r buffer count)"
    using assms by (simp add: ring_inv_def ring_wf_init mark_wf_def) (simp add: ring_init_def)
  from ring_fifo.run_fifo [OF this assms(3)] show ?thesis by (simp add: ring_contents_init)
qed

lemma ring_fifo_demo: "map_option fst (fifo_run ring_can_put ring_put ring_can_take ring_take
      [Put [1, 2, 3], Get 2, Put [4, 5], Get 2] demo_ring) = Some [1, 2, 3, 4]"
  by code_simp

theorem ring_fifo_order_witness:
  "\<exists>r'. fifo_input [Put [1, 2, 3], Get 2, Put [4, 5], Get 2] = [1, 2, 3, 4] @ ring_contents r'"
proof -
  obtain r' where "fifo_run ring_can_put ring_put ring_can_take ring_take
      [Put [1, 2, 3], Get 2, Put [4, 5], Get 2] demo_ring = Some ([1, 2, 3, 4], r')"
    using ring_fifo_demo by auto
  from ring_fifo_order [OF _ _ this [unfolded demo_ring_def]] show ?thesis by auto
qed

text \<open>
  \<open>ring_supply_data\<close> returns whenever the data fits into the room the ring reports: at
  most two copies (to the top, and from the bottom) and the final test of the loop, so
  three units of fuel are enough; the data is appended to the contents.
\<close>

theorem ring_supply_data_appends:
  assumes "ring_inv r" "clock_room 2 r" "int (length xs) \<le> ring_empty_count r"
  shows "\<exists>r'. (\<forall>fuel. ring_supply_data (3 + fuel) r xs (int (length xs)) = Some r') \<and>
    ring_inv r' \<and> ring_contents r' = ring_contents r @ xs"
proof -
  have "ring_supply_data (3 + fuel) r xs (int (length xs)) = Some (ring_put xs r)" for fuel
  proof -
    obtain r1 where r1: "ring_supply_data 3 r xs (int (length xs)) = Some r1"
      using ring_supply_data_fits [of r xs 0] assms by (auto simp: ring_inv_def numeral_3_eq_3)
    then have "ring_supply_data (3 + fuel) r xs (int (length xs)) = Some r1"
      by (rule ring_supply_data_mono)
    with r1 show ?thesis by (simp add: ring_put_def)
  qed
  moreover have "ring_can_put xs r" using assms(2,3) by (simp add: ring_can_put_def)
  ultimately show ?thesis using ring_put_spec [OF assms(1)] by blast
qed

theorem ring_supply_data_appends_witness:
  "\<exists>r'. (\<forall>fuel. ring_supply_data (3 + fuel) demo_ring [7, 8, 9] 3 = Some r') \<and>
    ring_inv r' \<and> ring_contents r' = [7, 8, 9]"
proof -
  have "ring_contents demo_ring = []" "ring_empty_count demo_ring = 4" by code_simp+
  with ring_supply_data_appends [of demo_ring "[7, 8, 9]"] show ?thesis
    by (simp add: demo_ring_inv)
qed

text \<open>
  C36. Data that does not fit is not refused: on a full ring the loop of
  \<open>ring_supply_data\<close> copies nothing and starts again, for as many iterations as the clock
  has ticks left before it wraps. Callers have to check \<open>ring_empty_count\<close> first.
\<close>

theorem ring_supply_data_stuck:
  assumes "ring_wf r" "ring_full r" "0 < count" "clock_room fuel r"
  shows "ring_supply_data fuel r buffer count = None"
  by (rule ring_supply_data_full [OF assms])

theorem ring_supply_data_stuck_witness:
  "ring_supply_data 1000000000000 (ring_put [1, 2, 3, 4] demo_ring) [5] 1 = None"
proof -
  have "ring_inv (ring_put [1, 2, 3, 4] demo_ring)"
    using ring_put_spec [OF demo_ring_inv(1), of "[1, 2, 3, 4]"]
    by (simp add: ring_can_put_def demo_ring_inv) (simp add: demo_ring_def ring_eval)
  moreover have "ring_full (ring_put [1, 2, 3, 4] demo_ring)"
    "ring_clock (ring_put [1, 2, 3, 4] demo_ring) = 1" by code_simp+
  ultimately show ?thesis
    by (intro ring_supply_data_stuck) (simp_all add: ring_inv_def clock_room_def)
qed

text \<open>
  The mark is lost at the wrap-around. When the last byte supplied is the one at the
  top of the buffer, \<open>ring_mark\<close> computes an address below the buffer
  (\<open>ring_decrement\<close> subtracts the size a second time, where it should add it), and the next
  consumption drops the mark without any byte having been sent as urgent.
\<close>

theorem ring_mark_lost_at_bottom:
  assumes "ring_wf r" "r_supply r = r_bottom r" "0 < c"
  shows "r_mark (ring_mark r) < r_bottom r \<and> r_mark (ring_consumed (ring_mark r) c) = 0"
  using assms
  by (auto simp: ring_mark_def ring_decrement_def ring_wf_def ring_consumed_def Let_def
      ring_subtract_def)

theorem ring_mark_lost_at_bottom_witness:
  "r_mark (ring_mark (ring_put [1, 2, 3, 4] demo_ring)) = 95 \<and>
   r_mark (ring_consumed (ring_mark (ring_put [1, 2, 3, 4] demo_ring)) 1) = 0"
proof -
  let ?r = "ring_put [1, 2, 3, 4] demo_ring"
  have "ring_inv ?r"
    using ring_put_spec [OF demo_ring_inv(1), of "[1, 2, 3, 4]"]
    by (simp add: ring_can_put_def demo_ring_inv) (simp add: demo_ring_def ring_eval)
  moreover have "r_supply ?r = r_bottom ?r" "r_mark (ring_mark ?r) = 95" by code_simp+
  ultimately show ?thesis
    using ring_mark_lost_at_bottom [of ?r 1] by (simp add: ring_inv_def)
qed

text \<open>
  C39. A refill the encryption misses. After a ring has been filled exactly, encrypted and
  emptied, the clear-text pointer still points at the bottom; when it is filled exactly
  again the supply pointer meets it, \<open>ring_encrypt\<close> takes the ring for encrypted, and the
  new bytes stay as they were supplied, whatever the encryptor.
\<close>

theorem ring_refill_not_encrypted:
  assumes len: "length xs = n" "length ys = n" "0 < n" and b: "0 < buffer" and room: "clock_room 3 r"
    and r1: "r1 = supply_step (ring_init r buffer (int n)) xs"
    and r2: "(k2, r2) = ring_encrypt enc (k, r1)"
    and r4: "r4 = supply_step (ring_consumed r2 (int n)) ys"
  shows "ring_encrypt enc (k', r4) = (k', r4) \<and> ring_contents r4 = ys"
proof -
  let ?r0 = "ring_init r buffer (int n)"
  have cl: "uint (ring_clock r) + 3 < 2 ^ 64" using room by (simp add: clock_room_def)
  have wf0: "ring_wf ?r0" using len b by (simp add: ring_wf_init)
  have "ring_wf r1"
    unfolding r1
    by (rule supply_step(1) [OF wf0, of 2])
      (use cl len b in \<open>simp_all add: clock_room_def ring_init_def ring_empty_consecutive_def
        ring_empty_def ring_subtract_def\<close>)
  have lt: "ring_clock r < - 1" "ring_clock r + 1 < - 1"
    using cl by (simp_all add: word_less_def uint_word_ariths unsigned_minus_1_eq_mask mask_eq_exp_minus_1)
  have f1: "r_consume r1 = buffer" "r_supply r1 = buffer" "r_bottom r1 = buffer"
    "r_top r1 = buffer + int n" "r_size r1 = int n" "r_clearto r1 = 0" "ring_clock r1 = ring_clock r + 1"
    "r_supplytime r1 = ring_clock r + 1" "r_consumetime r1 = 0" "r_mark r1 = 0"
    using len by (simp_all add: r1 supply_step_def ring_supplied_def ring_init_def ring_increment_def)
  have "0 < ring_clock r + 1" using word_le_succ_greater [OF lt(1), of 0] by simp
  note pos = this
  then have ne: "\<not> ring_empty r1" using f1 by (simp add: ring_empty_def)
  obtain m where m: "r2 = r1\<lparr>r_mem := m, r_clearto := buffer\<rparr>"
    using r2 ne f1 b
    by (auto simp: ring_encrypt_def encrypt_span_def Let_def split: prod.splits)
  let ?r3 = "ring_consumed r2 (int n)"
  have full: "ring_used r2 = int n" "ring_wf r2"
    using \<open>ring_wf r1\<close> pos f1 by (auto simp: m ring_used_def ring_full_def)
  have ck2: "clock_ok r2" using lt f1 by (simp add: clock_ok_def m)
  note P = ring_consumed_pointers [of "int n" r2]
  have f3: "r_consume ?r3 = buffer" "r_supply ?r3 = buffer" "r_clearto ?r3 = buffer"
    "r_bottom ?r3 = buffer" "r_size ?r3 = int n" "r_top ?r3 = buffer + int n"
    using P ck2 len f1 ring_consumed_clearto [of "int n" r2]
    by (simp_all add: m ring_increment_def frame_simps)
  have wf3: "ring_wf ?r3" using full ck2 by (intro ring_consumed_wf) simp_all
  have used3: "ring_used ?r3 = 0" using full ck2 by (subst ring_used_consumed) simp_all
  have room3: "clock_room (Suc 0) ?r3"
    using cl f1 len by (simp add: clock_room_def ring_consumed_clock m uint_word_ariths)
  have e3: "ring_empty_consecutive ?r3 = int n"
    using used3 ring_used_zero_iff [OF wf3] f3 by (simp add: ring_empty_consecutive_def ring_subtract_def)
  note S = supply_step [OF wf3 room3, of ys, folded r4]
  have "ring_contents ?r3 = []" using used3 by (simp add: ring_contents_def)
  then have c4: "ring_contents r4 = ys" using S len e3 by simp
  have "r_clearto r4 = r_supply r4"
    using f3 len by (simp add: r4 supply_step_def ring_supplied_def ring_increment_def)
  then have "ring_encrypt enc (k', r4) = (k', r4)" by (simp add: ring_encrypt_def)
  with c4 show ?thesis by simp
qed

text \<open>The witness encrypts by complementing every byte; the second load stays in clear.\<close>

theorem ring_refill_not_encrypted_witness:
  "let enc = (\<lambda>(k::nat) xs. (map NOT xs, k));
       r1 = supply_step demo_ring [1, 2, 3, 4];
       r2 = snd (ring_encrypt enc (0, r1));
       r4 = supply_step (ring_consumed r2 4) [5, 6, 7, 8]
   in ring_contents r2 = [254, 253, 252, 251] \<and>
      ring_encrypt enc (0, r4) = (0, r4) \<and> ring_contents r4 = [5, 6, 7, 8]"
proof -
  let ?enc = "\<lambda>(k::nat) xs. (map NOT xs :: byte list, k)"
  let ?r1 = "supply_step demo_ring [1, 2, 3, 4]"
  let ?r2 = "snd (ring_encrypt ?enc (0, ?r1))"
  have r2: "(fst (ring_encrypt ?enc (0, ?r1)), ?r2) = ring_encrypt ?enc (0, ?r1)" by simp
  have "ring_contents ?r2 = [254, 253, 252, 251]" by code_simp
  with ring_refill_not_encrypted [where n = 4 and buffer = 100 and xs = "[1, 2, 3, 4]" and
      ys = "[5, 6, 7, 8]" and k' = 0, OF _ _ _ _ _ _ r2 refl]
  show ?thesis
    by (simp add: Let_def clock_room_def demo_ring_def)
qed

end
