(* ===== verification/Network.thy ===== *)
theory Network
  imports Ring
begin

text \<open>
  The client's output side (telnet/telnet/network.c) over its ring \<open>netoring\<close>: \<open>netflush\<close>
  encrypts what has been supplied, sends what lies consecutively in the buffer up to the
  urgent mark, and sends the marked byte by itself, out of band.
\<close>

section \<open>\<open>netflush\<close>\<close>

text \<open>
  What one call of \<open>send\<close> does is the kernel's choice, so a run of the model is given the
  list of its replies: a number of bytes taken (never more than were offered), a
  temporary failure (\<open>ENOBUFS\<close>, \<open>EWOULDBLOCK\<close>) or any other failure, on which the code
  leaves by \<open>longjmp\<close>. The result is \<open>None\<close> when the replies run out before the code
  stops calling \<open>send\<close>. Each run of bytes written to the network is recorded with its
  out-of-band flag.
\<close>

datatype send_reply = Sent nat | Send_retry | Send_fatal

datatype flush_result = Flush_return bool | Peer_died

type_synonym wire = "(bool \<times> byte list) list"

text \<open>The encryption at the head of \<open>netflush\<close>: only when \<open>encrypt_output\<close> is set.\<close>

definition flush_encrypt ::
  "('k \<Rightarrow> byte list \<Rightarrow> byte list \<times> 'k) option \<Rightarrow> 'k \<times> ring_sys \<Rightarrow> 'k \<times> ring_sys" where
  "flush_encrypt encrypt_output kr =
     (case encrypt_output of Some f \<Rightarrow> ring_encrypt f kr | None \<Rightarrow> kr)"

primrec netflush ::
  "('k \<Rightarrow> byte list \<Rightarrow> byte list \<times> 'k) option \<Rightarrow> send_reply list \<Rightarrow> 'k \<times> ring_sys \<Rightarrow>
   (flush_result \<times> ('k \<times> ring_sys) \<times> wire) option" where
  "netflush encrypt_output [] kr =
     (let (k, r) = flush_encrypt encrypt_output kr
      in if ring_full_consecutive r > 0 then None else Some (Flush_return False, (k, r), []))"
| "netflush encrypt_output (reply # rs) kr =
     (let (k, r) = flush_encrypt encrypt_output kr;
          n1 = ring_full_consecutive r
      in if n1 > 0 then
           let oob = ring_at_mark r
           in case reply of
                Send_fatal \<Rightarrow> Some (Peer_died, (k, ring_clear_mark r), [])
              | Send_retry \<Rightarrow> Some (Flush_return False, (k, r), [])
              | Sent m \<Rightarrow>
                  let n = min (int m) (if \<not> oob then n1 else 1);
                      bytes = mem_read (r_mem r) (r_consume r) (nat n)
                  in if n \<noteq> 0 then
                       let r' = ring_consumed r n
                       in if n1 = n \<and> ring_full_consecutive r' \<noteq> 0
                          then map_option
                                 (\<lambda>(res, kr', w). (if res = Peer_died then Peer_died else Flush_return True,
                                                  kr', (oob, bytes) # w))
                                 (netflush encrypt_output rs (k, r'))
                          else Some (Flush_return True, (k, r'), [(oob, bytes)])
                     else Some (Flush_return False, (k, r), [])
         else Some (Flush_return False, (k, r), []))"

definition setneturg :: "ring_sys \<Rightarrow> ring_sys" where
  "setneturg r = ring_mark r"

section \<open>One pass of \<open>netflush\<close>\<close>

definition wire_bytes :: "wire \<Rightarrow> byte list" where
  "wire_bytes w = concat (map snd w)"

lemma wire_bytes_simps [simp]:
  "wire_bytes [] = []" "wire_bytes ((b, xs) # w) = xs @ wire_bytes w"
  by (simp_all add: wire_bytes_def)

text \<open>
  Every flush leaves the ring through the same four exits; a run of \<open>netflush\<close> is a
  sequence of passes, so each fact about it is proved by this rule.
\<close>

definition sent_count :: "ring_sys \<Rightarrow> nat \<Rightarrow> nat" where
  "sent_count r m = nat (min (int m) (if ring_at_mark r then 1 else ring_full_consecutive r))"

lemma sent_count_bounds:
  assumes "ring_inv r" "0 < ring_full_consecutive r"
  shows "int (sent_count r m) \<le> ring_full_consecutive r"
  using assms by (auto simp: sent_count_def)

lemma netflush_cases:
  assumes run: "netflush eo rs kr = Some (res, kr', w)"
    and kr: "flush_encrypt eo kr = (k, r)"
    and idle: "kr' = (k, r) \<Longrightarrow> w = [] \<Longrightarrow> P"
    and died: "kr' = (k, ring_clear_mark r) \<Longrightarrow> w = [] \<Longrightarrow> P"
    and last: "\<And>m rs'. rs = Sent m # rs' \<Longrightarrow> 0 < ring_full_consecutive r \<Longrightarrow> 0 < sent_count r m \<Longrightarrow>
      kr' = (k, snd (ring_take (sent_count r m) r)) \<Longrightarrow>
      w = [(ring_at_mark r, fst (ring_take (sent_count r m) r))] \<Longrightarrow> P"
    and more: "\<And>m rs' res' w'. rs = Sent m # rs' \<Longrightarrow> 0 < ring_full_consecutive r \<Longrightarrow>
      0 < sent_count r m \<Longrightarrow> int (sent_count r m) = ring_full_consecutive r \<Longrightarrow>
      netflush eo rs' (k, snd (ring_take (sent_count r m) r)) = Some (res', kr', w') \<Longrightarrow>
      w = (ring_at_mark r, fst (ring_take (sent_count r m) r)) # w' \<Longrightarrow> P"
  shows P
proof (cases "0 < ring_full_consecutive r")
  case False
  with run kr show P
    by (cases rs; intro idle) simp_all
next
  case True
  with run kr obtain a rs' where rs: "rs = a # rs'" by (cases rs) simp_all
  show P
  proof (cases a)
    case Send_retry
    with rs kr run True show P by (intro idle) simp_all
  next
    case Send_fatal
    with rs kr run True show P by (intro died) simp_all
  next
    case (Sent m)
    let ?n = "min (int m) (if ring_at_mark r then 1 else ring_full_consecutive r)"
      and ?t = "ring_take (sent_count r m) r"
    have n: "?n = int (sent_count r m)" "nat ?n = sent_count r m"
      using True by (simp_all add: sent_count_def)
    have t: "ring_consumed r (int (sent_count r m)) = snd ?t"
      "mem_read (r_mem r) (r_consume r) (sent_count r m) = fst ?t"
      by (simp_all add: ring_take_def)
    have n': "min (int m) (if \<not> ring_at_mark r then ring_full_consecutive r else 1) = int (sent_count r m)"
      using n by (auto split: if_splits)
    have unf: "netflush eo rs kr =
       (if sent_count r m \<noteq> 0 then
          if ring_full_consecutive r = int (sent_count r m) \<and> ring_full_consecutive (snd ?t) \<noteq> 0
          then map_option (\<lambda>(res, kr', w). (if res = Peer_died then Peer_died else Flush_return True,
                             kr', (ring_at_mark r, fst ?t) # w)) (netflush eo rs' (k, snd ?t))
          else Some (Flush_return True, (k, snd ?t), [(ring_at_mark r, fst ?t)])
        else Some (Flush_return False, (k, r), []))"
      using rs Sent True kr by (simp add: n' t Let_def)
    show P
    proof (cases "sent_count r m = 0")
      case True
      with run unf show P by (intro idle) simp_all
    next
      case pos: False
      show P
      proof (cases "ring_full_consecutive r = int (sent_count r m) \<and> ring_full_consecutive (snd ?t) \<noteq> 0")
        case again: True
        with run unf pos obtain res' w' where
          "netflush eo rs' (k, snd ?t) = Some (res', kr', w')" "w = (ring_at_mark r, fst ?t) # w'"
          by auto
        with rs Sent True again pos show P by (intro more) auto
      next
        case stop: False
        have "netflush eo rs kr = Some (Flush_return True, (k, snd ?t), [(ring_at_mark r, fst ?t)])"
          using unf pos stop by (simp only: if_False if_True simp_thms)
        with run rs Sent True pos show P by (intro last) auto
      qed
    qed
  qed
qed

section \<open>What reaches the network\<close>

lemma ring_clear_mark_inv:
  "ring_inv r \<Longrightarrow> ring_inv (ring_clear_mark r)"
  "ring_contents (ring_clear_mark r) = ring_contents r"
  "clear_wf r \<Longrightarrow> clear_wf (ring_clear_mark r)"
  "enc_prefix (ring_clear_mark r) = enc_prefix r"
  by (auto simp: ring_inv_def ring_clear_mark_def mark_wf_def ring_contents_def clear_wf_def
      enc_prefix_def ring_defs)

lemma sent_can_take:
  "ring_inv r \<Longrightarrow> clock_room (Suc n) r \<Longrightarrow> 0 < ring_full_consecutive r \<Longrightarrow>
   ring_can_take (sent_count r m) r"
  using sent_count_bounds [of r m] by (auto simp: ring_can_take_def clock_room_def)

lemma clock_room_take: "clock_room (Suc n) r \<Longrightarrow> clock_room n (snd (ring_take m r))"
  by (cases "m = 0") (auto simp: ring_take_def clock_room_def ring_consumed_clock uint_word_ariths)

lemma clock_room_less: "clock_room n r \<Longrightarrow> m \<le> n \<Longrightarrow> clock_room m r"
  by (simp add: clock_room_def)

text \<open>Without encryption the bytes sent are the front of the ring, and the rest stays.\<close>

lemma netflush_plain:
  assumes "ring_inv r" "clock_room (length rs) r"
    and "netflush None rs (k, r) = Some (res, (k', r'), w)"
  shows "ring_inv r' \<and> ring_contents r = wire_bytes w @ ring_contents r'"
  using assms
proof (induction rs arbitrary: r res w)
  case Nil
  then show ?case by (auto simp: flush_encrypt_def split: if_splits)
next
  case (Cons a rs)
  have fe: "flush_encrypt None (k, r) = (k, r)" by (simp add: flush_encrypt_def)
  have room: "clock_room (Suc (length rs)) r" using Cons.prems(2) by simp
  from Cons.prems(3) fe show ?case
  proof (rule netflush_cases)
    assume "(k', r') = (k, r)" "w = []"
    with Cons.prems show ?thesis by simp
  next
    assume "(k', r') = (k, ring_clear_mark r)" "w = []"
    with Cons.prems show ?thesis by (simp add: ring_clear_mark_inv)
  next
    fix m rs'
    assume "0 < ring_full_consecutive r"
      and "(k', r') = (k, snd (ring_take (sent_count r m) r))"
      and "w = [(ring_at_mark r, fst (ring_take (sent_count r m) r))]"
    with ring_take_spec [OF Cons.prems(1) sent_can_take [OF Cons.prems(1) room]]
    show ?thesis by simp
  next
    fix m rs' res' w'
    let ?t = "ring_take (sent_count r m) r"
    assume A: "a # rs = Sent m # rs'" "0 < ring_full_consecutive r"
      "netflush None rs' (k, snd ?t) = Some (res', (k', r'), w')"
      "w = (ring_at_mark r, fst ?t) # w'"
    note T = ring_take_spec [OF Cons.prems(1) sent_can_take [OF Cons.prems(1) room A(2)], of m]
    have "ring_inv r' \<and> ring_contents (snd ?t) = wire_bytes w' @ ring_contents r'"
      using A T clock_room_take [OF room] by (intro Cons.IH) auto
    with T A(4) show ?thesis by (metis append.assoc append_take_drop_id wire_bytes_simps(2))
  qed
qed

text \<open>
  The out-of-band byte. While the mark is ahead, no pass sends across it, and the only
  byte that can be sent out of band is the one under the mark.
\<close>

lemma ring_take_mark:
  assumes "ring_inv r" "ring_can_take n r" "r_mark r \<noteq> 0"
  shows "r_mark (snd (ring_take n r)) = (if mark_dist r < int n then 0 else r_mark r)"
    and "int n \<le> mark_dist r \<Longrightarrow> mark_dist (snd (ring_take n r)) = mark_dist r - int n"
proof -
  have wf: "ring_wf r" "mark_wf r" "clock_ok r" "int n \<le> ring_used r"
    using assms ring_full_consecutive_le [of r]
    by (auto simp: ring_inv_def ring_can_take_def intro: clock_room_ok)
  have d0: "0 \<le> mark_dist r"
    using wf(1,2) assms(3) by (auto simp: mark_wf_def mark_dist_def ring_defs)
  show m: "r_mark (snd (ring_take n r)) = (if mark_dist r < int n then 0 else r_mark r)"
    using ring_consumed_mark [of "int n" r] assms(3) d0
    by (cases "n = 0") (auto simp: ring_take_def ring_consumed_def)
  assume "int n \<le> mark_dist r"
  then show "mark_dist (snd (ring_take n r)) = mark_dist r - int n"
    using mark_wf_consumed(2) [OF wf(1,3,2), of "int n"] wf(4) m assms(3)
    by (simp add: ring_take_def)
qed

lemma ring_at_mark_dist:
  "ring_wf r \<Longrightarrow> mark_wf r \<Longrightarrow> r_mark r \<noteq> 0 \<Longrightarrow> ring_at_mark r \<longleftrightarrow> mark_dist r = 0"
  by (auto simp: ring_at_mark_def mark_dist_def mark_wf_def ring_defs)

lemma ring_not_at_mark_zero: "ring_wf r \<Longrightarrow> r_mark r = 0 \<Longrightarrow> \<not> ring_at_mark r"
  by (auto simp: ring_at_mark_def ring_wf_def)

lemma netflush_no_urgent:
  assumes "ring_inv r" "clock_room (length rs) r" "r_mark r = 0"
    and "netflush None rs (k, r) = Some (res, (k', r'), w)"
  shows "\<forall>(oob, bs) \<in> set w. \<not> oob"
  using assms
proof (induction rs arbitrary: r res w)
  case Nil
  then show ?case by (auto simp: flush_encrypt_def split: if_splits)
next
  case (Cons a rs)
  have fe: "flush_encrypt None (k, r) = (k, r)" by (simp add: flush_encrypt_def)
  have room: "clock_room (Suc (length rs)) r" using Cons.prems(2) by simp
  have na: "\<not> ring_at_mark r"
    using Cons.prems(1,3) by (simp add: ring_inv_def ring_not_at_mark_zero)
  from Cons.prems(4) fe show ?case
  proof (rule netflush_cases)
    fix m rs' res' w'
    let ?t = "ring_take (sent_count r m) r"
    assume A: "a # rs = Sent m # rs'" "0 < ring_full_consecutive r"
      "netflush None rs' (k, snd ?t) = Some (res', (k', r'), w')"
      "w = (ring_at_mark r, fst ?t) # w'"
    note T = ring_take_spec [OF Cons.prems(1) sent_can_take [OF Cons.prems(1) room A(2)], of m]
    have "r_mark (snd ?t) = 0"
      using Cons.prems(3) by (simp add: ring_take_def ring_consumed_def Let_def)
    then have "\<forall>(oob, bs) \<in> set w'. \<not> oob"
      using A T clock_room_take [OF room] by (intro Cons.IH) auto
    with A(4) na show ?thesis by simp
  qed (use na in auto)
qed

lemma netflush_urgent:
  assumes "ring_inv r" "clock_room (length rs) r" "r_mark r \<noteq> 0"
    and "netflush None rs (k, r) = Some (res, (k', r'), w)"
    and "w = w1 @ (True, bs) # w2"
  shows "int (length (wire_bytes w1)) = mark_dist r \<and> length bs = 1"
  using assms
proof (induction rs arbitrary: r res w w1)
  case Nil
  then show ?case by (auto simp: flush_encrypt_def split: if_splits)
next
  case (Cons a rs)
  have fe: "flush_encrypt None (k, r) = (k, r)" by (simp add: flush_encrypt_def)
  have room: "clock_room (Suc (length rs)) r" using Cons.prems(2) by simp
  have wf: "ring_wf r" "mark_wf r" using Cons.prems(1) by (simp_all add: ring_inv_def)
  note at = ring_at_mark_dist [OF wf Cons.prems(3)]
  have one: "sent_count r m \<le> 1" if "ring_at_mark r" for m using that by (simp add: sent_count_def)
  have le: "int (sent_count r m) \<le> mark_dist r" if "\<not> ring_at_mark r" "0 < ring_full_consecutive r" for m
    using that sent_count_bounds [OF Cons.prems(1) that(2), of m] ring_full_consecutive_le [OF wf]
      ring_full_count_mark [OF wf Cons.prems(3)] by simp
  from Cons.prems(4) fe show ?case
  proof (rule netflush_cases)
    fix m rs'
    assume "0 < sent_count r m" and w: "w = [(ring_at_mark r, fst (ring_take (sent_count r m) r))]"
    then show ?thesis
      using Cons.prems(5) at one [of m] by (cases w1) (auto simp: ring_take_def)
  next
    fix m rs' res' w'
    let ?n = "sent_count r m" let ?t = "ring_take ?n r"
    assume A: "a # rs = Sent m # rs'" "0 < ring_full_consecutive r" "0 < ?n"
      "netflush None rs' (k, snd ?t) = Some (res', (k', r'), w')"
      "w = (ring_at_mark r, fst ?t) # w'"
    note ct = sent_can_take [OF Cons.prems(1) room A(2), of m]
    note T = ring_take_spec [OF Cons.prems(1) ct]
    note M = ring_take_mark [OF Cons.prems(1) ct Cons.prems(3)]
    have len: "length (fst ?t) = ?n" by (simp add: ring_take_def)
    show ?thesis
    proof (cases "w1 = []")
      case True
      with A Cons.prems(5) have "ring_at_mark r" "bs = fst ?t" by auto
      with A(3) len one [of m] at True show ?thesis by simp
    next
      case False
      then obtain w1' where w1: "w1 = (ring_at_mark r, fst ?t) # w1'" "w' = w1' @ (True, bs) # w2"
        using A(5) Cons.prems(5) by (cases w1) auto
      have inv: "ring_inv (snd ?t)" "clock_room (length rs) (snd ?t)" "rs' = rs"
        using A(1) T clock_room_take [OF room] by auto
      show ?thesis
      proof (cases "ring_at_mark r")
        case True
        then have "mark_dist r < int ?n" using at A(3) by simp
        then have "r_mark (snd ?t) = 0" using M(1) by simp
        then have "\<forall>(oob, bs) \<in> set w'. \<not> oob"
          using inv A(4) by (intro netflush_no_urgent [of "snd ?t" rs k res' k' r']) auto
        with w1 show ?thesis by auto
      next
        case na: False
        note d = le [OF na A(2), of m]
        have "int (length (wire_bytes w1')) = mark_dist (snd ?t) \<and> length bs = 1"
          using inv A(4) w1(2) M(1) d Cons.prems(3) by (intro Cons.IH) auto
        with M(2) [OF d] w1(1) len show ?thesis by simp
      qed
    qed
  qed (use Cons.prems(5) in auto)
qed

section \<open>Sending with encryption on\<close>

text \<open>
  A session of the output side while \<open>encrypt_output\<close> stays set: the program supplies
  bytes to the ring, and the main loop flushes. A supply is allowed when it fits and does
  not bring the supply pointer onto the clear-text pointer (the ring takes that state
  for \<^emph>\<open>everything is encrypted\<close>).
\<close>

datatype out_op = Out_write "byte list" | Out_flush "send_reply list"

definition can_write :: "byte list \<Rightarrow> ring_sys \<Rightarrow> bool" where
  "can_write xs r \<longleftrightarrow> xs \<noteq> [] \<and> clock_room 1 r \<and> int (length xs) \<le> ring_empty_consecutive r \<and>
     (r_clearto r = 0 \<or> ring_increment r (r_supply r) (int (length xs)) \<noteq> r_clearto r)"

fun out_run ::
  "('k \<Rightarrow> byte list \<Rightarrow> byte list \<times> 'k) \<Rightarrow> out_op list \<Rightarrow> 'k \<times> ring_sys \<Rightarrow>
   (byte list \<times> 'k \<times> ring_sys) option" where
  "out_run enc [] kr = Some ([], kr)"
| "out_run enc (Out_write xs # ops) (k, r) =
     (if can_write xs r then out_run enc ops (k, supply_step r xs) else None)"
| "out_run enc (Out_flush rs # ops) (k, r) =
     (if clock_room (length rs) r
      then (case netflush (Some enc) rs (k, r) of
              None \<Rightarrow> None
            | Some (res, kr', w) \<Rightarrow>
                map_option (\<lambda>(bs, kr''). (wire_bytes w @ bs, kr'')) (out_run enc ops kr'))
      else None)"

fun out_written :: "out_op list \<Rightarrow> byte list" where
  "out_written [] = []"
| "out_written (Out_write xs # ops) = xs @ out_written ops"
| "out_written (Out_flush rs # ops) = out_written ops"

definition enc_ring_inv :: "ring_sys \<Rightarrow> bool" where
  "enc_ring_inv r \<longleftrightarrow> ring_inv r \<and> clear_wf r"

definition enc_part :: "ring_sys \<Rightarrow> byte list" where
  "enc_part r = take (nat (enc_prefix r)) (ring_contents r)"

definition plain_part :: "ring_sys \<Rightarrow> byte list" where
  "plain_part r = drop (nat (enc_prefix r)) (ring_contents r)"

lemma clear_mark_parts:
  "enc_ring_inv r \<Longrightarrow> enc_ring_inv (ring_clear_mark r)"
  "enc_part (ring_clear_mark r) = enc_part r" "plain_part (ring_clear_mark r) = plain_part r"
  by (simp_all add: enc_ring_inv_def enc_part_def plain_part_def ring_clear_mark_inv)

lemma mem_update_enc [simp]:
  "clear_wf (r\<lparr>r_mem := m\<rparr>) = clear_wf r" "enc_prefix (r\<lparr>r_mem := m\<rparr>) = enc_prefix r"
  by (simp_all add: clear_wf_def enc_prefix_def ring_subtract_def)

lemma clearto_update_mark [simp]: "mark_wf (r\<lparr>r_clearto := c\<rparr>) = mark_wf r"
proof -
  have "ring_subtract (r\<lparr>r_clearto := c\<rparr>) a b = ring_subtract r a b" for a b
    by (simp add: ring_subtract_def)
  then show ?thesis by (simp add: mark_wf_def)
qed

lemma supply_step_enc:
  assumes "enc_ring_inv r" "can_write xs r"
  shows "enc_ring_inv (supply_step r xs) \<and> enc_part (supply_step r xs) = enc_part r \<and>
    plain_part (supply_step r xs) = plain_part r @ xs"
proof -
  have wf: "ring_wf r" "mark_wf r" "clear_wf r" "clock_room (Suc 0) r" "clock_ok r"
    and xs: "0 < length xs" "int (length xs) \<le> ring_empty_consecutive r"
    using assms by (auto simp: enc_ring_inv_def ring_inv_def can_write_def intro: clock_room_ok)
  note S = supply_step [OF wf(1,4) xs]
  let ?w = "r\<lparr>r_mem := mem_write (r_mem r) (r_supply r) xs\<rparr>"
  have w: "ring_wf ?w" "clock_ok ?w" "clear_wf ?w" "enc_prefix ?w = enc_prefix r"
    using wf by simp_all
  have "r_clearto ?w = 0 \<or> r_supply (ring_supplied ?w (int (length xs))) \<noteq> r_clearto ?w"
    using assms(2) by (simp add: can_write_def ring_supplied_def)
  then have "clear_wf (supply_step r xs) \<and> enc_prefix (supply_step r xs) = enc_prefix r"
    unfolding supply_step_def w(4) [symmetric]
    using w xs ring_empty_consecutive_le [OF wf(1)]
      enc_prefix_supplied [OF w(1,2,3), of "int (length xs)"] by simp
  moreover have "nat (enc_prefix r) \<le> length (ring_contents r)"
    using enc_prefix_bounds [OF wf(1,3)] by (simp add: ring_contents_def nat_mono)
  ultimately show ?thesis
    using S wf by (simp add: enc_ring_inv_def ring_inv_def enc_part_def plain_part_def)
qed

context stream_encryptor
begin

lemma ring_encrypt_enc:
  assumes "enc_ring_inv r" "ring_encrypt enc (k, r) = (k', r')"
  shows "enc_ring_inv r' \<and> plain_part r' = [] \<and>
    enc_part r' = enc_part r @ fst (enc k (plain_part r)) \<and> k' = snd (enc k (plain_part r)) \<and>
    enc_prefix r' = ring_used r' \<and> ring_clock r' = ring_clock r"
proof -
  have wf: "ring_wf r" "mark_wf r" "clear_wf r"
    using assms(1) by (auto simp: enc_ring_inv_def ring_inv_def)
  show ?thesis
  proof (cases "ring_empty r \<or> r_clearto r = r_supply r")
    case True
    then have "(k', r') = (k, r)" using assms(2) by (simp add: ring_encrypt_def)
    moreover have "enc_prefix r = ring_used r"
      using True wf by (auto simp: enc_prefix_def ring_wf_def ring_used_zero_iff [OF wf(1)])
    ultimately show ?thesis
      using assms(1) by (simp add: plain_part_def enc_part_def ring_contents_def)
  next
    case False
    then obtain m where m: "k' = snd (enc k (plain_part r))"
      "r' = r\<lparr>r_mem := m, r_clearto := r_supply r\<rparr>"
      "ring_contents (r\<lparr>r_mem := m\<rparr>) = enc_part r @ fst (enc k (plain_part r))"
      using ring_encrypt_contents [OF wf(1,3), of k] assms(2)
      by (auto simp: plain_part_def enc_part_def)
    let ?m = "r\<lparr>r_mem := m\<rparr>"
    have r': "ring_wf r'" "ring_contents r' = ring_contents ?m" "ring_used r' = ring_used r"
      "mark_wf r'" "\<not> ring_empty r'" "ring_clock r' = ring_clock r"
      using wf False m(2) clearto_update_same [where r = ?m and c = "r_supply r"]
      by simp_all
    have "enc_prefix r' = ring_used r'" "clear_wf r'"
      using False m(2) wf r'(3,5)
      by (auto simp: enc_prefix_def clear_wf_def ring_wf_def ring_used_def ring_subtract_def
          ring_full_def split: if_splits)
    moreover from this(1) have "enc_part r' = ring_contents r'" "plain_part r' = []"
      by (simp_all add: enc_part_def plain_part_def ring_contents_def)
    ultimately show ?thesis
      using r' m by (simp add: enc_ring_inv_def ring_inv_def)
  qed
qed

lemma ring_take_enc:
  assumes "enc_ring_inv r" "ring_can_take n r" "int n \<le> enc_prefix r"
  shows "enc_ring_inv (snd (ring_take n r)) \<and> plain_part (snd (ring_take n r)) = plain_part r \<and>
    enc_part r = fst (ring_take n r) @ enc_part (snd (ring_take n r))"
proof -
  have wf: "ring_wf r" "mark_wf r" "clear_wf r" "clock_ok r" "r_consume r + int n \<le> r_top r"
    using assms ring_full_consecutive_le [of r]
    by (auto simp: enc_ring_inv_def ring_inv_def ring_can_take_def intro: clock_room_ok)
  note T = ring_take_spec [of r n, OF _ assms(2)]
  have E: "clear_wf (snd (ring_take n r)) \<and> enc_prefix (snd (ring_take n r)) = enc_prefix r - int n"
    using enc_prefix_consumed [OF wf(1,4,3) _ assms(3) wf(5)] by (simp add: ring_take_def)
  have e: "nat (enc_prefix r) = n + nat (enc_prefix r - int n)" using assms(3) by simp
  show ?thesis
    using T E assms(1) e
    by (simp add: enc_ring_inv_def enc_part_def plain_part_def take_add add.commute)
qed

lemma netflush_enc:
  assumes "enc_ring_inv r" "clock_room (length rs) r"
    and "netflush (Some enc) rs (k, r) = Some (res, (k', r'), w)"
  shows "enc_ring_inv r' \<and> plain_part r' = [] \<and> k' = snd (enc k (plain_part r)) \<and>
    enc_part r @ fst (enc k (plain_part r)) = wire_bytes w @ enc_part r'"
  using assms
proof (induction rs arbitrary: k r res w)
  case Nil
  obtain k1 r1 where e: "ring_encrypt enc (k, r) = (k1, r1)" by (cases "ring_encrypt enc (k, r)")
  from ring_encrypt_enc [OF Nil.prems(1) this] Nil.prems(3) e show ?case
    by (auto simp: flush_encrypt_def split: if_splits)
next
  case (Cons a rs)
  obtain k1 r1 where e: "ring_encrypt enc (k, r) = (k1, r1)" by (cases "ring_encrypt enc (k, r)")
  note E = ring_encrypt_enc [OF Cons.prems(1) e]
  have fe: "flush_encrypt (Some enc) (k, r) = (k1, r1)" using e by (simp add: flush_encrypt_def)
  have room: "clock_room (Suc (length rs)) r1" using Cons.prems(2) E by (simp add: clock_room_def)
  have inv: "enc_ring_inv r1" "ring_inv r1" using E by (auto simp: enc_ring_inv_def)
  have ct: "ring_can_take (sent_count r1 m) r1" "int (sent_count r1 m) \<le> enc_prefix r1"
    if "0 < ring_full_consecutive r1" for m
    using sent_can_take [OF inv(2) room that] sent_count_bounds [OF inv(2) that, of m] E
      ring_full_consecutive_le [of r1] inv(2) by (auto simp: ring_inv_def)
  from Cons.prems(3) fe show ?case
  proof (rule netflush_cases)
    assume "(k', r') = (k1, r1)" "w = []"
    with E show ?thesis by simp
  next
    assume "(k', r') = (k1, ring_clear_mark r1)" "w = []"
    with E inv show ?thesis by (simp add: clear_mark_parts)
  next
    fix m rs'
    let ?t = "ring_take (sent_count r1 m) r1"
    assume "0 < ring_full_consecutive r1" "(k', r') = (k1, snd ?t)" "w = [(ring_at_mark r1, fst ?t)]"
    with ring_take_enc [OF inv(1) ct] E show ?thesis by auto
  next
    fix m rs' res' w'
    let ?t = "ring_take (sent_count r1 m) r1"
    assume A: "a # rs = Sent m # rs'" "0 < ring_full_consecutive r1"
      "netflush (Some enc) rs' (k1, snd ?t) = Some (res', (k', r'), w')"
      "w = (ring_at_mark r1, fst ?t) # w'"
    note T = ring_take_enc [OF inv(1) ct [OF A(2)], of m]
    have "enc_ring_inv r' \<and> plain_part r' = [] \<and> k' = snd (enc k1 (plain_part (snd ?t))) \<and>
      enc_part (snd ?t) @ fst (enc k1 (plain_part (snd ?t))) = wire_bytes w' @ enc_part r'"
      using A T clock_room_take [OF room] by (intro Cons.IH) auto
    with T E A(4) show ?thesis by (simp add: append_assoc [symmetric] del: append_assoc)
  qed
qed

lemma out_run_enc:
  assumes "enc_ring_inv r" "out_run enc ops (k, r) = Some (bs, (k', r'))"
  shows "\<exists>p. p @ plain_part r' = plain_part r @ out_written ops \<and> k' = snd (enc k p) \<and>
    enc_part r @ fst (enc k p) = bs @ enc_part r' \<and> enc_ring_inv r'"
  using assms
proof (induction ops arbitrary: k r bs)
  case Nil
  then show ?case by (intro exI [of _ "[]"]) simp
next
  case (Cons op ops)
  show ?case
  proof (cases op)
    case (Out_write xs)
    with Cons.prems have "can_write xs r" "out_run enc ops (k, supply_step r xs) = Some (bs, (k', r'))"
      by (auto split: if_splits)
    with supply_step_enc [OF Cons.prems(1)] Cons.IH [of "supply_step r xs" k bs] Out_write
    show ?thesis by simp
  next
    case (Out_flush rs)
    with Cons.prems obtain res k1 r1 w bs' where A: "clock_room (length rs) r"
      "netflush (Some enc) rs (k, r) = Some (res, (k1, r1), w)"
      "out_run enc ops (k1, r1) = Some (bs', (k', r'))" "bs = wire_bytes w @ bs'"
      by (auto split: if_splits option.splits)
    note F = netflush_enc [OF Cons.prems(1) A(1,2)]
    then obtain p where p: "p @ plain_part r' = out_written ops" "k' = snd (enc k1 p)"
      "enc_part r1 @ fst (enc k1 p) = bs' @ enc_part r'" "enc_ring_inv r'"
      using Cons.IH [OF _ A(3)] by auto
    show ?thesis
    proof (intro exI conjI)
      show "(plain_part r @ p) @ plain_part r' = plain_part r @ out_written (op # ops)"
        using p Out_flush by simp
      show "k' = snd (enc k (plain_part r @ p))" using p F by (simp add: enc_append)
      show "enc_part r @ fst (enc k (plain_part r @ p)) = bs @ enc_part r'"
        using p F A(4) by (simp add: enc_append) (metis append.assoc)
      show "enc_ring_inv r'" by (rule p(4))
    qed
  qed
qed

end

section \<open>Properties of the output side\<close>

text \<open>
  C9. \<open>netflush\<close> without encryption keeps the stream: for any sequence of replies from the
  kernel (partial sends and failures included), what goes out on the wire is the front of
  the ring, and what stays in the ring is the rest, in order.
\<close>

theorem netflush_order:
  assumes "ring_inv r" "clock_room (length rs) r"
    and "netflush None rs (k, r) = Some (res, (k', r'), w)"
  shows "ring_contents r = wire_bytes w @ ring_contents r'"
  using netflush_plain [OF assms] by blast

definition demo_wrapped :: ring_sys where
  "demo_wrapped = ring_put [4, 5] (snd (ring_take 2 (ring_put [1, 2, 3] demo_ring)))"

lemma demo_wrapped_inv: "ring_inv demo_wrapped" "ring_clock demo_wrapped = 4"
proof -
  have p1: "ring_can_put [1, 2, 3] demo_ring" by code_simp
  have t: "ring_can_take 2 (ring_put [1, 2, 3] demo_ring)" by code_simp
  have p2: "ring_can_put [4, 5] (snd (ring_take 2 (ring_put [1, 2, 3] demo_ring)))" by code_simp
  show "ring_inv demo_wrapped"
    unfolding demo_wrapped_def
    using ring_put_spec [OF demo_ring_inv(1) p1] ring_take_spec [OF _ t] ring_put_spec [OF _ p2]
    by blast
  show "ring_clock demo_wrapped = 4" by code_simp
qed

theorem netflush_order_witness:
  "\<exists>k' r' w. netflush None [Sent 2, Sent 1] ((), demo_wrapped) =
     Some (Flush_return True, (k', r'), w) \<and> wire_bytes w = [3, 4, 5] \<and>
     ring_contents demo_wrapped = wire_bytes w @ ring_contents r'"
proof -
  have "map_option (\<lambda>(res, kr, w). (res, wire_bytes w)) (netflush None [Sent 2, Sent 1] ((), demo_wrapped)) =
      Some (Flush_return True, [3, 4, 5])" by code_simp
  then obtain k' r' w where "netflush None [Sent 2, Sent 1] ((), demo_wrapped) =
      Some (Flush_return True, (k', r'), w)" "wire_bytes w = [3, 4, 5]" by auto
  with netflush_order [OF demo_wrapped_inv(1) _ this(1)] show ?thesis
    by (auto simp: clock_room_def demo_wrapped_inv)
qed



end
