(* ===== verification/Radix.thy ===== *)
theory Radix
  imports Prelude
begin

text \<open>
  The printable encoding the FTP security extensions use on the control connection
  (gssftp/ftp/radix.c, linked into both ftp and ftpd). One C function serves both
  directions; its two branches are two definitions here. Bytes are 8-bit words, and a
  buffer that ends at its first NUL is the list of the bytes before it.
\<close>

section \<open>Tables and strings\<close>

definition radixN :: "byte list" where
  "radixN = map of_char ''ABCDEFGHIJKLMNOPQRSTUVWXYZabcdefghijklmnopqrstuvwxyz0123456789+/''"

definition radix_pad :: byte where
  "radix_pad = of_char CHR ''=''"

text \<open>\<open>strchr\<close>, as the offset of the first occurrence.\<close>

fun strchr_off :: "byte list \<Rightarrow> byte \<Rightarrow> nat option" where
  "strchr_off [] x = None"
| "strchr_off (y # ys) x = (if y = x then Some 0 else map_option Suc (strchr_off ys x))"

text \<open>The C string that starts at a position of a buffer.\<close>

definition cstring :: "byte list \<Rightarrow> byte list" where
  "cstring xs = takeWhile (\<lambda>x. x \<noteq> 0) xs"

section \<open>The encoder\<close>

text \<open>The loop: \<open>i\<close> counts the bytes read, \<open>c\<close> holds the bits left over from the last one.\<close>

fun radix_enc_loop :: "nat \<Rightarrow> byte \<Rightarrow> byte list \<Rightarrow> byte list \<times> nat \<times> byte" where
  "radix_enc_loop i c [] = ([], i, c)"
| "radix_enc_loop i c (x # xs) =
     (let (now, c) =
        (if i mod 3 = 0 then ([radixN ! unat (drop_bit 2 x)], push_bit 4 (x AND 3))
         else if i mod 3 = 1 then ([radixN ! unat (c OR drop_bit 4 x)], push_bit 2 (x AND 15))
         else ([radixN ! unat (c OR drop_bit 6 x), radixN ! unat (x AND 63)], 0));
          (later, i, c) = radix_enc_loop (Suc i) c xs
      in (now @ later, i, c))"

definition radix_encode :: "byte list \<Rightarrow> byte list" where
  "radix_encode inbuf =
     (let (out, i, c) = radix_enc_loop 0 0 inbuf
      in out @ (if i mod 3 \<noteq> 0 then [radixN ! unat c] else [])
             @ (if i mod 3 = 1 then [radix_pad, radix_pad]
                else if i mod 3 = 2 then [radix_pad] else []))"

section \<open>The decoder\<close>

text \<open>
  The return values 1, 2 and 3 of the decoder are errors (\<open>radix_error\<close> names them); the
  loop stops at a NUL, at a pad character, or at a character outside the table.
\<close>

datatype radix_err = Bad_character | Not_padded | Not_multiple_of_8

fun radix_dec_loop ::
  "nat \<Rightarrow> byte \<Rightarrow> byte \<Rightarrow> byte list \<Rightarrow> byte list \<Rightarrow> radix_err + (nat \<times> byte \<times> byte list \<times> byte list)" where
  "radix_dec_loop i D c out [] = Inr (i, D, out, [])"
| "radix_dec_loop i D c out (x # xs) =
     (if x = 0 \<or> x = radix_pad then Inr (i, D, out, x # xs)
      else case strchr_off radixN x of
        None \<Rightarrow> Inl Bad_character
      | Some d \<Rightarrow>
          (let D = of_nat d
           in if i mod 4 = 0 then radix_dec_loop (Suc i) D (push_bit 2 D) out xs
              else if i mod 4 = 1
              then radix_dec_loop (Suc i) D (push_bit 4 (D AND 15)) (out @ [c OR drop_bit 4 D]) xs
              else if i mod 4 = 2
              then radix_dec_loop (Suc i) D (push_bit 6 (D AND 3)) (out @ [c OR drop_bit 2 D]) xs
              else radix_dec_loop (Suc i) D c (out @ [c OR D]) xs))"

text \<open>The tests after the loop: stray bits, then the padding.\<close>

fun radix_dec_end :: "nat \<times> byte \<times> byte list \<times> byte list \<Rightarrow> radix_err + byte list" where
  "radix_dec_end (i, D, out, rest) =
     (if i mod 4 = 1 then Inl Not_multiple_of_8
      else if i mod 4 = 2 then
        (if D AND 15 \<noteq> 0 then Inl Not_multiple_of_8
         else if cstring rest \<noteq> [radix_pad, radix_pad] then Inl Not_padded else Inr out)
      else if i mod 4 = 3 then
        (if D AND 3 \<noteq> 0 then Inl Not_multiple_of_8
         else if cstring rest \<noteq> [radix_pad] then Inl Not_padded else Inr out)
      else Inr out)"

definition radix_decode :: "byte list \<Rightarrow> radix_err + byte list" where
  "radix_decode inbuf =
     (case radix_dec_loop 0 0 0 [] inbuf of Inl e \<Rightarrow> Inl e | Inr r \<Rightarrow> radix_dec_end r)"

definition radix_error :: "radix_err \<Rightarrow> string" where
  "radix_error e =
     (case e of Bad_character \<Rightarrow> ''Bad character in encoding''
      | Not_padded \<Rightarrow> ''Encoding not properly padded''
      | Not_multiple_of_8 \<Rightarrow> ''Decoded # of bits not a multiple of 8'')"

section \<open>Lemmas\<close>

lemma length_radixN [simp]: "length radixN = 64"
  by (simp add: radixN_def)

lemma radixN_eq:
  "radixN =
    [65, 66, 67, 68, 69, 70, 71, 72, 73, 74, 75, 76, 77, 78, 79, 80, 81, 82, 83, 84,
     85, 86, 87, 88, 89, 90, 97, 98, 99, 100, 101, 102, 103, 104, 105, 106, 107, 108,
     109, 110, 111, 112, 113, 114, 115, 116, 117, 118, 119, 120, 121, 122, 48, 49,
     50, 51, 52, 53, 54, 55, 56, 57, 43, 47]"
  by (simp add: radixN_def)

lemma radixN_distinct: "distinct radixN" "0 \<notin> set radixN" "radix_pad \<notin> set radixN"
  by (simp_all add: radixN_eq radix_pad_def)

lemma strchr_off_nth: "distinct xs \<Longrightarrow> n < length xs \<Longrightarrow> strchr_off xs (xs ! n) = Some n"
  by (induction xs arbitrary: n) (auto simp: nth_Cons split: nat.splits)

lemma radixN_nth [simp]:
  assumes "n < 64"
  shows "strchr_off radixN (radixN ! n) = Some n" "radixN ! n \<noteq> 0" "radixN ! n \<noteq> radix_pad"
proof -
  have "radixN ! n \<in> set radixN" using assms by simp
  then show "radixN ! n \<noteq> 0" "radixN ! n \<noteq> radix_pad" using radixN_distinct by metis+
  show "strchr_off radixN (radixN ! n) = Some n"
    using assms radixN_distinct by (intro strchr_off_nth) simp_all
qed

lemma strchr_off_bound: "strchr_off xs x = Some d \<Longrightarrow> d < length xs"
  by (induction xs arbitrary: d) (auto split: if_splits)

text \<open>The four sextets of three bytes, and what the decoder puts together from them.\<close>

definition sextet0 :: "byte \<Rightarrow> byte" where "sextet0 a = drop_bit 2 a"
definition sextet1 :: "byte \<Rightarrow> byte \<Rightarrow> byte" where "sextet1 a b = push_bit 4 (a AND 3) OR drop_bit 4 b"
definition sextet2 :: "byte \<Rightarrow> byte \<Rightarrow> byte" where "sextet2 b d = push_bit 2 (b AND 15) OR drop_bit 6 d"
definition sextet3 :: "byte \<Rightarrow> byte" where "sextet3 d = d AND 63"

lemmas sextet_defs = sextet0_def sextet1_def sextet2_def sextet3_def

lemma sextet_bound:
  "unat (sextet0 a) < 64" "unat (sextet1 a b) < 64" "unat (sextet2 a b) < 64" "unat (sextet3 a) < 64"
proof -
  have "v AND 63 = v \<Longrightarrow> unat v < 64" for v :: byte
    using word_and_le1 [of v 63] by (simp add: word_le_nat_alt)
  moreover have "sextet0 a AND 63 = sextet0 a" "sextet1 a b AND 63 = sextet1 a b"
    "sextet2 a b AND 63 = sextet2 a b" "sextet3 a AND 63 = sextet3 a"
    by (rule byte_eqI; simp add: bit_simps sextet_defs)+
  ultimately show "unat (sextet0 a) < 64" "unat (sextet1 a b) < 64" "unat (sextet2 a b) < 64"
    "unat (sextet3 a) < 64"
    by blast+
qed

lemma sextet_join:
  "push_bit 2 (sextet0 a) OR drop_bit 4 (sextet1 a b) = a"
  "push_bit 4 (sextet1 a b AND 15) OR drop_bit 2 (sextet2 b d) = b"
  "push_bit 6 (sextet2 b d AND 3) OR sextet3 d = d"
  "push_bit 4 (sextet1 a b) AND 240 OR drop_bit 2 (sextet2 b d) = b"
  "push_bit 6 (sextet2 b d) AND 192 OR sextet3 d = d"
  "sextet1 a 0 AND 15 = 0" "sextet2 b 0 AND 3 = 0"
  by (rule byte_eqI; simp add: bit_simps sextet_defs; fail)+

lemmas sextet_simps [simp] = sextet_bound sextet_join

lemma radix_enc_loop_shift:
  "radix_enc_loop (i + 3) c xs =
     (let (out, j, d) = radix_enc_loop i c xs in (out, j + 3, d))"
  by (induction i c xs rule: radix_enc_loop.induct) (auto simp: Let_def case_prod_beta)

lemma radix_encode_simps:
  "radix_encode [] = []"
  "radix_encode [a] =
     [radixN ! unat (sextet0 a), radixN ! unat (sextet1 a 0), radix_pad, radix_pad]"
  "radix_encode [a, b] =
     [radixN ! unat (sextet0 a), radixN ! unat (sextet1 a b), radixN ! unat (sextet2 b 0), radix_pad]"
  "radix_encode (a # b # d # xs) =
     [radixN ! unat (sextet0 a), radixN ! unat (sextet1 a b), radixN ! unat (sextet2 b d),
      radixN ! unat (sextet3 d)] @ radix_encode xs"
proof -
  have "radix_enc_loop (Suc (Suc (Suc 0))) 0 xs =
      (let (out, j, d) = radix_enc_loop 0 0 xs in (out, j + 3, d))"
    using radix_enc_loop_shift [of 0 0 xs] by (simp add: numeral_3_eq_3)
  then show "radix_encode (a # b # d # xs) =
     [radixN ! unat (sextet0 a), radixN ! unat (sextet1 a b), radixN ! unat (sextet2 b d),
      radixN ! unat (sextet3 d)] @ radix_encode xs"
    by (simp add: radix_encode_def case_prod_beta Let_def sextet_defs)
qed (simp_all add: radix_encode_def sextet_defs)

lemma list_induct3_step:
  assumes "P []" "\<And>a. P [a]" "\<And>a b. P [a, b]" "\<And>a b d xs. P xs \<Longrightarrow> P (a # b # d # xs)"
  shows "P xs"
proof (induction xs rule: length_induct)
  case (1 xs)
  show ?case
  proof (cases xs)
    case (Cons a ys)
    show ?thesis
    proof (cases ys)
      case Cons': (Cons b zs)
      show ?thesis
        by (cases zs) (use 1 Cons Cons' assms in auto)
    qed (use Cons assms in simp)
  qed (use assms in simp)
qed

lemma radix_pad_nonzero: "radix_pad \<noteq> 0"
  by (simp add: radix_pad_def)

lemma mod4_steps:
  "i mod 4 = 0 \<Longrightarrow> Suc i mod 4 = 1" "i mod 4 = 0 \<Longrightarrow> Suc (Suc i) mod 4 = 2"
  "i mod 4 = 0 \<Longrightarrow> (3 + i) mod 4 = 3"
  "i mod 4 = 0 \<Longrightarrow> Suc (Suc (Suc i)) mod 4 = 3" "i mod 4 = 0 \<Longrightarrow> Suc (Suc (Suc (Suc i))) mod 4 = 0"
  for i :: nat
  by presburger+

lemma radix_decode_encode_loop:
  "i mod 4 = 0 \<Longrightarrow>
   (case radix_dec_loop i D c out (radix_encode xs) of Inl e \<Rightarrow> Inl e | Inr r \<Rightarrow> radix_dec_end r) =
   Inr (out @ xs)"
proof (induction xs arbitrary: i D c out rule: list_induct3_step)
  case 1
  then show ?case by (simp add: radix_encode_simps)
next
  case (2 a)
  then show ?case by (simp add: radix_encode_simps mod4_steps Let_def cstring_def radix_pad_nonzero)
next
  case (3 a b)
  then show ?case by (simp add: radix_encode_simps mod4_steps Let_def cstring_def radix_pad_nonzero)
next
  case (4 a b d xs)
  have "Suc (Suc (Suc (Suc i))) mod 4 = 0" by (rule mod4_steps(5) [OF 4(2)])
  from 4(1) [OF this] show ?case
    by (simp add: radix_encode_simps mod4_steps [OF 4(2)] 4(2) Let_def)
qed

section \<open>Properties\<close>

text \<open>
  C15. Decoding inverts encoding: whatever bytes are encoded, decoding the result succeeds
  and gives them back.
\<close>

theorem radix_roundtrip: "radix_decode (radix_encode xs) = Inr xs"
  using radix_decode_encode_loop [of 0 0 0 "[]" xs] by (simp add: radix_decode_def)

lemma radix_encode_length: "length (radix_encode xs) = 4 * ((length xs + 2) div 3)"
proof (induction xs rule: list_induct3_step)
  case (4 a b d xs)
  have "(length (a # b # d # xs) + 2) div 3 = Suc ((length xs + 2) div 3)" by simp
  with 4 show ?case by (simp add: radix_encode_simps del: length_Cons)
qed (simp_all add: radix_encode_simps)

lemma radix_encode_alphabet: "x \<in> set (radix_encode xs) \<Longrightarrow> x \<in> set radixN \<or> x = radix_pad"
  by (induction xs rule: list_induct3_step) (auto simp: radix_encode_simps)

text \<open>
  What the encoder writes: four characters for each group of up to three bytes, all of
  them from the 64-character alphabet or the pad, so the text holds no NUL, blank or line
  end and fits on a command line.
\<close>

theorem radix_encode_shape:
  "length (radix_encode xs) = 4 * ((length xs + 2) div 3) \<and>
   set (radix_encode xs) \<subseteq> insert radix_pad (set radixN)"
  using radix_encode_length radix_encode_alphabet by blast

text \<open>The decoder's output index is a function of its input index.\<close>

lemma radix_dec_loop_index:
  "radix_dec_loop i D c out xs = Inr (j, D', out', rest) \<Longrightarrow> length out = 3 * i div 4 \<Longrightarrow>
   length out' = 3 * j div 4 \<and> j + length rest = i + length xs"
proof (induction i D c out xs rule: radix_dec_loop.induct)
  case (2 i D c out x xs)
  have ph: "i mod 4 = 0 \<Longrightarrow> 3 * Suc i div 4 = 3 * i div 4"
    "i mod 4 \<noteq> 0 \<Longrightarrow> 3 * Suc i div 4 = Suc (3 * i div 4)" by presburger+
  show ?case
  proof (cases "x = 0 \<or> x = radix_pad")
    case True
    with 2 show ?thesis by auto
  next
    case False
    with "2.prems" obtain d where d: "strchr_off radixN x = Some d" by (auto split: option.splits)
    note IH = "2.IH" [OF False d refl]
    note run = "2.prems"(1) [unfolded radix_dec_loop.simps if_not_P [OF False] d option.case Let_def]
    show ?thesis
    proof (cases "i mod 4 = 0")
      case True
      with run ph(1) "2.prems"(2) IH(1) [OF True] show ?thesis by simp
    next
      case n0: False
      show ?thesis
      proof (cases "i mod 4 = 1")
        case True
        with run n0 ph(2) "2.prems"(2) IH(2) [OF n0 True] show ?thesis by simp
      next
        case n1: False
        show ?thesis
        proof (cases "i mod 4 = 2")
          case True
          with run n0 n1 ph(2) "2.prems"(2) IH(3) [OF n0 n1 True] show ?thesis by simp
        next
          case n2: False
          with run n0 n1 ph(2) "2.prems"(2) IH(4) [OF n0 n1 n2] show ?thesis by simp
        qed
      qed
    qed
  qed
qed simp

text \<open>
  The decoder never writes past three bytes for every four characters it was given,
  so an output buffer as long as the input is always enough.
\<close>

theorem radix_decode_bound:
  assumes "radix_decode inbuf = Inr out"
  shows "length out \<le> 3 * length inbuf div 4"
proof -
  from assms obtain j D rest where "radix_dec_loop 0 0 0 [] inbuf = Inr (j, D, out, rest)"
    by (auto simp: radix_decode_def split: sum.splits if_splits)
  from radix_dec_loop_index [OF this] show ?thesis by (auto intro: div_le_mono)
qed

theorem radix_decode_bound_witness:
  "radix_decode (map of_char ''TWFuIQ=='') = Inr (map of_char ''Man!'') \<and>
   length (map of_char ''Man!'' :: byte list) \<le> 3 * length (map of_char ''TWFuIQ=='' :: byte list) div 4"
proof -
  have "radix_encode (map of_char ''Man!'') = map of_char ''TWFuIQ==''"
    by (simp add: radix_encode_simps sextet_defs radixN_eq radix_pad_def)
  then have "radix_decode (map of_char ''TWFuIQ=='') = Inr (map of_char ''Man!'')"
    by (metis radix_roundtrip)
  with radix_decode_bound [OF this] show ?thesis by simp
qed

end
