(* ===== verification/Telnet_Proto.thy ===== *)
theory Telnet_Proto
  imports Prelude
begin

text \<open>
  The protocol constants of telnet/arpa/telnet.h that the telnet components use, under the
  names of the header. They are simplification rules, so proofs see the numbers.
\<close>

section \<open>Commands\<close>

definition IAC :: byte where [simp]: "IAC = 255"
definition DONT :: byte where [simp]: "DONT = 254"
definition DO :: byte where [simp]: "DO = 253"
definition WONT :: byte where [simp]: "WONT = 252"
definition WILL :: byte where [simp]: "WILL = 251"
definition SB :: byte where [simp]: "SB = 250"
definition GA :: byte where [simp]: "GA = 249"
definition EL :: byte where [simp]: "EL = 248"
definition EC :: byte where [simp]: "EC = 247"
definition AYT :: byte where [simp]: "AYT = 246"
definition AO :: byte where [simp]: "AO = 245"
definition IP :: byte where [simp]: "IP = 244"
definition BREAK :: byte where [simp]: "BREAK = 243"
definition DM :: byte where [simp]: "DM = 242"
definition NOP :: byte where [simp]: "NOP = 241"
definition SE :: byte where [simp]: "SE = 240"
definition EOR :: byte where [simp]: "EOR = 239"
definition ABORT :: byte where [simp]: "ABORT = 238"
definition SUSP :: byte where [simp]: "SUSP = 237"
definition xEOF :: byte where [simp]: "xEOF = 236"

section \<open>Options\<close>

definition TELOPT_BINARY :: byte where [simp]: "TELOPT_BINARY = 0"
definition TELOPT_ECHO :: byte where [simp]: "TELOPT_ECHO = 1"
definition TELOPT_SGA :: byte where [simp]: "TELOPT_SGA = 3"
definition TELOPT_STATUS :: byte where [simp]: "TELOPT_STATUS = 5"
definition TELOPT_TM :: byte where [simp]: "TELOPT_TM = 6"
definition TELOPT_LOGOUT :: byte where [simp]: "TELOPT_LOGOUT = 18"
definition TELOPT_TTYPE :: byte where [simp]: "TELOPT_TTYPE = 24"
definition TELOPT_EOR :: byte where [simp]: "TELOPT_EOR = 25"
definition TELOPT_NAWS :: byte where [simp]: "TELOPT_NAWS = 31"
definition TELOPT_TSPEED :: byte where [simp]: "TELOPT_TSPEED = 32"
definition TELOPT_LFLOW :: byte where [simp]: "TELOPT_LFLOW = 33"
definition TELOPT_LINEMODE :: byte where [simp]: "TELOPT_LINEMODE = 34"
definition TELOPT_XDISPLOC :: byte where [simp]: "TELOPT_XDISPLOC = 35"
definition TELOPT_OLD_ENVIRON :: byte where [simp]: "TELOPT_OLD_ENVIRON = 36"
definition TELOPT_AUTHENTICATION :: byte where [simp]: "TELOPT_AUTHENTICATION = 37"
definition TELOPT_ENCRYPT :: byte where [simp]: "TELOPT_ENCRYPT = 38"
definition TELOPT_NEW_ENVIRON :: byte where [simp]: "TELOPT_NEW_ENVIRON = 39"

section \<open>Sub-option qualifiers\<close>

definition TELQUAL_IS :: byte where [simp]: "TELQUAL_IS = 0"
definition TELQUAL_SEND :: byte where [simp]: "TELQUAL_SEND = 1"
definition TELQUAL_INFO :: byte where [simp]: "TELQUAL_INFO = 2"
definition TELQUAL_REPLY :: byte where [simp]: "TELQUAL_REPLY = 2"
definition TELQUAL_NAME :: byte where [simp]: "TELQUAL_NAME = 3"
definition LFLOW_OFF :: byte where [simp]: "LFLOW_OFF = 0"
definition LFLOW_ON :: byte where [simp]: "LFLOW_ON = 1"
definition LFLOW_RESTART_ANY :: byte where [simp]: "LFLOW_RESTART_ANY = 2"
definition LFLOW_RESTART_XON :: byte where [simp]: "LFLOW_RESTART_XON = 3"

section \<open>Environment sub-option\<close>

definition OLD_ENV_VAR :: byte where [simp]: "OLD_ENV_VAR = 1"
definition OLD_ENV_VALUE :: byte where [simp]: "OLD_ENV_VALUE = 0"
definition NEW_ENV_VAR :: byte where [simp]: "NEW_ENV_VAR = 0"
definition NEW_ENV_VALUE :: byte where [simp]: "NEW_ENV_VALUE = 1"
definition ENV_ESC :: byte where [simp]: "ENV_ESC = 2"
definition ENV_USERVAR :: byte where [simp]: "ENV_USERVAR = 3"

section \<open>Special characters\<close>

definition NSLC :: byte where [simp]: "NSLC = 18"
definition SLC_NOSUPPORT :: byte where [simp]: "SLC_NOSUPPORT = 0"
definition SLC_CANTCHANGE :: byte where [simp]: "SLC_CANTCHANGE = 1"
definition SLC_VARIABLE :: byte where [simp]: "SLC_VARIABLE = 2"
definition SLC_DEFAULT :: byte where [simp]: "SLC_DEFAULT = 3"
definition SLC_LEVELBITS :: byte where [simp]: "SLC_LEVELBITS = 3"
definition SLC_ACK :: byte where [simp]: "SLC_ACK = 128"
definition SLC_FLUSHIN :: byte where [simp]: "SLC_FLUSHIN = 64"
definition SLC_FLUSHOUT :: byte where [simp]: "SLC_FLUSHOUT = 32"
definition SLC_IP :: byte where [simp]: "SLC_IP = 3"
definition SLC_AO :: byte where [simp]: "SLC_AO = 4"
definition SLC_ABORT :: byte where [simp]: "SLC_ABORT = 7"
definition SLC_EOF :: byte where [simp]: "SLC_EOF = 8"
definition SLC_SUSP :: byte where [simp]: "SLC_SUSP = 9"
definition SLC_EC :: byte where [simp]: "SLC_EC = 10"
definition SLC_EL :: byte where [simp]: "SLC_EL = 11"
definition SLC_XON :: byte where [simp]: "SLC_XON = 15"
definition SLC_XOFF :: byte where [simp]: "SLC_XOFF = 16"
definition LM_SLC :: byte where [simp]: "LM_SLC = 3"
definition SLC_SYNCH :: byte where [simp]: "SLC_SYNCH = 1"
definition SLC_BRK :: byte where [simp]: "SLC_BRK = 2"
definition SLC_AYT :: byte where [simp]: "SLC_AYT = 5"
definition SLC_EOR :: byte where [simp]: "SLC_EOR = 6"
definition SLC_EW :: byte where [simp]: "SLC_EW = 12"
definition SLC_RP :: byte where [simp]: "SLC_RP = 13"
definition SLC_LNEXT :: byte where [simp]: "SLC_LNEXT = 14"
definition SLC_FORW1 :: byte where [simp]: "SLC_FORW1 = 17"
definition SLC_FORW2 :: byte where [simp]: "SLC_FORW2 = 18"
definition LM_MODE :: byte where [simp]: "LM_MODE = 1"
definition LM_FORWARDMASK :: byte where [simp]: "LM_FORWARDMASK = 2"
definition MODE_EDIT :: byte where [simp]: "MODE_EDIT = 1"
definition MODE_TRAPSIG :: byte where [simp]: "MODE_TRAPSIG = 2"
definition MODE_ACK :: byte where [simp]: "MODE_ACK = 4"
definition MODE_SOFT_TAB :: byte where [simp]: "MODE_SOFT_TAB = 8"
definition MODE_LIT_ECHO :: byte where [simp]: "MODE_LIT_ECHO = 16"
definition MODE_MASK :: byte where [simp]: "MODE_MASK = 31"

section \<open>Terminal modes\<close>

definition MODE_FLOW :: "32 word" where [simp]: "MODE_FLOW = 256"
definition MODE_ECHO :: "32 word" where [simp]: "MODE_ECHO = 512"
definition MODE_INBIN :: "32 word" where [simp]: "MODE_INBIN = 1024"
definition MODE_OUTBIN :: "32 word" where [simp]: "MODE_OUTBIN = 2048"
definition MODE_FORCE :: "32 word" where [simp]: "MODE_FORCE = 4096"

section \<open>Authentication\<close>

definition AUTH_WHO_CLIENT :: byte where [simp]: "AUTH_WHO_CLIENT = 0"
definition AUTH_HOW_ONE_WAY :: byte where [simp]: "AUTH_HOW_ONE_WAY = 0"
definition AUTH_HOW_MUTUAL :: byte where [simp]: "AUTH_HOW_MUTUAL = 2"
definition AUTH_HOW_MASK :: byte where [simp]: "AUTH_HOW_MASK = 2"
definition AUTH_ENCRYPT_ON :: byte where [simp]: "AUTH_ENCRYPT_ON = 4"
definition AUTH_ENCRYPT_MASK :: byte where [simp]: "AUTH_ENCRYPT_MASK = 4"
definition AUTHTYPE_NULL :: byte where [simp]: "AUTHTYPE_NULL = 0"
definition AUTHTYPE_KERBEROS_V4 :: byte where [simp]: "AUTHTYPE_KERBEROS_V4 = 1"
definition AUTHTYPE_KERBEROS_V5 :: byte where [simp]: "AUTHTYPE_KERBEROS_V5 = 2"

section \<open>Encryption\<close>

definition ENCRYPT_IS :: byte where [simp]: "ENCRYPT_IS = 0"
definition ENCRYPT_SUPPORT :: byte where [simp]: "ENCRYPT_SUPPORT = 1"
definition ENCRYPT_REPLY :: byte where [simp]: "ENCRYPT_REPLY = 2"
definition ENCRYPT_START :: byte where [simp]: "ENCRYPT_START = 3"
definition ENCRYPT_END :: byte where [simp]: "ENCRYPT_END = 4"
definition ENCRYPT_REQSTART :: byte where [simp]: "ENCRYPT_REQSTART = 5"
definition ENCRYPT_REQEND :: byte where [simp]: "ENCRYPT_REQEND = 6"
definition ENCRYPT_ENC_KEYID :: byte where [simp]: "ENCRYPT_ENC_KEYID = 7"
definition ENCRYPT_DEC_KEYID :: byte where [simp]: "ENCRYPT_DEC_KEYID = 8"

section \<open>Encryption types\<close>

definition ENCTYPE_DES_CFB64 :: int where [simp]: "ENCTYPE_DES_CFB64 = 1"
definition ENCTYPE_DES_OFB64 :: int where [simp]: "ENCTYPE_DES_OFB64 = 2"
definition ENCTYPE_CNT :: int where [simp]: "ENCTYPE_CNT = 3"

end
