(* ===== verification/Genget.thy ===== *)
theory Genget
  imports Prelude
begin

text \<open>
  Keyword lookup with unambiguous prefixes (telnet/libtelnet/genget.c): \<open>isprefix\<close> and
  \<open>genget\<close>, which the user commands of the telnet programs use to find an entry of a
  table. A C string is the list of its bytes before the NUL; \<open>isupper\<close> and \<open>tolower\<close> are
  those of the C locale.
\<close>

definition LOWER :: "byte \<Rightarrow> byte" where
  "LOWER x = (if 65 \<le> x \<and> x \<le> 90 then x + 32 else x)"

text \<open>
  The scan of \<open>isprefix\<close> from offset \<open>n\<close>: the characters that are left of both strings.
\<close>

fun isprefix_scan :: "nat \<Rightarrow> byte list \<Rightarrow> byte list \<Rightarrow> int" where
  "isprefix_scan n [] [] = - int n"
| "isprefix_scan n [] (y # ys) = int n"
| "isprefix_scan n (x # xs) [] = 0"
| "isprefix_scan n (x # xs) (y # ys) =
     (if LOWER x = LOWER y then isprefix_scan (n + 1) xs ys else 0)"

definition isprefix :: "byte list \<Rightarrow> byte list \<Rightarrow> int" where
  "isprefix s1 s2 = (if s1 = [] then - 1 else isprefix_scan 0 s1 s2)"

datatype 'a genget_result = NotFound | AmbiguousName | Found 'a

text \<open>The loop of \<open>genget\<close>; \<open>found\<close> is the entry a proper prefix has matched so far.\<close>

fun genget_loop :: "byte list \<Rightarrow> 'a option \<Rightarrow> (byte list \<times> 'a) list \<Rightarrow> 'a genget_result" where
  "genget_loop name found [] = (case found of None \<Rightarrow> NotFound | Some e \<Rightarrow> Found e)"
| "genget_loop name found ((s, e) # tab) =
     (let n = isprefix name s
      in if n = 0 then genget_loop name found tab
         else if n < 0 then Found e
         else if found \<noteq> None then AmbiguousName
         else genget_loop name (Some e) tab)"

definition genget :: "byte list option \<Rightarrow> (byte list \<times> 'a) list \<Rightarrow> 'a genget_result" where
  "genget name table =
     (case name of None \<Rightarrow> NotFound | Some nm \<Rightarrow> genget_loop nm None table)"

section \<open>What the functions compute\<close>

definition lower :: "byte list \<Rightarrow> byte list" where "lower = map LOWER"

lemma isprefix_scan_spec:
  "isprefix_scan n xs ys =
     (if lower xs = lower ys then - int (n + length xs)
      else if take (length xs) (lower ys) = lower xs then int (n + length xs)
      else 0)"
  by (induction n xs ys rule: isprefix_scan.induct) (auto simp: lower_def)

lemma isprefix_spec:
  assumes "s1 \<noteq> []"
  shows "isprefix s1 s2 =
     (if lower s1 = lower s2 then - int (length s1)
      else if take (length s1) (lower s2) = lower s1 then int (length s1)
      else 0)"
  using assms isprefix_scan_spec [of 0 s1 s2] by (simp add: isprefix_def)

definition exact :: "byte list \<Rightarrow> byte list \<Rightarrow> bool" where
  "exact nm s = (lower nm = lower s)"

definition proper_prefix :: "byte list \<Rightarrow> byte list \<Rightarrow> bool" where
  "proper_prefix nm s = (lower nm \<noteq> lower s \<and> take (length nm) (lower s) = lower nm)"

lemma isprefix_cases:
  assumes "nm \<noteq> []"
  shows "isprefix nm s < 0 \<longleftrightarrow> exact nm s" "isprefix nm s > 0 \<longleftrightarrow> proper_prefix nm s"
    "isprefix nm s = 0 \<longleftrightarrow> \<not> exact nm s \<and> \<not> proper_prefix nm s"
  using assms by (auto simp: isprefix_spec exact_def proper_prefix_def)

text \<open>
  With no exact match in the table, the loop returns the first exact match before the
  second prefix match; in particular:
\<close>

lemma genget_loop_exact_free:
  assumes "nm \<noteq> []" "\<And>s e. (s, e) \<in> set tab \<Longrightarrow> \<not> exact nm s"
  shows "genget_loop nm found tab =
    (case (case found of None \<Rightarrow> [] | Some e \<Rightarrow> [e]) @ map snd (filter (\<lambda>(s, e). proper_prefix nm s) tab) of
       [] \<Rightarrow> NotFound | [e] \<Rightarrow> Found e | _ \<Rightarrow> AmbiguousName)"
  using assms
proof (induction tab arbitrary: found)
  case Nil
  then show ?case by (simp split: option.splits)
next
  case (Cons p tab)
  obtain s e where p: "p = (s, e)" by (cases p)
  have ne: "\<not> exact nm s" using Cons.prems p by auto
  have IH: "genget_loop nm f tab = (case (case f of None \<Rightarrow> [] | Some e \<Rightarrow> [e]) @ map snd (filter (\<lambda>(s, e). proper_prefix nm s) tab) of
       [] \<Rightarrow> NotFound | [e] \<Rightarrow> Found e | _ \<Rightarrow> AmbiguousName)" for f
    using Cons.IH [of f] Cons.prems by auto
  note C = isprefix_cases [OF Cons.prems(1), of s]
  show ?case
  proof (cases "proper_prefix nm s")
    case True
    then have "isprefix nm s > 0" using C by simp
    then show ?thesis using True IH by (auto simp: p Let_def split: option.splits)
  next
    case False
    then have "isprefix nm s = 0" using C ne by simp
    then show ?thesis using False IH by (simp add: p Let_def)
  qed
qed

lemma genget_loop_exact:
  assumes "nm \<noteq> []" "exact nm s" "\<And>t e. (t, e) \<in> set pre \<Longrightarrow> \<not> exact nm t"
    "length (filter (\<lambda>(t, e). proper_prefix nm t) pre) + (if found = None then 0 else 1) \<le> 1"
  shows "genget_loop nm found (pre @ (s, e) # post) = Found e"
  using assms(3,4)
proof (induction pre arbitrary: found)
  case Nil
  then show ?case using isprefix_cases [OF assms(1), of s] assms(2) by (simp add: Let_def)
next
  case (Cons p pre)
  obtain t d where p: "p = (t, d)" by (cases p)
  have ne: "\<not> exact nm t" using Cons.prems p by auto
  note C = isprefix_cases [OF assms(1), of t]
  show ?case
  proof (cases "proper_prefix nm t")
    case True
    then have "isprefix nm t > 0" using C by simp
    moreover have "found = None" using True Cons.prems(2) p by (auto split: if_splits)
    ultimately show ?thesis using True Cons.IH [of "Some d"] Cons.prems by (auto simp: p Let_def)
  next
    case False
    then have "isprefix nm t = 0" using C ne by simp
    then show ?thesis using False Cons.IH [of found] Cons.prems by (auto simp: p Let_def)
  qed
qed

section \<open>Properties\<close>

text \<open>Keyword lookup: when no entry of the table equals the name, up to the case of
  letters, the lookup finds the entry of which the name is a prefix if there is just one,
  says the name is ambiguous if there are more, and finds nothing if there is none.\<close>

theorem genget_prefix_lookup:
  assumes "nm \<noteq> []" "\<And>s e. (s, e) \<in> set table \<Longrightarrow> \<not> exact nm s"
  shows "genget (Some nm) table =
    (case map snd (filter (\<lambda>(s, e). proper_prefix nm s) table) of
       [] \<Rightarrow> NotFound | [e] \<Rightarrow> Found e | _ \<Rightarrow> AmbiguousName)"
  using genget_loop_exact_free [OF assms, where found = None] by (simp add: genget_def)

lemma genget_prefix_lookup_witness:
  "genget (Some [100]) [([68, 69], 1 :: nat), ([100, 70], 2), ([71], 3)] = AmbiguousName"
  by (subst genget_prefix_lookup) (auto simp: exact_def proper_prefix_def lower_def LOWER_def)

text \<open>The empty name is an exact match of the first entry of any table: \<open>isprefix\<close>
  returns -1 for it.\<close>

lemma genget_empty_name: "genget (Some []) ((s, e) # table) = Found e"
  by (simp add: genget_def isprefix_def)

end
