(* ===== verification/EncState.thy ===== *)
theory EncState
  imports Telnet_Proto
begin

text \<open>
  The state of the telnet encryption library (telnet/libtelnet/encrypt.c and enc_des.c),
  which both the client and the server link. The static variables of the two files are one
  record, because their functions call each other: the cipher module sends key ids through
  \<open>encrypt_send_keyid\<close>, the negotiation calls the ciphers through the table of
  \<open>Encryptions\<close>. The library hands bytes to its program by calling \<open>net_write\<close> and
  \<open>net_encrypt\<close>; the calls are recorded in \<open>net_out\<close> in order. The other events are the
  server's own calls of its network routines (\<open>netflush\<close>, \<open>netclear\<close>, \<open>netprintf_urg\<close>),
  which go to the same log.
\<close>

section \<open>Types\<close>

text \<open>\<open>DIR_DECRYPT\<close> is 1 and \<open>DIR_ENCRYPT\<close> is 2: the C code indexes its arrays with \<open>dir-1\<close>.\<close>

datatype dir = DIR_DECRYPT | DIR_ENCRYPT

datatype mode = CFB | OFB

datatype net_event =
    Net_write "byte list" | Net_encrypt
  | Net_flush | Net_clear | Net_urgent "byte list"

text \<open>
  One direction of a cipher. \<open>str_key\<close> is \<open>None\<close> while it is the zeroed key block of
  \<open>memset\<close>, and else the key block that \<open>fb64_stream_key\<close> fills in: eight bytes,
  held in \<open>str_keybytes\<close>, of the raw DES type.
\<close>

record stinfo =
  str_output :: "byte list"
  str_feed :: "byte list"
  str_iv :: "byte list"
  str_keybytes :: "byte list"
  str_key :: "byte list option"
  str_index :: nat
  str_flagshift :: nat

record fb =
  temp_feed :: "byte list"
  fb_feed :: "byte list"
  need_start :: bool
  fb_state :: "dir \<Rightarrow> int"
  validkey :: bool
  streams :: "dir \<Rightarrow> stinfo"

record key_info =
  keyid :: "byte list"
  keylen :: nat

text \<open>
  \<open>ki DIR_ENCRYPT\<close> is \<open>ki[0]\<close> and \<open>ki DIR_DECRYPT\<close> is \<open>ki[1]\<close>. The function pointers
  \<open>encrypt_output\<close> and \<open>decrypt_input\<close> are null or a routine of one of the two ciphers.
  \<open>randoms\<close> holds what the next calls of \<open>krb5_c_random_make_octets\<close> return: eight bytes or
  a failure.
\<close>

record enc_state =
  fbs :: "mode \<Rightarrow> fb"
  ki :: "dir \<Rightarrow> key_info"
  encrypt_mode :: int
  decrypt_mode :: int
  encrypt_output :: "mode option"
  decrypt_input :: "mode option"
  autoencrypt :: bool
  autodecrypt :: bool
  havesessionkey :: bool
  Server :: bool
  i_support_encrypt :: int
  i_support_decrypt :: int
  i_wont_support_encrypt :: int
  i_wont_support_decrypt :: int
  remote_supports_encrypt :: int
  remote_supports_decrypt :: int
  str_send :: "byte list"
  str_suplen :: nat
  randoms :: "byte list option list"
  net_out :: "net_event list"

definition MAXKEYLEN :: nat where "MAXKEYLEN = 64"

section \<open>Small steps\<close>

definition net_write :: "byte list \<Rightarrow> enc_state \<Rightarrow> enc_state" where
  "net_write xs s = s\<lparr>net_out := net_out s @ [Net_write xs]\<rparr>"

definition net_encrypt :: "enc_state \<Rightarrow> enc_state" where
  "net_encrypt s = s\<lparr>net_out := net_out s @ [Net_encrypt]\<rparr>"

text \<open>\<open>memcpy\<close> into an array, at an offset.\<close>

definition put_at :: "nat \<Rightarrow> byte list \<Rightarrow> byte list \<Rightarrow> byte list" where
  "put_at i xs buf = take i buf @ xs @ drop (i + length xs) buf"

text \<open>The copy loops that double every \<open>IAC\<close>.\<close>

fun iac_double :: "byte list \<Rightarrow> byte list" where
  "iac_double [] = []"
| "iac_double (x # xs) = (if x = IAC then IAC # IAC # iac_double xs else x # iac_double xs)"

definition upd_fb :: "mode \<Rightarrow> (fb \<Rightarrow> fb) \<Rightarrow> enc_state \<Rightarrow> enc_state" where
  "upd_fb m f s = s\<lparr>fbs := (fbs s)(m := f (fbs s m))\<rparr>"

definition upd_ki :: "dir \<Rightarrow> (key_info \<Rightarrow> key_info) \<Rightarrow> enc_state \<Rightarrow> enc_state" where
  "upd_ki d f s = s\<lparr>ki := (ki s)(d := f (ki s d))\<rparr>"

definition upd_stream :: "dir \<Rightarrow> (stinfo \<Rightarrow> stinfo) \<Rightarrow> fb \<Rightarrow> fb" where
  "upd_stream d f b = b\<lparr>streams := (streams b)(d := f (streams b d))\<rparr>"

definition set_fb_state :: "dir \<Rightarrow> int \<Rightarrow> fb \<Rightarrow> fb" where
  "set_fb_state d v b = b\<lparr>fb_state := (fb_state b)(d := v)\<rparr>"

text \<open>Evaluation keeps the two entries of each array apart.\<close>

fun per_mode :: "'a \<Rightarrow> 'a \<Rightarrow> mode \<Rightarrow> 'a" where
  "per_mode a b CFB = a"
| "per_mode a b OFB = b"

fun per_dir :: "'a \<Rightarrow> 'a \<Rightarrow> dir \<Rightarrow> 'a" where
  "per_dir a b DIR_DECRYPT = a"
| "per_dir a b DIR_ENCRYPT = b"

lemma upd_mode_code:
  "(g(m := v)) = (case m of CFB \<Rightarrow> per_mode v (g OFB) | OFB \<Rightarrow> per_mode (g CFB) v)"
  by (rule ext) (simp split: mode.split, metis mode.exhaust per_mode.simps)

lemma upd_dir_code:
  "(g(d := v)) = (case d of DIR_DECRYPT \<Rightarrow> per_dir v (g DIR_ENCRYPT)
                          | DIR_ENCRYPT \<Rightarrow> per_dir (g DIR_DECRYPT) v)"
  by (rule ext) (simp split: dir.split, metis dir.exhaust per_dir.simps)

lemmas update_code [code] =
  upd_fb_def [unfolded upd_mode_code] upd_ki_def [unfolded upd_dir_code]
  upd_stream_def [unfolded upd_dir_code] set_fb_state_def [unfolded upd_dir_code]

lemma put_at_length [simp]: "i + length xs \<le> length buf \<Longrightarrow> length (put_at i xs buf) = length buf"
  by (simp add: put_at_def)

lemma iac_double_length: "length (iac_double xs) \<le> 2 * length xs"
  by (induction xs) auto

section \<open>\<open>encrypt_send_keyid\<close>\<close>

text \<open>
  Tells the peer a key id, and when \<open>saveit\<close> is set also stores it as ours. It belongs to
  encrypt.c and stands here because the cipher module calls it.
\<close>

definition encrypt_send_keyid :: "dir \<Rightarrow> byte list \<Rightarrow> nat \<Rightarrow> bool \<Rightarrow> enc_state \<Rightarrow> enc_state" where
  "encrypt_send_keyid dir kid klen saveit s =
     (let s = (if saveit
               then upd_ki dir (\<lambda>k. k\<lparr>keyid := put_at 0 (take klen kid) (keyid k), keylen := klen\<rparr>) s
               else s)
      in net_write ([IAC, SB, TELOPT_ENCRYPT,
                     if dir = DIR_ENCRYPT then ENCRYPT_ENC_KEYID else ENCRYPT_DEC_KEYID] @
                    iac_double (take klen kid) @ [IAC, SE]) s)"

end
