(* ===== verification/EncDes.thy ===== *)
theory EncDes
  imports EncState Cipher
begin

text \<open>
  The DES stream ciphers of the telnet encryption option (telnet/libtelnet/enc_des.c): the
  64-bit cipher feedback and output feedback modes, and the sub-negotiation that agrees on
  an initial vector and a key id. The block cipher itself is \<open>krb5_c_encrypt\<close> of the
  Kerberos library; it is the parameter \<open>des\<close>: the eight bytes the call leaves in its
  output block, for a key block and an input block.
\<close>

section \<open>Constants\<close>

definition NO_SEND_IV :: int where [simp]: "NO_SEND_IV = 1"
definition NO_RECV_IV :: int where [simp]: "NO_RECV_IV = 2"
definition NO_KEYID :: int where [simp]: "NO_KEYID = 4"
definition IN_PROGRESS :: int where
  [simp]: "IN_PROGRESS = (NO_SEND_IV OR NO_RECV_IV OR NO_KEYID)"
definition FAILED :: int where [simp]: "FAILED = - 1"

definition FB64_IV :: byte where [simp]: "FB64_IV = 1"
definition FB64_IV_OK :: byte where [simp]: "FB64_IV_OK = 2"
definition FB64_IV_BAD :: byte where [simp]: "FB64_IV_BAD = 3"

definition SHIFT_VAL :: "nat \<Rightarrow> nat \<Rightarrow> nat" where
  "SHIFT_VAL a b = 2 * (a + b * 2)"

definition SK_DES :: int where [simp]: "SK_DES = 1"

record Session_Key =
  sk_type :: int
  sk_length :: int
  sk_data :: "byte list"

section \<open>Initialisation\<close>

definition zero_block :: "byte list" where "zero_block = replicate 8 0"

definition zero_stinfo :: stinfo where
  "zero_stinfo = \<lparr>str_output = zero_block, str_feed = zero_block, str_iv = zero_block,
     str_keybytes = zero_block, str_key = None, str_index = 0, str_flagshift = 0\<rparr>"

definition zero_fb :: fb where
  "zero_fb = \<lparr>temp_feed = zero_block, fb_feed = replicate 64 0, need_start = False,
     fb_state = (\<lambda>_. 0), validkey = False, streams = (\<lambda>_. zero_stinfo)\<rparr>"

definition fb64_init :: "fb \<Rightarrow> fb" where
  "fb64_init fbp =
     zero_fb\<lparr>fb_state := (\<lambda>_. FAILED),
       fb_feed := put_at 0 [IAC, SB, TELOPT_ENCRYPT, ENCRYPT_IS] (fb_feed zero_fb)\<rparr>"

definition cfb64_init :: "enc_state \<Rightarrow> enc_state" where
  "cfb64_init s =
     upd_fb CFB (\<lambda>b.
       upd_stream DIR_DECRYPT (\<lambda>st. st\<lparr>str_flagshift := SHIFT_VAL 0 0\<rparr>)
         (upd_stream DIR_ENCRYPT (\<lambda>st. st\<lparr>str_flagshift := SHIFT_VAL 1 0\<rparr>)
           ((fb64_init b)\<lparr>fb_feed := put_at 4 [1] (fb_feed (fb64_init b))\<rparr>))) s"

text \<open>The output-feedback initialisation sets the flag shifts of the \<open>CFB\<close> streams, as the source does.\<close>

definition ofb64_init :: "enc_state \<Rightarrow> enc_state" where
  "ofb64_init s =
     upd_fb CFB (\<lambda>b.
       upd_stream DIR_DECRYPT (\<lambda>st. st\<lparr>str_flagshift := SHIFT_VAL 0 1\<rparr>)
         (upd_stream DIR_ENCRYPT (\<lambda>st. st\<lparr>str_flagshift := SHIFT_VAL 1 1\<rparr>) b))
       (upd_fb OFB (\<lambda>b. (fb64_init b)\<lparr>fb_feed := put_at 4 [2] (fb_feed (fb64_init b))\<rparr>) s)"

section \<open>The initial vector and the key\<close>

definition fb64_stream_iv :: "byte list \<Rightarrow> stinfo \<Rightarrow> stinfo" where
  "fb64_stream_iv seed stp =
     stp\<lparr>str_iv := take 8 seed, str_output := take 8 seed, str_index := 8\<rparr>"

definition fb64_stream_key :: "byte list \<Rightarrow> stinfo \<Rightarrow> stinfo" where
  "fb64_stream_key key stp =
     stp\<lparr>str_keybytes := take 8 key, str_key := Some (take 8 key),
         str_output := str_iv stp, str_index := 8\<rparr>"

section \<open>The sub-negotiation\<close>

text \<open>
  \<open>fb64_start\<close>: ask for an initial vector to be used. The message is written into the
  \<open>fb_feed\<close> array from offset 3, skipping the cipher type at offset 4.
\<close>

definition feed_message :: "byte \<Rightarrow> byte list \<Rightarrow> byte list \<Rightarrow> byte list" where
  "feed_message sub payload feed = put_at 5 payload (put_at 3 [sub] feed)"

definition fb64_start :: "mode \<Rightarrow> dir \<Rightarrow> bool \<Rightarrow> enc_state \<Rightarrow> int \<times> enc_state" where
  "fb64_start m dir server s =
     (let state = fb_state (fbs s m) dir
      in case dir of
        DIR_DECRYPT \<Rightarrow>
          (let state = (if state = FAILED then IN_PROGRESS else state)
           in (state, upd_fb m (set_fb_state dir state) s))
      | DIR_ENCRYPT \<Rightarrow>
          if state \<noteq> FAILED \<and> state AND NO_SEND_IV = 0
          then (state, upd_fb m (set_fb_state dir state) s)
          else
            let state = (if state = FAILED then IN_PROGRESS else state)
            in if \<not> validkey (fbs s m)
               then (state, upd_fb m (\<lambda>b. set_fb_state dir state (b\<lparr>need_start := True\<rparr>)) s)
               else
                 let state = (state AND NOT NO_SEND_IV) OR NO_RECV_IV
                 in case randoms s of
                      Some feed # rs \<Rightarrow>
                        (let feed = take 8 feed;
                             payload = FB64_IV # iac_double feed @ [IAC, SE];
                             buf = feed_message ENCRYPT_IS payload (fb_feed (fbs s m));
                             s = s\<lparr>randoms := rs\<rparr>;
                             s = upd_fb m (\<lambda>b. b\<lparr>temp_feed := feed, fb_feed := buf\<rparr>) s;
                             s = net_write (take (5 + length payload) buf) s
                         in (state, upd_fb m (set_fb_state dir state) s))
                    | None # rs \<Rightarrow> (FAILED, s\<lparr>randoms := rs\<rparr>)
                    | [] \<Rightarrow> (FAILED, s))"

text \<open>
  \<open>fb64_is\<close>: the peer sends its initial vector. The failure label sends \<open>FB64_IV_BAD\<close> and
  keeps the state the jump left in \<open>state\<close>.
\<close>

definition fb64_feed_reply :: "mode \<Rightarrow> byte \<Rightarrow> enc_state \<Rightarrow> enc_state" where
  "fb64_feed_reply m what s =
     (let payload = [what, IAC, SE];
          buf = feed_message ENCRYPT_REPLY payload (fb_feed (fbs s m))
      in net_write (take (5 + length payload) buf) (upd_fb m (\<lambda>b. b\<lparr>fb_feed := buf\<rparr>) s))"

definition fb64_is :: "mode \<Rightarrow> byte list \<Rightarrow> enc_state \<Rightarrow> int \<times> enc_state" where
  "fb64_is m data s =
     (let state = fb_state (fbs s m) DIR_DECRYPT;
          failure = (\<lambda>state. (state, upd_fb m (set_fb_state DIR_DECRYPT state)
                                       (fb64_feed_reply m FB64_IV_BAD s)))
      in case data of
           [] \<Rightarrow> failure state
         | op # data \<Rightarrow>
             if op = FB64_IV then
               if length data \<noteq> 8 then failure FAILED
               else
                 let s = upd_fb m (upd_stream DIR_DECRYPT (fb64_stream_iv data)) s;
                     s = fb64_feed_reply m FB64_IV_OK s
                 in (IN_PROGRESS, upd_fb m (set_fb_state DIR_DECRYPT IN_PROGRESS) s)
             else failure state)"

definition fb64_reply :: "mode \<Rightarrow> byte list \<Rightarrow> enc_state \<Rightarrow> int \<times> enc_state" where
  "fb64_reply m data s =
     (let state = fb_state (fbs s m) DIR_ENCRYPT;
          failure = (FAILED, upd_fb m (set_fb_state DIR_ENCRYPT FAILED) s)
      in case data of
           [] \<Rightarrow> failure
         | op # data \<Rightarrow>
             if op = FB64_IV_OK then
               let s = upd_fb m (\<lambda>b. upd_stream DIR_ENCRYPT (fb64_stream_iv (temp_feed b)) b) s;
                   state = (if state = FAILED then IN_PROGRESS else state);
                   state = state AND NOT NO_RECV_IV;
                   s = encrypt_send_keyid DIR_ENCRYPT [0] 1 True s
               in (state, upd_fb m (set_fb_state DIR_ENCRYPT state) s)
             else if op = FB64_IV_BAD then
               let s = upd_fb m (\<lambda>b. b\<lparr>temp_feed := zero_block\<rparr>) s;
                   s = upd_fb m (\<lambda>b. upd_stream DIR_ENCRYPT (fb64_stream_iv (temp_feed b)) b) s
               in (FAILED, upd_fb m (set_fb_state DIR_ENCRYPT FAILED) s)
             else failure)"

definition fb64_session :: "mode \<Rightarrow> Session_Key option \<Rightarrow> bool \<Rightarrow> enc_state \<Rightarrow> enc_state" where
  "fb64_session m key server s =
     (case key of
        None \<Rightarrow> s
      | Some k \<Rightarrow>
          if sk_type k \<noteq> SK_DES then s
          else
            let s = upd_fb m (\<lambda>b.
                      upd_stream DIR_DECRYPT (fb64_stream_key (sk_data k))
                        (upd_stream DIR_ENCRYPT (fb64_stream_key (sk_data k))
                          (b\<lparr>validkey := True\<rparr>))) s
            in if need_start (fbs s m)
               then snd (fb64_start m DIR_ENCRYPT server (upd_fb m (\<lambda>b. b\<lparr>need_start := False\<rparr>) s))
               else s)"

text \<open>
  \<open>fb64_keyid\<close>: only the one-byte key id 0 is accepted. The second component of the result
  is the length it leaves in \<open>*lenp\<close>.
\<close>

definition fb64_keyid :: "mode \<Rightarrow> dir \<Rightarrow> byte list \<Rightarrow> nat \<Rightarrow> enc_state \<Rightarrow> int \<times> nat \<times> enc_state" where
  "fb64_keyid m dir kp len s =
     (let state = fb_state (fbs s m) dir
      in if len \<noteq> 1 \<or> kp ! 0 \<noteq> 0 then (state, 0, s)
         else
           let state = (if state = FAILED then IN_PROGRESS else state);
               state = state AND NOT NO_KEYID
           in (state, len, upd_fb m (set_fb_state dir state) s))"

section \<open>The ciphers\<close>

definition ecb_encrypt ::
  "(byte list option \<Rightarrow> byte list \<Rightarrow> byte list) \<Rightarrow> stinfo \<Rightarrow> byte list \<Rightarrow> byte list" where
  "ecb_encrypt des stp inp = des (str_key stp) inp"

text \<open>
  The encryptors run over a buffer, keeping the index in a local variable that is stored
  back at the end. Each step refills the feed when a block is used up.
\<close>

fun cfb64_encrypt ::
  "(byte list option \<Rightarrow> byte list \<Rightarrow> byte list) \<Rightarrow> stinfo \<Rightarrow> byte list \<Rightarrow> byte list \<times> stinfo" where
  "cfb64_encrypt des stp [] = ([], stp)"
| "cfb64_encrypt des stp (x # xs) =
     (let idx = str_index stp;
          (stp, idx) = (if idx = 8
                        then (stp\<lparr>str_feed := ecb_encrypt des stp (str_output stp)\<rparr>, 0)
                        else (stp, idx));
          y = str_feed stp ! idx XOR x;
          stp = stp\<lparr>str_output := (str_output stp)[idx := y], str_index := idx + 1\<rparr>;
          (ys, stp) = cfb64_encrypt des stp xs
      in (y # ys, stp))"

text \<open>\<open>cfb64_decrypt\<close> takes one byte; called with \<open>-1\<close> it backs up by one byte instead.\<close>

definition cfb64_decrypt ::
  "(byte list option \<Rightarrow> byte list \<Rightarrow> byte list) \<Rightarrow> stinfo \<Rightarrow> byte \<Rightarrow> byte \<times> stinfo" where
  "cfb64_decrypt des stp data =
     (let idx = str_index stp;
          stp = stp\<lparr>str_index := idx + 1\<rparr>;
          (stp, idx) = (if idx = 8
                        then (stp\<lparr>str_feed := ecb_encrypt des stp (str_output stp), str_index := 1\<rparr>, 0)
                        else (stp, idx));
          stp = stp\<lparr>str_output := (str_output stp)[idx := data]\<rparr>
      in (data XOR str_feed stp ! idx, stp))"

definition cfb64_decrypt_back :: "stinfo \<Rightarrow> stinfo" where
  "cfb64_decrypt_back stp =
     (if str_index stp \<noteq> 0 then stp\<lparr>str_index := str_index stp - 1\<rparr> else stp)"

fun ofb64_encrypt ::
  "(byte list option \<Rightarrow> byte list \<Rightarrow> byte list) \<Rightarrow> stinfo \<Rightarrow> byte list \<Rightarrow> byte list \<times> stinfo" where
  "ofb64_encrypt des stp [] = ([], stp)"
| "ofb64_encrypt des stp (x # xs) =
     (let idx = str_index stp;
          (stp, idx) = (if idx = 8
                        then (stp\<lparr>str_feed := ecb_encrypt des stp (str_feed stp)\<rparr>, 0)
                        else (stp, idx));
          y = x XOR str_feed stp ! idx;
          stp = stp\<lparr>str_index := idx + 1\<rparr>;
          (ys, stp) = ofb64_encrypt des stp xs
      in (y # ys, stp))"

definition ofb64_decrypt ::
  "(byte list option \<Rightarrow> byte list \<Rightarrow> byte list) \<Rightarrow> stinfo \<Rightarrow> byte \<Rightarrow> byte \<times> stinfo" where
  "ofb64_decrypt des stp data =
     (let idx = str_index stp;
          stp = stp\<lparr>str_index := idx + 1\<rparr>;
          (stp, idx) = (if idx = 8
                        then (stp\<lparr>str_feed := ecb_encrypt des stp (str_feed stp), str_index := 1\<rparr>, 0)
                        else (stp, idx))
      in (data XOR str_feed stp ! idx, stp))"

definition ofb64_decrypt_back :: "stinfo \<Rightarrow> stinfo" where
  "ofb64_decrypt_back stp =
     (if str_index stp \<noteq> 0 then stp\<lparr>str_index := str_index stp - 1\<rparr> else stp)"

end
