(* ===== verification/EncCipher.thy ===== *)
theory EncCipher
  imports EncDes Network
begin

text \<open>
  The two stream ciphers of enc_des.c provide the cipher interface: encryption is
  compositional over runs of bytes, and a receiver in agreement recovers the sender's bytes
  and stays in agreement. The block cipher \<open>des\<close> is arbitrary throughout.
\<close>

section \<open>Cipher feedback\<close>

text \<open>One byte of \<open>cfb64_encrypt\<close>.\<close>

definition cfb_byte ::
  "(byte list option \<Rightarrow> byte list \<Rightarrow> byte list) \<Rightarrow> stinfo \<Rightarrow> byte \<Rightarrow> byte \<times> stinfo" where
  "cfb_byte des stp x = (hd (fst (cfb64_encrypt des stp [x])), snd (cfb64_encrypt des stp [x]))"

lemma cfb64_encrypt_Cons:
  "cfb64_encrypt des stp (x # xs) =
     (let (y, stp) = cfb_byte des stp x; (ys, stp) = cfb64_encrypt des stp xs in (y # ys, stp))"
  by (simp add: cfb_byte_def Let_def case_prod_beta)

lemma cfb64_encrypt_append:
  "cfb64_encrypt des k (xs @ ys) =
     (fst (cfb64_encrypt des k xs) @ fst (cfb64_encrypt des (snd (cfb64_encrypt des k xs)) ys),
      snd (cfb64_encrypt des (snd (cfb64_encrypt des k xs)) ys))"
proof (induction xs arbitrary: k)
  case Nil
  then show ?case by simp
next
  case (Cons x xs)
  show ?case
    by (simp only: append_Cons cfb64_encrypt_Cons Let_def case_prod_beta fst_conv snd_conv Cons.IH)
qed

lemma cfb64_encrypt_length: "length (fst (cfb64_encrypt des k xs)) = length xs"
  by (induction xs arbitrary: k) (simp_all add: cfb64_encrypt_Cons Let_def case_prod_beta del: cfb64_encrypt.simps(2))

definition cfb_agree :: "stinfo \<Rightarrow> stinfo \<Rightarrow> bool" where
  "cfb_agree e d =
     (str_key e = str_key d \<and> str_index e = str_index d \<and> str_index e \<le> 8 \<and>
      length (str_output e) = 8 \<and> length (str_output d) = 8 \<and>
      take (str_index e) (str_output e) = take (str_index d) (str_output d) \<and>
      (str_index e < 8 \<longrightarrow> str_feed e = str_feed d))"

lemma xor_cancel: "((a :: byte) XOR b) XOR a = b"
  by (simp add: ac_simps)

lemma cfb_dec_byte:
  assumes "cfb_agree e d"
  shows "fst (cfb64_decrypt des d (hd (fst (cfb64_encrypt des e [x])))) = x"
  using assms
  by (auto simp: cfb_agree_def cfb64_decrypt_def ecb_encrypt_def Let_def xor_cancel split: if_splits)

lemma cfb_agree_byte:
  assumes "cfb_agree e d"
  shows "cfb_agree (snd (cfb64_encrypt des e [x]))
           (snd (cfb64_decrypt des d (hd (fst (cfb64_encrypt des e [x])))))"
  using assms
  by (auto simp: cfb_agree_def cfb64_decrypt_def ecb_encrypt_def Let_def take_Suc_snoc
      split: if_splits)

interpretation cfb: stream_cipher "cfb64_encrypt des" "cfb64_decrypt des" cfb_agree for des
  by unfold_locales (simp_all add: cfb64_encrypt_append cfb64_encrypt_length cfb_dec_byte cfb_agree_byte
      del: cfb64_encrypt.simps(2))

section \<open>Output feedback\<close>

lemma ofb64_encrypt_append:
  "ofb64_encrypt des k (xs @ ys) =
     (fst (ofb64_encrypt des k xs) @ fst (ofb64_encrypt des (snd (ofb64_encrypt des k xs)) ys),
      snd (ofb64_encrypt des (snd (ofb64_encrypt des k xs)) ys))"
  by (induction xs arbitrary: k) (simp_all add: Let_def case_prod_beta)

lemma ofb64_encrypt_length: "length (fst (ofb64_encrypt des k xs)) = length xs"
  by (induction xs arbitrary: k) (simp_all add: Let_def case_prod_beta)

definition ofb_agree :: "stinfo \<Rightarrow> stinfo \<Rightarrow> bool" where
  "ofb_agree e d =
     (str_key e = str_key d \<and> str_index e = str_index d \<and> str_index e \<le> 8 \<and>
      str_feed e = str_feed d)"

lemma ofb_dec_byte:
  assumes "ofb_agree e d"
  shows "fst (ofb64_decrypt des d (hd (fst (ofb64_encrypt des e [x])))) = x"
  using assms
  by (auto simp: ofb_agree_def ofb64_decrypt_def ecb_encrypt_def Let_def xor.assoc split: if_splits)

lemma ofb_agree_byte:
  assumes "ofb_agree e d"
  shows "ofb_agree (snd (ofb64_encrypt des e [x]))
           (snd (ofb64_decrypt des d (hd (fst (ofb64_encrypt des e [x])))))"
  using assms
  by (auto simp: ofb_agree_def ofb64_decrypt_def ecb_encrypt_def Let_def split: if_splits)

interpretation ofb: stream_cipher "ofb64_encrypt des" "ofb64_decrypt des" ofb_agree for des
  by unfold_locales (simp_all add: ofb64_encrypt_append ofb64_encrypt_length ofb_dec_byte ofb_agree_byte
      del: ofb64_encrypt.simps(2))

text \<open>The keystream of output feedback depends on the key and the feed alone.\<close>

fun ofb_stream ::
  "(byte list option \<Rightarrow> byte list \<Rightarrow> byte list) \<Rightarrow> byte list option \<Rightarrow> byte list \<Rightarrow> nat \<Rightarrow> nat \<Rightarrow> byte list" where
  "ofb_stream des key feed idx 0 = []"
| "ofb_stream des key feed idx (Suc n) =
     (if idx = 8 then des key feed ! 0 # ofb_stream des key (des key feed) 1 n
      else feed ! idx # ofb_stream des key feed (idx + 1) n)"

lemma ofb64_encrypt_stream:
  "fst (ofb64_encrypt des st xs) =
     map2 (XOR) xs (ofb_stream des (str_key st) (str_feed st) (str_index st) (length xs))"
  by (induction xs arbitrary: st) (simp_all add: Let_def case_prod_beta ecb_encrypt_def)

lemma ofb_stream_length [simp]: "length (ofb_stream des key feed idx n) = n"
  by (induction des key feed idx n rule: ofb_stream.induct) simp_all

lemma map2_xor_cancel:
  "length xs = length zs \<Longrightarrow> length ys = length zs \<Longrightarrow>
   map2 (XOR) (map2 (XOR) xs zs) (map2 (XOR) ys zs) = map2 (XOR) xs (ys :: byte list)"
proof (induction xs zs arbitrary: ys rule: list_induct2')
  case (4 x xs z zs)
  then obtain y ys' where "ys = y # ys'" by (cases ys) auto
  moreover have "(x XOR z) XOR (y XOR z) = x XOR y"
    by (simp add: ac_simps)
  ultimately show ?case using 4 by simp
qed simp_all

text \<open>A direction of a cipher whose session key and initial vector have arrived.\<close>

definition ready_stream :: "byte list \<Rightarrow> byte list \<Rightarrow> stinfo" where
  "ready_stream key iv = fb64_stream_iv iv (fb64_stream_key key zero_stinfo)"

lemma ready_stream_simps [simp]:
  "str_key (ready_stream key iv) = Some (take 8 key)" "str_index (ready_stream key iv) = 8"
  "str_feed (ready_stream key iv) = zero_block" "str_output (ready_stream key iv) = take 8 iv"
  by (simp_all add: ready_stream_def fb64_stream_iv_def fb64_stream_key_def zero_stinfo_def)

lemma cfb_agree_ready: "8 \<le> length iv \<Longrightarrow> cfb_agree (ready_stream key iv) (ready_stream key iv)"
  by (simp add: cfb_agree_def)

section \<open>Properties\<close>

text \<open>C13. Cipher feedback: for every block cipher, whatever runs of bytes the sender encrypts
  one after the other, a receiver whose stream agrees with the sender's and that decrypts
  byte by byte reads the sender's bytes, and the two streams agree afterwards.\<close>

theorem cfb64_roundtrip:
  assumes "cfb_agree e d"
  shows "let (c, e') = cfb64_encrypt des e xs; (p, d') = decrypt_run (cfb64_decrypt des) d c
         in p = xs \<and> cfb_agree e' d'"
  using cfb.decrypt_run_enc [OF assms, of des xs] by (simp add: Let_def case_prod_beta)

text \<open>A toy block cipher for concrete runs: it reverses the block and adds the key.\<close>

definition toy_des :: "byte list option \<Rightarrow> byte list \<Rightarrow> byte list" where
  "toy_des k b = (case k of None \<Rightarrow> rev b | Some ks \<Rightarrow> map2 (+) ks (rev b))"

lemma cfb64_roundtrip_witness:
  "let (c, e') = cfb64_encrypt toy_des (ready_stream [1, 2, 3, 4, 5, 6, 7, 8] [8, 7, 6, 5, 4, 3, 2, 1]) [104, 105];
       (p, d') = decrypt_run (cfb64_decrypt toy_des) (ready_stream [1, 2, 3, 4, 5, 6, 7, 8] [8, 7, 6, 5, 4, 3, 2, 1]) c
   in p = [104, 105] \<and> cfb_agree e' d'"
  by (rule cfb64_roundtrip) (simp add: cfb_agree_ready)

text \<open>C14. Output feedback has the same property.\<close>

theorem ofb64_roundtrip:
  assumes "ofb_agree e d"
  shows "let (c, e') = ofb64_encrypt des e xs; (p, d') = decrypt_run (ofb64_decrypt des) d c
         in p = xs \<and> ofb_agree e' d'"
  using ofb.decrypt_run_enc [OF assms, of des xs] by (simp add: Let_def case_prod_beta)

lemma ofb64_roundtrip_witness:
  "let (c, e') = ofb64_encrypt toy_des (ready_stream [1, 2, 3, 4, 5, 6, 7, 8] [0]) [104, 105];
       (p, d') = decrypt_run (ofb64_decrypt toy_des) (ready_stream [1, 2, 3, 4, 5, 6, 7, 8] [1]) c
   in p = [104, 105] \<and> ofb_agree e' d'"
  by (rule ofb64_roundtrip) (simp add: ofb_agree_def)

text \<open>Backing up: after a byte has been decrypted, one backing-up call makes the next
  byte decrypt as if the first had never been read, in either mode.\<close>

theorem decrypt_back_up:
  assumes "str_index st \<le> 8"
  shows "cfb64_decrypt des (cfb64_decrypt_back (snd (cfb64_decrypt des st c))) d = cfb64_decrypt des st d \<and>
         ofb64_decrypt des (ofb64_decrypt_back (snd (ofb64_decrypt des st c))) d = ofb64_decrypt des st d"
  using assms
  by (auto simp: cfb64_decrypt_def cfb64_decrypt_back_def ofb64_decrypt_def ofb64_decrypt_back_def Let_def)

lemma decrypt_back_up_witness:
  "cfb64_decrypt toy_des (cfb64_decrypt_back (snd (cfb64_decrypt toy_des zero_stinfo 7))) 9
     = cfb64_decrypt toy_des zero_stinfo 9"
proof -
  have "str_index zero_stinfo \<le> 8" by (simp add: zero_stinfo_def)
  from decrypt_back_up [OF this, of toy_des 7 9] show ?thesis by blast
qed

text \<open>C40. Output feedback ignores the initial vector: \<open>fb64_stream_iv\<close> never sets the feed
  that \<open>ofb64_encrypt\<close> runs on. Two streams under one session key, of the two directions or of
  two connections and whatever their initial vectors, use the same keystream, so the
  exclusive-or of two ciphertexts is that of the plaintexts.\<close>

theorem ofb64_ignores_iv:
  assumes "length xs = length ys"
  shows "map2 (XOR) (fst (ofb64_encrypt des (ready_stream key iv) xs))
                    (fst (ofb64_encrypt des (ready_stream key iv') ys)) = map2 (XOR) xs ys"
  using assms by (simp add: ofb64_encrypt_stream map2_xor_cancel)

lemma ofb64_ignores_iv_witness:
  "map2 (XOR) (fst (ofb64_encrypt toy_des (ready_stream [1, 2, 3, 4, 5, 6, 7, 8] [1, 2, 3, 4, 5, 6, 7, 8]) [104, 105]))
              (fst (ofb64_encrypt toy_des (ready_stream [1, 2, 3, 4, 5, 6, 7, 8] [9, 9, 9, 9, 9, 9, 9, 9]) [98, 121]))
     = map2 (XOR) [104, 105] [98, 121]"
  by (rule ofb64_ignores_iv) simp

end
