(* ===== verification/Encrypt.thy ===== *)
theory Encrypt
  imports EncDes Genget
begin

text \<open>
  The negotiation of the telnet encryption option (telnet/libtelnet/encrypt.c). Each handler
  of a received sub-negotiation and each user command is a function on \<open>enc_state\<close>;
  \<open>enc_event\<close> names them all, and \<open>enc_step\<close> runs one. The debug and verbose output
  of the handlers is left out.
\<close>

section \<open>The table of ciphers\<close>

definition typemask :: "int \<Rightarrow> int" where
  "typemask x = (if x > 0 then push_bit (nat (x - 1)) 1 else 0)"

definition encryptions :: "(int \<times> mode) list" where
  "encryptions = [(ENCTYPE_DES_CFB64, CFB), (ENCTYPE_DES_OFB64, OFB)]"

definition encryption_names :: "(byte list \<times> int) list" where
  "encryption_names = [(c_string ''DES_CFB64'', 1), (c_string ''DES_OFB64'', 2)]"

text \<open>The walk of \<open>findencryption\<close> and \<open>finddecryption\<close> to the entry of a type.\<close>

fun find_type :: "int \<Rightarrow> (int \<times> mode) list \<Rightarrow> mode option" where
  "find_type type [] = None"
| "find_type type ((t, m) # es) = (if t \<noteq> 0 \<and> t \<noteq> type then find_type type es
                                   else if t \<noteq> 0 then Some m else None)"

definition I_SUPPORT_ENCRYPT :: "enc_state \<Rightarrow> int" where
  "I_SUPPORT_ENCRYPT s = i_support_encrypt s AND NOT (i_wont_support_encrypt s)"

definition I_SUPPORT_DECRYPT :: "enc_state \<Rightarrow> int" where
  "I_SUPPORT_DECRYPT s = i_support_decrypt s AND NOT (i_wont_support_decrypt s)"

definition findencryption :: "enc_state \<Rightarrow> int \<Rightarrow> mode option" where
  "findencryption s type =
     (if I_SUPPORT_ENCRYPT s AND remote_supports_decrypt s AND typemask type = 0 then None
      else find_type type encryptions)"

definition finddecryption :: "enc_state \<Rightarrow> int \<Rightarrow> mode option" where
  "finddecryption s type =
     (if I_SUPPORT_DECRYPT s AND remote_supports_encrypt s AND typemask type = 0 then None
      else find_type type encryptions)"

section \<open>Start-up\<close>

text \<open>The static data, before \<open>encrypt_init\<close>.\<close>

definition enc_initial :: "byte list option list \<Rightarrow> enc_state" where
  "enc_initial rs =
     \<lparr>fbs = (\<lambda>_. zero_fb), ki = (\<lambda>_. \<lparr>keyid = replicate MAXKEYLEN 0, keylen = 0\<rparr>),
      encrypt_mode = 0, decrypt_mode = 0, encrypt_output = None, decrypt_input = None,
      autoencrypt = False, autodecrypt = False, havesessionkey = False, Server = False,
      i_support_encrypt = typemask 1 OR typemask 2, i_support_decrypt = typemask 1 OR typemask 2,
      i_wont_support_encrypt = 0, i_wont_support_decrypt = 0,
      remote_supports_encrypt = 0, remote_supports_decrypt = 0,
      str_send = [IAC, SB, TELOPT_ENCRYPT, ENCRYPT_SUPPORT] @ replicate 60 0, str_suplen = 0,
      randoms = rs, net_out = []\<rparr>"

definition cipher_init :: "mode \<Rightarrow> enc_state \<Rightarrow> enc_state" where
  "cipher_init m s = (case m of CFB \<Rightarrow> cfb64_init s | OFB \<Rightarrow> ofb64_init s)"

definition str_send_byte :: "byte \<Rightarrow> enc_state \<Rightarrow> enc_state" where
  "str_send_byte b s =
     s\<lparr>str_send := (str_send s)[str_suplen s := b], str_suplen := str_suplen s + 1\<rparr>"

fun encrypt_init_loop :: "(int \<times> mode) list \<Rightarrow> enc_state \<Rightarrow> enc_state" where
  "encrypt_init_loop [] s = s"
| "encrypt_init_loop ((t, m) # es) s =
     (let s = s\<lparr>i_support_encrypt := i_support_encrypt s OR typemask t,
                i_support_decrypt := i_support_decrypt s OR typemask t\<rparr>;
          s = (if i_wont_support_decrypt s AND typemask t = 0
               then (let s = str_send_byte (word_of_int t) s
                     in if word_of_int t = IAC then str_send_byte IAC s else s)
               else s)
      in encrypt_init_loop es (cipher_init m s))"

definition encrypt_init :: "bool \<Rightarrow> enc_state \<Rightarrow> enc_state" where
  "encrypt_init server s =
     (let s = s\<lparr>Server := server, i_support_encrypt := 0, i_support_decrypt := 0,
                remote_supports_encrypt := 0, remote_supports_decrypt := 0,
                encrypt_mode := 0, decrypt_mode := 0,
                encrypt_output := None, decrypt_input := None, str_suplen := 4\<rparr>
      in str_send_byte SE (str_send_byte IAC (encrypt_init_loop encryptions s)))"

section \<open>Messages to the peer\<close>

definition keyid_bytes :: "dir \<Rightarrow> enc_state \<Rightarrow> byte list" where
  "keyid_bytes d s = iac_double (take (keylen (ki s d)) (keyid (ki s d)))"

definition encrypt_start_output :: "int \<Rightarrow> enc_state \<Rightarrow> enc_state" where
  "encrypt_start_output type s =
     (case findencryption s type of
        None \<Rightarrow> s
      | Some m \<Rightarrow>
          let (i, s) = fb64_start m DIR_ENCRYPT (Server s) s
          in if i \<noteq> 0 then s
             else
               let s = net_write ([IAC, SB, TELOPT_ENCRYPT, ENCRYPT_START] @
                                  keyid_bytes DIR_ENCRYPT s @ [IAC, SE]) s;
                   s = net_encrypt s
               in s\<lparr>encrypt_output := Some m, encrypt_mode := type\<rparr>)"

definition encrypt_send_end :: "enc_state \<Rightarrow> enc_state" where
  "encrypt_send_end s =
     (if encrypt_output s = None then s
      else
        let s = net_write [IAC, SB, TELOPT_ENCRYPT, ENCRYPT_END, IAC, SE] s;
            s = net_encrypt s
        in s\<lparr>encrypt_output := None\<rparr>)"

definition encrypt_send_request_start :: "enc_state \<Rightarrow> enc_state" where
  "encrypt_send_request_start s =
     net_write ([IAC, SB, TELOPT_ENCRYPT, ENCRYPT_REQSTART] @ keyid_bytes DIR_DECRYPT s @
                [IAC, SE]) s"

definition encrypt_send_request_end :: "enc_state \<Rightarrow> enc_state" where
  "encrypt_send_request_end s =
     net_write [IAC, SB, TELOPT_ENCRYPT, ENCRYPT_REQEND, IAC, SE] s"

definition encrypt_send_support :: "enc_state \<Rightarrow> enc_state" where
  "encrypt_send_support s =
     (if str_suplen s = 0 then s
      else
        let s = (if \<not> Server s \<and> autodecrypt s then encrypt_send_request_start s else s);
            s = net_write (take (str_suplen s) (str_send s)) s
        in s\<lparr>str_suplen := 0\<rparr>)"

section \<open>Received sub-negotiations\<close>

fun encrypt_support_loop :: "byte list \<Rightarrow> int \<Rightarrow> enc_state \<Rightarrow> int \<times> enc_state" where
  "encrypt_support_loop [] use_type s = (use_type, s)"
| "encrypt_support_loop (b # bs) use_type s =
     (let type = uint b
      in if type < ENCTYPE_CNT \<and> I_SUPPORT_ENCRYPT s AND typemask type \<noteq> 0
         then encrypt_support_loop bs (if use_type = 0 then type else use_type)
                (s\<lparr>remote_supports_decrypt := remote_supports_decrypt s OR typemask type\<rparr>)
         else encrypt_support_loop bs use_type s)"

definition encrypt_support :: "byte list \<Rightarrow> enc_state \<Rightarrow> enc_state" where
  "encrypt_support typelist s =
     (let (use_type, s) = encrypt_support_loop typelist 0 (s\<lparr>remote_supports_decrypt := 0\<rparr>)
      in if use_type = 0 then s
         else case findencryption s use_type of
                None \<Rightarrow> s
              | Some m \<Rightarrow>
                  let (type, s) = fb64_start m DIR_ENCRYPT (Server s) s
                  in if type < 0 then s
                     else
                       let s = s\<lparr>encrypt_mode := use_type\<rparr>
                       in if type = 0 then encrypt_start_output use_type s else s)"

definition encrypt_is :: "byte list \<Rightarrow> enc_state \<Rightarrow> enc_state" where
  "encrypt_is data s =
     (case data of
        [] \<Rightarrow> s
      | b # data \<Rightarrow>
          let type = uint b;
              s = (if type < ENCTYPE_CNT
                   then s\<lparr>remote_supports_encrypt := remote_supports_encrypt s OR typemask type\<rparr>
                   else s)
          in case finddecryption s type of
               None \<Rightarrow> s
             | Some m \<Rightarrow>
                 let (ret, s) = fb64_is m data s
                 in if ret < 0 then s\<lparr>autodecrypt := False\<rparr>
                    else
                      let s = s\<lparr>decrypt_mode := type\<rparr>
                      in if ret = 0 \<and> autodecrypt s then encrypt_send_request_start s else s)"

definition encrypt_reply :: "byte list \<Rightarrow> enc_state \<Rightarrow> enc_state" where
  "encrypt_reply data s =
     (case data of
        [] \<Rightarrow> s
      | b # data \<Rightarrow>
          let type = uint b
          in case findencryption s type of
               None \<Rightarrow> s
             | Some m \<Rightarrow>
                 let (ret, s) = fb64_reply m data s
                 in if ret < 0 then s\<lparr>autoencrypt := False\<rparr>
                    else
                      let s = s\<lparr>encrypt_mode := type\<rparr>
                      in if ret = 0 \<and> autoencrypt s then encrypt_start_output type s else s)"

definition encrypt_start :: "byte list \<Rightarrow> enc_state \<Rightarrow> enc_state" where
  "encrypt_start data s =
     (if decrypt_mode s = 0 then encrypt_send_request_end s
      else case finddecryption s (decrypt_mode s) of
             Some m \<Rightarrow> s\<lparr>decrypt_input := Some m\<rparr>
           | None \<Rightarrow> encrypt_send_request_end s)"

fun encrypt_session_loop ::
  "(int \<times> mode) list \<Rightarrow> Session_Key option \<Rightarrow> bool \<Rightarrow> enc_state \<Rightarrow> enc_state" where
  "encrypt_session_loop [] key server s = s"
| "encrypt_session_loop ((t, m) # es) key server s =
     encrypt_session_loop es key server (fb64_session m key server s)"

definition encrypt_session_key :: "Session_Key option \<Rightarrow> bool \<Rightarrow> enc_state \<Rightarrow> enc_state" where
  "encrypt_session_key key server s =
     encrypt_session_loop encryptions key server (s\<lparr>havesessionkey := True\<rparr>)"

definition encrypt_end :: "enc_state \<Rightarrow> enc_state" where
  "encrypt_end s = s\<lparr>decrypt_input := None\<rparr>"

definition encrypt_request_end :: "enc_state \<Rightarrow> enc_state" where
  "encrypt_request_end s = encrypt_send_end s"

definition encrypt_request_start :: "byte list \<Rightarrow> enc_state \<Rightarrow> enc_state" where
  "encrypt_request_start data s =
     (if encrypt_mode s = 0 then (if Server s then s\<lparr>autoencrypt := True\<rparr> else s)
      else encrypt_start_output (encrypt_mode s) s)"

text \<open>
  \<open>encrypt_keyid\<close>: the key id of a direction. The cipher's \<open>keyid\<close> routine may set the
  length to 0, which the answer then carries.
\<close>

definition ki_getcrypt :: "dir \<Rightarrow> enc_state \<Rightarrow> mode option" where
  "ki_getcrypt d s = (case d of DIR_ENCRYPT \<Rightarrow> findencryption s (encrypt_mode s)
                              | DIR_DECRYPT \<Rightarrow> finddecryption s (decrypt_mode s))"

definition call_keyid :: "mode \<Rightarrow> dir \<Rightarrow> enc_state \<Rightarrow> int \<times> enc_state" where
  "call_keyid m d s =
     (let (ret, len, s) = fb64_keyid m d (keyid (ki s d)) (keylen (ki s d)) s
      in (ret, upd_ki d (\<lambda>k. k\<lparr>keylen := len\<rparr>) s))"

definition encrypt_keyid :: "dir \<Rightarrow> byte list \<Rightarrow> enc_state \<Rightarrow> enc_state" where
  "encrypt_keyid d kid s =
     (let len = min (length kid) MAXKEYLEN;
          kid = take len kid;
          send = (\<lambda>s. encrypt_send_keyid d (keyid (ki s d)) (keylen (ki s d)) False s)
      in case ki_getcrypt d s of
           None \<Rightarrow> if len = 0 then s else send (upd_ki d (\<lambda>k. k\<lparr>keylen := 0\<rparr>) s)
         | Some m \<Rightarrow>
             if len = 0 then
               if keylen (ki s d) = 0 then s
               else send (snd (call_keyid m d (upd_ki d (\<lambda>k. k\<lparr>keylen := 0\<rparr>) s)))
             else if len \<noteq> keylen (ki s d) \<or> kid \<noteq> take len (keyid (ki s d)) then
               send (snd (call_keyid m d
                      (upd_ki d (\<lambda>k. k\<lparr>keyid := put_at 0 kid (keyid k), keylen := len\<rparr>) s)))
             else
               let (ret, s) = call_keyid m d s
               in if ret = 0 \<and> d = DIR_ENCRYPT \<and> autoencrypt s
                  then encrypt_start_output (encrypt_mode s) s else s)"

definition encrypt_enc_keyid :: "byte list \<Rightarrow> enc_state \<Rightarrow> enc_state" where
  "encrypt_enc_keyid kid s = encrypt_keyid DIR_DECRYPT kid s"

definition encrypt_dec_keyid :: "byte list \<Rightarrow> enc_state \<Rightarrow> enc_state" where
  "encrypt_dec_keyid kid s = encrypt_keyid DIR_ENCRYPT kid s"

section \<open>Local commands\<close>

definition encrypt_auto :: "int \<Rightarrow> enc_state \<Rightarrow> enc_state" where
  "encrypt_auto on s =
     s\<lparr>autoencrypt := (if on < 0 then \<not> autoencrypt s else on \<noteq> 0)\<rparr>"

definition decrypt_auto :: "int \<Rightarrow> enc_state \<Rightarrow> enc_state" where
  "decrypt_auto on s =
     s\<lparr>autodecrypt := (if on < 0 then \<not> autodecrypt s else on \<noteq> 0)\<rparr>"

definition encrypt_is_encrypting :: "enc_state \<Rightarrow> bool" where
  "encrypt_is_encrypting s = (encrypt_output s \<noteq> None \<and> decrypt_input s \<noteq> None)"

definition EncryptStartInput :: "enc_state \<Rightarrow> bool \<times> enc_state" where
  "EncryptStartInput s =
     (if decrypt_mode s \<noteq> 0 then (True, encrypt_send_request_start s) else (False, s))"

definition EncryptStartOutput :: "enc_state \<Rightarrow> bool \<times> enc_state" where
  "EncryptStartOutput s =
     (if encrypt_mode s \<noteq> 0 then (True, encrypt_start_output (encrypt_mode s) s) else (False, s))"

definition EncryptStopInput :: "enc_state \<Rightarrow> bool \<times> enc_state" where
  "EncryptStopInput s = (True, encrypt_send_request_end s)"

definition EncryptStopOutput :: "enc_state \<Rightarrow> bool \<times> enc_state" where
  "EncryptStopOutput s = (True, encrypt_send_end s)"

text \<open>The keyword tests of the commands; the usage and error messages are not modelled.\<close>

definition is_kw :: "byte list \<Rightarrow> string \<Rightarrow> bool" where
  "is_kw s kw = (isprefix s (c_string kw) \<noteq> 0)"

definition EncryptStart :: "byte list option \<Rightarrow> enc_state \<Rightarrow> int \<times> enc_state" where
  "EncryptStart mode s =
     (case mode of
        Some m \<Rightarrow>
          if is_kw m ''input'' then (let (r, s) = EncryptStartInput s in (of_bool r, s))
          else if is_kw m ''output'' then (let (r, s) = EncryptStartOutput s in (of_bool r, s))
          else (0, s)
      | None \<Rightarrow>
          let (r1, s) = EncryptStartInput s; (r2, s) = EncryptStartOutput s
          in (of_bool r1 + of_bool r2, s))"

definition EncryptStop :: "byte list option \<Rightarrow> enc_state \<Rightarrow> int \<times> enc_state" where
  "EncryptStop mode s =
     (case mode of
        Some m \<Rightarrow>
          if is_kw m ''input'' then (let (r, s) = EncryptStopInput s in (of_bool r, s))
          else if is_kw m ''output'' then (let (r, s) = EncryptStopOutput s in (of_bool r, s))
          else (0, s)
      | None \<Rightarrow>
          let (r1, s) = EncryptStopInput s; (r2, s) = EncryptStopOutput s
          in (of_bool r1 + of_bool r2, s))"

definition opt_kw :: "byte list option \<Rightarrow> string \<Rightarrow> bool" where
  "opt_kw mode kw = (case mode of None \<Rightarrow> True | Some m \<Rightarrow> is_kw m kw)"

definition EncryptType :: "byte list \<Rightarrow> byte list option \<Rightarrow> enc_state \<Rightarrow> int \<times> enc_state" where
  "EncryptType type mode s =
     (if is_kw type ''help'' \<or> is_kw type ''?'' then (0, s)
      else case genget (Some type) encryption_names of
             NotFound \<Rightarrow> (0, s)
           | AmbiguousName \<Rightarrow> (0, s)
           | Found t \<Rightarrow>
               let inp = opt_kw mode ''input''; out = opt_kw mode ''output'';
                   s = (if inp
                        then s\<lparr>decrypt_mode := t, i_wont_support_decrypt :=
                                 i_wont_support_decrypt s AND NOT (typemask t)\<rparr> else s);
                   s = (if out
                        then s\<lparr>encrypt_mode := t, i_wont_support_encrypt :=
                                 i_wont_support_encrypt s AND NOT (typemask t)\<rparr> else s)
               in (of_bool (inp \<or> out), s))"

definition EncryptEnable :: "byte list \<Rightarrow> byte list option \<Rightarrow> enc_state \<Rightarrow> int \<times> enc_state" where
  "EncryptEnable type mode s =
     (if is_kw type ''help'' \<or> is_kw type ''?'' then (0, s)
      else
        let (r, s) = EncryptType type mode s
        in if r \<noteq> 0 then EncryptStart mode s else (0, s))"

definition EncryptDisable :: "byte list \<Rightarrow> byte list option \<Rightarrow> enc_state \<Rightarrow> int \<times> enc_state" where
  "EncryptDisable type mode s =
     (if is_kw type ''help'' \<or> is_kw type ''?'' then (0, s)
      else case genget (Some type) encryption_names of
             NotFound \<Rightarrow> (0, s)
           | AmbiguousName \<Rightarrow> (0, s)
           | Found t \<Rightarrow>
               let inp = opt_kw mode ''input''; out = opt_kw mode ''output'';
                   s = (if inp
                        then (let s = (if decrypt_mode s = t then snd (EncryptStopInput s) else s)
                              in s\<lparr>i_wont_support_decrypt := i_wont_support_decrypt s OR typemask t\<rparr>)
                        else s);
                   s = (if out
                        then (let s = (if encrypt_mode s = t then snd (EncryptStopOutput s) else s)
                              in s\<lparr>i_wont_support_encrypt := i_wont_support_encrypt s OR typemask t\<rparr>)
                        else s)
               in (of_bool (inp \<or> out), s))"

section \<open>One step of the library\<close>

datatype enc_event =
    Ev_support "byte list" | Ev_is "byte list" | Ev_reply "byte list" | Ev_start "byte list"
  | Ev_end | Ev_request_start "byte list" | Ev_request_end
  | Ev_enc_keyid "byte list" | Ev_dec_keyid "byte list"
  | Ev_send_support | Ev_session_key "Session_Key option" bool
  | Ev_auto int | Ev_decrypt_auto int
  | Ev_cmd_start "byte list option" | Ev_cmd_stop "byte list option"
  | Ev_cmd_type "byte list" "byte list option"
  | Ev_cmd_enable "byte list" "byte list option"
  | Ev_cmd_disable "byte list" "byte list option"
  | Ev_init bool

fun enc_step :: "enc_event \<Rightarrow> enc_state \<Rightarrow> enc_state" where
  "enc_step (Ev_support d) s = encrypt_support d s"
| "enc_step (Ev_is d) s = encrypt_is d s"
| "enc_step (Ev_reply d) s = encrypt_reply d s"
| "enc_step (Ev_start d) s = encrypt_start d s"
| "enc_step Ev_end s = encrypt_end s"
| "enc_step (Ev_request_start d) s = encrypt_request_start d s"
| "enc_step Ev_request_end s = encrypt_request_end s"
| "enc_step (Ev_enc_keyid d) s = encrypt_enc_keyid d s"
| "enc_step (Ev_dec_keyid d) s = encrypt_dec_keyid d s"
| "enc_step Ev_send_support s = encrypt_send_support s"
| "enc_step (Ev_session_key k sv) s = encrypt_session_key k sv s"
| "enc_step (Ev_auto n) s = encrypt_auto n s"
| "enc_step (Ev_decrypt_auto n) s = decrypt_auto n s"
| "enc_step (Ev_cmd_start m) s = snd (EncryptStart m s)"
| "enc_step (Ev_cmd_stop m) s = snd (EncryptStop m s)"
| "enc_step (Ev_cmd_type t m) s = snd (EncryptType t m s)"
| "enc_step (Ev_cmd_enable t m) s = snd (EncryptEnable t m s)"
| "enc_step (Ev_cmd_disable t m) s = snd (EncryptDisable t m s)"
| "enc_step (Ev_init sv) s = encrypt_init sv s"

definition enc_run :: "enc_event list \<Rightarrow> enc_state \<Rightarrow> enc_state" where
  "enc_run evs s = foldl (\<lambda>s e. enc_step e s) s evs"

end
