(* ===== verification/EncInv.thy ===== *)
theory EncInv
  imports Encrypt EncCipher
begin

text \<open>
  What holds of the encryption library after any sequence of received sub-negotiations and
  local commands: the invariant \<open>enc_inv\<close>, kept by every operation.
\<close>

section \<open>The invariant\<close>

text \<open>
  A cipher: its message buffer keeps its 64 bytes, and the state bit \<open>NO_SEND_IV\<close> is clear only
  when the session key is there. \<open>even v\<close> is \<open>v & NO_SEND_IV = 0\<close>.
\<close>

definition fb_ok :: "fb \<Rightarrow> bool" where
  "fb_ok b =
     (length (fb_feed b) = 64 \<and> length (temp_feed b) = 8 \<and>
      (even (fb_state b DIR_ENCRYPT) \<longrightarrow> validkey b) \<and>
      (validkey b \<longrightarrow> (\<forall>d. str_key (streams b d) \<noteq> None)))"

definition ki_ok :: "key_info \<Rightarrow> bool" where
  "ki_ok k = (length (keyid k) = MAXKEYLEN \<and> keylen k \<le> 1)"

definition short_writes :: "net_event list \<Rightarrow> bool" where
  "short_writes es = list_all (\<lambda>e. case e of Net_write xs \<Rightarrow> length xs \<le> 64 | _ \<Rightarrow> True) es"

definition randoms_ok :: "byte list option list \<Rightarrow> bool" where
  "randoms_ok rs = list_all (\<lambda>r. case r of None \<Rightarrow> True | Some xs \<Rightarrow> 8 \<le> length xs) rs"

definition enc_inv :: "enc_state \<Rightarrow> bool" where
  "enc_inv s =
     ((\<forall>m. fb_ok (fbs s m)) \<and> (\<forall>d. ki_ok (ki s d)) \<and>
      (\<forall>m. encrypt_output s = Some m \<longrightarrow> validkey (fbs s m)) \<and>
      short_writes (net_out s) \<and> randoms_ok (randoms s) \<and>
      length (str_send s) = 64 \<and> str_suplen s \<le> 64)"

lemma short_writes_append [simp]: "short_writes (es @ fs) = (short_writes es \<and> short_writes fs)"
  by (simp add: short_writes_def)

lemma short_writes_one [simp]:
  "short_writes [Net_write xs] = (length xs \<le> 64)" "short_writes [Net_encrypt]"
  by (simp_all add: short_writes_def)

section \<open>Small steps\<close>

lemma net_write_inv [wf_intro]: "enc_inv s \<Longrightarrow> length xs \<le> 64 \<Longrightarrow> enc_inv (net_write xs s)"
  by (simp add: enc_inv_def net_write_def)

lemma net_encrypt_inv [wf_intro]: "enc_inv s \<Longrightarrow> enc_inv (net_encrypt s)"
  by (simp add: enc_inv_def net_encrypt_def)

lemma upd_fb_inv [wf_intro]:
  "enc_inv s \<Longrightarrow> (fb_ok (fbs s m) \<Longrightarrow> fb_ok (f (fbs s m))) \<Longrightarrow>
   (validkey (fbs s m) \<Longrightarrow> validkey (f (fbs s m))) \<Longrightarrow> enc_inv (upd_fb m f s)"
  by (auto simp: enc_inv_def upd_fb_def)

lemma upd_ki_inv [wf_intro]:
  "enc_inv s \<Longrightarrow> (ki_ok (ki s d) \<Longrightarrow> ki_ok (f (ki s d))) \<Longrightarrow> enc_inv (upd_ki d f s)"
  by (auto simp: enc_inv_def upd_ki_def)

lemma net_write_simps [frame_simps]:
  "fbs (net_write xs s) = fbs s" "ki (net_write xs s) = ki s" "randoms (net_write xs s) = randoms s"
  "encrypt_output (net_write xs s) = encrypt_output s" "Server (net_write xs s) = Server s"
  by (simp_all add: net_write_def)

lemma net_encrypt_simps [frame_simps]:
  "fbs (net_encrypt s) = fbs s" "ki (net_encrypt s) = ki s"
  by (simp_all add: net_encrypt_def)

lemma upd_fb_simps [frame_simps]:
  "fbs (upd_fb m f s) = (fbs s)(m := f (fbs s m))" "ki (upd_fb m f s) = ki s"
  "randoms (upd_fb m f s) = randoms s" "encrypt_output (upd_fb m f s) = encrypt_output s"
  by (simp_all add: upd_fb_def)

lemma upd_ki_simps [frame_simps]:
  "fbs (upd_ki d f s) = fbs s" "ki (upd_ki d f s) = (ki s)(d := f (ki s d))"
  by (simp_all add: upd_ki_def)

lemma set_fb_state_ok [intro]:
  "fb_ok b \<Longrightarrow> (d = DIR_ENCRYPT \<Longrightarrow> even v \<Longrightarrow> validkey b) \<Longrightarrow> fb_ok (set_fb_state d v b)"
  by (auto simp: fb_ok_def set_fb_state_def)

lemma set_fb_state_valid [simp]: "validkey (set_fb_state d v b) = validkey b"
  by (simp add: set_fb_state_def)

lemma upd_stream_ok:
  "fb_ok b \<Longrightarrow> (str_key (streams b d) \<noteq> None \<Longrightarrow> str_key (f (streams b d)) \<noteq> None) \<Longrightarrow>
   fb_ok (upd_stream d f b)"
  by (auto simp: fb_ok_def upd_stream_def)

lemma upd_stream_valid [simp]: "validkey (upd_stream d f b) = validkey b"
  by (simp add: upd_stream_def)

lemma stream_iv_key [simp]: "str_key (fb64_stream_iv v st) = str_key st"
  by (simp add: fb64_stream_iv_def)

lemma feed_message_length [simp]:
  "5 + length p \<le> length b \<Longrightarrow> length (feed_message c p b) = length b"
  by (simp add: feed_message_def)

lemma fb_ok_feed:
  "fb_ok b \<Longrightarrow> length p \<le> 59 \<Longrightarrow> fb_ok (b\<lparr>fb_feed := feed_message c p (fb_feed b)\<rparr>)"
  by (simp add: fb_ok_def)

lemma fb_ok_temp: "fb_ok b \<Longrightarrow> fb_ok (b\<lparr>temp_feed := zero_block\<rparr>)"
  by (auto simp: fb_ok_def zero_block_def)

lemma enc_inv_fb [elim]: "enc_inv s \<Longrightarrow> fb_ok (fbs s m)" by (simp add: enc_inv_def)
lemma enc_inv_ki [elim]: "enc_inv s \<Longrightarrow> ki_ok (ki s d)" by (simp add: enc_inv_def)

lemma even_and_not: "odd (k :: int) \<Longrightarrow> even (x AND k) = even x"
  by (simp add: even_and_iff)

lemma even_state_masks:
  "even ((x :: int) AND NOT 2) = even x" "even (x AND NOT 4) = even x"
  "even (x AND - 3) = even x" "even (x AND - 5) = even x"
  by (simp_all add: even_and_iff)

section \<open>The cipher module\<close>

lemma iac_double_le: "length xs \<le> n \<Longrightarrow> length (iac_double xs) \<le> 2 * n"
  using iac_double_length [of xs] by simp

text \<open>The last part of \<open>fb64_start\<close>: a new feed is sent.\<close>

definition send_feed :: "mode \<Rightarrow> int \<Rightarrow> byte list \<Rightarrow> byte list option list \<Rightarrow> enc_state \<Rightarrow> enc_state" where
  "send_feed m v feed rs s =
     (let payload = FB64_IV # iac_double feed @ [IAC, SE];
          buf = feed_message ENCRYPT_IS payload (fb_feed (fbs s m))
      in upd_fb m (set_fb_state DIR_ENCRYPT v) (net_write (take (5 + length payload) buf)
           (upd_fb m (\<lambda>b. b\<lparr>temp_feed := feed, fb_feed := buf\<rparr>) (s\<lparr>randoms := rs\<rparr>))))"

lemma send_feed_inv:
  assumes "enc_inv s" "validkey (fbs s m)" "length feed = 8" "randoms_ok rs"
  shows "enc_inv (send_feed m v feed rs s)"
proof -
  have P: "length (FB64_IV # iac_double feed @ [IAC, SE]) \<le> 24"
    using iac_double_le [of feed 8] assms(3) by simp
  have s1: "enc_inv (s\<lparr>randoms := rs\<rparr>)" using assms by (simp add: enc_inv_def)
  have A: "enc_inv (upd_fb m (\<lambda>b. b\<lparr>temp_feed := feed, fb_feed := feed_message c p (fb_feed (fbs s m))\<rparr>)
      (s\<lparr>randoms := rs\<rparr>))" if "length p \<le> 24" for c p
    by (rule upd_fb_inv [OF s1]) (use that assms(3) in \<open>auto simp: fb_ok_def\<close>)
  show ?thesis unfolding send_feed_def Let_def
    by (intro upd_fb_inv net_write_inv set_fb_state_ok A P)
      (use P assms(2) in \<open>auto simp: frame_simps\<close>)
qed

text \<open>The four ways through \<open>fb64_start\<close> in the encrypting direction.\<close>

lemma fb64_start_encrypt:
  "fb64_start m DIR_ENCRYPT sv s =
     (let st = fb_state (fbs s m) DIR_ENCRYPT; st' = (if st = FAILED then IN_PROGRESS else st)
      in if even st then (st, upd_fb m (set_fb_state DIR_ENCRYPT st) s)
         else if \<not> validkey (fbs s m)
         then (st', upd_fb m (\<lambda>b. set_fb_state DIR_ENCRYPT st' (b\<lparr>need_start := True\<rparr>)) s)
         else case randoms s of
                Some feed # rs \<Rightarrow>
                  ((st' AND NOT NO_SEND_IV) OR NO_RECV_IV,
                   send_feed m ((st' AND NOT NO_SEND_IV) OR NO_RECV_IV) (take 8 feed) rs s)
              | None # rs \<Rightarrow> (FAILED, s\<lparr>randoms := rs\<rparr>)
              | [] \<Rightarrow> (FAILED, s))"
proof -
  have "fb_state (fbs s m) DIR_ENCRYPT \<noteq> FAILED \<and> fb_state (fbs s m) DIR_ENCRYPT AND NO_SEND_IV = 0 \<longleftrightarrow>
        even (fb_state (fbs s m) DIR_ENCRYPT)"
    by (auto simp: and_one_eq even_iff_mod_2_eq_zero)
  then show ?thesis
    by (simp only: fb64_start_def send_feed_def Let_def dir.case upd_fb_def)
qed

lemma fb64_start_inv:
  assumes "enc_inv s"
  shows "enc_inv (snd (fb64_start m d sv s))"
proof (cases d)
  case DIR_DECRYPT
  with assms show ?thesis
    by (auto simp: fb64_start_def Let_def intro!: upd_fb_inv)
next
  case DIR_ENCRYPT
  have ok: "fb_ok (fbs s m)" using assms by auto
  have e: "even (fb_state (fbs s m) DIR_ENCRYPT) \<Longrightarrow> validkey (fbs s m)"
    using ok by (simp add: fb_ok_def)
  have n: "enc_inv (upd_fb m (\<lambda>b. set_fb_state DIR_ENCRYPT v (b\<lparr>need_start := True\<rparr>)) s)"
    if "odd v" for v
    using that assms by (intro upd_fb_inv set_fb_state_ok) (auto simp: fb_ok_def)
  have v: "enc_inv (upd_fb m (set_fb_state DIR_ENCRYPT v) s)" if "validkey (fbs s m)" for v
    using that assms by (intro upd_fb_inv set_fb_state_ok) auto
  have r: "enc_inv (s\<lparr>randoms := rs\<rparr>)" "randoms_ok rs" "\<And>f. r = Some f \<Longrightarrow> 8 \<le> length f"
    if "randoms s = r # rs" for r rs
    using assms that by (auto simp: enc_inv_def randoms_ok_def)
  show ?thesis unfolding DIR_ENCRYPT fb64_start_encrypt Let_def
    using assms e by (auto simp: n v r split: list.split option.split intro!: send_feed_inv)
qed

text \<open>When \<open>start\<close> says the negotiation is done, the session key is there.\<close>

lemma fb64_start_done:
  assumes "enc_inv s" "fb64_start m DIR_ENCRYPT sv s = (0, s')"
  shows "validkey (fbs s' m)"
proof -
  have "fb_ok (fbs s m)" using assms by auto
  then have e: "even (fb_state (fbs s m) DIR_ENCRYPT) \<Longrightarrow> validkey (fbs s m)"
    by (simp add: fb_ok_def)
  have "validkey (fbs (send_feed m v f rs s) m) = validkey (fbs s m)" for v f rs
    by (simp add: send_feed_def Let_def frame_simps)
  with assms(2) e show ?thesis unfolding fb64_start_encrypt Let_def
    by (auto simp: frame_simps split: if_splits list.splits option.splits)
qed

lemma encrypt_send_keyid_inv:
  "enc_inv s \<Longrightarrow> n \<le> 1 \<Longrightarrow> length kid \<le> MAXKEYLEN \<Longrightarrow> enc_inv (encrypt_send_keyid d kid n sv s)"
proof -
  assume A: "enc_inv s" "n \<le> 1" "length kid \<le> MAXKEYLEN"
  have L: "length (iac_double (take n kid)) \<le> 58"
  proof -
    have "length (take n kid) \<le> 1" using A(2) by simp
    then show ?thesis using iac_double_le [of "take n kid" 1] by simp
  qed
  with A show "enc_inv (encrypt_send_keyid d kid n sv s)"
    by (auto simp: encrypt_send_keyid_def Let_def ki_ok_def put_at_def MAXKEYLEN_def
        intro!: net_write_inv upd_ki_inv)
qed

lemma fb64_feed_reply_inv: "enc_inv s \<Longrightarrow> enc_inv (fb64_feed_reply m c s)"
  by (auto simp: fb64_feed_reply_def Let_def upd_fb_def intro!: net_write_inv)
    (auto simp: enc_inv_def fb_ok_def)

lemma fb64_is_inv: "enc_inv s \<Longrightarrow> enc_inv (snd (fb64_is m data s))"
  by (auto simp: fb64_is_def Let_def split: list.splits intro!: upd_fb_inv fb64_feed_reply_inv upd_stream_ok)

lemma fb64_reply_inv:
  assumes "enc_inv s" shows "enc_inv (snd (fb64_reply m data s))"
proof (cases data)
  case Nil
  with assms show ?thesis by (auto simp: fb64_reply_def Let_def intro!: upd_fb_inv)
next
  case (Cons op rest)
  have ok: "fb_ok (fbs s m)" using assms by auto
  have A: "enc_inv (upd_fb m (set_fb_state DIR_ENCRYPT v) (encrypt_send_keyid DIR_ENCRYPT [0] 1 True
          (upd_fb m (\<lambda>b. upd_stream DIR_ENCRYPT (fb64_stream_iv (temp_feed b)) b) s)))"
    if "even v \<Longrightarrow> validkey (fbs s m)" for v
    using assms that
    by (intro upd_fb_inv encrypt_send_keyid_inv)
      (auto simp: frame_simps encrypt_send_keyid_def MAXKEYLEN_def Let_def intro!: upd_stream_ok)
  moreover have "enc_inv (upd_fb m (set_fb_state DIR_ENCRYPT (-1))
          (upd_fb m (\<lambda>b. upd_stream DIR_ENCRYPT (fb64_stream_iv (temp_feed b)) b)
            (upd_fb m (\<lambda>b. b\<lparr>temp_feed := zero_block\<rparr>) s)))"
    using assms
    by (intro upd_fb_inv)
      (auto simp: frame_simps intro!: upd_stream_ok fb_ok_temp)
  moreover have "enc_inv (upd_fb m (set_fb_state DIR_ENCRYPT (-1)) s)"
    using assms by (auto intro!: upd_fb_inv)
  moreover have "even (fb_state (fbs s m) DIR_ENCRYPT) \<Longrightarrow> validkey (fbs s m)"
    using ok by (simp add: fb_ok_def)
  ultimately show ?thesis using Cons
    by (auto simp: fb64_reply_def Let_def even_state_masks intro!: A [simplified])
qed

lemma session_streams_inv:
  assumes "enc_inv s"
  shows "enc_inv (upd_fb m (\<lambda>b. upd_stream DIR_DECRYPT (fb64_stream_key k)
          (upd_stream DIR_ENCRYPT (fb64_stream_key k) (b\<lparr>validkey := True\<rparr>))) s)"
proof (rule upd_fb_inv [OF assms])
  show "fb_ok (upd_stream DIR_DECRYPT (fb64_stream_key k)
          (upd_stream DIR_ENCRYPT (fb64_stream_key k) (fbs s m\<lparr>validkey := True\<rparr>)))"
    if "fb_ok (fbs s m)"
    using that by (auto simp: fb_ok_def upd_stream_def fb64_stream_key_def intro: dir.exhaust)
qed simp

lemma need_start_inv: "enc_inv s \<Longrightarrow> enc_inv (upd_fb m (\<lambda>b. b\<lparr>need_start := False\<rparr>) s)"
  by (rule upd_fb_inv) (auto simp: fb_ok_def)

lemma fb64_session_inv: "enc_inv s \<Longrightarrow> enc_inv (fb64_session m key sv s)"
  by (auto simp: fb64_session_def Let_def session_streams_inv need_start_inv
      split: option.splits intro!: fb64_start_inv)

lemma fb64_keyid_inv:
  assumes "enc_inv s" "fb64_keyid m d kp n s = (r, n', s')"
  shows "enc_inv s' \<and> n' \<le> 1 \<and> ki s' = ki s"
proof -
  have "fb_ok (fbs s m)" using assms(1) by auto
  then have "even (fb_state (fbs s m) DIR_ENCRYPT) \<Longrightarrow> validkey (fbs s m)" by (simp add: fb_ok_def)
  then show ?thesis
    using assms
    by (auto simp: fb64_keyid_def Let_def even_state_masks frame_simps split: if_splits
        intro!: upd_fb_inv set_fb_state_ok)
qed

section \<open>The operations\<close>

lemma enc_inv_flags [simp]:
  "enc_inv (s\<lparr>encrypt_mode := v\<rparr>) = enc_inv s" "enc_inv (s\<lparr>decrypt_mode := v\<rparr>) = enc_inv s"
  "enc_inv (s\<lparr>decrypt_input := w\<rparr>) = enc_inv s"
  "enc_inv (s\<lparr>autoencrypt := b\<rparr>) = enc_inv s" "enc_inv (s\<lparr>autodecrypt := b\<rparr>) = enc_inv s"
  "enc_inv (s\<lparr>havesessionkey := b\<rparr>) = enc_inv s"
  "enc_inv (s\<lparr>remote_supports_encrypt := v\<rparr>) = enc_inv s"
  "enc_inv (s\<lparr>remote_supports_decrypt := v\<rparr>) = enc_inv s"
  "enc_inv (s\<lparr>i_wont_support_encrypt := v\<rparr>) = enc_inv s"
  "enc_inv (s\<lparr>i_wont_support_decrypt := v\<rparr>) = enc_inv s"
  by (simp_all add: enc_inv_def)

lemma keyid_bytes_le: "enc_inv s \<Longrightarrow> length (keyid_bytes d s) \<le> 2"
proof -
  assume "enc_inv s"
  then have "keylen (ki s d) \<le> 1" by (auto simp: enc_inv_def ki_ok_def)
  then have "length (take (keylen (ki s d)) (keyid (ki s d))) \<le> 1" by simp
  then show ?thesis using iac_double_le [of _ 1] by (simp add: keyid_bytes_def)
qed

lemma encrypt_send_request_start_inv [wf_intro]:
  "enc_inv s \<Longrightarrow> enc_inv (encrypt_send_request_start s)"
  using keyid_bytes_le [of s DIR_DECRYPT]
  by (auto simp: encrypt_send_request_start_def intro!: net_write_inv)

lemma encrypt_send_request_end_inv [wf_intro]:
  "enc_inv s \<Longrightarrow> enc_inv (encrypt_send_request_end s)"
  by (auto simp: encrypt_send_request_end_def intro!: net_write_inv)

lemma encrypt_send_end_inv [wf_intro]:
  assumes "enc_inv s" shows "enc_inv (encrypt_send_end s)"
proof -
  have "enc_inv (net_encrypt (net_write [IAC, SB, TELOPT_ENCRYPT, ENCRYPT_END, IAC, SE] s))"
    using assms by (auto intro!: net_write_inv net_encrypt_inv)
  with assms show ?thesis by (simp add: encrypt_send_end_def Let_def) (simp add: enc_inv_def)
qed

lemma encrypt_start_output_inv [wf_intro]:
  assumes "enc_inv s" shows "enc_inv (encrypt_start_output t s)"
proof (cases "findencryption s t")
  case None
  with assms show ?thesis by (simp add: encrypt_start_output_def)
next
  case (Some m)
  obtain i s1 where st: "fb64_start m DIR_ENCRYPT (Server s) s = (i, s1)" by fastforce
  have i1: "enc_inv s1" using fb64_start_inv [OF assms] st by (metis snd_conv)
  show ?thesis
  proof (cases "i = 0")
    case False
    with Some st i1 show ?thesis by (simp add: encrypt_start_output_def)
  next
    case True
    then have v: "validkey (fbs s1 m)" using fb64_start_done [OF assms] st by simp
    have "enc_inv (net_encrypt (net_write ([IAC, SB, TELOPT_ENCRYPT, ENCRYPT_START] @
                                  keyid_bytes DIR_ENCRYPT s1 @ [IAC, SE]) s1))" (is "enc_inv ?s2")
      using i1 keyid_bytes_le [OF i1, of DIR_ENCRYPT] by (auto intro!: net_write_inv net_encrypt_inv)
    then have "enc_inv (?s2\<lparr>encrypt_output := Some m, encrypt_mode := t\<rparr>)"
      using v by (simp add: enc_inv_def frame_simps)
    then show ?thesis using Some st True by (simp add: encrypt_start_output_def Let_def)
  qed
qed

lemma encrypt_send_support_inv [wf_intro]:
  assumes "enc_inv s" shows "enc_inv (encrypt_send_support s)"
proof -
  have "enc_inv (net_write xs t \<lparr>str_suplen := 0\<rparr>)" if "enc_inv t" "length xs \<le> 64" for t xs
    using net_write_inv [OF that] by (simp add: enc_inv_def)
  moreover have "str_suplen (encrypt_send_request_start s) = str_suplen s"
    by (simp add: encrypt_send_request_start_def net_write_def)
  moreover have "str_suplen s \<le> 64" using assms by (simp add: enc_inv_def)
  ultimately show ?thesis
    using assms encrypt_send_request_start_inv [OF assms]
    by (auto simp: encrypt_send_support_def Let_def)
qed

lemma encrypt_support_loop_inv:
  "enc_inv s \<Longrightarrow> enc_inv (snd (encrypt_support_loop bs u s))"
  by (induction bs u s rule: encrypt_support_loop.induct) (auto simp: Let_def)

lemma encrypt_support_inv [wf_intro]:
  assumes "enc_inv s" shows "enc_inv (encrypt_support bs s)"
proof -
  obtain u s1 where l: "encrypt_support_loop bs 0 (s\<lparr>remote_supports_decrypt := 0\<rparr>) = (u, s1)"
    by fastforce
  have i1: "enc_inv s1"
    using encrypt_support_loop_inv [of "s\<lparr>remote_supports_decrypt := 0\<rparr>" bs 0] assms l by simp
  show ?thesis
  proof (cases "findencryption s1 u")
    case None
    with l i1 show ?thesis by (simp add: encrypt_support_def)
  next
    case (Some m)
    obtain i s2 where st: "fb64_start m DIR_ENCRYPT (Server s1) s1 = (i, s2)" by fastforce
    have "enc_inv s2" using fb64_start_inv [OF i1] st by (metis snd_conv)
    with l i1 Some st show ?thesis
      by (auto simp: encrypt_support_def Let_def intro!: encrypt_start_output_inv)
  qed
qed

lemma encrypt_is_inv [wf_intro]:
  assumes "enc_inv s" shows "enc_inv (encrypt_is d s)"
proof (cases d)
  case Nil
  with assms show ?thesis by (simp add: encrypt_is_def)
next
  case (Cons b bs)
  have "enc_inv (snd (let (ret, s) = fb64_is m bs t
                 in (ret, if ret < 0 then s\<lparr>autodecrypt := False\<rparr>
                    else
                      let s = s\<lparr>decrypt_mode := uint b\<rparr>
                      in if ret = 0 \<and> autodecrypt s then encrypt_send_request_start s else s)))"
    if "enc_inv t" for m t
    using fb64_is_inv [OF that, of m bs]
    by (auto simp: Let_def case_prod_beta intro!: encrypt_send_request_start_inv)
  with Cons assms show ?thesis
    by (auto simp: encrypt_is_def Let_def case_prod_beta split: option.splits)
qed

lemma encrypt_reply_inv [wf_intro]:
  assumes "enc_inv s" shows "enc_inv (encrypt_reply d s)"
  using assms fb64_reply_inv [OF assms]
  by (auto simp: encrypt_reply_def Let_def case_prod_beta split: list.splits option.splits
      intro!: encrypt_start_output_inv)

lemma encrypt_start_inv [wf_intro]: "enc_inv s \<Longrightarrow> enc_inv (encrypt_start d s)"
  by (auto simp: encrypt_start_def split: option.splits intro!: encrypt_send_request_end_inv)

lemma encrypt_session_loop_inv: "enc_inv s \<Longrightarrow> enc_inv (encrypt_session_loop es k sv s)"
  by (induction es k sv s rule: encrypt_session_loop.induct) (auto intro: fb64_session_inv)

lemma call_keyid_inv:
  assumes "enc_inv (upd_ki d (\<lambda>k. k\<lparr>keylen := 0\<rparr>) s)"
  shows "enc_inv (snd (call_keyid m d s))"
proof -
  obtain r n s1 where k: "fb64_keyid m d (keyid (ki s d)) (keylen (ki s d)) s = (r, n, s1)"
    by (cases "fb64_keyid m d (keyid (ki s d)) (keylen (ki s d)) s") auto
  let ?s0 = "upd_ki d (\<lambda>k. k\<lparr>keylen := 0\<rparr>) s"
  obtain r' n' s1' where k0: "fb64_keyid m d (keyid (ki s d)) (keylen (ki s d)) ?s0 = (r', n', s1')"
    by (cases "fb64_keyid m d (keyid (ki s d)) (keylen (ki s d)) ?s0") auto
  from fb64_keyid_inv [OF assms k0] have i: "enc_inv s1'" "n' \<le> 1" by auto
  have "n' = n" "s1' = upd_ki d (\<lambda>k. k\<lparr>keylen := 0\<rparr>) s1"
    using k k0 by (auto simp: fb64_keyid_def Let_def upd_ki_def upd_fb_def split: if_splits)
  then have "upd_ki d (\<lambda>k. k\<lparr>keylen := n\<rparr>) s1 = upd_ki d (\<lambda>k. k\<lparr>keylen := n\<rparr>) s1'"
    by (simp add: upd_ki_def)
  then have "enc_inv (upd_ki d (\<lambda>k. k\<lparr>keylen := n\<rparr>) s1)"
    using i \<open>n' = n\<close> by (auto simp: ki_ok_def intro!: upd_ki_inv)
  then show ?thesis using k by (simp add: call_keyid_def)
qed

lemma send_keyid_ki_inv:
  "enc_inv s \<Longrightarrow> enc_inv (encrypt_send_keyid d (keyid (ki s d)) (keylen (ki s d)) False s)"
  by (rule encrypt_send_keyid_inv) (auto simp: enc_inv_def ki_ok_def)

lemma keylen_zero_inv: "enc_inv s \<Longrightarrow> enc_inv (upd_ki d (\<lambda>k. k\<lparr>keylen := 0\<rparr>) s)"
  by (auto simp: ki_ok_def intro!: upd_ki_inv)

lemma new_keyid_inv:
  assumes "enc_inv s" "n \<le> MAXKEYLEN"
  shows "enc_inv (upd_ki d (\<lambda>k. k\<lparr>keylen := 0\<rparr>)
           (upd_ki d (\<lambda>k. k\<lparr>keyid := put_at 0 (take n kid) (keyid k), keylen := l\<rparr>) s))"
proof -
  have "upd_ki d (\<lambda>k. k\<lparr>keylen := 0\<rparr>)
           (upd_ki d (\<lambda>k. k\<lparr>keyid := put_at 0 (take n kid) (keyid k), keylen := l\<rparr>) s) =
        upd_ki d (\<lambda>k. k\<lparr>keyid := put_at 0 (take n kid) (keyid k), keylen := 0\<rparr>) s"
    by (simp add: upd_ki_def)
  then show ?thesis using assms by (auto simp: ki_ok_def intro!: upd_ki_inv)
qed

lemma encrypt_keyid_inv [wf_intro]:
  assumes "enc_inv s" shows "enc_inv (encrypt_keyid d kid s)"
proof -
  have c: "enc_inv (snd (call_keyid m e t))" if "enc_inv t" for m e t
    using that by (rule call_keyid_inv [OF keylen_zero_inv])
  note z = keylen_zero_inv [OF assms]
  have p: "enc_inv (snd (call_keyid m e (upd_ki e (\<lambda>k. k\<lparr>keyid := put_at 0 (take n kid) (keyid k), keylen := l\<rparr>) s)))"
    if "n \<le> MAXKEYLEN" for m e n l
    by (rule call_keyid_inv [OF new_keyid_inv [OF assms that]])
  show ?thesis
    using assms
    by (auto simp: encrypt_keyid_def Let_def case_prod_beta c z p split: option.splits
        intro!: send_keyid_ki_inv encrypt_start_output_inv)
qed

lemma EncryptStartStop_inv [wf_intro]:
  "enc_inv s \<Longrightarrow> enc_inv (snd (EncryptStartInput s))"
  "enc_inv s \<Longrightarrow> enc_inv (snd (EncryptStartOutput s))"
  "enc_inv s \<Longrightarrow> enc_inv (snd (EncryptStopInput s))"
  "enc_inv s \<Longrightarrow> enc_inv (snd (EncryptStopOutput s))"
  by (auto simp: EncryptStartInput_def EncryptStartOutput_def EncryptStopInput_def
      EncryptStopOutput_def intro!: wf_intro)

lemma EncryptStart_inv [wf_intro]: "enc_inv s \<Longrightarrow> enc_inv (snd (EncryptStart m s))"
  by (auto simp: EncryptStart_def Let_def case_prod_beta split: option.splits
      intro!: EncryptStartStop_inv)

lemma EncryptStop_inv [wf_intro]: "enc_inv s \<Longrightarrow> enc_inv (snd (EncryptStop m s))"
  by (auto simp: EncryptStop_def Let_def case_prod_beta split: option.splits
      intro!: EncryptStartStop_inv)

lemma EncryptType_inv [wf_intro]: "enc_inv s \<Longrightarrow> enc_inv (snd (EncryptType t m s))"
  by (auto simp: EncryptType_def Let_def split: genget_result.splits)

lemma EncryptEnable_inv [wf_intro]: "enc_inv s \<Longrightarrow> enc_inv (snd (EncryptEnable t m s))"
  using EncryptType_inv [of s t m]
  by (auto simp: EncryptEnable_def Let_def case_prod_beta intro!: EncryptStart_inv)

lemma EncryptDisable_inv [wf_intro]: "enc_inv s \<Longrightarrow> enc_inv (snd (EncryptDisable t m s))"
  by (auto simp: EncryptDisable_def Let_def split: genget_result.splits intro!: EncryptStartStop_inv)

section \<open>Start-up\<close>

lemma fb64_init_ok [simp]: "fb_ok (fb64_init b)" "fb_state (fb64_init b) d = - 1" "length (fb_feed (fb64_init b)) = 64"
  by (auto simp: fb64_init_def zero_fb_def fb_ok_def zero_block_def)

lemma fb_ok_flagshift [simp]:
  "fb_ok (upd_stream d (\<lambda>st. st\<lparr>str_flagshift := v\<rparr>) b) = fb_ok b"
  by (auto simp: fb_ok_def upd_stream_def)

lemma fb_ok_put [simp]:
  "length (fb_feed b) = 64 \<Longrightarrow> fb_ok (b\<lparr>fb_feed := put_at 4 [x] (fb_feed b)\<rparr>) = fb_ok b"
  by (simp add: fb_ok_def)

lemma cipher_init_fbs:
  "fbs (cipher_init CFB s) = (fbs s)(CFB :=
     upd_stream DIR_DECRYPT (\<lambda>st. st\<lparr>str_flagshift := SHIFT_VAL 0 0\<rparr>)
       (upd_stream DIR_ENCRYPT (\<lambda>st. st\<lparr>str_flagshift := SHIFT_VAL 1 0\<rparr>)
         ((fb64_init zero_fb)\<lparr>fb_feed := put_at 4 [1] (fb_feed (fb64_init zero_fb))\<rparr>)))"
  "fbs (cipher_init OFB s) = (fbs s)(OFB :=
       (fb64_init zero_fb)\<lparr>fb_feed := put_at 4 [2] (fb_feed (fb64_init zero_fb))\<rparr>,
     CFB := upd_stream DIR_DECRYPT (\<lambda>st. st\<lparr>str_flagshift := SHIFT_VAL 0 1\<rparr>)
         (upd_stream DIR_ENCRYPT (\<lambda>st. st\<lparr>str_flagshift := SHIFT_VAL 1 1\<rparr>) (fbs s CFB)))"
  by (simp_all add: cipher_init_def cfb64_init_def ofb64_init_def upd_fb_def fb64_init_def)

lemma str_send_byte_simps [simp]:
  "str_suplen (str_send_byte b s) = str_suplen s + 1" "fbs (str_send_byte b s) = fbs s"
  by (simp_all add: str_send_byte_def)

lemma encrypt_init_fbs_ok: "fb_ok (fbs (encrypt_init sv s) m)"
  by (cases m) (simp_all add: encrypt_init_def encryptions_def cipher_init_fbs Let_def)

text \<open>What the loop of \<open>encrypt_init\<close> keeps of the rest of the state.\<close>

definition enc_rest :: "enc_state \<Rightarrow> bool" where
  "enc_rest s =
     ((\<forall>d. ki_ok (ki s d)) \<and> encrypt_output s = None \<and> short_writes (net_out s) \<and>
      randoms_ok (randoms s) \<and> length (str_send s) = 64)"

lemma enc_rest_simps [simp]:
  "enc_rest (cipher_init m s) = enc_rest s" "str_suplen (cipher_init m s) = str_suplen s"
  "enc_rest (str_send_byte b s) = enc_rest s"
  "enc_rest (s\<lparr>i_support_encrypt := v, i_support_decrypt := w\<rparr>) = enc_rest s"
  by (auto simp: enc_rest_def cipher_init_def cfb64_init_def ofb64_init_def upd_fb_def
      str_send_byte_def split: mode.splits)

lemma encrypt_init_loop_rest:
  "enc_rest s \<Longrightarrow> enc_rest (encrypt_init_loop es s) \<and>
     str_suplen (encrypt_init_loop es s) \<le> str_suplen s + 2 * length es"
proof (induction es arbitrary: s)
  case Nil
  then show ?case by simp
next
  case (Cons e es)
  obtain t m where e: "e = (t, m)" by (cases e)
  define u where "u = s\<lparr>i_support_encrypt := i_support_encrypt s OR typemask t,
                        i_support_decrypt := i_support_decrypt s OR typemask t\<rparr>"
  define v where "v = (if i_wont_support_decrypt u AND typemask t = 0
               then (let s = str_send_byte (word_of_int t) u
                     in if word_of_int t = IAC then str_send_byte IAC s else s)
               else u)"
  have "enc_rest v" "str_suplen v \<le> str_suplen s + 2"
    using Cons.prems by (auto simp: u_def v_def Let_def)
  moreover have "encrypt_init_loop (e # es) s = encrypt_init_loop es (cipher_init m v)"
    by (simp add: e u_def v_def Let_def)
  ultimately show ?case
    using Cons.IH [of "cipher_init m v"] by auto
qed

lemma encrypt_init_ok:
  assumes "enc_rest (s\<lparr>encrypt_output := None\<rparr>)" shows "enc_inv (encrypt_init sv s)"
proof -
  define t where "t = s\<lparr>Server := sv, i_support_encrypt := 0, i_support_decrypt := 0,
                remote_supports_encrypt := 0, remote_supports_decrypt := 0,
                encrypt_mode := 0, decrypt_mode := 0,
                encrypt_output := None, decrypt_input := None, str_suplen := 4\<rparr>"
  have "enc_rest t" "str_suplen t = 4"
    using assms by (auto simp: t_def enc_rest_def)
  then have r: "enc_rest (encrypt_init_loop encryptions t)" "str_suplen (encrypt_init_loop encryptions t) \<le> 8"
    using encrypt_init_loop_rest [of t encryptions] by (simp_all add: encryptions_def)
  have eq: "encrypt_init sv s = str_send_byte SE (str_send_byte IAC (encrypt_init_loop encryptions t))"
    by (simp add: encrypt_init_def t_def Let_def)
  have "enc_rest (encrypt_init sv s)" "str_suplen (encrypt_init sv s) \<le> 10"
    unfolding eq using r by simp_all
  then show ?thesis
    using encrypt_init_fbs_ok by (auto simp: enc_inv_def enc_rest_def)
qed

lemma encrypt_init_inv [wf_intro]: "enc_inv s \<Longrightarrow> enc_inv (encrypt_init sv s)"
  by (rule encrypt_init_ok) (simp add: enc_inv_def enc_rest_def)

lemma enc_step_inv: "enc_inv s \<Longrightarrow> enc_inv (enc_step e s)"
  by (cases e)
    (auto simp: encrypt_enc_keyid_def encrypt_dec_keyid_def encrypt_request_start_def encrypt_end_def
      encrypt_request_end_def encrypt_session_key_def encrypt_auto_def decrypt_auto_def
      intro!: wf_intro encrypt_session_loop_inv)

lemma enc_run_inv: "enc_inv s \<Longrightarrow> enc_inv (enc_run evs s)"
  unfolding enc_run_def by (induction evs arbitrary: s) (auto intro: enc_step_inv)

text \<open>The programs call \<open>encrypt_init\<close> before anything else; the run starts there.\<close>

definition enc_boot :: "bool \<Rightarrow> byte list option list \<Rightarrow> enc_state" where
  "enc_boot sv rs = encrypt_init sv (enc_initial rs)"

lemma enc_boot_inv: "randoms_ok rs \<Longrightarrow> enc_inv (enc_boot sv rs)"
  unfolding enc_boot_def
  by (rule encrypt_init_ok) (simp add: enc_rest_def enc_initial_def ki_ok_def short_writes_def)

end
