(* ===== verification/EncProps.thy ===== *)
theory EncProps
  imports EncInv
begin

text \<open>
  The properties of the encryption library: when output may be encrypted, the bounds of its
  messages, the choice of a type, and a whole negotiation between a client and a server.
\<close>

section \<open>A negotiation between two parties\<close>

text \<open>
  What the receiver of a message does with it: the framing is stripped, doubled \<open>IAC\<close>s are
  halved, and the handler of the sub-command is called.
\<close>

fun iac_undouble :: "byte list \<Rightarrow> byte list" where
  "iac_undouble [] = []"
| "iac_undouble [x] = [x]"
| "iac_undouble (x # y # xs) = (if x = IAC \<and> y = IAC then IAC # iac_undouble xs
                                else x # iac_undouble (y # xs))"

lemma iac_undouble_double: "iac_undouble (iac_double xs) = xs"
  by (induction xs) (auto, (metis IAC_def iac_double.elims iac_undouble.simps(2,3) list.sel(1))+)

definition enc_dispatch :: "byte list \<Rightarrow> enc_event option" where
  "enc_dispatch body =
     (case body of
        [] \<Rightarrow> None
      | c # d \<Rightarrow>
          if c = ENCRYPT_SUPPORT then Some (Ev_support d)
          else if c = ENCRYPT_IS then Some (Ev_is d)
          else if c = ENCRYPT_REPLY then Some (Ev_reply d)
          else if c = ENCRYPT_START then Some (Ev_start d)
          else if c = ENCRYPT_END then Some Ev_end
          else if c = ENCRYPT_REQSTART then Some (Ev_request_start d)
          else if c = ENCRYPT_REQEND then Some Ev_request_end
          else if c = ENCRYPT_ENC_KEYID then Some (Ev_enc_keyid d)
          else if c = ENCRYPT_DEC_KEYID then Some (Ev_dec_keyid d)
          else None)"

definition message_event :: "net_event \<Rightarrow> enc_event option" where
  "message_event e =
     (case e of
        Net_write xs \<Rightarrow> enc_dispatch (iac_undouble (take (length xs - 5) (drop 3 xs)))
      | _ \<Rightarrow> None)"

definition enc_receive :: "net_event \<Rightarrow> enc_state \<Rightarrow> enc_state" where
  "enc_receive e s = (case message_event e of None \<Rightarrow> s | Some ev \<Rightarrow> enc_step ev s)"

text \<open>
  Both parties deliver each other's messages in order until none is left. The numbers are how
  many messages of each have been delivered.
\<close>

fun exchange :: "nat \<Rightarrow> nat \<Rightarrow> nat \<Rightarrow> enc_state \<Rightarrow> enc_state \<Rightarrow> enc_state \<times> enc_state" where
  "exchange 0 i j c s = (c, s)"
| "exchange (Suc fuel) i j c s =
     (if i < length (net_out c) then exchange fuel (i + 1) j c (enc_receive (net_out c ! i) s)
      else if j < length (net_out s) then exchange fuel i (j + 1) (enc_receive (net_out s ! j) c) s
      else (c, s))"

definition des_key :: "byte list \<Rightarrow> Session_Key option" where
  "des_key k = Some \<lparr>sk_type = SK_DES, sk_length = 8, sk_data = k\<rparr>"

text \<open>
  The two sides after authentication has given them the session key: the client encrypts and
  decrypts automatically, and each has offered the types it can decrypt.
\<close>

definition client_ready :: "byte list \<Rightarrow> byte list \<Rightarrow> enc_state" where
  "client_ready key iv =
     enc_run [Ev_auto 1, Ev_decrypt_auto 1, Ev_session_key (des_key key) False, Ev_send_support]
       (enc_boot False [Some iv])"

definition server_ready :: "byte list \<Rightarrow> byte list \<Rightarrow> enc_state" where
  "server_ready key iv =
     enc_run [Ev_session_key (des_key key) True, Ev_send_support] (enc_boot True [Some iv])"

definition sample_iv :: "byte list" where "sample_iv = [9, 8, 7, 255, 5, 4, 3, 2]"

section \<open>Properties\<close>

text \<open>C10. No encryption without a key: after any sequence of received sub-negotiations and
  local commands, in any order, if output is being encrypted then a session key has been
  installed for the cipher in use, in both directions.\<close>

theorem encryption_needs_key:
  assumes "randoms_ok rs" "encrypt_output (enc_run evs (enc_boot sv rs)) = Some m"
  shows "validkey (fbs (enc_run evs (enc_boot sv rs)) m) \<and>
         (\<forall>d. str_key (streams (fbs (enc_run evs (enc_boot sv rs)) m) d) \<noteq> None)"
proof -
  have "enc_inv (enc_run evs (enc_boot sv rs))"
    using enc_run_inv [OF enc_boot_inv [OF assms(1)]] .
  with assms(2) have "validkey (fbs (enc_run evs (enc_boot sv rs)) m)"
      "fb_ok (fbs (enc_run evs (enc_boot sv rs)) m)"
    by (auto simp: enc_inv_def)
  then show ?thesis by (auto simp: fb_ok_def)
qed

text \<open>A client's run up to the start of encryption: the key arrives, the server supports both
  types, accepts the initial vector and confirms the key id.\<close>

definition sample_events :: "enc_event list" where
  "sample_events = [Ev_auto 1, Ev_session_key (des_key [1, 2, 3, 4, 5, 6, 7, 8]) False,
     Ev_support [1, 2], Ev_reply [1, 2], Ev_dec_keyid [0]]"

lemma sample_randoms: "randoms_ok [Some sample_iv]"
  by (simp add: randoms_ok_def sample_iv_def)

lemma sample_run: "encrypt_output (enc_run sample_events (enc_boot False [Some sample_iv])) = Some CFB"
  by code_simp

lemma encryption_needs_key_witness:
  "validkey (fbs (enc_run sample_events (enc_boot False [Some sample_iv])) CFB)"
  using encryption_needs_key [OF sample_randoms sample_run] by simp

text \<open>C11. The static message buffers never overflow: every message the library hands to the
  network, whatever it has received before, is at most 64 bytes long. Each is assembled in
  one of \<open>str_send[64]\<close>, \<open>str_start[72]\<close>, \<open>str_keyid[133]\<close>, \<open>str_end[6]\<close> and \<open>fb_feed[64]\<close>,
  although a key id of 64 bytes, all doubled, would not fit \<open>str_start\<close>.\<close>

theorem enc_messages_bounded:
  assumes "randoms_ok rs" "Net_write xs \<in> set (net_out (enc_run evs (enc_boot sv rs)))"
  shows "length xs \<le> 64"
proof -
  have "enc_inv (enc_run evs (enc_boot sv rs))"
    using enc_run_inv [OF enc_boot_inv [OF assms(1)]] .
  with assms(2) show ?thesis by (auto simp: enc_inv_def short_writes_def list_all_iff)
qed

lemma sample_run_out:
  "net_out (enc_run sample_events (enc_boot False [Some sample_iv])) =
     [Net_write [IAC, SB, TELOPT_ENCRYPT, ENCRYPT_IS, 1, FB64_IV, 9, 8, 7, 255, 255, 5, 4, 3, 2, IAC, SE],
      Net_write [IAC, SB, TELOPT_ENCRYPT, ENCRYPT_ENC_KEYID, 0, IAC, SE],
      Net_write [IAC, SB, TELOPT_ENCRYPT, ENCRYPT_START, 0, IAC, SE], Net_encrypt]"
  by code_simp

lemma enc_messages_bounded_witness:
  "length [IAC, SB, TELOPT_ENCRYPT, ENCRYPT_IS, 1, FB64_IV, 9, 8, 7, 255, 255, 5, 4, 3, 2, IAC, SE] \<le> 64"
  by (rule enc_messages_bounded [OF sample_randoms, of _ sample_events False])
    (simp add: sample_run_out)


text \<open>A received \<open>START\<close> is obeyed before there is a key: \<open>encrypt_start\<close> looks only at
  the type the peer announced in its \<open>IS\<close> message, so a server that has no session key can
  be put into decrypting its input.\<close>

theorem start_without_key:
  "let s = enc_run [Ev_is [1, 1, 1, 2, 3, 4, 5, 6, 7, 8], Ev_start []] (enc_boot True rs)
   in decrypt_input s = Some CFB \<and> \<not> validkey (fbs s CFB) \<and>
      str_key (streams (fbs s CFB) DIR_DECRYPT) = None"
  by code_simp

definition acceptable_type :: "enc_state \<Rightarrow> byte \<Rightarrow> bool" where
  "acceptable_type s b = (uint b < ENCTYPE_CNT \<and> I_SUPPORT_ENCRYPT s AND typemask (uint b) \<noteq> 0)"

lemma acceptable_type_cong [simp]:
  "acceptable_type (s\<lparr>remote_supports_decrypt := v\<rparr>) = acceptable_type s"
  by (rule ext) (simp add: acceptable_type_def I_SUPPORT_ENCRYPT_def)

lemma support_loop_Cons:
  "encrypt_support_loop (b # bs) u s =
     (if acceptable_type s b
      then encrypt_support_loop bs (if u = 0 then uint b else u)
             (s\<lparr>remote_supports_decrypt := remote_supports_decrypt s OR typemask (uint b)\<rparr>)
      else encrypt_support_loop bs u s)"
  by (simp add: acceptable_type_def Let_def)

lemma acceptable_type_pos: "acceptable_type s b \<Longrightarrow> uint b \<noteq> 0"
  by (auto simp: acceptable_type_def typemask_def)

lemma support_loop_result:
  "encrypt_support_loop bs u s =
     (if u = 0 then (case filter (acceptable_type s) bs of [] \<Rightarrow> 0 | b # _ \<Rightarrow> uint b) else u,
      s\<lparr>remote_supports_decrypt :=
          foldl (\<lambda>r b. r OR typemask (uint b)) (remote_supports_decrypt s) (filter (acceptable_type s) bs)\<rparr>)"
proof (induction bs arbitrary: u s)
  case Nil
  then show ?case by simp
next
  case (Cons b bs)
  then show ?case
    unfolding support_loop_Cons using acceptable_type_pos [of s b] by auto
qed

text \<open>The type to encrypt with is the first one of the peer's \<open>SUPPORT\<close> list that this side
  supports and has not disabled; without one, nothing happens but that the record of
  what the peer supports is cleared.\<close>

theorem encrypt_support_choice:
  "encrypt_support bs s =
     (case filter (acceptable_type s) bs of
        [] \<Rightarrow> s\<lparr>remote_supports_decrypt := 0\<rparr>
      | b # _ \<Rightarrow>
          let s1 = s\<lparr>remote_supports_decrypt :=
                     foldl (\<lambda>r b. r OR typemask (uint b)) 0 (filter (acceptable_type s) bs)\<rparr>
          in case findencryption s1 (uint b) of
               None \<Rightarrow> s1
             | Some m \<Rightarrow>
                 let (r, s2) = fb64_start m DIR_ENCRYPT (Server s1) s1
                 in if r < 0 then s2
                    else if r = 0 then encrypt_start_output (uint b) (s2\<lparr>encrypt_mode := uint b\<rparr>)
                    else s2\<lparr>encrypt_mode := uint b\<rparr>)"
proof (cases "filter (acceptable_type s) bs")
  case Nil
  then show ?thesis by (simp add: encrypt_support_def support_loop_result)
next
  case (Cons b r)
  then have "acceptable_type s b"
    using filter_eq_ConsD by fastforce
  from acceptable_type_pos [OF this] show ?thesis
    using Cons by (simp add: encrypt_support_def support_loop_result Let_def case_prod_beta
        split: option.split)
qed

lemma encrypt_reply_stream:
  assumes "findencryption s 1 = Some CFB"
  shows "streams (fbs (encrypt_reply [1, FB64_IV_OK] s) CFB) DIR_ENCRYPT =
           fb64_stream_iv (temp_feed (fbs s CFB)) (streams (fbs s CFB) DIR_ENCRYPT)"
proof -
  have keep: "streams (fbs (encrypt_start_output t u) CFB) DIR_ENCRYPT = streams (fbs u CFB) DIR_ENCRYPT"
    if "findencryption u t = Some CFB" "fb_state (fbs u CFB) DIR_ENCRYPT = 0" for t u
    using that by (simp add: encrypt_start_output_def fb64_start_encrypt Let_def frame_simps
        set_fb_state_def)
  have send: "fbs (encrypt_send_keyid d k n v u) = fbs u" for d k n v u
    by (simp add: encrypt_send_keyid_def Let_def frame_simps)
  obtain r s1 where rs: "fb64_reply CFB [FB64_IV_OK] s = (r, s1)" by fastforce
  have s1: "streams (fbs s1 CFB) DIR_ENCRYPT = fb64_stream_iv (temp_feed (fbs s CFB)) (streams (fbs s CFB) DIR_ENCRYPT)"
      "fb_state (fbs s1 CFB) DIR_ENCRYPT = r" "findencryption s1 1 = findencryption s 1"
    using rs by (auto simp: fb64_reply_def Let_def frame_simps send set_fb_state_def upd_stream_def
        findencryption_def I_SUPPORT_ENCRYPT_def encrypt_send_keyid_def net_write_def upd_fb_def upd_ki_def)
  have "findencryption (s1\<lparr>encrypt_mode := 1\<rparr>) 1 = Some CFB"
    using s1(3) assms by (simp add: findencryption_def I_SUPPORT_ENCRYPT_def)
  then show ?thesis
    using assms rs s1(1,2) keep [of "s1\<lparr>encrypt_mode := 1\<rparr>" 1]
    by (simp add: encrypt_reply_def Let_def)
qed

lemma cfb64_encrypt_same:
  assumes "str_key d = str_key e" "str_index d = str_index e" "str_output d = str_output e"
    "str_index e \<noteq> 8 \<Longrightarrow> str_feed d = str_feed e"
  shows "fst (cfb64_encrypt des d xs) = fst (cfb64_encrypt des e xs)"
  using assms
proof (induction xs arbitrary: d e)
  case Nil
  then show ?case by simp
next
  case (Cons x xs)
  have "fst (cfb_byte des d x) = fst (cfb_byte des e x)"
    using Cons.prems by (auto simp: cfb_byte_def ecb_encrypt_def Let_def)
  moreover have "fst (cfb64_encrypt des (snd (cfb_byte des d x)) xs) =
      fst (cfb64_encrypt des (snd (cfb_byte des e x)) xs)"
    by (rule Cons.IH) (use Cons.prems in \<open>auto simp: cfb_byte_def ecb_encrypt_def Let_def\<close>)
  ultimately show ?case
    by (simp add: cfb64_encrypt_Cons Let_def case_prod_beta del: cfb64_encrypt.simps(2))
qed

text \<open>A second \<open>FB64_IV_OK\<close> rewinds the cipher: whenever the reply arrives, even in the
  middle of an encrypted session, the output stream goes back to the initial vector that was
  sent, so what is encrypted next under cipher feedback reuses the keystream of the first
  block. The peer's stream is not rewound.\<close>

theorem iv_ok_rewinds:
  assumes "findencryption s 1 = Some CFB" "findencryption s' 1 = Some CFB"
    and "temp_feed (fbs s' CFB) = temp_feed (fbs s CFB)"
    and "str_key (streams (fbs s' CFB) DIR_ENCRYPT) = str_key (streams (fbs s CFB) DIR_ENCRYPT)"
  shows "fst (cfb64_encrypt des (streams (fbs (encrypt_reply [1, FB64_IV_OK] s') CFB) DIR_ENCRYPT) xs) =
         fst (cfb64_encrypt des (streams (fbs (encrypt_reply [1, FB64_IV_OK] s) CFB) DIR_ENCRYPT) xs)"
proof -
  have "fst (cfb64_encrypt des (fb64_stream_iv v st) xs) = fst (cfb64_encrypt des (fb64_stream_iv v st') xs)"
    if "str_key st = str_key st'" for v st st'
    by (rule cfb64_encrypt_same) (use that in \<open>simp_all add: fb64_stream_iv_def\<close>)
  from this [OF assms(4)] show ?thesis
    using assms(3) unfolding encrypt_reply_stream [OF assms(1)] encrypt_reply_stream [OF assms(2)] by simp
qed

text \<open>The client of the sample run encrypts three bytes, then hears \<open>FB64_IV_OK\<close> again.\<close>

definition rewind_before :: enc_state where
  "rewind_before = enc_run [Ev_auto 1, Ev_session_key (des_key [1, 2, 3, 4, 5, 6, 7, 8]) False,
     Ev_support [1, 2]] (enc_boot False [Some sample_iv])"

definition rewind_after :: enc_state where
  "rewind_after =
     (let s = enc_run [Ev_reply [1, 2], Ev_dec_keyid [0]] rewind_before
      in upd_fb CFB (upd_stream DIR_ENCRYPT (\<lambda>st. snd (cfb64_encrypt toy_des st [65, 66, 67]))) s)"

lemma iv_ok_rewinds_witness:
  "fst (cfb64_encrypt toy_des (streams (fbs (encrypt_reply [1, FB64_IV_OK] rewind_after) CFB) DIR_ENCRYPT) [65, 66, 67]) =
   fst (cfb64_encrypt toy_des (streams (fbs (encrypt_reply [1, FB64_IV_OK] rewind_before) CFB) DIR_ENCRYPT) [65, 66, 67])"
proof (rule iv_ok_rewinds)
  show "findencryption rewind_before 1 = Some CFB" by code_simp
  show "findencryption rewind_after 1 = Some CFB" by code_simp
  show "temp_feed (fbs rewind_after CFB) = temp_feed (fbs rewind_before CFB)" by code_simp
  show "str_key (streams (fbs rewind_after CFB) DIR_ENCRYPT) =
        str_key (streams (fbs rewind_before CFB) DIR_ENCRYPT)" by code_simp
qed

end
