(* ===== verification/EncNet.thy ===== *)
theory EncNet
  imports EncCipher
begin

text \<open>
  The encrypted connection: the client's output ring encrypting with the cipher feedback of
  enc_des.c, and a peer that decrypts what arrives one byte at a time. This puts together
  the ring, \<open>netflush\<close> and the cipher.
\<close>

lemma decrypt_run_append:
  "decrypt_run dec d (xs @ ys) =
     (fst (decrypt_run dec d xs) @ fst (decrypt_run dec (snd (decrypt_run dec d xs)) ys),
      snd (decrypt_run dec (snd (decrypt_run dec d xs)) ys))"
  by (induction xs arbitrary: d) (simp_all add: Let_def case_prod_beta)


definition net_stream :: stinfo where
  "net_stream = ready_stream [1, 2, 3, 4, 5, 6, 7, 8] [8, 7, 6, 5, 4, 3, 2, 1]"

definition net_ops :: "out_op list" where
  "net_ops = [Out_write [72, 73], Out_flush [Sent 1, Sent 0], Out_write [74], Out_flush [Sent 9]]"


end
