(* ===== verification/Auth.thy ===== *)
theory Auth
  imports Encrypt
begin

text \<open>
  Authentication (telnet/libtelnet/auth.c) with its one mechanism, Kerberos V5
  (telnet/libtelnet/kerberos5.c). The static variables of both files are one record, which
  contains the state of the encryption library, because a successful authentication hands it
  the session key; messages to the peer go to its \<open>net_out\<close>. The calls of the Kerberos
  library are parameters: a handler takes a record of what its calls return. Output on the
  user's terminal and the debug output are left out.
\<close>

section \<open>Types\<close>

record authenticator =
  a_type :: byte
  a_way :: byte

text \<open>\<open>authenticated\<close> is the null pointer, \<open>&NoAuth\<close>, or a mechanism.\<close>

datatype authed = Not_yet | NoAuth | By authenticator

record auth_state =
  a_Server :: bool
  authenticated :: authed
  authenticating :: bool
  validuser :: int
  auth_send_data :: "byte list"
  auth_send_cnt :: int
  i_support :: "32 word"
  i_wont_support :: "32 word"
  auth_has_failed :: bool
  auth_enable_encrypt :: bool
  auth_client_non_unix :: bool
  str_data3 :: byte
  telnet_context :: bool
  auth_context :: bool
  session_key :: "byte list option"
  ticket_client :: "byte list"
  mutual_complete :: bool
  UserNameRequested :: "byte list option"
  forward_flags :: int
  enc :: enc_state

definition AUTH_REJECT :: int where [simp]: "AUTH_REJECT = 0"
definition AUTH_USER :: int where [simp]: "AUTH_USER = 3"
definition AUTH_VALID :: int where [simp]: "AUTH_VALID = 4"

definition KRB_AUTH :: byte where [simp]: "KRB_AUTH = 0"
definition KRB_REJECT :: byte where [simp]: "KRB_REJECT = 1"
definition KRB_ACCEPT :: byte where [simp]: "KRB_ACCEPT = 2"
definition KRB_RESPONSE :: byte where [simp]: "KRB_RESPONSE = 3"
definition KRB_FORWARD :: byte where [simp]: "KRB_FORWARD = 4"
definition KRB_FORWARD_ACCEPT :: byte where [simp]: "KRB_FORWARD_ACCEPT = 5"
definition KRB_FORWARD_REJECT :: byte where [simp]: "KRB_FORWARD_REJECT = 6"
definition OPTS_FORWARD_CREDS :: int where [simp]: "OPTS_FORWARD_CREDS = 2"

text \<open>
  The shift of a 32-bit \<open>int\<close>, its count taken modulo 32 as the shift instruction does; C
  leaves the shift by -1, for type 0, and those by 32 and more undefined.
\<close>

definition typemask32 :: "int \<Rightarrow> 32 word" where
  "typemask32 x = push_bit (nat ((x - 1) mod 32)) 1"

definition authenticators :: "authenticator list" where
  "authenticators =
     [\<lparr>a_type = AUTHTYPE_KERBEROS_V5, a_way = AUTH_WHO_CLIENT OR AUTH_HOW_MUTUAL OR AUTH_ENCRYPT_ON\<rparr>,
      \<lparr>a_type = AUTHTYPE_KERBEROS_V5, a_way = AUTH_WHO_CLIENT OR AUTH_HOW_MUTUAL\<rparr>,
      \<lparr>a_type = AUTHTYPE_KERBEROS_V5, a_way = AUTH_WHO_CLIENT OR AUTH_HOW_ONE_WAY\<rparr>]"

fun find_auth :: "byte \<Rightarrow> byte \<Rightarrow> authenticator list \<Rightarrow> authenticator option" where
  "find_auth type way [] = None"
| "find_auth type way (ap # aps) =
     (if a_type ap \<noteq> type \<or> a_way ap \<noteq> way then find_auth type way aps else Some ap)"

definition findauthenticator :: "byte \<Rightarrow> byte \<Rightarrow> authenticator option" where
  "findauthenticator type way = find_auth type way authenticators"

definition a_write :: "byte list \<Rightarrow> auth_state \<Rightarrow> auth_state" where
  "a_write xs s = s\<lparr>enc := net_write xs (enc s)\<rparr>"

definition auth_finished :: "authenticator option \<Rightarrow> int \<Rightarrow> auth_state \<Rightarrow> auth_state" where
  "auth_finished ap result s =
     s\<lparr>authenticated := (case ap of None \<Rightarrow> NoAuth | Some a \<Rightarrow> By a), validuser := result\<rparr>"

section \<open>Start-up and the user's commands\<close>

text \<open>\<open>krb5_init_context\<close> is called while there is no context; \<open>ok\<close> is whether it succeeds.\<close>

definition kerberos5_init :: "bool \<Rightarrow> bool \<Rightarrow> auth_state \<Rightarrow> bool \<times> auth_state" where
  "kerberos5_init ok server s =
     (let s = s\<lparr>str_data3 := (if server then TELQUAL_REPLY else TELQUAL_IS)\<rparr>
      in if telnet_context s then (True, s)
         else if ok then (True, s\<lparr>telnet_context := True\<rparr>) else (False, s))"

fun auth_init_loop :: "bool \<Rightarrow> bool \<Rightarrow> authenticator list \<Rightarrow> auth_state \<Rightarrow> auth_state" where
  "auth_init_loop ok server [] s = s"
| "auth_init_loop ok server (ap # aps) s =
     (let (r, s) = kerberos5_init ok server s
      in auth_init_loop ok server aps
           (if r then s\<lparr>i_support := i_support s OR typemask32 (uint (a_type ap))\<rparr> else s))"

definition auth_init :: "bool \<Rightarrow> bool \<Rightarrow> auth_state \<Rightarrow> auth_state" where
  "auth_init ok server s =
     auth_init_loop ok server authenticators
       (s\<lparr>a_Server := server, i_support := 0, authenticated := Not_yet, authenticating := False\<rparr>)"

definition authtype_names :: "byte list list" where
  "authtype_names = map c_string [''NULL'', ''KERBEROS_V4'', ''KERBEROS_V5'', ''SPX'', ''MINK'']"

text \<open>\<open>!strcasecmp(a, b)\<close>\<close>

definition same_name :: "byte list \<Rightarrow> byte list \<Rightarrow> bool" where
  "same_name a b = (map LOWER a = map LOWER b)"

fun auth_disable_loop :: "byte list \<Rightarrow> int \<Rightarrow> byte list list \<Rightarrow> auth_state \<Rightarrow> auth_state" where
  "auth_disable_loop name x [] s = s"
| "auth_disable_loop name x (nm # nms) s =
     (if same_name name nm then s\<lparr>i_wont_support := i_wont_support s OR typemask32 x\<rparr>
      else auth_disable_loop name (x + 1) nms s)"

definition auth_disable_name :: "byte list \<Rightarrow> auth_state \<Rightarrow> auth_state" where
  "auth_disable_name name s = auth_disable_loop name 0 authtype_names s"

fun authmask_loop :: "byte list \<Rightarrow> int \<Rightarrow> byte list list \<Rightarrow> 32 word option" where
  "authmask_loop type x [] = None"
| "authmask_loop type x (nm # nms) =
     (if same_name type nm then Some (typemask32 x) else authmask_loop type (x + 1) nms)"

definition getauthmask :: "byte list \<Rightarrow> 32 word option" where
  "getauthmask type =
     (if same_name type (authtype_names ! 0) then Some (- 1)
      else authmask_loop type 1 (tl authtype_names))"

definition auth_onoff :: "byte list \<Rightarrow> bool \<Rightarrow> auth_state \<Rightarrow> int \<times> auth_state" where
  "auth_onoff type on s =
     (if same_name type (c_string ''?'') \<or> same_name type (c_string ''help'') then (0, s)
      else case getauthmask type of
             None \<Rightarrow> (0, s)
           | Some msk \<Rightarrow>
               (1, s\<lparr>i_wont_support := (if on then i_wont_support s AND NOT msk
                                       else i_wont_support s OR msk)\<rparr>))"

definition auth_enable :: "byte list \<Rightarrow> auth_state \<Rightarrow> int \<times> auth_state" where
  "auth_enable type s = auth_onoff type True s"

definition auth_disable :: "byte list \<Rightarrow> auth_state \<Rightarrow> int \<times> auth_state" where
  "auth_disable type s = auth_onoff type False s"

section \<open>The server asks\<close>

definition supported :: "auth_state \<Rightarrow> authenticator \<Rightarrow> bool" where
  "supported s ap = (i_support s AND NOT (i_wont_support s) AND typemask32 (uint (a_type ap)) \<noteq> 0)"

definition auth_request :: "auth_state \<Rightarrow> auth_state" where
  "auth_request s =
     (if authenticating s then s
      else
        let pairs = (\<lambda>aps. concat (map (\<lambda>ap. [a_type ap, a_way ap]) aps));
            first = filter (\<lambda>ap. supported s ap \<and>
                       (a_type ap = AUTHTYPE_KERBEROS_V4 \<or> \<not> auth_client_non_unix s)) authenticators;
            second = (if auth_client_non_unix s then filter (supported s) authenticators else [])
        in a_write ([IAC, SB, TELOPT_AUTHENTICATION, TELQUAL_SEND] @ pairs first @ pairs second @
                    [IAC, SE]) (s\<lparr>authenticating := True\<rparr>))"

section \<open>Messages of the mechanism\<close>

text \<open>
  \<open>auth_sendname\<close> fills a static array of 262 bytes from offset 4; it gives up when the
  position reaches offset 260.
\<close>

fun sendname_loop :: "nat \<Rightarrow> byte list \<Rightarrow> byte list option" where
  "sendname_loop e [] = Some []"
| "sendname_loop e (x # xs) =
     (let ys = (if x = IAC then [x, IAC] else [x]);
          e = e + length ys
      in if e \<ge> 260 then None else map_option (\<lambda>r. ys @ r) (sendname_loop e xs))"

definition auth_sendname :: "byte list \<Rightarrow> auth_state \<Rightarrow> bool \<times> auth_state" where
  "auth_sendname nm s =
     (case sendname_loop 4 nm of
        None \<Rightarrow> (False, s)
      | Some body \<Rightarrow>
          (True, a_write ([IAC, SB, TELOPT_AUTHENTICATION, TELQUAL_NAME] @ body @ [IAC, SE]) s))"

text \<open>
  The loop of \<open>Data\<close>, over the \<open>spaceleft\<close> bytes of \<open>str_data\<close>. The result of \<open>Data\<close> is -1 when
  it runs out of space, else that of \<open>net_write\<close>: the network buffer is taken to have room.
\<close>

definition TELNET_BUFSIZE :: int where "TELNET_BUFSIZE = 65535"

fun data_loop :: "int \<Rightarrow> byte list \<Rightarrow> byte list option" where
  "data_loop spaceleft [] = Some []"
| "data_loop spaceleft (x # xs) =
     (let ys = (if x = IAC then [x, IAC] else [x]);
          spaceleft = (if x = IAC then spaceleft - 1 else spaceleft) - 1
      in if spaceleft < 4 \<and> xs \<noteq> [] then None
         else map_option (\<lambda>r. ys @ r) (data_loop spaceleft xs))"

definition Data :: "authenticator \<Rightarrow> byte \<Rightarrow> byte list \<Rightarrow> auth_state \<Rightarrow> int \<times> auth_state" where
  "Data ap type d s =
     (case data_loop (TELNET_BUFSIZE - 4 - 3) d of
        None \<Rightarrow> (- 1, s)
      | Some body \<Rightarrow>
          let msg = [IAC, SB, TELOPT_AUTHENTICATION, str_data3 s, a_type ap, a_way ap, type] @
                    body @ [IAC, SE]
          in (int (length msg), a_write msg s))"

section \<open>The client sends its credentials\<close>

text \<open>What the library calls of \<open>kerberos5_send\<close> return, in their order.\<close>

record send_calls =
  s_cc_default :: int
  s_sname :: int
  s_get_principal :: int
  s_get_credentials :: int
  s_con_init :: int
  s_mk_req :: int
  s_mk_req_data :: "byte list"
  s_subkey :: "(bool \<times> byte list) option"
  s_cred_key :: "bool \<times> byte list"

text \<open>
  The subkey and the key of the credentials come with a flag: whether their type is one of
  the two DES types.
\<close>

definition send_session_key :: "send_calls \<Rightarrow> byte list option" where
  "send_session_key c =
     (case s_subkey c of
        None \<Rightarrow> None
      | Some (des, k) \<Rightarrow>
          if \<not> des then (if fst (s_cred_key c) then Some (snd (s_cred_key c)) else None) else Some k)"

definition kerberos5_send :: "send_calls \<Rightarrow> authenticator \<Rightarrow> auth_state \<Rightarrow> bool \<times> auth_state" where
  "kerberos5_send c ap s =
     (case UserNameRequested s of
        None \<Rightarrow> (False, s)
      | Some user \<Rightarrow>
          if s_cc_default c \<noteq> 0 \<or> s_sname c \<noteq> 0 \<or> s_get_principal c \<noteq> 0 \<or> s_get_credentials c \<noteq> 0
          then (False, s)
          else if s_con_init c \<noteq> 0 then (False, s\<lparr>auth_context := False\<rparr>)
          else
            let s = s\<lparr>auth_context := True, session_key := send_session_key c\<rparr>
            in if s_mk_req c \<noteq> 0 then (False, s)
               else
                 let (ok, s) = auth_sendname user s
                 in if \<not> ok then (False, s)
                    else
                      let (r, s) = Data ap KRB_AUTH (s_mk_req_data c) s
                      in (r \<noteq> 0, s))"

text \<open>
  The retry loop: it takes the types of the server's list two bytes at a time. A mechanism
  that cannot be sent leaves its effects behind and the next one is tried.
\<close>

fun send_retry_loop ::
  "(authenticator \<Rightarrow> send_calls) \<Rightarrow> byte list \<Rightarrow> int \<Rightarrow> auth_state \<Rightarrow> bool \<times> auth_state" where
  "send_retry_loop c (t # w # rest) cnt s =
     (if cnt - 2 < 0 then (False, s\<lparr>auth_send_data := t # w # rest, auth_send_cnt := cnt - 2\<rparr>)
      else if i_support s AND typemask32 (uint t) = 0 then send_retry_loop c rest (cnt - 2) s
      else if i_wont_support s AND typemask32 (uint t) \<noteq> 0 then send_retry_loop c rest (cnt - 2) s
      else case findauthenticator t w of
             None \<Rightarrow> send_retry_loop c rest (cnt - 2) s
           | Some ap \<Rightarrow>
               if a_way ap AND AUTH_ENCRYPT_MASK \<noteq> 0 \<and> \<not> auth_enable_encrypt s
               then send_retry_loop c rest (cnt - 2) s
               else
                 let (ok, s) = kerberos5_send (c ap) ap s
                 in if ok then (True, s\<lparr>auth_send_data := rest, auth_send_cnt := cnt - 2\<rparr>)
                    else send_retry_loop c rest (cnt - 2) s)"
| "send_retry_loop c d cnt s = (False, s\<lparr>auth_send_data := d, auth_send_cnt := cnt - 2\<rparr>)"

definition auth_send_retry :: "(authenticator \<Rightarrow> send_calls) \<Rightarrow> auth_state \<Rightarrow> auth_state" where
  "auth_send_retry c s =
     (if a_Server s then s
      else
        let (ok, s) = send_retry_loop c (auth_send_data s) (auth_send_cnt s) s
        in if ok then s
           else
             let s = a_write [IAC, SB, TELOPT_AUTHENTICATION, TELQUAL_IS, AUTHTYPE_NULL, 0, IAC, SE] s;
                 s = auth_finished None AUTH_REJECT s
             in s\<lparr>auth_has_failed := True\<rparr>)"

definition auth_send :: "(authenticator \<Rightarrow> send_calls) \<Rightarrow> byte list \<Rightarrow> auth_state \<Rightarrow> auth_state" where
  "auth_send c data s =
     (if a_Server s then s
      else
        let cnt = min (length data) 256
        in auth_send_retry c (s\<lparr>auth_send_cnt := int cnt, auth_send_data := take cnt data\<rparr>))"

section \<open>The server checks the credentials\<close>

text \<open>
  What the library calls of \<open>kerberos5_is\<close> return for a \<open>KRB_AUTH\<close> message: the results of
  the calls in their order, the components of the ticket's server name, whether the
  authenticator carries a checksum and how its verification ends for given data, the reply
  message, the client's name and the keys. \<open>k_error_message\<close> is the library's text of an error.
\<close>

record is_calls =
  k_error_message :: "int \<Rightarrow> byte list"
  k_con_init :: int
  k_getrcache :: int
  k_have_rcache :: bool
  k_sname :: int
  k_server_rcache :: int
  k_setrcache :: int
  k_srvtab :: bool
  k_kt_resolve :: int
  k_rd_req :: int
  k_service :: "byte list list"
  k_getauthenticator :: int
  k_checksum :: bool
  k_getkey :: int
  k_verify_checksum :: "byte list \<Rightarrow> int \<times> bool"
  k_mk_rep :: int
  k_mk_rep_data :: "byte list"
  k_client :: "byte list"
  k_unparse_ok :: bool
  k_recvsubkey :: "byte list option"
  k_ticket_session :: "byte list"
  k_genaddrs :: int
  k_rd_creds :: int

text \<open>\<open>snprintf\<close> into \<open>errbuf[320]\<close>: an error text, cut to what fits.\<close>

definition errbuf :: "byte list \<Rightarrow> byte list" where
  "errbuf msg = take 319 msg"

text \<open>Setting up the context and reading the request; the value is the code in \<open>r\<close>.\<close>

definition krb_read_request :: "is_calls \<Rightarrow> auth_state \<Rightarrow> int \<times> auth_state" where
  "krb_read_request c s =
     (let r = (if auth_context s then 0 else k_con_init c);
          s = (if r = 0 then s\<lparr>auth_context := True\<rparr> else s);
          r = (if r = 0
               then (let r = k_getrcache c;
                         r = (if r = 0 \<and> \<not> k_have_rcache c
                              then (if k_sname c = 0 then k_server_rcache c else k_sname c)
                              else r)
                     in if r = 0 then k_setrcache c else r)
               else r);
          r = (if r = 0 \<and> k_srvtab c then k_kt_resolve c else r);
          r = (if r = 0 then k_rd_req c else r)
      in (r, if r = 0 then s\<lparr>ticket_client := k_client c\<rparr> else s))"

text \<open>The service must be \<open>host\<close>; a component is copied as a C string.\<close>

definition krb_check_service :: "is_calls \<Rightarrow> byte list option" where
  "krb_check_service c =
     (if length (k_service c) < 1 then Some (c_string ''malformed service name'')
      else
        let comp = k_service c ! 0
        in if length comp < 256 then
             let princ = takeWhile (\<lambda>x. x \<noteq> 0) comp
             in if princ \<noteq> c_string ''host'' then
                  (if length princ < 320 - 39
                   then Some (errbuf (c_string ''incorrect service name: \"'' @ princ @ c_string ''\" != \"host\"''))
                   else Some (c_string ''incorrect service name: principal != \"host\"''))
                else None
           else Some (c_string ''service name too long''))"

definition krb_check_authenticator :: "is_calls \<Rightarrow> authenticator \<Rightarrow> byte list option" where
  "krb_check_authenticator c ap =
     (if k_getauthenticator c \<noteq> 0
      then Some (errbuf (c_string ''krb5_auth_con_getauthenticator failed: '' @ k_error_message c (k_getauthenticator c)))
      else if a_way ap AND AUTH_ENCRYPT_MASK = AUTH_ENCRYPT_ON \<and> \<not> k_checksum c
      then Some (c_string ''authenticator is missing required checksum'')
      else if k_checksum c then
        if k_getkey c \<noteq> 0
        then Some (errbuf (c_string ''krb5_auth_con_getkey failed: '' @ k_error_message c (k_getkey c)))
        else
          let (r, valid) = k_verify_checksum c [a_type ap, a_way ap]
          in if r \<noteq> 0 \<or> \<not> valid then Some (c_string ''checksum verification failed'') else None
      else None)"

definition krb_errout :: "authenticator \<Rightarrow> byte list \<Rightarrow> auth_state \<Rightarrow> auth_state" where
  "krb_errout ap msg s =
     (snd (Data ap KRB_REJECT (take 328 (c_string ''telnetd: '' @ msg)) s))\<lparr>auth_context := False\<rparr>"

text \<open>The credentials are good: tell the client, and give the encryption library the key.\<close>

definition krb_use_key :: "byte list \<Rightarrow> auth_state \<Rightarrow> auth_state" where
  "krb_use_key key s =
     s\<lparr>session_key := Some key,
       enc := encrypt_session_key (Some \<lparr>sk_type = SK_DES, sk_length = 8, sk_data = key\<rparr>) True (enc s)\<rparr>"

definition krb_accept :: "is_calls \<Rightarrow> authenticator \<Rightarrow> auth_state \<Rightarrow> auth_state" where
  "krb_accept c ap s =
     krb_use_key (case k_recvsubkey c of Some k \<Rightarrow> k | None \<Rightarrow> k_ticket_session c)
       (auth_finished (Some ap) AUTH_USER
         (snd (Data ap KRB_ACCEPT (if k_unparse_ok c then k_client c else []) s)))"

text \<open>The rest of the \<open>KRB_AUTH\<close> case, from the code \<open>r\<close> of reading the request.\<close>

fun krb_is_request :: "is_calls \<Rightarrow> authenticator \<Rightarrow> int \<times> auth_state \<Rightarrow> auth_state" where
  "krb_is_request c ap (r, s) =
     (if r \<noteq> 0
      then krb_errout ap (errbuf (c_string ''krb5_rd_req failed: '' @ k_error_message c r)) s
      else case krb_check_service c of
             Some msg \<Rightarrow> krb_errout ap msg s
           | None \<Rightarrow>
               (case krb_check_authenticator c ap of
                  Some msg \<Rightarrow> krb_errout ap msg s
                | None \<Rightarrow>
                    if a_way ap AND AUTH_HOW_MASK = AUTH_HOW_MUTUAL then
                      if k_mk_rep c \<noteq> 0
                      then krb_errout ap (errbuf (c_string ''Make reply failed: '' @ k_error_message c (k_mk_rep c))) s
                      else krb_accept c ap (snd (Data ap KRB_RESPONSE (k_mk_rep_data c) s))
                    else krb_accept c ap s))"

definition krb_is_auth :: "is_calls \<Rightarrow> authenticator \<Rightarrow> auth_state \<Rightarrow> auth_state" where
  "krb_is_auth c ap s = krb_is_request c ap (krb_read_request c s)"

definition kerberos5_is :: "is_calls \<Rightarrow> authenticator \<Rightarrow> byte list \<Rightarrow> auth_state \<Rightarrow> auth_state" where
  "kerberos5_is c ap data s =
     (case data of
        [] \<Rightarrow> s
      | op # data \<Rightarrow>
          if op = KRB_AUTH then krb_is_auth c ap s
          else if op = KRB_FORWARD then
            (let r = (if k_genaddrs c \<noteq> 0 then k_genaddrs c else k_rd_creds c)
             in if r \<noteq> 0
                then snd (Data ap KRB_FORWARD_REJECT
                       (take 127 (c_string ''Read forwarded creds failed: '' @ k_error_message c r)) s)
                else snd (Data ap KRB_FORWARD_ACCEPT [] s))
          else snd (Data ap KRB_REJECT [] s))"

definition auth_is :: "is_calls \<Rightarrow> byte list \<Rightarrow> auth_state \<Rightarrow> auth_state" where
  "auth_is c data s =
     (case data of
        t # w # rest \<Rightarrow>
          if t = AUTHTYPE_NULL then auth_finished None AUTH_REJECT s
          else (case findauthenticator t w of None \<Rightarrow> s | Some ap \<Rightarrow> kerberos5_is c ap rest s)
      | _ \<Rightarrow> s)"

section \<open>The client hears the answer\<close>

record reply_calls =
  p_rd_rep :: int
  p_send :: "authenticator \<Rightarrow> send_calls"
  p_cc_default :: int
  p_get_principal :: int
  p_sname :: int
  p_genaddrs :: int
  p_fwd_creds :: int
  p_fwd_data :: "byte list"

definition kerberos5_forward :: "reply_calls \<Rightarrow> authenticator \<Rightarrow> auth_state \<Rightarrow> auth_state" where
  "kerberos5_forward c ap s =
     (if p_cc_default c \<noteq> 0 \<or> p_get_principal c \<noteq> 0 \<or> p_sname c \<noteq> 0 \<or> p_genaddrs c \<noteq> 0 \<or>
         p_fwd_creds c \<noteq> 0
      then s else snd (Data ap KRB_FORWARD (p_fwd_data c) s))"

definition use_session_key :: "auth_state \<Rightarrow> auth_state" where
  "use_session_key s =
     (case session_key s of
        None \<Rightarrow> s
      | Some k \<Rightarrow> s\<lparr>enc := encrypt_session_key
                      (Some \<lparr>sk_type = SK_DES, sk_length = 8, sk_data = k\<rparr>) False (enc s)\<rparr>)"

definition krb_maybe_forward :: "reply_calls \<Rightarrow> authenticator \<Rightarrow> auth_state \<Rightarrow> auth_state" where
  "krb_maybe_forward c ap s =
     (if forward_flags s AND OPTS_FORWARD_CREDS \<noteq> 0 then kerberos5_forward c ap s else s)"

definition kerberos5_reply :: "reply_calls \<Rightarrow> authenticator \<Rightarrow> byte list \<Rightarrow> auth_state \<Rightarrow> auth_state" where
  "kerberos5_reply c ap data s =
     (case data of
        [] \<Rightarrow> s
      | op # data \<Rightarrow>
          if op = KRB_REJECT then auth_send_retry (p_send c) s
          else if op = KRB_ACCEPT then
            if \<not> mutual_complete s \<and> a_way ap AND AUTH_HOW_MASK = AUTH_HOW_MUTUAL
            then auth_send_retry (p_send c) s
            else
              krb_maybe_forward c ap (auth_finished (Some ap) AUTH_USER
                (if mutual_complete s then s else use_session_key s))
          else if op = KRB_RESPONSE then
            if a_way ap AND AUTH_HOW_MASK = AUTH_HOW_MUTUAL then
              if p_rd_rep c \<noteq> 0 then auth_send_retry (p_send c) s
              else (use_session_key s)\<lparr>mutual_complete := True\<rparr>
            else s
          else s)"

definition auth_reply :: "reply_calls \<Rightarrow> byte list \<Rightarrow> auth_state \<Rightarrow> auth_state" where
  "auth_reply c data s =
     (case data of
        t # w # rest \<Rightarrow>
          (case findauthenticator t w of None \<Rightarrow> s | Some ap \<Rightarrow> kerberos5_reply c ap rest s)
      | _ \<Rightarrow> s)"

text \<open>The server takes the user's name; the copy in \<open>savename[256]\<close> ends at a NUL.\<close>

definition auth_name :: "byte list \<Rightarrow> auth_state \<Rightarrow> auth_state" where
  "auth_name data s =
     (if length data < 1 \<or> length data > 255 then s
      else s\<lparr>UserNameRequested := Some (takeWhile (\<lambda>x. x \<noteq> 0) data)\<rparr>)"

section \<open>The verdict\<close>

text \<open>
  \<open>kuserok\<close> is \<open>krb5_kuserok\<close>: may this principal log in as this user? The name buffer of the
  caller is the second component of the result; \<open>strncpy\<close> copies at most 255 bytes.
\<close>

definition kerberos5_status ::
  "(byte list \<Rightarrow> byte list \<Rightarrow> bool) \<Rightarrow> int \<Rightarrow> byte list \<Rightarrow> auth_state \<Rightarrow> int \<times> byte list" where
  "kerberos5_status kuserok level name s =
     (if level < AUTH_USER then (level, name)
      else case UserNameRequested s of
             None \<Rightarrow> (AUTH_USER, name)
           | Some u \<Rightarrow> (if kuserok (ticket_client s) u then AUTH_VALID else AUTH_USER, take 255 u))"

definition auth_check ::
  "(byte list \<Rightarrow> byte list \<Rightarrow> bool) \<Rightarrow> byte list \<Rightarrow> auth_state \<Rightarrow> (int \<times> byte list) \<times> auth_state" where
  "auth_check kuserok name s =
     (case authenticated s of
        By ap \<Rightarrow>
          let v = (if validuser s = AUTH_VALID then AUTH_USER else validuser s);
              (v, name) = kerberos5_status kuserok v name s
          in ((v, name), s\<lparr>validuser := v\<rparr>)
      | _ \<Rightarrow> ((AUTH_REJECT, name), s))"

definition auth_must_encrypt :: "auth_state \<Rightarrow> bool" where
  "auth_must_encrypt s =
     (case authenticated s of
        By ap \<Rightarrow> a_way ap AND AUTH_ENCRYPT_MASK = AUTH_ENCRYPT_ON
      | _ \<Rightarrow> False)"

end
