(* ===== verification/AuthProps.thy ===== *)
theory AuthProps
  imports Auth
begin

text \<open>
  What the verdict of the authentication rests on: for the server, that an accepted login
  goes back to a request the Kerberos library accepted; for the client, what an accepted
  connection has been shown. And the bounds of the messages.
\<close>

section \<open>Bounds\<close>

lemma iac_double_Cons: "iac_double (x # xs) = (if x = IAC then [x, IAC] else [x]) @ iac_double xs"
  by simp

lemma sendname_loop_spec:
  "sendname_loop e xs =
     (if xs = [] \<or> e + length (iac_double xs) < 260 then Some (iac_double xs) else None)"
proof (induction xs arbitrary: e)
  case Nil
  then show ?case by simp
next
  case (Cons x xs)
  have n: "xs \<noteq> [] \<Longrightarrow> 0 < length (iac_double xs)" by (cases xs) auto
  show ?case using n by (auto simp: Cons Let_def)
qed

lemma data_loop_spec:
  "4 \<le> sp \<Longrightarrow> data_loop sp xs = Some body \<Longrightarrow>
   body = iac_double xs \<and> int (length body) + 2 \<le> sp"
proof (induction sp xs arbitrary: body rule: data_loop.induct)
  case (1 sp)
  then show ?case by simp
next
  case (2 sp x xs)
  define ys where "ys = (if x = IAC then [x, IAC] else [x])"
  define sp' where "sp' = (if x = IAC then sp - 1 else sp) - 1"
  have sp': "sp' + int (length ys) = sp" "length ys \<le> 2"
    using 2(2) by (auto simp: sp'_def ys_def)
  from 2(3) have c: "4 \<le> sp' \<or> xs = []"
    and m: "map_option (\<lambda>r. ys @ r) (data_loop sp' xs) = Some body"
    by (auto simp: Let_def ys_def sp'_def split: if_splits)
  then obtain r where r: "data_loop sp' xs = Some r" "body = ys @ r" by auto
  show ?case
  proof (cases "xs = []")
    case True
    then show ?thesis using r sp' 2(2) by (auto simp: ys_def)
  next
    case False
    then have "4 \<le> sp'" using c by simp
    then have "r = iac_double xs \<and> int (length r) + 2 \<le> sp'"
      using 2(1) [OF refl refl] False r(1) unfolding sp'_def by (auto simp: Let_def not_less)
    then show ?thesis using r sp' by (auto simp: ys_def)
  qed
qed

section \<open>Properties\<close>

text \<open>\<open>auth_sendname\<close> writes a name exactly when it fits, with every \<open>IAC\<close> doubled: the
  message never exceeds the 262 bytes of \<open>str_request\<close>.\<close>

theorem auth_sendname_bounded:
  "auth_sendname nm s =
     (if nm = [] \<or> length (iac_double nm) < 256
      then (True, a_write ([IAC, SB, TELOPT_AUTHENTICATION, TELQUAL_NAME] @ iac_double nm @ [IAC, SE]) s)
      else (False, s)) \<and>
   (nm = [] \<or> length (iac_double nm) < 256 \<longrightarrow>
      length ([IAC, SB, TELOPT_AUTHENTICATION, TELQUAL_NAME] @ iac_double nm @ [IAC, SE]) \<le> 262)"
  by (auto simp: auth_sendname_def sendname_loop_spec)

lemma auth_sendname_bounded_witness:
  "\<forall>s. auth_sendname [65, 255] s =
     (True, a_write [255, 250, 37, 3, 65, 255, 255, 255, 240] s)"
  using auth_sendname_bounded [of "[65, 255]"] by simp

text \<open>\<open>Data\<close> never writes past \<open>str_data\<close>: when it succeeds, the message is the payload
  with every \<open>IAC\<close> doubled between its header and trailer, and fits the array.\<close>

theorem Data_bounded:
  assumes "Data ap type d s = (r, s')" "r \<noteq> - 1"
  shows "\<exists>msg. msg = [IAC, SB, TELOPT_AUTHENTICATION, str_data3 s, a_type ap, a_way ap, type] @
               iac_double d @ [IAC, SE] \<and>
           r = int (length msg) \<and> int (length msg) \<le> TELNET_BUFSIZE \<and> s' = a_write msg s"
proof -
  from assms obtain body where b: "data_loop (TELNET_BUFSIZE - 4 - 3) d = Some body"
    by (auto simp: Data_def split: option.splits)
  have "body = iac_double d \<and> int (length body) + 2 \<le> TELNET_BUFSIZE - 4 - 3"
    by (rule data_loop_spec [OF _ b]) (simp add: TELNET_BUFSIZE_def)
  with assms b show ?thesis
    by (auto simp: Data_def Let_def TELNET_BUFSIZE_def)
qed

definition auth_boot :: "bool \<Rightarrow> auth_state" where
  "auth_boot server = auth_init True server
     \<lparr>a_Server = False, authenticated = Not_yet, authenticating = False, validuser = 0,
      auth_send_data = [], auth_send_cnt = 0, i_support = 0, i_wont_support = 0,
      auth_has_failed = False, auth_enable_encrypt = False, auth_client_non_unix = False,
      str_data3 = 0, telnet_context = False, auth_context = False, session_key = None,
      ticket_client = [], mutual_complete = False, UserNameRequested = None, forward_flags = 0,
      enc = encrypt_init server (enc_initial [])\<rparr>"

lemma Data_bounded_witness:
  "\<exists>msg. msg = [IAC, SB, TELOPT_AUTHENTICATION, TELQUAL_REPLY, 2, 6, KRB_ACCEPT, 97, 255, 255, IAC, SE] \<and>
     int (length msg) \<le> TELNET_BUFSIZE \<and>
     Data (authenticators ! 0) KRB_ACCEPT [97, 255] (auth_boot True) = (12, a_write msg (auth_boot True))"
proof -
  have f: "fst (Data (authenticators ! 0) KRB_ACCEPT [97, 255] (auth_boot True)) = 12"
    "str_data3 (auth_boot True) = TELQUAL_REPLY" "a_type (authenticators ! 0) = 2" "a_way (authenticators ! 0) = 6"
    by code_simp+
  obtain r s' where D: "Data (authenticators ! 0) KRB_ACCEPT [97, 255] (auth_boot True) = (r, s')" by fastforce
  with f have r: "r = 12" by simp
  then have "r \<noteq> - 1" by simp
  from Data_bounded [OF D this] D r f(2-4) show ?thesis by simp
qed

section \<open>Runs\<close>

datatype server_event = S_is is_calls "byte list" | S_name "byte list" | S_request

fun server_step :: "server_event \<Rightarrow> auth_state \<Rightarrow> auth_state" where
  "server_step (S_is c d) s = auth_is c d s"
| "server_step (S_name d) s = auth_name d s"
| "server_step S_request s = auth_request s"

datatype client_event = C_send "authenticator \<Rightarrow> send_calls" "byte list" | C_reply reply_calls "byte list"

fun client_step :: "client_event \<Rightarrow> auth_state \<Rightarrow> auth_state" where
  "client_step (C_send c d) s = auth_send c d s"
| "client_step (C_reply c d) s = auth_reply c d s"

definition server_run :: "server_event list \<Rightarrow> auth_state \<Rightarrow> auth_state" where
  "server_run evs s = foldl (\<lambda>s e. server_step e s) s evs"

definition client_run :: "client_event list \<Rightarrow> auth_state \<Rightarrow> auth_state" where
  "client_run evs s = foldl (\<lambda>s e. client_step e s) s evs"

text \<open>What the library must have answered for a request to be accepted.\<close>

definition credentials_ok :: "is_calls \<Rightarrow> authenticator \<Rightarrow> bool" where
  "credentials_ok c ap =
     (k_rd_req c = 0 \<and> k_service c \<noteq> [] \<and>
      takeWhile (\<lambda>x. x \<noteq> 0) (k_service c ! 0) = c_string ''host'' \<and>
      k_getauthenticator c = 0 \<and>
      (a_way ap AND AUTH_ENCRYPT_MASK = AUTH_ENCRYPT_ON \<longrightarrow> k_checksum c) \<and>
      (k_checksum c \<longrightarrow> k_verify_checksum c [a_type ap, a_way ap] = (0, True)) \<and>
      (a_way ap AND AUTH_HOW_MASK = AUTH_HOW_MUTUAL \<longrightarrow> k_mk_rep c = 0))"

lemma a_write_simps [frame_simps]:
  "authenticated (a_write m s) = authenticated s" "mutual_complete (a_write m s) = mutual_complete s"
  "UserNameRequested (a_write m s) = UserNameRequested s" "a_Server (a_write m s) = a_Server s"
  "ticket_client (a_write m s) = ticket_client s" "session_key (a_write m s) = session_key s"
  by (simp_all add: a_write_def)

lemma Data_simps [frame_simps]:
  "authenticated (snd (Data ap t d s)) = authenticated s"
  "mutual_complete (snd (Data ap t d s)) = mutual_complete s"
  "ticket_client (snd (Data ap t d s)) = ticket_client s"
  "a_Server (snd (Data ap t d s)) = a_Server s"
  by (auto simp: Data_def Let_def frame_simps split: option.splits)

lemma read_request_simps [frame_simps]:
  "authenticated (snd (krb_read_request c s)) = authenticated s"
  by (auto simp: krb_read_request_def Let_def)

lemma read_request_ok: "fst (krb_read_request c s) = 0 \<Longrightarrow> k_rd_req c = 0"
  by (auto simp: krb_read_request_def Let_def split: if_splits)

lemma check_service_ok:
  "krb_check_service c = None \<Longrightarrow>
   k_service c \<noteq> [] \<and> takeWhile (\<lambda>x. x \<noteq> 0) (k_service c ! 0) = c_string ''host''"
  by (auto simp: krb_check_service_def Let_def split: if_splits)

lemma check_authenticator_ok:
  "krb_check_authenticator c ap = None \<Longrightarrow>
   k_getauthenticator c = 0 \<and> (a_way ap AND AUTH_ENCRYPT_MASK = AUTH_ENCRYPT_ON \<longrightarrow> k_checksum c) \<and>
   (k_checksum c \<longrightarrow> k_verify_checksum c [a_type ap, a_way ap] = (0, True))"
  by (cases "k_verify_checksum c [a_type ap, a_way ap]")
    (auto simp: krb_check_authenticator_def Let_def split: if_splits)

lemma krb_errout_simps [frame_simps]: "authenticated (krb_errout ap m s) = authenticated s"
  by (simp add: krb_errout_def case_prod_beta frame_simps)

lemma is_request_authenticated:
  assumes "r = 0 \<Longrightarrow> k_rd_req c = 0"
  shows "authenticated (krb_is_request c ap (r, s)) = authenticated s \<or>
     authenticated (krb_is_request c ap (r, s)) = By ap \<and> credentials_ok c ap"
  using assms check_service_ok [of c] check_authenticator_ok [of c ap]
  by (auto simp: frame_simps krb_accept_def krb_use_key_def auth_finished_def
      credentials_ok_def split: option.splits)

lemma is_auth_authenticated:
  "authenticated (krb_is_auth c ap s) = authenticated s \<or>
   authenticated (krb_is_auth c ap s) = By ap \<and> credentials_ok c ap"
proof -
  obtain r s' where k: "krb_read_request c s = (r, s')" by fastforce
  have "authenticated s' = authenticated s" using read_request_simps [of c s] k by simp
  moreover have "r = 0 \<Longrightarrow> k_rd_req c = 0" using read_request_ok [of c s] k by simp
  ultimately show ?thesis
    using is_request_authenticated [of r c ap s'] by (simp add: krb_is_auth_def k)
qed

lemma kerberos5_is_authenticated:
  "authenticated (kerberos5_is c ap d s) = authenticated s \<or>
   authenticated (kerberos5_is c ap d s) = By ap \<and> credentials_ok c ap \<and> (\<exists>r. d = KRB_AUTH # r)"
  using is_auth_authenticated [of c ap s]
  by (auto simp: kerberos5_is_def Let_def frame_simps split: list.split)

lemma find_auth_Some: "find_auth t w aps = Some ap \<Longrightarrow> ap \<in> set aps \<and> a_type ap = t \<and> a_way ap = w"
  by (induction t w aps rule: find_auth.induct) (auto split: if_splits)

lemma server_step_authenticated:
  assumes "authenticated (server_step e s) = By ap" "authenticated s \<noteq> By ap"
  shows "\<exists>c d. e = S_is c (a_type ap # a_way ap # KRB_AUTH # d) \<and> credentials_ok c ap"
proof (cases e)
  case (S_is c data)
  with assms obtain t w rest where d: "data = t # w # rest" "t \<noteq> AUTHTYPE_NULL"
    by (auto simp: auth_is_def auth_finished_def split: list.splits if_splits)
  with assms S_is obtain ap' where f: "findauthenticator t w = Some ap'"
    by (auto simp: auth_is_def split: option.splits)
  with assms S_is d kerberos5_is_authenticated [of c ap' rest s]
  have "ap' = ap" "credentials_ok c ap'" "\<exists>r. rest = KRB_AUTH # r"
    by (auto simp: auth_is_def)
  moreover have "a_type ap' = t" "a_way ap' = w"
    using find_auth_Some [OF f [unfolded findauthenticator_def]] by auto
  ultimately show ?thesis using S_is d by auto
next
  case (S_name d)
  with assms show ?thesis by (auto simp: auth_name_def split: if_splits)
next
  case S_request
  with assms show ?thesis by (auto simp: auth_request_def Let_def frame_simps split: if_splits)
qed

lemma server_run_authenticated:
  assumes "authenticated (server_run evs s) = By ap" "authenticated s \<noteq> By ap"
  shows "\<exists>c d. S_is c (a_type ap # a_way ap # KRB_AUTH # d) \<in> set evs \<and> credentials_ok c ap"
  using assms
proof (induction evs rule: rev_induct)
  case Nil
  then show ?case by (simp add: server_run_def)
next
  case (snoc e evs)
  then show ?case
    using server_step_authenticated [of e "server_run evs s" ap]
    by (cases "authenticated (server_run evs s) = By ap") (auto simp: server_run_def)
qed

text \<open>C1. Soundness of the server's verdict: if after any sequence of messages \<open>auth_check\<close> says
  anything but \<open>AUTH_REJECT\<close>, then one of the messages was an authentication request that the
  Kerberos library accepted, for the service \<open>host\<close>, whose authenticator covers the type
  and way of the mechanism by a valid checksum whenever it has one, and always when the
  mechanism is to encrypt.\<close>

theorem auth_check_sound:
  assumes "fst (fst (auth_check kuserok name (server_run evs (auth_boot True)))) \<noteq> AUTH_REJECT"
  shows "\<exists>ap c d. S_is c (a_type ap # a_way ap # KRB_AUTH # d) \<in> set evs \<and> credentials_ok c ap"
proof -
  from assms obtain ap where "authenticated (server_run evs (auth_boot True)) = By ap"
    by (auto simp: auth_check_def split: authed.splits)
  moreover have "authenticated (auth_boot True) = Not_yet" by code_simp
  ultimately show ?thesis using server_run_authenticated [of evs "auth_boot True" ap] by auto
qed

text \<open>The answers of a library for which everything succeeds.\<close>

definition good_calls :: is_calls where
  "good_calls = \<lparr>k_error_message = (\<lambda>_. []), k_con_init = 0, k_getrcache = 0, k_have_rcache = True,
     k_sname = 0, k_server_rcache = 0, k_setrcache = 0, k_srvtab = False, k_kt_resolve = 0,
     k_rd_req = 0, k_service = [c_string ''host'', c_string ''a.b''], k_getauthenticator = 0,
     k_checksum = True, k_getkey = 0, k_verify_checksum = (\<lambda>d. (0, d = [2, 6])), k_mk_rep = 0,
     k_mk_rep_data = [1, 2], k_client = c_string ''u'', k_unparse_ok = True, k_recvsubkey = None,
     k_ticket_session = [1, 2, 3, 4, 5, 6, 7, 8], k_genaddrs = 0, k_rd_creds = 0\<rparr>"

definition good_events :: "server_event list" where
  "good_events = [S_request, S_name (c_string ''u''), S_is good_calls [2, 6, 0, 9, 9]]"

lemma auth_check_sound_witness:
  "\<exists>ap c d. S_is c (a_type ap # a_way ap # KRB_AUTH # d) \<in> set good_events \<and> credentials_ok c ap"
proof (rule auth_check_sound)
  have "fst (fst (auth_check (\<lambda>p u. p = u) [] (server_run good_events (auth_boot True)))) = AUTH_VALID"
    by code_simp
  then show "fst (fst (auth_check (\<lambda>p u. p = u) [] (server_run good_events (auth_boot True)))) \<noteq> AUTH_REJECT"
    by simp
qed

text \<open>\<open>AUTH_VALID\<close>, the verdict that needs no password, is given only to a user name that
  \<open>krb5_kuserok\<close> accepts for the principal of the ticket, and its name is the one returned.\<close>

theorem auth_valid_kuserok:
  assumes "auth_check kuserok name s = ((AUTH_VALID, name'), s')"
  shows "\<exists>ap u. authenticated s = By ap \<and> UserNameRequested s = Some u \<and>
           kuserok (ticket_client s) u \<and> name' = take 255 u"
proof -
  from assms obtain ap where ap: "authenticated s = By ap"
    by (cases "authenticated s") (simp_all add: auth_check_def)
  define v where "v = (if validuser s = AUTH_VALID then AUTH_USER else validuser s)"
  obtain w nm where k: "kerberos5_status kuserok v name s = (w, nm)" by fastforce
  have "auth_check kuserok name s = ((w, nm), s\<lparr>validuser := w\<rparr>)"
    using k by (simp add: auth_check_def ap v_def [symmetric] del: AUTH_VALID_def AUTH_USER_def)
  with assms k have st: "kerberos5_status kuserok v name s = (AUTH_VALID, name')" by simp
  have "v \<noteq> AUTH_VALID" by (simp add: v_def)
  have lv: "\<not> v < AUTH_USER"
  proof
    assume "v < AUTH_USER"
    with st \<open>v \<noteq> AUTH_VALID\<close> show False by (simp add: kerberos5_status_def)
  qed
  show ?thesis
  proof (cases "UserNameRequested s")
    case None
    with st lv show ?thesis by (simp add: kerberos5_status_def)
  next
    case (Some u)
    with st lv have "kuserok (ticket_client s) u" "name' = take 255 u"
      by (simp_all add: kerberos5_status_def split: if_split_asm)
    with Some ap show ?thesis by blast
  qed
qed

lemma auth_valid_kuserok_witness:
  "\<exists>ap u. authenticated (server_run good_events (auth_boot True)) = By ap \<and>
     UserNameRequested (server_run good_events (auth_boot True)) = Some u \<and>
     ticket_client (server_run good_events (auth_boot True)) = u \<and> c_string ''u'' = take 255 u"
proof -
  have f: "fst (auth_check (\<lambda>p u. p = u) [] (server_run good_events (auth_boot True))) =
    (AUTH_VALID, c_string ''u'')" by code_simp
  obtain r s' where A: "auth_check (\<lambda>p u. p = u) [] (server_run good_events (auth_boot True)) = (r, s')"
    by fastforce
  with f have r: "r = (AUTH_VALID, c_string ''u'')" by simp
  show ?thesis
    using auth_valid_kuserok [OF A [unfolded r]] by simp
qed

definition other_service :: is_calls where
  "other_service = good_calls\<lparr>k_service := [c_string ''ftp''], k_client := c_string ''v''\<rparr>"

text \<open>The ticket the verdict is about can be that of a refused request. A second request
  whose ticket is for another service is answered with a reject, but \<open>krb5_rd_req\<close> has put
  its ticket in place of the first, the connection stays authenticated, and \<open>krb5_kuserok\<close>
  is asked about the client of the refused ticket.\<close>

theorem refused_ticket_is_used:
  "let s = server_run (good_events @ [S_is other_service [2, 6, 0, 9, 9], S_name (c_string ''v'')])
             (auth_boot True)
   in krb_check_service other_service \<noteq> None \<and>
      fst (fst (auth_check (\<lambda>p u. p = u) [] s)) = AUTH_VALID \<and>
      ticket_client s = c_string ''v''"
  by code_simp

section \<open>The client\<close>

lemma sendname_simps [frame_simps]:
  "authenticated (snd (auth_sendname nm s)) = authenticated s"
  "mutual_complete (snd (auth_sendname nm s)) = mutual_complete s"
  by (auto simp: auth_sendname_def frame_simps split: option.splits)

lemma kerberos5_send_simps [frame_simps]:
  "authenticated (snd (kerberos5_send c ap s)) = authenticated s"
  "mutual_complete (snd (kerberos5_send c ap s)) = mutual_complete s"
  by (auto simp: kerberos5_send_def Let_def case_prod_beta frame_simps split: option.split)

lemma send_retry_loop_frame:
  "authenticated (snd (send_retry_loop c d n s)) = authenticated s \<and>
   mutual_complete (snd (send_retry_loop c d n s)) = mutual_complete s"
proof (induction c d n s rule: send_retry_loop.induct)
  case (1 c t w rest cnt s)
  show ?case
  proof (cases "findauthenticator t w")
    case None
    with 1 show ?thesis by simp
  next
    case (Some ap)
    obtain ok s' where k: "kerberos5_send (c ap) ap s = (ok, s')" by fastforce
    have "authenticated s' = authenticated s" "mutual_complete s' = mutual_complete s"
      using kerberos5_send_simps [of "c ap" ap s] k by simp_all
    with 1 Some k show ?thesis by simp
  qed
qed simp_all

lemmas send_retry_loop_simps [frame_simps] =
  send_retry_loop_frame [THEN conjunct1] send_retry_loop_frame [THEN conjunct2]

lemma auth_send_retry_mutual [frame_simps]:
  "mutual_complete (auth_send_retry c s) = mutual_complete s"
  by (simp add: auth_send_retry_def Let_def case_prod_beta auth_finished_def)
    (simp add: frame_simps)

lemma auth_send_retry_authenticated:
  "authenticated (auth_send_retry c s) = By ap \<Longrightarrow> authenticated s = By ap"
  by (auto simp: auth_send_retry_def Let_def case_prod_beta frame_simps auth_finished_def
      split: if_splits)

lemma use_session_key_simps [frame_simps]:
  "authenticated (use_session_key s) = authenticated s"
  "mutual_complete (use_session_key s) = mutual_complete s"
  by (auto simp: use_session_key_def split: option.split)

lemma forward_simps [frame_simps]:
  "authenticated (krb_maybe_forward c ap s) = authenticated s"
  "mutual_complete (krb_maybe_forward c ap s) = mutual_complete s"
  by (auto simp: krb_maybe_forward_def kerberos5_forward_def frame_simps)

lemma auth_finished_simps [frame_simps]:
  "mutual_complete (auth_finished ap r s) = mutual_complete s"
  "authenticated (auth_finished (Some a) r s) = By a"
  by (simp_all add: auth_finished_def)

definition verified_response :: "client_event \<Rightarrow> bool" where
  "verified_response e =
     (case e of
        C_reply c (t # w # op # d) \<Rightarrow>
          op = KRB_RESPONSE \<and> p_rd_rep c = 0 \<and> w AND AUTH_HOW_MASK = AUTH_HOW_MUTUAL
      | _ \<Rightarrow> False)"

text \<open>What the client's state owes to the messages it has received.\<close>

definition mutual_inv :: "client_event list \<Rightarrow> auth_state \<Rightarrow> bool" where
  "mutual_inv evs s =
     ((mutual_complete s \<longrightarrow> (\<exists>e \<in> set evs. verified_response e)) \<and>
      (\<forall>ap. authenticated s = By ap \<and> a_way ap AND AUTH_HOW_MASK = AUTH_HOW_MUTUAL \<longrightarrow>
         (\<exists>e \<in> set evs. verified_response e)))"

lemma kerberos5_reply_mutual:
  assumes "mutual_inv evs s"
  shows "mutual_inv (evs @ [C_reply c (t # a_way ap # d)]) (kerberos5_reply c ap d s)"
proof (cases d)
  case Nil
  with assms show ?thesis by (auto simp: kerberos5_reply_def mutual_inv_def)
next
  case (Cons op r)
  consider "op = KRB_REJECT" | "op = KRB_ACCEPT" | "op = KRB_RESPONSE"
    | "op \<noteq> KRB_REJECT" "op \<noteq> KRB_ACCEPT" "op \<noteq> KRB_RESPONSE" by blast
  then show ?thesis
  proof cases
    case 1
    with Cons assms show ?thesis
      by (auto simp: kerberos5_reply_def mutual_inv_def frame_simps dest: auth_send_retry_authenticated)
  next
    case 2
    with Cons assms show ?thesis
      by (auto simp: kerberos5_reply_def mutual_inv_def frame_simps dest: auth_send_retry_authenticated)
  next
    case 3
    with Cons assms show ?thesis
      by (auto simp: kerberos5_reply_def mutual_inv_def frame_simps verified_response_def
          dest: auth_send_retry_authenticated)
  next
    case 4
    with Cons assms show ?thesis
      by (auto simp: kerberos5_reply_def mutual_inv_def)
  qed
qed

lemma mutual_inv_mono: "mutual_inv evs s \<Longrightarrow> mutual_inv (evs @ es) s"
  by (auto simp: mutual_inv_def)

lemma client_step_mutual:
  assumes "mutual_inv evs s" shows "mutual_inv (evs @ [e]) (client_step e s)"
proof (cases e)
  case (C_send c d)
  with assms show ?thesis
    by (auto simp: auth_send_def Let_def mutual_inv_def frame_simps dest!: auth_send_retry_authenticated)
next
  case (C_reply c d)
  show ?thesis
  proof (cases "\<exists>t w r ap. d = t # w # r \<and> findauthenticator t w = Some ap")
    case True
    then obtain t w r ap where d: "d = t # w # r" "findauthenticator t w = Some ap" by blast
    then have "a_way ap = w" using find_auth_Some by (auto simp: findauthenticator_def)
    then show ?thesis
      using kerberos5_reply_mutual [OF assms, of c t ap r] C_reply d by (simp add: auth_reply_def)
  next
    case False
    then have "auth_reply c d s = s"
      by (auto simp: auth_reply_def split: list.split option.split)
    with C_reply show ?thesis using mutual_inv_mono [OF assms] by simp
  qed
qed

lemma client_run_mutual: "mutual_inv [] s \<Longrightarrow> mutual_inv evs (client_run evs s)"
proof (induction evs rule: rev_induct)
  case Nil
  then show ?case by (simp add: client_run_def)
next
  case (snoc e evs)
  then show ?case using client_step_mutual [of evs "client_run evs s" e] by (simp add: client_run_def)
qed


definition good_send :: "authenticator \<Rightarrow> send_calls" where
  "good_send ap = \<lparr>s_cc_default = 0, s_sname = 0, s_get_principal = 0, s_get_credentials = 0,
     s_con_init = 0, s_mk_req = 0, s_mk_req_data = [9, 9],
     s_subkey = Some (True, [1, 2, 3, 4, 5, 6, 7, 8]), s_cred_key = (True, [])\<rparr>"

definition good_reply :: reply_calls where
  "good_reply = \<lparr>p_rd_rep = 0, p_send = good_send, p_cc_default = 0, p_get_principal = 0,
     p_sname = 0, p_genaddrs = 0, p_fwd_creds = 0, p_fwd_data = []\<rparr>"

definition good_client :: "client_event list" where
  "good_client = [C_send good_send [2, 6, 2, 2, 2, 0], C_reply good_reply [2, 6, 3, 1, 2],
     C_reply good_reply [2, 6, 2]]"


text \<open>C34. The client does not compare the answer with what it asked for. Whatever it has sent,
  a reply \<open>ACCEPT\<close> under the one-way mechanism makes it authenticated, without mutual
  authentication and with no obligation to encrypt.\<close>

theorem accept_downgrades:
  assumes "forward_flags s AND OPTS_FORWARD_CREDS = 0"
  shows "authenticated (auth_reply c [2, 0, KRB_ACCEPT] s) = By (authenticators ! 2) \<and>
         validuser (auth_reply c [2, 0, KRB_ACCEPT] s) = AUTH_USER \<and>
         \<not> auth_must_encrypt (auth_reply c [2, 0, KRB_ACCEPT] s)"
proof -
  have f: "findauthenticator 2 0 = Some (authenticators ! 2)" by code_simp
  have w: "a_way (authenticators ! 2) = 0" by code_simp
  have "forward_flags (use_session_key s) = forward_flags s"
    by (simp add: use_session_key_def split: option.split)
  then have "auth_reply c [2, 0, KRB_ACCEPT] s =
      auth_finished (Some (authenticators ! 2)) AUTH_USER (if mutual_complete s then s else use_session_key s)"
    using assms by (simp add: auth_reply_def f kerberos5_reply_def w krb_maybe_forward_def auth_finished_def)
  then show ?thesis by (simp add: auth_finished_def auth_must_encrypt_def w)
qed

lemma accept_downgrades_witness:
  "\<not> auth_must_encrypt (auth_reply good_reply [2, 0, KRB_ACCEPT]
       (client_run [C_send good_send [2, 6]] (auth_boot False)))"
proof -
  have "forward_flags (client_run [C_send good_send [2, 6]] (auth_boot False)) AND OPTS_FORWARD_CREDS = 0"
    by code_simp
  from accept_downgrades [OF this] show ?thesis by blast
qed

end
