(* ===== verification/TnState.thy ===== *)
theory TnState
  imports Auth
begin

text \<open>
  The state of the telnet server (telnet/telnetd) and the small routines its protocol
  handlers call: the option bits of defs.h, the terminal flags of sys_term.c, the clocks, and
  the calls to the network routines. Authentication and encryption are part of the state,
  and every call of a network routine goes to the log \<open>net_out\<close> of the encryption library,
  in order.

  The server is built with \<open>AUTHENTICATION\<close>, \<open>ENCRYPTION\<close>, \<open>KLUDGELINEMODE\<close> and \<open>ENV_HACK\<close>, and
  without \<open>LINEMODE\<close> (telnetd/Makefile.in), for POSIX terminals (\<open>USE_TERMIO\<close>) and a system
  without \<open>TIOCSIG\<close>. The diagnostic output (\<open>DIAG\<close>) is off.
\<close>

section \<open>State\<close>

datatype recv_state =
  TS_DATA | TS_IAC | TS_CR | TS_SB | TS_SE | TS_WILL | TS_WONT | TS_DO | TS_DONT

text \<open>
  What the server uses of the terminal of its pty: five flags, the character size and its
  special characters (through the pointers of \<open>slctab\<close>, null for a function the terminal does
  not have).
\<close>

record termios =
  t_istrip :: bool
  t_ixon :: bool
  t_ixany :: bool
  t_echo :: bool
  t_opost :: bool
  t_parenb :: bool
  t_csize :: nat
  t_sptr :: "byte \<Rightarrow> byte option"
  t_speeds :: "int \<times> int"
  t_winsize :: "int \<times> int"

record clocks =
  clk_system :: int
  clk_gotDM :: int
  clk_ttypesubopt :: int
  clk_tspeedsubopt :: int
  clk_xdisplocsubopt :: int
  clk_environsubopt :: int
  clk_oenvironsubopt :: int
  clk_baseline :: int

text \<open>
  \<open>ptyo\<close> is what lies between \<open>pbackp\<close> and \<open>pfrontp\<close>, \<open>pty_out\<close> all that the pty has taken, and \<open>pback\<close> the offset of \<open>pbackp\<close> in
  \<open>ptyobuf\<close>. \<open>subbuffer\<close> is the sub-option buffer, with \<open>subpointer\<close> and \<open>subend\<close> as offsets into
  it. \<open>past_input\<close> is the byte that \<open>netip\<close> points at when the input is used up. \<open>pty_writes\<close> and
  \<open>oob_replies\<close> are what the next calls of \<open>write\<close> on the pty and of \<open>stilloob\<close> return;
  \<open>krb\<close> says how the Kerberos library answers to an authentication message. \<open>exited\<close> is set
  when the process has ended.
\<close>

datatype pty_reply = Wrote nat | Pty_retry | Pty_fatal

record tn =
  options :: "byte \<Rightarrow> byte"
  do_dont_resp :: "byte \<Rightarrow> byte"
  will_wont_resp :: "byte \<Rightarrow> byte"
  not42 :: bool
  turn_on_sga :: bool
  defset_flag :: "byte \<Rightarrow> byte"
  trm :: termios
  clk :: clocks
  flowmode :: int
  restartany :: int
  def_col :: int
  def_row :: int
  def_tspeed :: int
  def_rspeed :: int
  terminaltype :: "byte list"
  env :: "byte list \<Rightarrow> byte list option"
  env_ovar :: int
  env_ovalue :: int
  auth_negotiated :: bool
  recv_st :: recv_state
  subbuffer :: "int \<Rightarrow> byte"
  subpointer :: int
  subend :: int
  pback :: nat
  ptyo :: "byte list"
  pty_out :: "byte list"
  SYNCHing :: bool
  exited :: bool
  past_input :: byte
  pty_writes :: "pty_reply list"
  oob_replies :: "bool list"
  krb :: "byte list \<Rightarrow> is_calls"
  auth :: auth_state

text \<open>The server's static data as \<open>doit\<close> and \<open>telnet\<close> leave them before the first byte is read.\<close>

definition tn_boot :: "termios \<Rightarrow> (byte list \<Rightarrow> is_calls) \<Rightarrow> auth_state \<Rightarrow> tn" where
  "tn_boot t k a =
     \<lparr>options = (\<lambda>_. 0), do_dont_resp = (\<lambda>_. 0), will_wont_resp = (\<lambda>_. 0), not42 = True,
      turn_on_sga = False, defset_flag = (\<lambda>_. 0), trm = t,
      clk = \<lparr>clk_system = 0, clk_gotDM = 0, clk_ttypesubopt = 0, clk_tspeedsubopt = 0,
             clk_xdisplocsubopt = 0, clk_environsubopt = 0, clk_oenvironsubopt = 0, clk_baseline = 0\<rparr>,
      flowmode = 1, restartany = - 1, def_col = 0, def_row = 0, def_tspeed = - 1, def_rspeed = - 1,
      terminaltype = [], env = (\<lambda>_. None), env_ovar = - 1, env_ovalue = - 1,
      auth_negotiated = False, recv_st = TS_DATA, subbuffer = (\<lambda>_. 0), subpointer = 0, subend = 0,
      pback = 0, ptyo = [], pty_out = [], SYNCHing = False, exited = False, past_input = 0,
      pty_writes = [], oob_replies = [], krb = k, auth = a\<rparr>"

section \<open>Calls of the network routines\<close>

definition tn_enc :: "(enc_state \<Rightarrow> enc_state) \<Rightarrow> tn \<Rightarrow> tn" where
  "tn_enc f s = s\<lparr>auth := (auth s)\<lparr>enc := f (enc (auth s))\<rparr>\<rparr>"

definition log_net :: "net_event \<Rightarrow> enc_state \<Rightarrow> enc_state" where
  "log_net e s = s\<lparr>net_out := net_out s @ [e]\<rparr>"

definition netprintf :: "byte list \<Rightarrow> tn \<Rightarrow> tn" where
  "netprintf xs s = tn_enc (log_net (Net_write xs)) s"

definition tn_netflush :: "tn \<Rightarrow> tn" where
  "tn_netflush s = tn_enc (log_net Net_flush) s"

definition netclear :: "tn \<Rightarrow> tn" where
  "netclear s = tn_enc (log_net Net_clear) s"

definition netprintf_urg :: "byte list \<Rightarrow> tn \<Rightarrow> tn" where
  "netprintf_urg xs s = tn_enc (log_net (Net_urgent xs)) s"

definition tn_out :: "tn \<Rightarrow> net_event list" where
  "tn_out s = net_out (enc (auth s))"

section \<open>Option states\<close>

definition MY_STATE_WILL :: byte where [simp]: "MY_STATE_WILL = 1"
definition MY_WANT_STATE_WILL :: byte where [simp]: "MY_WANT_STATE_WILL = 2"
definition MY_STATE_DO :: byte where [simp]: "MY_STATE_DO = 4"
definition MY_WANT_STATE_DO :: byte where [simp]: "MY_WANT_STATE_DO = 8"

definition opt_bit :: "byte \<Rightarrow> byte \<Rightarrow> tn \<Rightarrow> bool" where
  "opt_bit b opt s = (options s opt AND b \<noteq> 0)"

definition set_opt :: "byte \<Rightarrow> byte \<Rightarrow> tn \<Rightarrow> tn" where
  "set_opt b opt s = s\<lparr>options := (options s)(opt := options s opt OR b)\<rparr>"

definition clear_opt :: "byte \<Rightarrow> byte \<Rightarrow> tn \<Rightarrow> tn" where
  "clear_opt b opt s = s\<lparr>options := (options s)(opt := options s opt AND NOT b)\<rparr>"

definition my_state_is_do :: "byte \<Rightarrow> tn \<Rightarrow> bool" where "my_state_is_do = opt_bit MY_STATE_DO"
definition my_state_is_will :: "byte \<Rightarrow> tn \<Rightarrow> bool" where "my_state_is_will = opt_bit MY_STATE_WILL"
definition my_want_state_is_do :: "byte \<Rightarrow> tn \<Rightarrow> bool" where
  "my_want_state_is_do = opt_bit MY_WANT_STATE_DO"
definition my_want_state_is_will :: "byte \<Rightarrow> tn \<Rightarrow> bool" where
  "my_want_state_is_will = opt_bit MY_WANT_STATE_WILL"

definition set_my_state_do :: "byte \<Rightarrow> tn \<Rightarrow> tn" where "set_my_state_do = set_opt MY_STATE_DO"
definition set_my_state_will :: "byte \<Rightarrow> tn \<Rightarrow> tn" where "set_my_state_will = set_opt MY_STATE_WILL"
definition set_my_want_state_do :: "byte \<Rightarrow> tn \<Rightarrow> tn" where
  "set_my_want_state_do = set_opt MY_WANT_STATE_DO"
definition set_my_want_state_will :: "byte \<Rightarrow> tn \<Rightarrow> tn" where
  "set_my_want_state_will = set_opt MY_WANT_STATE_WILL"

definition set_my_state_dont :: "byte \<Rightarrow> tn \<Rightarrow> tn" where "set_my_state_dont = clear_opt MY_STATE_DO"
definition set_my_state_wont :: "byte \<Rightarrow> tn \<Rightarrow> tn" where "set_my_state_wont = clear_opt MY_STATE_WILL"
definition set_my_want_state_dont :: "byte \<Rightarrow> tn \<Rightarrow> tn" where
  "set_my_want_state_dont = clear_opt MY_WANT_STATE_DO"
definition set_my_want_state_wont :: "byte \<Rightarrow> tn \<Rightarrow> tn" where
  "set_my_want_state_wont = clear_opt MY_WANT_STATE_WILL"

text \<open>His side, by the symmetry of the protocol.\<close>

definition his_state_is_do :: "byte \<Rightarrow> tn \<Rightarrow> bool" where "his_state_is_do = my_state_is_will"
definition his_state_is_will :: "byte \<Rightarrow> tn \<Rightarrow> bool" where "his_state_is_will = my_state_is_do"
definition his_want_state_is_do :: "byte \<Rightarrow> tn \<Rightarrow> bool" where
  "his_want_state_is_do = my_want_state_is_will"
definition his_want_state_is_will :: "byte \<Rightarrow> tn \<Rightarrow> bool" where
  "his_want_state_is_will = my_want_state_is_do"
definition set_his_state_will :: "byte \<Rightarrow> tn \<Rightarrow> tn" where "set_his_state_will = set_my_state_do"
definition set_his_want_state_will :: "byte \<Rightarrow> tn \<Rightarrow> tn" where
  "set_his_want_state_will = set_my_want_state_do"
definition set_his_state_wont :: "byte \<Rightarrow> tn \<Rightarrow> tn" where "set_his_state_wont = set_my_state_dont"
definition set_his_want_state_wont :: "byte \<Rightarrow> tn \<Rightarrow> tn" where
  "set_his_want_state_wont = set_my_want_state_dont"

text \<open>The test that the state and the wanted state of an option differ, by an addition.\<close>

definition my_will_wont_is_changing :: "byte \<Rightarrow> tn \<Rightarrow> bool" where
  "my_will_wont_is_changing opt s = ((options s opt + MY_STATE_WILL) AND MY_WANT_STATE_WILL \<noteq> 0)"

definition my_do_dont_is_changing :: "byte \<Rightarrow> tn \<Rightarrow> bool" where
  "my_do_dont_is_changing opt s = ((options s opt + MY_STATE_DO) AND MY_WANT_STATE_DO \<noteq> 0)"

definition upd_do_resp :: "byte \<Rightarrow> (byte \<Rightarrow> byte) \<Rightarrow> tn \<Rightarrow> tn" where
  "upd_do_resp opt f s = s\<lparr>do_dont_resp := (do_dont_resp s)(opt := f (do_dont_resp s opt))\<rparr>"

definition upd_will_resp :: "byte \<Rightarrow> (byte \<Rightarrow> byte) \<Rightarrow> tn \<Rightarrow> tn" where
  "upd_will_resp opt f s = s\<lparr>will_wont_resp := (will_wont_resp s)(opt := f (will_wont_resp s opt))\<rparr>"

section \<open>The terminal\<close>

text \<open>
  \<open>init_termbuf\<close> reads the terminal's settings and \<open>set_termbuf\<close> writes them back; no other
  process changes them here, so both leave \<open>trm\<close> as it is.
\<close>

definition upd_trm :: "(termios \<Rightarrow> termios) \<Rightarrow> tn \<Rightarrow> tn" where
  "upd_trm f s = s\<lparr>trm := f (trm s)\<rparr>"

definition tty_setecho :: "bool \<Rightarrow> tn \<Rightarrow> tn" where
  "tty_setecho on = upd_trm (\<lambda>t. t\<lparr>t_echo := on\<rparr>)"

definition tty_binaryin :: "bool \<Rightarrow> tn \<Rightarrow> tn" where
  "tty_binaryin on = upd_trm (\<lambda>t. t\<lparr>t_istrip := \<not> on\<rparr>)"

definition tty_binaryout :: "bool \<Rightarrow> tn \<Rightarrow> tn" where
  "tty_binaryout on = upd_trm (\<lambda>t.
     if on then t\<lparr>t_csize := 8, t_parenb := False, t_opost := False\<rparr>
     else t\<lparr>t_csize := 7, t_parenb := True, t_opost := True\<rparr>)"

definition tty_flowmode :: "tn \<Rightarrow> int" where "tty_flowmode s = (if t_ixon (trm s) then 1 else 0)"
definition tty_restartany :: "tn \<Rightarrow> int" where "tty_restartany s = (if t_ixany (trm s) then 1 else 0)"

section \<open>Clocks\<close>

text \<open>\<open>settimer(x)\<close> advances the system clock and stores it in \<open>x\<close>.\<close>

definition settimer :: "(int \<Rightarrow> clocks \<Rightarrow> clocks) \<Rightarrow> tn \<Rightarrow> tn" where
  "settimer store s =
     (let c = (clk s)\<lparr>clk_system := clk_system (clk s) + 1\<rparr> in s\<lparr>clk := store (clk_system c) c\<rparr>)"

section \<open>Facts about the small steps\<close>

lemma set_opt_bit [simp]: "opt_bit b o' (set_opt c opt s) =
    (if o' = opt then opt_bit b opt s \<or> c AND b \<noteq> 0 else opt_bit b o' s)"
proof -
  have "(x OR c) AND b = (x AND b) OR (c AND b)" for x :: byte
    by (metis and.commute bit.conj_disj_distrib)
  then show ?thesis by (auto simp: opt_bit_def set_opt_def or_eq_0_iff)
qed

lemma clear_opt_bit:
  assumes "b = 1 \<or> b = 2 \<or> b = 4 \<or> b = 8" "c = 1 \<or> c = 2 \<or> c = 4 \<or> c = 8"
  shows "opt_bit b o' (clear_opt c opt s) =
    (if o' = opt then opt_bit b opt s \<and> b \<noteq> c else opt_bit b o' s)"
proof -
  have "(x AND NOT c) AND b = (if b = c then 0 else x AND b)" for x :: byte
    using assms by (elim disjE) (simp_all, (rule byte_eqI; simp add: bit_simps)+)
  then show ?thesis by (auto simp: opt_bit_def clear_opt_def)
qed

end
