(* ===== verification/Options.thy ===== *)
theory Options
  imports TnState
begin

text \<open>
  The option negotiation of the telnet server (telnet/telnetd/state.c): what it sends of its
  own accord (\<open>send_do\<close> and its siblings) and how it answers WILL, WONT, DO and DONT.
\<close>

section \<open>Sending\<close>

definition send_do :: "byte \<Rightarrow> bool \<Rightarrow> tn \<Rightarrow> tn" where
  "send_do option init s =
     (if init \<and> ((do_dont_resp s option = 0 \<and> his_state_is_will option s) \<or>
                 his_want_state_is_will option s)
      then s
      else
        let s = (if init
                 then upd_do_resp option (\<lambda>r. r + 1)
                        (if option = TELOPT_TM then set_his_want_state_wont option s
                         else set_his_want_state_will option s)
                 else s)
        in netprintf [IAC, DO, option] s)"

definition send_dont :: "byte \<Rightarrow> bool \<Rightarrow> tn \<Rightarrow> tn" where
  "send_dont option init s =
     (if init \<and> ((do_dont_resp s option = 0 \<and> \<not> his_state_is_will option s) \<or>
                 \<not> his_want_state_is_will option s)
      then s
      else
        let s = (if init
                 then upd_do_resp option (\<lambda>r. r + 1) (set_his_want_state_wont option s)
                 else s)
        in netprintf [IAC, DONT, option] s)"

definition send_will :: "byte \<Rightarrow> bool \<Rightarrow> tn \<Rightarrow> tn" where
  "send_will option init s =
     (if init \<and> ((will_wont_resp s option = 0 \<and> my_state_is_will option s) \<or>
                 my_want_state_is_will option s)
      then s
      else
        let s = (if init
                 then upd_will_resp option (\<lambda>r. r + 1) (set_my_want_state_will option s)
                 else s)
        in netprintf [IAC, WILL, option] s)"

definition send_wont :: "byte \<Rightarrow> bool \<Rightarrow> tn \<Rightarrow> tn" where
  "send_wont option init s =
     (if init \<and> ((will_wont_resp s option = 0 \<and> \<not> my_state_is_will option s) \<or>
                 \<not> my_want_state_is_will option s)
      then s
      else
        let s = (if init
                 then upd_will_resp option (\<lambda>r. r + 1) (set_my_want_state_wont option s)
                 else s)
        in netprintf [IAC, WONT, option] s)"

section \<open>Flow control (\<open>flowstat\<close> of termstat.c)\<close>

definition flowstat_mode :: "tn \<Rightarrow> tn" where
  "flowstat_mode s =
     (if tty_flowmode s \<noteq> flowmode s
      then netprintf [IAC, SB, TELOPT_LFLOW, if tty_flowmode s \<noteq> 0 then LFLOW_ON else LFLOW_OFF, IAC, SE]
             (s\<lparr>flowmode := tty_flowmode s\<rparr>)
      else s)"

definition flowstat_any :: "tn \<Rightarrow> tn" where
  "flowstat_any s =
     (if tty_restartany s \<noteq> restartany s
      then netprintf [IAC, SB, TELOPT_LFLOW,
               if tty_restartany s \<noteq> 0 then LFLOW_RESTART_ANY else LFLOW_RESTART_XON, IAC, SE]
             (s\<lparr>restartany := tty_restartany s\<rparr>)
      else s)"

definition flowstat :: "tn \<Rightarrow> tn" where
  "flowstat s = (if his_state_is_will TELOPT_LFLOW s then flowstat_any (flowstat_mode s) else s)"

section \<open>WILL\<close>

text \<open>A response we were waiting for: \<open>do_dont_resp\<close> counts down, by two when the peer merely repeats itself.\<close>

definition dec_do_resp :: "bool \<Rightarrow> byte \<Rightarrow> tn \<Rightarrow> tn" where
  "dec_do_resp same option s =
     (if do_dont_resp s option \<noteq> 0
      then (let s = upd_do_resp option (\<lambda>r. r - 1) s
            in if do_dont_resp s option \<noteq> 0 \<and> same then upd_do_resp option (\<lambda>r. r - 1) s else s)
      else s)"

definition dec_will_resp :: "bool \<Rightarrow> byte \<Rightarrow> tn \<Rightarrow> tn" where
  "dec_will_resp same option s =
     (if will_wont_resp s option \<noteq> 0
      then (let s = upd_will_resp option (\<lambda>r. r - 1) s
            in if will_wont_resp s option \<noteq> 0 \<and> same then upd_will_resp option (\<lambda>r. r - 1) s else s)
      else s)"

definition set_flow_defset :: "byte \<Rightarrow> tn \<Rightarrow> tn" where
  "set_flow_defset level s =
     s\<lparr>defset_flag := (defset_flag s)
         (SLC_XON := (defset_flag s SLC_XON AND NOT SLC_LEVELBITS) OR level,
          SLC_XOFF := (defset_flag s SLC_XOFF AND NOT SLC_LEVELBITS) OR level)\<rparr>"

text \<open>
  The \<open>switch\<close> on a WILL that we did not want: is it all right, and what to call when the
  state is set. \<open>will_accepted\<close> lists the options that are.
\<close>

datatype opt_func = No_func | Auth_request | Encrypt_send_support | Flowstat

definition will_accepted :: "byte \<Rightarrow> bool" where
  "will_accepted option =
     (option \<in> {TELOPT_BINARY, TELOPT_LFLOW, TELOPT_TTYPE, TELOPT_SGA, TELOPT_NAWS, TELOPT_TSPEED,
                TELOPT_XDISPLOC, TELOPT_NEW_ENVIRON, TELOPT_OLD_ENVIRON, TELOPT_AUTHENTICATION,
                TELOPT_ENCRYPT})"

definition will_switch :: "byte \<Rightarrow> tn \<Rightarrow> tn" where
  "will_switch option s =
     (if option = TELOPT_BINARY then tty_binaryin True s
      else if option = TELOPT_ECHO then s\<lparr>not42 := False\<rparr>
      else if option = TELOPT_LFLOW then set_flow_defset SLC_DEFAULT s
      else s)"

definition will_func :: "byte \<Rightarrow> opt_func" where
  "will_func option =
     (if option = TELOPT_AUTHENTICATION then Auth_request
      else if option = TELOPT_ENCRYPT then Encrypt_send_support
      else No_func)"

definition run_func :: "opt_func \<Rightarrow> tn \<Rightarrow> tn" where
  "run_func f s =
     (case f of
        No_func \<Rightarrow> s
      | Auth_request \<Rightarrow> s\<lparr>auth := auth_request (auth s)\<rparr>
      | Encrypt_send_support \<Rightarrow> tn_enc encrypt_send_support s
      | Flowstat \<Rightarrow> flowstat s)"

definition will_unwanted :: "byte \<Rightarrow> tn \<Rightarrow> tn" where
  "will_unwanted option s =
     (let s = will_switch option s
      in if will_accepted option
         then send_do option False (set_his_want_state_will option s)
         else send_dont option False (upd_do_resp option (\<lambda>r. r + 1) s))"

definition willoption :: "byte \<Rightarrow> tn \<Rightarrow> tn" where
  "willoption option s =
     (let s = dec_do_resp (his_state_is_will option s) option s
      in if do_dont_resp s option = 0 then
           if \<not> his_want_state_is_will option s then
             if option = TELOPT_TM then s
             else run_func (will_func option)
                    (set_his_state_will option (will_unwanted option s))
           else
             let s = (if option = TELOPT_ECHO then send_dont option True (s\<lparr>not42 := False\<rparr>) else s);
                 f = (if option = TELOPT_LFLOW then Flowstat else will_func option)
             in run_func f (set_his_state_will option s)
         else set_his_state_will option s)"

section \<open>WONT\<close>

definition wont_switch :: "byte \<Rightarrow> tn \<Rightarrow> tn" where
  "wont_switch option s =
     (if option = TELOPT_ECHO then s\<lparr>not42 := True\<rparr>
      else if option = TELOPT_BINARY then tty_binaryin False s
      else if option = TELOPT_LFLOW then set_flow_defset SLC_CANTCHANGE s
      else if option = TELOPT_AUTHENTICATION then s\<lparr>auth := auth_finished None AUTH_REJECT (auth s)\<rparr>
      else if option = TELOPT_TTYPE then settimer (\<lambda>v c. c\<lparr>clk_ttypesubopt := v\<rparr>) s
      else if option = TELOPT_TSPEED then settimer (\<lambda>v c. c\<lparr>clk_tspeedsubopt := v\<rparr>) s
      else if option = TELOPT_XDISPLOC then settimer (\<lambda>v c. c\<lparr>clk_xdisplocsubopt := v\<rparr>) s
      else if option = TELOPT_OLD_ENVIRON then settimer (\<lambda>v c. c\<lparr>clk_oenvironsubopt := v\<rparr>) s
      else if option = TELOPT_NEW_ENVIRON then settimer (\<lambda>v c. c\<lparr>clk_environsubopt := v\<rparr>) s
      else s)"

definition wont_wanted :: "byte \<Rightarrow> tn \<Rightarrow> tn" where
  "wont_wanted option s =
     (let s = set_his_want_state_wont option (wont_switch option s)
      in if his_state_is_will option s then send_dont option False s else s)"

definition wontoption :: "byte \<Rightarrow> tn \<Rightarrow> tn" where
  "wontoption option s =
     (let s = dec_do_resp (\<not> his_state_is_will option s) option s
      in if do_dont_resp s option = 0 then
           if his_want_state_is_will option s then
             if option = TELOPT_TM then set_his_want_state_wont TELOPT_TM s
             else set_his_state_wont option (wont_wanted option s)
           else
             set_his_state_wont option
               (if option = TELOPT_AUTHENTICATION
                then s\<lparr>auth := auth_finished None AUTH_REJECT (auth s)\<rparr> else s)
         else set_his_state_wont option s)"

section \<open>DO\<close>

definition do_accepted :: "byte \<Rightarrow> bool" where
  "do_accepted option =
     (option \<in> {TELOPT_ECHO, TELOPT_BINARY, TELOPT_SGA, TELOPT_STATUS, TELOPT_ENCRYPT})"

definition do_switch :: "byte \<Rightarrow> tn \<Rightarrow> tn" where
  "do_switch option s =
     (if option = TELOPT_ECHO then tty_setecho True s
      else if option = TELOPT_BINARY then tty_binaryout True s
      else if option = TELOPT_SGA then s\<lparr>turn_on_sga := False\<rparr>
      else s)"

definition do_unwanted :: "byte \<Rightarrow> tn \<Rightarrow> tn" where
  "do_unwanted option s =
     (let s = do_switch option s
      in if do_accepted option
         then send_will option False (set_my_want_state_will option s)
         else send_wont option False (upd_will_resp option (\<lambda>r. r + 1) s))"

text \<open>LOGOUT is answered, flushed, and ends the process.\<close>

definition dooption :: "byte \<Rightarrow> tn \<Rightarrow> tn" where
  "dooption option s =
     (let s = dec_will_resp (my_state_is_will option s) option s
      in if will_wont_resp s option = 0 \<and> \<not> my_want_state_is_will option s then
           if option = TELOPT_TM then
             set_my_state_wont option (set_my_want_state_wont option (send_will option False s))
           else if option = TELOPT_LOGOUT then
             (tn_netflush (set_my_state_will TELOPT_LOGOUT (send_will TELOPT_LOGOUT False
               (set_my_want_state_will TELOPT_LOGOUT s))))\<lparr>exited := True\<rparr>
           else set_my_state_will option (do_unwanted option s)
         else set_my_state_will option s)"

section \<open>DONT\<close>

definition dont_switch :: "byte \<Rightarrow> tn \<Rightarrow> tn" where
  "dont_switch option s =
     (if option = TELOPT_BINARY then tty_binaryout False s
      else if option = TELOPT_ECHO then tty_setecho False s
      else s)"

definition dont_wanted :: "byte \<Rightarrow> tn \<Rightarrow> tn" where
  "dont_wanted option s =
     (let s = set_my_want_state_wont option (dont_switch option s)
      in if my_state_is_will option s then send_wont option False s else s)"

definition dontoption :: "byte \<Rightarrow> tn \<Rightarrow> tn" where
  "dontoption option s =
     (let s = dec_will_resp (\<not> my_state_is_will option s) option s
      in if will_wont_resp s option = 0 \<and> my_want_state_is_will option s then
           if option = TELOPT_SGA then
             let s = set_my_state_wont option (dont_wanted option s);
                 s = s\<lparr>turn_on_sga := \<not> turn_on_sga s\<rparr>
             in if turn_on_sga s then send_will option True s else s
           else set_my_state_wont option (dont_wanted option s)
         else set_my_state_wont option s)"

end
