(* ===== verification/OptSpec.thy ===== *)
theory OptSpec
  imports Options AuthProps
begin

text \<open>
  The abstract state machine in the comment of telnetd/state.c (Dave Borman's), and that the
  option handlers implement it: for every option but the ones the code treats specially,
  what a handler does to the state, the wanted state and the count of outstanding requests
  is what the abstract machine does.
\<close>

section \<open>The abstract machine\<close>

record neg =
  my_state :: bool
  want_state :: bool
  want_resp :: nat

definition request :: "bool \<Rightarrow> neg \<Rightarrow> neg" where
  "request new n =
     (if (want_resp n = 0 \<and> new = my_state n) \<or> want_state n = new then n
      else n\<lparr>want_state := new, want_resp := want_resp n + 1\<rparr>)"

definition receive :: "bool \<Rightarrow> bool \<Rightarrow> neg \<Rightarrow> neg" where
  "receive new ok_to_switch n =
     (let r = (if want_resp n \<noteq> 0
               then (let r = want_resp n - 1 in if r \<noteq> 0 \<and> new = my_state n then r - 1 else r)
               else 0)
      in if r = 0 \<and> new \<noteq> want_state n
         then (if ok_to_switch
               then \<lparr>my_state = new, want_state = new, want_resp = r\<rparr>
               else \<lparr>my_state = new, want_state = want_state n, want_resp = r + 1\<rparr>)
         else \<lparr>my_state = new, want_state = want_state n, want_resp = r\<rparr>)"

definition his_neg :: "byte \<Rightarrow> tn \<Rightarrow> neg" where
  "his_neg opt s = \<lparr>my_state = his_state_is_will opt s, want_state = his_want_state_is_will opt s,
                    want_resp = unat (do_dont_resp s opt)\<rparr>"

definition my_neg :: "byte \<Rightarrow> tn \<Rightarrow> neg" where
  "my_neg opt s = \<lparr>my_state = my_state_is_will opt s, want_state = my_want_state_is_will opt s,
                   want_resp = unat (will_wont_resp s opt)\<rparr>"

section \<open>What the small steps do to the negotiation state\<close>

lemmas opt_defs = his_state_is_will_def his_want_state_is_will_def my_state_is_will_def
  my_want_state_is_will_def my_state_is_do_def my_want_state_is_do_def
  set_his_state_will_def set_his_want_state_will_def set_his_state_wont_def
  set_his_want_state_wont_def set_my_state_do_def set_my_state_will_def
  set_my_want_state_do_def set_my_want_state_will_def set_my_state_dont_def
  set_my_state_wont_def set_my_want_state_dont_def set_my_want_state_wont_def

text \<open>A change of the state that leaves the options and the counters alone.\<close>

definition same_neg :: "tn \<Rightarrow> tn \<Rightarrow> bool" where
  "same_neg s' s = (options s' = options s \<and> do_dont_resp s' = do_dont_resp s \<and>
                    will_wont_resp s' = will_wont_resp s)"

lemma same_neg_bits:
  "same_neg s' s \<Longrightarrow> opt_bit b opt s' = opt_bit b opt s"
  by (simp add: same_neg_def opt_bit_def)

lemma netprintf_same [simp]:
  "options (netprintf xs s) = options s" "do_dont_resp (netprintf xs s) = do_dont_resp s"
  "will_wont_resp (netprintf xs s) = will_wont_resp s" "opt_bit b opt (netprintf xs s) = opt_bit b opt s"
  by (simp_all add: netprintf_def tn_enc_def opt_bit_def)

lemma upd_resp_same [simp]:
  "opt_bit b o' (upd_do_resp opt f s) = opt_bit b o' s"
  "opt_bit b o' (upd_will_resp opt f s) = opt_bit b o' s"
  "do_dont_resp (upd_do_resp opt f s) = (do_dont_resp s)(opt := f (do_dont_resp s opt))"
  "will_wont_resp (upd_will_resp opt f s) = (will_wont_resp s)(opt := f (will_wont_resp s opt))"
  "will_wont_resp (upd_do_resp opt f s) = will_wont_resp s"
  "do_dont_resp (upd_will_resp opt f s) = do_dont_resp s"
  by (simp_all add: upd_do_resp_def upd_will_resp_def opt_bit_def)

lemma set_opt_same [simp]:
  "do_dont_resp (set_opt b opt s) = do_dont_resp s" "will_wont_resp (set_opt b opt s) = will_wont_resp s"
  "do_dont_resp (clear_opt b opt s) = do_dont_resp s" "will_wont_resp (clear_opt b opt s) = will_wont_resp s"
  by (simp_all add: set_opt_def clear_opt_def)

lemma same_neg_steps:
  "same_neg (upd_trm f s) s" "same_neg (s\<lparr>not42 := v\<rparr>) s" "same_neg (s\<lparr>turn_on_sga := v\<rparr>) s"
  "same_neg (set_flow_defset l s) s" "same_neg (settimer g s) s"
  "same_neg (s\<lparr>auth := a\<rparr>) s" "same_neg (tn_enc h s) s" "same_neg s s" "same_neg (netprintf xs s) s"
  "same_neg (s\<lparr>flowmode := n\<rparr>) s" "same_neg (s\<lparr>restartany := n\<rparr>) s"
  by (simp_all add: same_neg_def upd_trm_def set_flow_defset_def settimer_def tn_enc_def Let_def
      netprintf_def)

lemma same_neg_trans: "same_neg a b \<Longrightarrow> same_neg b c \<Longrightarrow> same_neg a c"
  by (simp add: same_neg_def)

lemma flowstat_same: "same_neg (flowstat s) s"
  by (simp add: flowstat_def flowstat_mode_def flowstat_any_def same_neg_def)

lemma switch_same:
  "same_neg (will_switch opt s) s" "same_neg (wont_switch opt s) s"
  "same_neg (do_switch opt s) s" "same_neg (dont_switch opt s) s" "same_neg (run_func f s) s"
  by (auto simp: will_switch_def wont_switch_def do_switch_def dont_switch_def run_func_def
      tty_binaryin_def tty_binaryout_def tty_setecho_def same_neg_steps flowstat_same
      split: opt_func.split)

lemma switch_simps [simp]:
  "opt_bit b o' (will_switch opt s) = opt_bit b o' s" "do_dont_resp (will_switch opt s) = do_dont_resp s"
  "will_wont_resp (will_switch opt s) = will_wont_resp s"
  "opt_bit b o' (wont_switch opt s) = opt_bit b o' s" "do_dont_resp (wont_switch opt s) = do_dont_resp s"
  "will_wont_resp (wont_switch opt s) = will_wont_resp s"
  "opt_bit b o' (do_switch opt s) = opt_bit b o' s" "will_wont_resp (do_switch opt s) = will_wont_resp s"
  "do_dont_resp (do_switch opt s) = do_dont_resp s"
  "opt_bit b o' (dont_switch opt s) = opt_bit b o' s" "will_wont_resp (dont_switch opt s) = will_wont_resp s"
  "do_dont_resp (dont_switch opt s) = do_dont_resp s"
  "opt_bit b o' (run_func f s) = opt_bit b o' s" "do_dont_resp (run_func f s) = do_dont_resp s"
  "will_wont_resp (run_func f s) = will_wont_resp s"
  by (simp_all only: switch_same [THEN same_neg_bits] switch_same [unfolded same_neg_def])

lemma auth_same [simp]:
  "opt_bit b o' (s\<lparr>auth := a\<rparr>) = opt_bit b o' s" "opt_bit b o' (s\<lparr>not42 := v\<rparr>) = opt_bit b o' s"
  "opt_bit b o' (s\<lparr>turn_on_sga := v\<rparr>) = opt_bit b o' s"
  by (simp_all add: opt_bit_def)

lemma send_noinit [simp]:
  "send_do opt False s = netprintf [IAC, DO, opt] s" "send_dont opt False s = netprintf [IAC, DONT, opt] s"
  "send_will opt False s = netprintf [IAC, WILL, opt] s" "send_wont opt False s = netprintf [IAC, WONT, opt] s"
  by (simp_all add: send_do_def send_dont_def send_will_def send_wont_def)

text \<open>The counter after a response: the code's, in bytes, and the abstract machine's.\<close>

definition resp_dec :: "bool \<Rightarrow> byte \<Rightarrow> byte" where
  "resp_dec same r = (if r = 0 then 0 else if r - 1 \<noteq> 0 \<and> same then r - 1 - 1 else r - 1)"

definition neg_dec :: "bool \<Rightarrow> nat \<Rightarrow> nat" where
  "neg_dec same r =
     (if r \<noteq> 0 then (let r = r - 1 in if r \<noteq> 0 \<and> same then r - 1 else r) else 0)"

lemma unat_resp_dec: "unat (resp_dec same r) = neg_dec same (unat r)"
proof (cases "r = 0")
  case False
  have one: "unat (r - 1) = unat r - 1" using False by (rule unat_minus_one)
  show ?thesis
  proof (cases "r - 1 = 0")
    case True
    then show ?thesis using False one by (simp add: resp_dec_def neg_dec_def)
  next
    case nz: False
    have "unat (r - 1 - 1) = unat r - 1 - 1" using unat_minus_one [OF nz] one by simp
    moreover have "unat r - 1 \<noteq> 0" using nz one by (metis unat_eq_0)
    moreover have "unat r \<noteq> 0" using False by (simp add: unat_eq_0)
    ultimately show ?thesis using False nz one by (simp add: resp_dec_def neg_dec_def Let_def)
  qed
qed (simp add: resp_dec_def neg_dec_def)

lemma resp_dec_zero: "resp_dec same r = 0 \<longleftrightarrow> neg_dec same (unat r) = 0"
  by (metis unat_resp_dec unat_eq_0)

lemma resp_dec_inc:
  "resp_dec same r = 0 \<Longrightarrow> unat (resp_dec same r + 1) = Suc (neg_dec same (unat r))"
  by (simp add: resp_dec_zero [symmetric] unat_resp_dec [symmetric])

lemma dec_resp [simp]:
  "do_dont_resp (dec_do_resp same opt s) = (do_dont_resp s)(opt := resp_dec same (do_dont_resp s opt))"
  "opt_bit b o' (dec_do_resp same opt s) = opt_bit b o' s"
  "will_wont_resp (dec_do_resp same opt s) = will_wont_resp s"
  "will_wont_resp (dec_will_resp same opt s) = (will_wont_resp s)(opt := resp_dec same (will_wont_resp s opt))"
  "opt_bit b o' (dec_will_resp same opt s) = opt_bit b o' s"
  "do_dont_resp (dec_will_resp same opt s) = do_dont_resp s"
  by (simp_all add: dec_do_resp_def dec_will_resp_def resp_dec_def Let_def fun_eq_iff)

lemma receive_dec:
  "receive new ok n =
     (let r = neg_dec (new = my_state n) (want_resp n)
      in if r = 0 \<and> new \<noteq> want_state n
         then (if ok
               then \<lparr>my_state = new, want_state = new, want_resp = 0\<rparr>
               else \<lparr>my_state = new, want_state = want_state n, want_resp = 1\<rparr>)
         else \<lparr>my_state = new, want_state = want_state n, want_resp = r\<rparr>)"
  by (simp add: receive_def neg_dec_def Let_def)

section \<open>Refinement\<close>

lemma willoption_refines:
  assumes "opt \<noteq> TELOPT_TM" "opt \<noteq> TELOPT_ECHO"
  shows "his_neg opt (willoption opt s) = receive True (will_accepted opt) (his_neg opt s)"
  using assms
  by (cases "his_state_is_will opt s"; cases "his_want_state_is_will opt s"; cases "will_accepted opt";
      simp add: willoption_def Let_def opt_defs will_unwanted_def his_neg_def receive_dec
      clear_opt_bit resp_dec_zero unat_resp_dec resp_dec_inc)

lemma wontoption_refines:
  assumes "opt \<noteq> TELOPT_TM"
  shows "his_neg opt (wontoption opt s) = receive False True (his_neg opt s)"
  using assms
  by (cases "his_state_is_will opt s"; cases "his_want_state_is_will opt s";
      auto simp: wontoption_def Let_def opt_defs wont_wanted_def his_neg_def receive_dec
      clear_opt_bit resp_dec_zero unat_resp_dec resp_dec_inc)

lemma dooption_refines:
  assumes "opt \<noteq> TELOPT_TM" "opt \<noteq> TELOPT_LOGOUT"
  shows "my_neg opt (dooption opt s) = receive True (do_accepted opt) (my_neg opt s)"
  using assms
  by (cases "my_state_is_will opt s"; cases "my_want_state_is_will opt s"; cases "do_accepted opt";
      simp add: dooption_def Let_def opt_defs do_unwanted_def my_neg_def receive_dec
      clear_opt_bit resp_dec_zero unat_resp_dec resp_dec_inc)

lemma dontoption_refines:
  assumes "opt \<noteq> TELOPT_SGA"
  shows "my_neg opt (dontoption opt s) = receive False True (my_neg opt s)"
  using assms
  by (cases "my_state_is_will opt s"; cases "my_want_state_is_will opt s";
      simp add: dontoption_def Let_def opt_defs dont_wanted_def my_neg_def receive_dec
      clear_opt_bit resp_dec_zero unat_resp_dec resp_dec_inc)



lemma unat_inc: "(x :: byte) \<noteq> 255 \<Longrightarrow> unat (x + 1) = unat x + 1"
proof -
  assume "x \<noteq> 255"
  moreover have "x = 255" if "1 + x = 0"
  proof -
    have "x = - 1" using that by (simp add: eq_neg_iff_add_eq_0 add.commute)
    then show ?thesis by simp
  qed
  ultimately have "1 + x \<noteq> 0" by blast
  then show ?thesis by (metis Suc_eq_plus1 add.commute unatSuc)
qed


definition demo_trm :: termios where
  "demo_trm = \<lparr>t_istrip = True, t_ixon = True, t_ixany = False, t_echo = True, t_opost = True,
     t_parenb = False, t_csize = 8, t_sptr = (\<lambda>_. Some 3), t_speeds = (9600, 9600), t_winsize = (0, 0)\<rparr>"

definition demo_tn :: tn where
  "demo_tn = tn_boot demo_trm (\<lambda>_. good_calls) (auth_boot True)"


section \<open>Replies\<close>

lemma tn_out_simps [simp]:
  "tn_out (netprintf xs s) = tn_out s @ [Net_write xs]"
  "tn_out (upd_do_resp opt f s) = tn_out s" "tn_out (upd_will_resp opt f s) = tn_out s"
  "tn_out (set_opt b opt s) = tn_out s" "tn_out (clear_opt b opt s) = tn_out s"
  "tn_out (dec_do_resp same opt s) = tn_out s" "tn_out (dec_will_resp same opt s) = tn_out s"
  "tn_out (s\<lparr>not42 := v\<rparr>) = tn_out s" "tn_out (s\<lparr>turn_on_sga := v\<rparr>) = tn_out s"
  "tn_out (settimer g s) = tn_out s" "tn_out (set_flow_defset l s) = tn_out s"
  "tn_out (upd_trm h s) = tn_out s"
  by (simp_all add: tn_out_def netprintf_def tn_enc_def log_net_def upd_do_resp_def upd_will_resp_def
      set_opt_def clear_opt_def dec_do_resp_def dec_will_resp_def settimer_def set_flow_defset_def
      upd_trm_def Let_def)

lemma switch_out:
  "tn_out (will_switch opt s) = tn_out s" "tn_out (do_switch opt s) = tn_out s"
  "tn_out (dont_switch opt s) = tn_out s"
  "opt \<noteq> TELOPT_AUTHENTICATION \<Longrightarrow> tn_out (wont_switch opt s) = tn_out s"
  by (simp_all add: will_switch_def do_switch_def dont_switch_def wont_switch_def tty_binaryin_def
      tty_binaryout_def tty_setecho_def)

lemma replies_out:
  assumes "opt \<notin> {TELOPT_TM, TELOPT_ECHO, TELOPT_LFLOW, TELOPT_AUTHENTICATION, TELOPT_ENCRYPT,
                  TELOPT_LOGOUT, TELOPT_SGA}"
  shows "tn_out (willoption opt s) = tn_out s @
           (if do_dont_resp (dec_do_resp (his_state_is_will opt s) opt s) opt = 0 \<and>
               \<not> his_want_state_is_will opt s
            then [Net_write [IAC, if will_accepted opt then DO else DONT, opt]] else []) \<and>
    tn_out (wontoption opt s) = tn_out s @
           (if do_dont_resp (dec_do_resp (\<not> his_state_is_will opt s) opt s) opt = 0 \<and>
               his_want_state_is_will opt s \<and> his_state_is_will opt s
            then [Net_write [IAC, DONT, opt]] else []) \<and>
    tn_out (dooption opt s) = tn_out s @
           (if will_wont_resp (dec_will_resp (my_state_is_will opt s) opt s) opt = 0 \<and>
               \<not> my_want_state_is_will opt s
            then [Net_write [IAC, if do_accepted opt then WILL else WONT, opt]] else []) \<and>
    tn_out (dontoption opt s) = tn_out s @
           (if will_wont_resp (dec_will_resp (\<not> my_state_is_will opt s) opt s) opt = 0 \<and>
               my_want_state_is_will opt s \<and> my_state_is_will opt s
            then [Net_write [IAC, WONT, opt]] else [])"
  using assms
  by (cases "opt_bit 4 opt s"; cases "opt_bit 1 opt s"; simp add: willoption_def wontoption_def dooption_def dontoption_def Let_def opt_defs
      will_unwanted_def wont_wanted_def do_unwanted_def dont_wanted_def switch_out will_func_def
      run_func_def clear_opt_bit)



end
