(* ===== verification/Pty.thy ===== *)
theory Pty
  imports OptSpec
begin

text \<open>
  The buffer towards the pty (\<open>ptyflush\<close> of telnetd/utility.c) and the commands that put a
  character into it (telnetd/telnetd.c).
\<close>

section \<open>The buffer\<close>

text \<open>\<open>BUFSIZ\<close> is that of the C library; \<open>ptyobuf\<close> has \<open>NETSLOP\<close> bytes more.\<close>

definition BUFSIZ :: nat where "BUFSIZ = 8192"
definition NETSLOP :: nat where "NETSLOP = 64"

definition pfront :: "tn \<Rightarrow> nat" where "pfront s = pback s + length (ptyo s)"

definition put_pty :: "byte \<Rightarrow> tn \<Rightarrow> tn" where
  "put_pty c s = s\<lparr>ptyo := ptyo s @ [c]\<rparr>"

text \<open>A step of a process that may have ended.\<close>

definition alive :: "(tn \<Rightarrow> tn) \<Rightarrow> tn \<Rightarrow> tn" where
  "alive f s = (if exited s then s else f s)"

text \<open>The bytes \<open>write\<close> took leave the buffer; when it is empty the pointers go back to its start.\<close>

definition pty_took :: "nat \<Rightarrow> tn \<Rightarrow> tn" where
  "pty_took n s =
     (let left = drop n (ptyo s)
      in s\<lparr>pty_out := pty_out s @ take n (ptyo s), ptyo := left,
           pback := (if left = [] then 0 else pback s + n)\<rparr>)"

definition ptyflush :: "tn \<Rightarrow> tn" where
  "ptyflush s =
     (if ptyo s = [] then pty_took 0 s
      else case pty_writes s of
        [] \<Rightarrow> s
      | r # rs \<Rightarrow>
          (case r of
             Wrote n \<Rightarrow> pty_took (min n (length (ptyo s))) (s\<lparr>pty_writes := rs\<rparr>)
           | Pty_retry \<Rightarrow> s\<lparr>pty_writes := rs\<rparr>
           | Pty_fatal \<Rightarrow> s\<lparr>pty_writes := rs, exited := True\<rparr>))"

section \<open>Commands\<close>

definition char_or :: "byte option \<Rightarrow> byte \<Rightarrow> byte" where
  "char_or p d = (case p of Some c \<Rightarrow> c | None \<Rightarrow> d)"

definition special :: "byte \<Rightarrow> tn \<Rightarrow> byte option" where
  "special f s = t_sptr (trm s) f"

definition interrupt :: "tn \<Rightarrow> tn" where
  "interrupt s = alive (\<lambda>s. put_pty (char_or (special SLC_IP s) 127) s) (ptyflush s)"

definition sendbrk :: "tn \<Rightarrow> tn" where
  "sendbrk s = alive (\<lambda>s. put_pty (char_or (special SLC_ABORT s) 28) s) (ptyflush s)"

definition sendsusp :: "tn \<Rightarrow> tn" where
  "sendsusp s = alive (\<lambda>s. put_pty (char_or (special SLC_SUSP s) 26) s) (ptyflush s)"

definition doeof :: "tn \<Rightarrow> tn" where
  "doeof s = put_pty (char_or (special SLC_EOF s) 4) s"

definition recv_ayt :: "tn \<Rightarrow> tn" where
  "recv_ayt s = netprintf ([13, 10] @ c_string ''[Yes]'' @ [13, 10]) s"

text \<open>Abort output: flush, pass the character on if there is one, and synchronise with the peer.\<close>

definition POSIX_VDISABLE :: byte where [simp]: "POSIX_VDISABLE = 0"

definition recv_ao :: "tn \<Rightarrow> tn" where
  "recv_ao s =
     alive (\<lambda>s. netprintf_urg [IAC, DM] (netclear
       (case special SLC_AO s of
          None \<Rightarrow> s
        | Some ch \<Rightarrow> if ch \<noteq> POSIX_VDISABLE then put_pty ch s else s))) (ptyflush s)"

text \<open>
  Erase character and erase line read the character through the pointer without a test for
  null: the process ends if the terminal does not have it.
\<close>

definition recv_erase :: "byte \<Rightarrow> tn \<Rightarrow> tn" where
  "recv_erase c s =
     alive (\<lambda>s. case special (if c = EC then SLC_EC else SLC_EL) s of
          None \<Rightarrow> s\<lparr>exited := True\<rparr>
        | Some ch \<Rightarrow> if ch \<noteq> POSIX_VDISABLE then put_pty ch s else s) (ptyflush s)"

text \<open>The data mark asks the network whether more urgent data is coming.\<close>

definition recv_dm :: "tn \<Rightarrow> tn" where
  "recv_dm s =
     settimer (\<lambda>v c. c\<lparr>clk_gotDM := v\<rparr>)
       (case oob_replies s of
          [] \<Rightarrow> s\<lparr>SYNCHing := False\<rparr>
        | r # rs \<Rightarrow> s\<lparr>SYNCHing := r, oob_replies := rs\<rparr>)"

end
