(* ===== verification/Environ.thy ===== *)
theory Environ
  imports Pty
begin

text \<open>
  The environment sub-options of telnetd/state.c: the scan that finds out whether an old
  client has VAR and VALUE reversed, the parser that unescapes names and values in place in
  the sub-option buffer, and the test of the names it accepts.
\<close>

section \<open>Names\<close>

text \<open>A C string in the sub-option buffer, which is terminated no later than at offset \<open>e\<close>.\<close>

definition c_str :: "(int \<Rightarrow> byte) \<Rightarrow> int \<Rightarrow> int \<Rightarrow> byte list" where
  "c_str m p e = takeWhile (\<lambda>c. c \<noteq> 0) (List.map m [p..e - 1])"

definition has_prefix :: "string \<Rightarrow> byte list \<Rightarrow> bool" where
  "has_prefix p xs = (take (length p) xs = c_string p)"

definition envvarok :: "byte list \<Rightarrow> bool" where
  "envvarok varp =
     (61 \<notin> set varp \<and>
      varp \<noteq> c_string ''TERMCAP'' \<and> varp \<noteq> c_string ''TERMINFO'' \<and>
      varp \<noteq> c_string ''TERMPATH'' \<and> varp \<noteq> c_string ''HOME'' \<and>
      \<not> has_prefix ''LD_'' varp \<and> \<not> has_prefix ''_RLD_'' varp \<and> \<not> has_prefix ''KRB5'' varp \<and>
      varp \<noteq> c_string ''KRB5_CONFIG'' \<and> varp \<noteq> c_string ''KRB5CCNAME'' \<and>
      varp \<noteq> c_string ''KRB5_KTNAME'' \<and> varp \<noteq> c_string ''KRBTKFILE'' \<and>
      varp \<noteq> c_string ''KRB_CONF'' \<and> varp \<noteq> c_string ''KRB_REALMS'' \<and>
      varp \<noteq> c_string ''LIBPATH'' \<and> varp \<noteq> c_string ''RESOLV_HOST_CONF'' \<and>
      varp \<noteq> c_string ''NLSPATH'' \<and> \<not> has_prefix ''LC_'' varp \<and>
      varp \<noteq> c_string ''IFS'' \<and> take 1 varp \<noteq> [45])"

text \<open>\<open>setenv\<close> with overwriting, and \<open>unsetenv\<close>: an empty name is refused.\<close>

definition tn_setenv :: "byte list \<Rightarrow> byte list \<Rightarrow> tn \<Rightarrow> tn" where
  "tn_setenv name v s = (if name = [] then s else s\<lparr>env := (env s)(name \<mapsto> v)\<rparr>)"

definition tn_unsetenv :: "byte list \<Rightarrow> tn \<Rightarrow> tn" where
  "tn_unsetenv name s = (if name = [] then s else s\<lparr>env := (env s)(name := None)\<rparr>)"

definition env_entry :: "byte list \<Rightarrow> byte list option \<Rightarrow> tn \<Rightarrow> tn" where
  "env_entry varp valp s =
     (if envvarok varp
      then (case valp of Some v \<Rightarrow> tn_setenv varp v s | None \<Rightarrow> tn_unsetenv varp s)
      else s)"

section \<open>Reversed VAR and VALUE\<close>

text \<open>
  The scan of \<open>ENV_HACK\<close>: \<open>Some True\<close> where the code jumps to \<open>env_ovar_ok\<close>, \<open>Some False\<close> where it
  jumps to \<open>env_ovar_wrong\<close>, \<open>None\<close> when it cannot tell. \<open>prev\<close> (\<open>last\<close> in the code) is -1 before the first field.
\<close>

fun env_scan :: "byte list \<Rightarrow> int \<Rightarrow> bool \<Rightarrow> int \<Rightarrow> int \<Rightarrow> int \<Rightarrow> bool option" where
  "env_scan [] prev empt got_var got_value got_uservar =
     (if empt \<and> prev = uint OLD_ENV_VALUE then Some True
      else if empt \<and> prev = uint OLD_ENV_VAR then Some False
      else if got_uservar + got_var = got_value then Some True
      else if got_uservar + got_value = got_var then Some False
      else None)"
| "env_scan (c # cs) prev empt got_var got_value got_uservar =
     (if c = OLD_ENV_VAR then
        if prev < 0 \<or> prev = uint OLD_ENV_VAR \<or> (empt \<and> prev = uint OLD_ENV_VALUE) then Some True
        else env_scan cs (uint OLD_ENV_VAR) True (got_var + 1) got_value got_uservar
      else if c = OLD_ENV_VALUE then
        if prev < 0 \<or> prev = uint OLD_ENV_VALUE \<or> (empt \<and> prev = uint OLD_ENV_VAR) then Some False
        else env_scan cs (uint OLD_ENV_VALUE) True got_var (got_value + 1) got_uservar
      else if c = ENV_USERVAR then
        if empt \<and> prev = uint OLD_ENV_VALUE then Some True
        else if empt \<and> prev = uint OLD_ENV_VAR then Some False
        else env_scan cs (uint ENV_USERVAR) True got_var got_value
               (if prev \<noteq> uint ENV_USERVAR then got_uservar + 1 else got_uservar)
      else if c = ENV_ESC then
        env_scan (drop 1 cs) prev False got_var got_value got_uservar
      else env_scan cs prev False got_var got_value got_uservar)"

definition env_decide :: "byte list \<Rightarrow> tn \<Rightarrow> tn" where
  "env_decide cs s =
     (if env_ovar s < 0
      then (case env_scan cs (-1) False 0 0 0 of
              Some True \<Rightarrow> s\<lparr>env_ovar := uint OLD_ENV_VAR, env_ovalue := uint OLD_ENV_VALUE\<rparr>
            | Some False \<Rightarrow> s\<lparr>env_ovar := uint OLD_ENV_VALUE, env_ovalue := uint OLD_ENV_VAR\<rparr>
            | None \<Rightarrow> s)
      else s)"

section \<open>The parser\<close>

text \<open>Skips what comes before the first variable.\<close>

function env_skip :: "(byte \<Rightarrow> bool) \<Rightarrow> (int \<Rightarrow> byte) \<Rightarrow> int \<Rightarrow> int \<Rightarrow> int" where
  "env_skip stop m e p =
     (if p < e then (if stop (m p) then p + 1 else env_skip stop m e (p + 1)) else p)"
  by auto
termination by (relation "measure (\<lambda>(_, _, e, p). nat (e - p))") auto

text \<open>The code of a byte: old clients use the other numbers, and maybe the reversed ones.\<close>

definition env_code :: "byte \<Rightarrow> tn \<Rightarrow> byte \<Rightarrow> byte" where
  "env_code subchar s c =
     (if subchar = TELOPT_OLD_ENVIRON then
        if uint c = env_ovar s then NEW_ENV_VAR
        else if uint c = env_ovalue s then NEW_ENV_VALUE
        else c
      else c)"

text \<open>
  The loop: \<open>p\<close> is \<open>subpointer\<close>, \<open>cp\<close> where the next unescaped byte goes, \<open>varp\<close> and \<open>valp\<close> where
  the name and the value start. Bytes are unescaped in place.
\<close>

definition env_finish :: "int \<Rightarrow> int \<Rightarrow> int option \<Rightarrow> tn \<Rightarrow> tn" where
  "env_finish cp varp valp s =
     (let m = (subbuffer s)(cp := 0); e = subend s
      in env_entry (c_str m varp e) (map_option (\<lambda>v. c_str m v e) valp) (s\<lparr>subbuffer := m\<rparr>))"

definition env_store :: "byte \<Rightarrow> int \<Rightarrow> tn \<Rightarrow> tn" where
  "env_store c cp s = s\<lparr>subbuffer := (subbuffer s)(cp := c)\<rparr>"

function env_loop :: "byte \<Rightarrow> int \<Rightarrow> int \<Rightarrow> int \<Rightarrow> int \<Rightarrow> int option \<Rightarrow> tn \<Rightarrow> tn" where
  "env_loop subchar e p cp varp valp s =
     (if p < e then
        let c = env_code subchar s (subbuffer s p)
        in if c = NEW_ENV_VALUE then
             env_loop subchar e (p + 1) (p + 1) varp (Some (p + 1)) (env_store 0 cp s)
           else if c = NEW_ENV_VAR \<or> c = ENV_USERVAR then
             env_loop subchar e (p + 1) (p + 1) (p + 1) None (env_finish cp varp valp s)
           else if c = ENV_ESC then
             (if p + 1 < e
              then env_loop subchar e (p + 2) (cp + 1) varp valp (env_store (subbuffer s (p + 1)) cp s)
              else env_loop subchar e (p + 1) cp varp valp s)
           else env_loop subchar e (p + 1) (cp + 1) varp valp (env_store c cp s)
      else env_finish cp varp valp s)"
  by auto
termination by (relation "measure (\<lambda>(_, e, p, _). nat (e - p))") auto

declare env_skip.simps [simp del] env_loop.simps [simp del]

definition env_first :: "byte \<Rightarrow> tn \<Rightarrow> tn \<times> int" where
  "env_first subchar s =
     (if subchar = TELOPT_NEW_ENVIRON
      then (s, env_skip (\<lambda>c. c = NEW_ENV_VAR \<or> c = ENV_USERVAR) (subbuffer s) (subend s) 2)
      else
        let s = env_decide (List.map (subbuffer s) [2..subend s - 1]) s
        in (s, env_skip (\<lambda>c. uint c = env_ovar s \<or> c = ENV_USERVAR) (subbuffer s) (subend s) 2))"

definition env_settimer :: "byte \<Rightarrow> tn \<Rightarrow> tn" where
  "env_settimer subchar =
     settimer (\<lambda>v c. if subchar = TELOPT_OLD_ENVIRON then c\<lparr>clk_oenvironsubopt := v\<rparr>
                     else c\<lparr>clk_environsubopt := v\<rparr>)"

text \<open>The part after the length has been tested and authentication found complete.\<close>

definition env_subopt :: "byte \<Rightarrow> tn \<Rightarrow> tn" where
  "env_subopt subchar s =
     (if subbuffer s 1 \<noteq> TELQUAL_IS \<and> subbuffer s 1 \<noteq> TELQUAL_INFO then s
      else
        let s = (if subbuffer s 1 = TELQUAL_IS then env_settimer subchar s else s);
            (s, p) = env_first subchar s
        in if p \<ge> subend s then s
           else env_loop subchar (subend s) p p p None s)"

end
