(* ===== verification/Suboption.thy ===== *)
theory Suboption
  imports Environ
begin

text \<open>
  Sub-option negotiation in the telnet server (\<open>suboption\<close> and \<open>send_status\<close> of
  telnetd/state.c, with the parts of \<open>clientstat\<close> of termstat.c that it calls). The buffer is
  \<open>subbuffer\<close>, terminated at \<open>subend\<close>; each handler takes the offset it has read up to. Nothing
  reads \<open>subpointer\<close> after a handler, since the next sub-option starts with \<open>SB_CLEAR\<close>.
\<close>

section \<open>Terminal speed and size\<close>

text \<open>
  \<open>atoi\<close>: blanks, a sign and digits, saturated to \<open>long\<close> and cut to \<open>int\<close> as the C library does.
  It stops at the first other character; the array ends at \<open>TELNET_BUFSIZE\<close>.
\<close>

function atoi_digits :: "(int \<Rightarrow> byte) \<Rightarrow> int \<Rightarrow> int \<Rightarrow> int" where
  "atoi_digits m p v =
     (if p < TELNET_BUFSIZE \<and> 48 \<le> m p \<and> m p \<le> 57
      then atoi_digits m (p + 1) (10 * v + (uint (m p) - 48)) else v)"
  by auto
termination by (relation "measure (\<lambda>(_, p, _). nat (TELNET_BUFSIZE - p))") auto

function atoi_blanks :: "(int \<Rightarrow> byte) \<Rightarrow> int \<Rightarrow> int" where
  "atoi_blanks m p =
     (if p < TELNET_BUFSIZE \<and> (m p = 32 \<or> 9 \<le> m p \<and> m p \<le> 13) then atoi_blanks m (p + 1) else p)"
  by auto
termination by (relation "measure (\<lambda>(_, p). nat (TELNET_BUFSIZE - p))") auto

declare atoi_digits.simps [simp del] atoi_blanks.simps [simp del]

definition atoi :: "(int \<Rightarrow> byte) \<Rightarrow> int \<Rightarrow> int" where
  "atoi m p =
     (let p = atoi_blanks m p;
          v = (if m p = 45 then - atoi_digits m (p + 1) 0
               else if m p = 43 then atoi_digits m (p + 1) 0
               else atoi_digits m p 0)
      in signed_take_bit 31 (max (- (2 ^ 63)) (min (2 ^ 63 - 1) v)))"

text \<open>The table of speeds, which sends everything above 9600 to 9600.\<close>

definition termspeeds :: "(int \<times> int) list" where
  "termspeeds =
     [(0, 0), (50, 50), (75, 75), (110, 110), (134, 134), (150, 150), (200, 200), (300, 300),
      (600, 600), (1200, 1200), (1800, 1800), (2400, 2400), (4800, 4800), (9600, 9600),
      (19200, 9600), (38400, 9600), (- 1, 9600)]"

fun find_speed :: "int \<Rightarrow> (int \<times> int) list \<Rightarrow> int" where
  "find_speed val [] = 9600"
| "find_speed val ((speed, v) # ts) = (if speed \<noteq> - 1 \<and> val > speed then find_speed val ts else v)"

definition tty_tspeed :: "int \<Rightarrow> tn \<Rightarrow> tn" where
  "tty_tspeed val = upd_trm (\<lambda>t. t\<lparr>t_speeds := (find_speed val termspeeds, snd (t_speeds t))\<rparr>)"

definition tty_rspeed :: "int \<Rightarrow> tn \<Rightarrow> tn" where
  "tty_rspeed val = upd_trm (\<lambda>t. t\<lparr>t_speeds := (fst (t_speeds t), find_speed val termspeeds)\<rparr>)"

definition clientstat_tspeed :: "int \<Rightarrow> int \<Rightarrow> tn \<Rightarrow> tn" where
  "clientstat_tspeed parm1 parm2 s =
     tn_netflush (tty_tspeed parm1 (tty_rspeed parm2
       (s\<lparr>def_tspeed := parm1, def_rspeed := parm2\<rparr>)))"

text \<open>The window size is stored in unsigned shorts.\<close>

definition clientstat_naws :: "int \<Rightarrow> int \<Rightarrow> tn \<Rightarrow> tn" where
  "clientstat_naws parm1 parm2 s =
     tn_netflush (upd_trm (\<lambda>t. t\<lparr>t_winsize := (parm1 mod 65536, parm2 mod 65536)\<rparr>)
       (s\<lparr>def_col := parm1, def_row := parm2\<rparr>))"

section \<open>Before authentication\<close>

definition auth_complete_error :: "byte list" where
  "auth_complete_error =
     c_string ''An environment option was sent before authentication negotiation completed.'' @ [13, 10] @
     c_string ''This may create a security hazard. Connection dropped.'' @ [13, 10]"

definition sb_auth_complete :: "tn \<Rightarrow> tn" where
  "sb_auth_complete s =
     (if auth_negotiated s then s
      else (tn_netflush (netprintf auth_complete_error s))\<lparr>exited := True\<rparr>)"

section \<open>Status\<close>

definition NTELOPTS :: nat where "NTELOPTS = 40"

definition add_data :: "byte \<Rightarrow> byte list" where
  "add_data c = (if c = SE then [c, c] else [c])"

definition status_option :: "tn \<Rightarrow> byte \<Rightarrow> byte list" where
  "status_option s i =
     (if my_want_state_is_will i s then WILL # add_data i @ (if i = IAC then [IAC] else []) else []) @
     (if his_want_state_is_will i s then DO # add_data i @ (if i = IAC then [IAC] else []) else [])"

definition status_flow :: "tn \<Rightarrow> byte list" where
  "status_flow s =
     (if his_want_state_is_will TELOPT_LFLOW s then
        [SB, TELOPT_LFLOW, if flowmode s \<noteq> 0 then LFLOW_ON else LFLOW_OFF, SE] @
        (if restartany s \<ge> 0
         then [SB, TELOPT_LFLOW, if restartany s \<noteq> 0 then LFLOW_RESTART_ANY else LFLOW_RESTART_XON, SE, SB]
         else [])
      else [])"

definition status_message :: "tn \<Rightarrow> byte list" where
  "status_message s =
     [IAC, SB, TELOPT_STATUS, TELQUAL_IS] @
     concat (List.map (\<lambda>i. status_option s (of_nat i)) [0..<NTELOPTS]) @
     status_flow s @ [IAC, SE]"

definition send_status :: "tn \<Rightarrow> tn" where
  "send_status s =
     (let s = tn_netflush s in tn_netflush (netprintf (status_message s) s))"

section \<open>The handlers\<close>

text \<open>Skips to the comma: the byte is read before the end is tested.\<close>

function skip_comma :: "(int \<Rightarrow> byte) \<Rightarrow> int \<Rightarrow> int \<Rightarrow> int" where
  "skip_comma m e p = (if m p \<noteq> 44 \<and> p + 1 < e then skip_comma m e (p + 1) else p + 1)"
  by auto
termination by (relation "measure (\<lambda>(_, e, p). nat (e - p))") auto

declare skip_comma.simps [simp del]

definition sub_tspeed :: "tn \<Rightarrow> tn" where
  "sub_tspeed s =
     (if \<not> his_state_is_will TELOPT_TSPEED s then s
      else alive (\<lambda>s.
        let s = settimer (\<lambda>v c. c\<lparr>clk_tspeedsubopt := v\<rparr>) s; m = subbuffer s; e = subend s
        in if e \<le> 1 \<or> m 1 \<noteq> TELQUAL_IS then s
           else
             let p = skip_comma m e 2
             in if p \<ge> e then s else clientstat_tspeed (atoi m 2) (atoi m p) s)
        (sb_auth_complete s))"

text \<open>\<open>isupper\<close> and \<open>tolower\<close> in the C locale; \<open>terminaltype\<close> holds forty characters and a NUL.\<close>

definition to_lower :: "byte \<Rightarrow> byte" where
  "to_lower c = (if 65 \<le> c \<and> c \<le> 90 then c + 32 else c)"

definition sub_ttype :: "tn \<Rightarrow> tn" where
  "sub_ttype s =
     (if \<not> his_state_is_will TELOPT_TTYPE s then s
      else alive (\<lambda>s.
        let s = settimer (\<lambda>v c. c\<lparr>clk_ttypesubopt := v\<rparr>) s; m = subbuffer s; e = subend s
        in if e \<le> 1 \<or> m 1 \<noteq> TELQUAL_IS then s
           else s\<lparr>terminaltype := List.map to_lower (take 40 (List.map m [2..e - 1]))\<rparr>)
        (sb_auth_complete s))"

definition sub_naws :: "tn \<Rightarrow> tn" where
  "sub_naws s =
     (if \<not> his_state_is_will TELOPT_NAWS s \<or> subend s \<le> 4 then s
      else
        let m = subbuffer s
        in clientstat_naws (uint (m 1) * 256 + uint (m 2)) (uint (m 3) * 256 + uint (m 4)) s)"

definition sub_status :: "tn \<Rightarrow> tn" where
  "sub_status s =
     (if subend s > 1 \<and> subbuffer s 1 = TELQUAL_SEND \<and> my_state_is_will TELOPT_STATUS s
      then send_status s else s)"

text \<open>The display: unlike the others, it is taken whether or not the option was agreed.\<close>

definition sub_xdisploc :: "tn \<Rightarrow> tn" where
  "sub_xdisploc s =
     (if subend s \<le> 1 \<or> subbuffer s 1 \<noteq> TELQUAL_IS then s
      else alive (\<lambda>s.
        let s = settimer (\<lambda>v c. c\<lparr>clk_xdisplocsubopt := v\<rparr>) s;
            m = (subbuffer s)(subend s := 0)
        in tn_setenv (c_string ''DISPLAY'') (c_str m 2 (subend s)) (s\<lparr>subbuffer := m\<rparr>))
        (sb_auth_complete s))"

definition sub_environ :: "byte \<Rightarrow> tn \<Rightarrow> tn" where
  "sub_environ subchar s =
     (if subend s \<le> 1 then s else alive (env_subopt subchar) (sb_auth_complete s))"

text \<open>What lies between offset 2 and the end is the data of an authentication or encryption message.\<close>

definition sub_data :: "tn \<Rightarrow> byte list" where
  "sub_data s = List.map (subbuffer s) [2..subend s - 1]"

definition tn_auth :: "(auth_state \<Rightarrow> auth_state) \<Rightarrow> tn \<Rightarrow> tn" where
  "tn_auth f s = s\<lparr>auth := f (auth s)\<rparr>"

definition sub_authentication :: "tn \<Rightarrow> tn" where
  "sub_authentication s =
     (if subend s \<le> 1 \<or> auth_negotiated s then s
      else if subbuffer s 1 = TELQUAL_IS then tn_auth (auth_is (krb s (sub_data s)) (sub_data s)) s
      else if subbuffer s 1 = TELQUAL_NAME then tn_auth (auth_name (sub_data s)) s
      else s)"

definition sub_encrypt :: "tn \<Rightarrow> tn" where
  "sub_encrypt s =
     (if subend s \<le> 1 then s
      else
        let c = subbuffer s 1; d = sub_data s
        in if c = ENCRYPT_SUPPORT then tn_enc (encrypt_support d) s
           else if c = ENCRYPT_IS then tn_enc (encrypt_is d) s
           else if c = ENCRYPT_REPLY then tn_enc (encrypt_reply d) s
           else if c = ENCRYPT_START then tn_enc (encrypt_start d) s
           else if c = ENCRYPT_END then tn_enc encrypt_end s
           else if c = ENCRYPT_REQSTART then tn_enc (encrypt_request_start d) s
           else if c = ENCRYPT_REQEND then tn_enc encrypt_request_end s
           else if c = ENCRYPT_ENC_KEYID then tn_enc (encrypt_enc_keyid d) s
           else if c = ENCRYPT_DEC_KEYID then tn_enc (encrypt_dec_keyid d) s
           else s)"

definition suboption :: "tn \<Rightarrow> tn" where
  "suboption s =
     (let c = subbuffer s 0
      in if c = TELOPT_TSPEED then sub_tspeed s
         else if c = TELOPT_TTYPE then sub_ttype s
         else if c = TELOPT_NAWS then sub_naws s
         else if c = TELOPT_STATUS then sub_status s
         else if c = TELOPT_XDISPLOC then sub_xdisploc s
         else if c = TELOPT_NEW_ENVIRON \<or> c = TELOPT_OLD_ENVIRON then sub_environ c s
         else if c = TELOPT_AUTHENTICATION then sub_authentication s
         else if c = TELOPT_ENCRYPT then sub_encrypt s
         else s)"

end
