(* ===== verification/Telrcv.thy ===== *)
theory Telrcv
  imports Suboption
begin

text \<open>
  The receiver of the telnet server (\<open>telrcv\<close> of telnetd/state.c): the state machine that takes
  the bytes from the network apart into data for the pty, commands and options. \<open>des\<close> is the
  DES block function.
\<close>

section \<open>Decryption\<close>

type_synonym des = "byte list option \<Rightarrow> byte list \<Rightarrow> byte list"

definition dec_stream :: "mode \<Rightarrow> tn \<Rightarrow> stinfo" where
  "dec_stream m s = streams (fbs (enc (auth s)) m) DIR_DECRYPT"

definition set_dec_stream :: "mode \<Rightarrow> stinfo \<Rightarrow> tn \<Rightarrow> tn" where
  "set_dec_stream m st = tn_enc (upd_fb m (upd_stream DIR_DECRYPT (\<lambda>_. st)))"

definition decrypt_byte :: "des \<Rightarrow> mode \<Rightarrow> stinfo \<Rightarrow> byte \<Rightarrow> byte \<times> stinfo" where
  "decrypt_byte des m st c = (case m of CFB \<Rightarrow> cfb64_decrypt des st c | OFB \<Rightarrow> ofb64_decrypt des st c)"

definition decrypt_back :: "mode \<Rightarrow> stinfo \<Rightarrow> stinfo" where
  "decrypt_back m st = (case m of CFB \<Rightarrow> cfb64_decrypt_back st | OFB \<Rightarrow> ofb64_decrypt_back st)"

definition decrypt_in :: "des \<Rightarrow> byte \<Rightarrow> tn \<Rightarrow> byte \<times> tn" where
  "decrypt_in des c s =
     (case decrypt_input (enc (auth s)) of
        None \<Rightarrow> (c, s)
      | Some m \<Rightarrow>
          let (y, st) = decrypt_byte des m (dec_stream m s) c in (y, set_dec_stream m st s))"

text \<open>After a carriage return the next byte is looked at, and the decryptor backed up again.\<close>

definition peek_in :: "des \<Rightarrow> byte \<Rightarrow> tn \<Rightarrow> tn" where
  "peek_in des c s =
     (case decrypt_input (enc (auth s)) of
        None \<Rightarrow> s
      | Some m \<Rightarrow>
          set_dec_stream m (decrypt_back m (snd (decrypt_byte des m (dec_stream m s) c))) s)"

section \<open>The state machine\<close>

definition sb_clear :: "tn \<Rightarrow> tn" where "sb_clear s = s\<lparr>subpointer := 0\<rparr>"

definition sb_accum :: "byte \<Rightarrow> tn \<Rightarrow> tn" where
  "sb_accum c s =
     (if subpointer s < TELNET_BUFSIZE
      then s\<lparr>subbuffer := (subbuffer s)(subpointer s := c), subpointer := subpointer s + 1\<rparr>
      else s)"

text \<open>
  The end of a sub-option: the two bytes that ended it are put into the buffer for the
  diagnostics, and taken off again by moving the pointer.
\<close>

definition sb_end :: "byte \<Rightarrow> tn \<Rightarrow> tn" where
  "sb_end c s =
     (let s = sb_accum c (sb_accum IAC s)
      in s\<lparr>subend := subpointer s - 2, subpointer := 0\<rparr>)"

definition ts_data :: "des \<Rightarrow> byte \<Rightarrow> byte \<Rightarrow> tn \<Rightarrow> tn" where
  "ts_data des c nxt s =
     (if c = IAC then s\<lparr>recv_st := TS_IAC\<rparr>
      else put_pty c
        (if c = 13 \<and> \<not> his_state_is_will TELOPT_BINARY s
         then (peek_in des nxt s)\<lparr>recv_st := TS_CR\<rparr> else s))"

definition iac_command :: "byte \<Rightarrow> tn \<Rightarrow> tn" where
  "iac_command c s =
     (if c = SB then (sb_clear s)\<lparr>recv_st := TS_SB\<rparr>
      else if c = WILL then s\<lparr>recv_st := TS_WILL\<rparr>
      else if c = WONT then s\<lparr>recv_st := TS_WONT\<rparr>
      else if c = DO then s\<lparr>recv_st := TS_DO\<rparr>
      else if c = DONT then s\<lparr>recv_st := TS_DONT\<rparr>
      else
        (if c = IP then interrupt s
         else if c = BREAK \<or> c = ABORT then sendbrk s
         else if c = AYT then recv_ayt s
         else if c = AO then recv_ao s
         else if c = EC \<or> c = EL then recv_erase c s
         else if c = DM then recv_dm s
         else if c = EOR then (if his_state_is_will TELOPT_EOR s then doeof s else s)
         else if c = xEOF then doeof s
         else if c = SUSP then sendsusp s
         else if c = IAC then put_pty c s
         else s)\<lparr>recv_st := TS_DATA\<rparr>)"

definition ts_se :: "byte \<Rightarrow> tn \<Rightarrow> tn" where
  "ts_se c s =
     (if c = SE then (suboption (sb_end c s))\<lparr>recv_st := TS_DATA\<rparr>
      else if c = IAC then (sb_accum c s)\<lparr>recv_st := TS_SB\<rparr>
      else alive (\<lambda>s. iac_command c (s\<lparr>recv_st := TS_IAC\<rparr>)) (suboption (sb_end c s)))"

definition rcv_state :: "des \<Rightarrow> byte \<Rightarrow> byte \<Rightarrow> tn \<Rightarrow> tn" where
  "rcv_state des c nxt s =
     (case recv_st s of
        TS_CR \<Rightarrow> (if c = 0 \<or> c = 10 then s\<lparr>recv_st := TS_DATA\<rparr>
                  else ts_data des c nxt (s\<lparr>recv_st := TS_DATA\<rparr>))
      | TS_DATA \<Rightarrow> ts_data des c nxt s
      | TS_IAC \<Rightarrow> iac_command c s
      | TS_SB \<Rightarrow> (if c = IAC then s\<lparr>recv_st := TS_SE\<rparr> else sb_accum c s)
      | TS_SE \<Rightarrow> ts_se c s
      | TS_WILL \<Rightarrow> (willoption c s)\<lparr>recv_st := TS_DATA\<rparr>
      | TS_WONT \<Rightarrow> (wontoption c s)\<lparr>recv_st := TS_DATA\<rparr>
      | TS_DO \<Rightarrow> (dooption c s)\<lparr>recv_st := TS_DATA\<rparr>
      | TS_DONT \<Rightarrow> (dontoption c s)\<lparr>recv_st := TS_DATA\<rparr>)"

definition rcv_byte :: "des \<Rightarrow> byte \<Rightarrow> byte \<Rightarrow> tn \<Rightarrow> tn" where
  "rcv_byte des x nxt s = (case decrypt_in des x s of (c, s) \<Rightarrow> rcv_state des c nxt s)"

text \<open>
  The loop stops when the input is used up, when the buffer towards the pty is full, or when
  the process has ended; it returns what it has left of the input.
\<close>

fun telrcv :: "des \<Rightarrow> byte list \<Rightarrow> tn \<Rightarrow> byte list \<times> tn" where
  "telrcv des [] s = ([], s)"
| "telrcv des (x # xs) s =
     (if exited s \<or> pfront s \<ge> BUFSIZ then (x # xs, s)
      else telrcv des xs (rcv_byte des x (case xs of [] \<Rightarrow> past_input s | y # _ \<Rightarrow> y) s))"

end
