(* ===== verification/TelrcvInv.thy ===== *)
theory TelrcvInv
  imports Telrcv
begin

text \<open>
  The invariants of the receiver: the bounds of its buffers, and who can change the
  environment.
\<close>

section \<open>What the option handlers leave alone\<close>

text \<open>The buffers, the terminal type, the environment and the verdict on authentication.\<close>

definition same_io :: "tn \<Rightarrow> tn \<Rightarrow> bool" where
  "same_io t s =
     (pback t = pback s \<and> ptyo t = ptyo s \<and> pty_out t = pty_out s \<and> subbuffer t = subbuffer s \<and>
      subpointer t = subpointer s \<and> subend t = subend s \<and> terminaltype t = terminaltype s \<and>
      env t = env s \<and> auth_negotiated t = auth_negotiated s)"

lemma same_io_refl [simp]: "same_io s s"
  by (simp add: same_io_def)

lemma same_io_if: "same_io a s \<Longrightarrow> same_io b s \<Longrightarrow> same_io (if c then a else b) s"
  by simp

lemma same_io_steps:
  "same_io t s \<Longrightarrow> same_io (tn_enc f t) s"
  "same_io t s \<Longrightarrow> same_io (netprintf xs t) s"
  "same_io t s \<Longrightarrow> same_io (tn_netflush t) s"
  "same_io t s \<Longrightarrow> same_io (netclear t) s"
  "same_io t s \<Longrightarrow> same_io (netprintf_urg xs t) s"
  "same_io t s \<Longrightarrow> same_io (upd_do_resp opt g t) s"
  "same_io t s \<Longrightarrow> same_io (upd_will_resp opt g t) s"
  "same_io t s \<Longrightarrow> same_io (set_opt b opt t) s"
  "same_io t s \<Longrightarrow> same_io (clear_opt b opt t) s"
  "same_io t s \<Longrightarrow> same_io (upd_trm h t) s"
  "same_io t s \<Longrightarrow> same_io (settimer k t) s"
  "same_io t s \<Longrightarrow> same_io (set_flow_defset l t) s"
  "same_io t s \<Longrightarrow> same_io (t\<lparr>not42 := v\<rparr>) s"
  "same_io t s \<Longrightarrow> same_io (t\<lparr>turn_on_sga := v\<rparr>) s"
  "same_io t s \<Longrightarrow> same_io (t\<lparr>auth := a\<rparr>) s"
  "same_io t s \<Longrightarrow> same_io (t\<lparr>flowmode := n\<rparr>) s"
  "same_io t s \<Longrightarrow> same_io (t\<lparr>restartany := n\<rparr>) s"
  "same_io t s \<Longrightarrow> same_io (t\<lparr>exited := v\<rparr>) s"
  "same_io t s \<Longrightarrow> same_io (t\<lparr>recv_st := st\<rparr>) s"
  "same_io t s \<Longrightarrow> same_io (t\<lparr>SYNCHing := v\<rparr>) s"
  by (simp_all add: same_io_def tn_enc_def netprintf_def tn_netflush_def netclear_def netprintf_urg_def
      upd_do_resp_def upd_will_resp_def set_opt_def clear_opt_def upd_trm_def settimer_def
      set_flow_defset_def Let_def)

lemma same_io_dec:
  "same_io t s \<Longrightarrow> same_io (dec_do_resp same opt t) s"
  "same_io t s \<Longrightarrow> same_io (dec_will_resp same opt t) s"
  by (simp_all add: dec_do_resp_def dec_will_resp_def same_io_def upd_do_resp_def upd_will_resp_def Let_def)

lemma same_io_send:
  "same_io t s \<Longrightarrow> same_io (send_do opt i t) s"
  "same_io t s \<Longrightarrow> same_io (send_dont opt i t) s"
  "same_io t s \<Longrightarrow> same_io (send_will opt i t) s"
  "same_io t s \<Longrightarrow> same_io (send_wont opt i t) s"
  by (simp_all add: send_do_def send_dont_def send_will_def send_wont_def Let_def opt_defs same_io_steps)

lemma same_io_func: "same_io t s \<Longrightarrow> same_io (run_func f t) s"
  by (simp add: run_func_def flowstat_def flowstat_mode_def flowstat_any_def same_io_steps
      split: opt_func.split)

lemma same_io_switch:
  "same_io t s \<Longrightarrow> same_io (will_switch opt t) s"
  "same_io t s \<Longrightarrow> same_io (wont_switch opt t) s"
  "same_io t s \<Longrightarrow> same_io (do_switch opt t) s"
  "same_io t s \<Longrightarrow> same_io (dont_switch opt t) s"
  by (simp_all add: will_switch_def wont_switch_def do_switch_def dont_switch_def tty_binaryin_def
      tty_binaryout_def tty_setecho_def same_io_steps)

lemma same_io_options:
  "same_io (willoption opt s) s" "same_io (wontoption opt s) s"
  "same_io (dooption opt s) s" "same_io (dontoption opt s) s"
  by (simp_all add: willoption_def wontoption_def dooption_def dontoption_def will_unwanted_def
      wont_wanted_def do_unwanted_def dont_wanted_def Let_def opt_defs same_io_dec same_io_send
      same_io_func same_io_switch same_io_steps)

section \<open>Sub-options\<close>

text \<open>
  What any step of the receiver may change: the sub-option buffer only inside its array, the
  environment only after authentication is settled and only at a name that is accepted or
  \<open>DISPLAY\<close>; nothing it does settles authentication.
\<close>

definition rcv_rel :: "tn \<Rightarrow> tn \<Rightarrow> bool" where
  "rcv_rel s t =
     (auth_negotiated t = auth_negotiated s \<and>
      (\<forall>i. i < 0 \<or> TELNET_BUFSIZE \<le> i \<longrightarrow> subbuffer t i = subbuffer s i) \<and>
      (\<forall>n. env t n \<noteq> env s n \<longrightarrow> auth_negotiated s \<and> (envvarok n \<or> n = c_string ''DISPLAY'')))"

definition rcv_keep :: "tn \<Rightarrow> tn \<Rightarrow> bool" where
  "rcv_keep s t =
     (pback t = pback s \<and> ptyo t = ptyo s \<and> pty_out t = pty_out s \<and>
      subpointer t = subpointer s \<and> subend t = subend s)"

lemma rcv_rel_refl [simp]: "rcv_rel s s" "rcv_keep s s"
  by (simp_all add: rcv_rel_def rcv_keep_def)

lemma rcv_rel_trans [trans]: "rcv_rel s t \<Longrightarrow> rcv_rel t u \<Longrightarrow> rcv_rel s u"
  unfolding rcv_rel_def by metis

lemma rcv_keep_trans [trans]: "rcv_keep s t \<Longrightarrow> rcv_keep t u \<Longrightarrow> rcv_keep s u"
  by (simp add: rcv_keep_def)

lemma same_io_rel:
  assumes "same_io t s" shows "rcv_rel s t" "rcv_keep s t" "terminaltype t = terminaltype s"
  using assms by (simp_all add: same_io_def rcv_rel_def rcv_keep_def)

lemma env_store_rel:
  assumes "0 \<le> cp" "cp < TELNET_BUFSIZE"
  shows "rcv_rel s (env_store c cp s)" "rcv_keep s (env_store c cp s)"
    "terminaltype (env_store c cp s) = terminaltype s"
  using assms by (simp_all add: env_store_def rcv_rel_def rcv_keep_def)

lemma env_finish_rel:
  assumes "0 \<le> cp" "cp < TELNET_BUFSIZE" "auth_negotiated s"
  shows "rcv_rel s (env_finish cp v w s)" "rcv_keep s (env_finish cp v w s)"
    "terminaltype (env_finish cp v w s) = terminaltype s"
  using assms
  by (auto simp: env_finish_def env_entry_def tn_setenv_def tn_unsetenv_def rcv_rel_def rcv_keep_def Let_def
      split: option.splits if_splits)

lemma env_loop_rel:
  assumes "0 \<le> cp" "cp \<le> p" "p \<le> e" "e < TELNET_BUFSIZE" "auth_negotiated s"
  shows "rcv_rel s (env_loop k e p cp varp valp s) \<and> rcv_keep s (env_loop k e p cp varp valp s) \<and>
    terminaltype (env_loop k e p cp varp valp s) = terminaltype s"
  using assms
proof (induction k e p cp varp valp s rule: env_loop.induct)
  case (1 k e p cp varp valp s)
  note st = env_store_rel [where cp = cp and s = s] and fin = env_finish_rel [where cp = cp and s = s and v = varp and w = valp]
  have auth: "auth_negotiated (env_store c cp s)" "auth_negotiated (env_finish cp varp valp s)" for c
    using st(1) fin(1) 1 by (auto simp: rcv_rel_def)
  show ?case
  proof (cases "p < e")
    case False
    then have "env_loop k e p cp varp valp s = env_finish cp varp valp s"
      by (simp add: env_loop.simps [of k e p cp varp valp s])
    with fin 1 False show ?thesis by auto
  next
    case True
    define c where "c = env_code k s (subbuffer s p)"
    note step = 1(1-5) [OF True c_def]
    note eq = env_loop.simps [of k e p cp varp valp s, folded c_def]
    consider "c = NEW_ENV_VALUE" | "c \<noteq> NEW_ENV_VALUE" "c = NEW_ENV_VAR \<or> c = ENV_USERVAR"
      | "c \<noteq> NEW_ENV_VALUE" "\<not> (c = NEW_ENV_VAR \<or> c = ENV_USERVAR)" "c = ENV_ESC" "p + 1 < e"
      | "c \<noteq> NEW_ENV_VALUE" "\<not> (c = NEW_ENV_VAR \<or> c = ENV_USERVAR)" "c = ENV_ESC" "\<not> p + 1 < e"
      | "c \<noteq> NEW_ENV_VALUE" "\<not> (c = NEW_ENV_VAR \<or> c = ENV_USERVAR)" "c \<noteq> ENV_ESC"
      by blast
    then show ?thesis
    proof cases
      case 1
      then have "env_loop k e p cp varp valp s = env_loop k e (p + 1) (p + 1) varp (Some (p + 1)) (env_store 0 cp s)"
        using True by (simp add: eq Let_def c_def)
      with step(1) [OF 1] True "1.prems" auth st show ?thesis
        by (auto intro: rcv_rel_trans rcv_keep_trans)
    next
      case 2
      then have "env_loop k e p cp varp valp s = env_loop k e (p + 1) (p + 1) (p + 1) None (env_finish cp varp valp s)"
        using True by (auto simp: eq Let_def c_def)
      with step(2) [OF 2] True "1.prems" auth fin show ?thesis
        by (auto intro: rcv_rel_trans rcv_keep_trans)
    next
      case 3
      then have "env_loop k e p cp varp valp s =
          env_loop k e (p + 2) (cp + 1) varp valp (env_store (subbuffer s (p + 1)) cp s)"
        using True by (auto simp: eq Let_def c_def)
      with step(3) [OF 3] True "1.prems" auth st 3 show ?thesis
        by (auto intro: rcv_rel_trans rcv_keep_trans)
    next
      case 4
      then have "env_loop k e p cp varp valp s = env_loop k e (p + 1) cp varp valp s"
        using True by (auto simp: eq Let_def c_def)
      with step(4) [OF 4] True "1.prems" show ?thesis by auto
    next
      case 5
      then have "env_loop k e p cp varp valp s = env_loop k e (p + 1) (cp + 1) varp valp (env_store c cp s)"
        using True by (auto simp: eq Let_def c_def)
      with step(5) [OF 5] True "1.prems" auth st show ?thesis
        by (auto intro: rcv_rel_trans rcv_keep_trans)
    qed
  qed
qed

definition rcv_sub :: "tn \<Rightarrow> tn \<Rightarrow> bool" where
  "rcv_sub s t = (rcv_rel s t \<and> rcv_keep s t \<and>
     (length (terminaltype s) \<le> 40 \<longrightarrow> length (terminaltype t) \<le> 40))"

lemma rcv_sub_same: "same_io t s \<Longrightarrow> rcv_sub s t"
  using same_io_rel [of t s] by (simp add: rcv_sub_def)

lemma rcv_sub_trans [trans]: "rcv_sub s t \<Longrightarrow> rcv_sub t u \<Longrightarrow> rcv_sub s u"
  by (auto simp: rcv_sub_def intro: rcv_rel_trans rcv_keep_trans)

lemma sb_auth_complete_cases:
  "same_io (sb_auth_complete s) s"
  "\<not> exited (sb_auth_complete s) \<Longrightarrow> sb_auth_complete s = s \<and> auth_negotiated s"
  by (simp_all add: sb_auth_complete_def same_io_steps split: if_splits)

lemma alive_auth_complete:
  assumes "\<And>t. auth_negotiated t \<Longrightarrow> t = s \<Longrightarrow> rcv_sub s (f t)"
  shows "rcv_sub s (alive f (sb_auth_complete s))"
proof (cases "exited (sb_auth_complete s)")
  case True
  then show ?thesis
    using sb_auth_complete_cases(1) by (auto simp: alive_def intro: rcv_sub_same)
next
  case False
  from sb_auth_complete_cases(2) [OF this] False assms show ?thesis by (simp add: alive_def)
qed

lemma env_skip_bounds: "p \<le> e \<Longrightarrow> p \<le> env_skip stop m e p \<and> env_skip stop m e p \<le> e"
proof (induction stop m e p rule: env_skip.induct)
  case (1 stop m e p)
  then show ?case by (subst (1 2) env_skip.simps) auto
qed

lemma env_decide_same: "same_io (env_decide cs s) s"
  by (simp add: env_decide_def same_io_def split: option.split bool.split)

lemma env_first_spec:
  assumes "env_first k s = (t, p)" "2 \<le> subend s"
  shows "same_io t s \<and> 2 \<le> p \<and> p \<le> subend s"
proof -
  have sub: "subend (env_decide cs s) = subend s" for cs
    using env_decide_same [of cs s] by (simp add: same_io_def)
  show ?thesis
    using assms env_skip_bounds [of 2 "subend s"]
    by (auto simp: env_first_def Let_def sub env_decide_same split: if_splits)
qed

lemma env_subopt_rel:
  assumes "2 \<le> subend s" "subend s < TELNET_BUFSIZE" "auth_negotiated s"
  shows "rcv_sub s (env_subopt k s)"
proof (cases "subbuffer s 1 = TELQUAL_IS \<or> subbuffer s 1 = TELQUAL_INFO")
  case True
  define u where "u = (if subbuffer s 1 = TELQUAL_IS then env_settimer k s else s)"
  have u: "same_io u s" by (simp add: u_def env_settimer_def same_io_steps)
  obtain t p where tp: "env_first k u = (t, p)" by fastforce
  have t: "same_io t u" "2 \<le> p" "p \<le> subend t" "subend t = subend s" "auth_negotiated t"
    using env_first_spec [OF tp] u assms by (auto simp: same_io_def)
  have "env_subopt k s = (case env_first k u of (t, p) \<Rightarrow>
      if p \<ge> subend t then t else env_loop k (subend t) p p p None t)"
    using True by (auto simp: env_subopt_def u_def Let_def)
  then have e: "env_subopt k s = (if p \<ge> subend t then t else env_loop k (subend t) p p p None t)"
    by (simp add: tp)
  have "rcv_sub t (env_loop k (subend t) p p p None t)"
    using env_loop_rel [of p p "subend t" t k p None] t assms by (simp add: rcv_sub_def)
  moreover have "rcv_sub s t"
    using rcv_sub_trans [OF rcv_sub_same [OF u] rcv_sub_same [OF t(1)]] .
  ultimately show ?thesis
    using rcv_sub_trans [of s t] e by simp
qed (auto simp: env_subopt_def rcv_sub_def)

lemma rcv_sub_if: "rcv_sub s a \<Longrightarrow> rcv_sub s b \<Longrightarrow> rcv_sub s (if c then a else b)"
  by simp

lemma rcv_sub_refl: "rcv_sub s s"
  by (simp add: rcv_sub_same)

lemma sub_auth_rels:
  assumes "0 \<le> subend s" "subend s < TELNET_BUFSIZE"
  shows "rcv_sub s (sub_xdisploc s)" "rcv_sub s (sub_tspeed s)" "rcv_sub s (sub_ttype s)"
    "rcv_sub s (sub_environ k s)"
proof -
  show "rcv_sub s (sub_xdisploc s)"
    unfolding sub_xdisploc_def
    by (rule rcv_sub_if [OF rcv_sub_refl], rule alive_auth_complete)
      (use assms in \<open>auto simp: rcv_sub_def rcv_rel_def rcv_keep_def settimer_def tn_setenv_def Let_def\<close>)
  show "rcv_sub s (sub_tspeed s)"
    unfolding sub_tspeed_def
    by (rule rcv_sub_if [OF rcv_sub_refl], rule alive_auth_complete, rule rcv_sub_same)
      (simp add: Let_def same_io_steps clientstat_tspeed_def tty_tspeed_def tty_rspeed_def,
        simp add: same_io_def tn_netflush_def tn_enc_def upd_trm_def settimer_def Let_def)
  show "rcv_sub s (sub_ttype s)"
    unfolding sub_ttype_def
    by (rule rcv_sub_if [OF rcv_sub_refl], rule alive_auth_complete)
      (auto simp: rcv_sub_def rcv_rel_def rcv_keep_def settimer_def Let_def)
  show "rcv_sub s (sub_environ k s)"
  proof (cases "subend s \<le> 1")
    case False
    then show ?thesis
      unfolding sub_environ_def if_not_P [OF False]
      by (intro alive_auth_complete) (use assms in \<open>auto intro: env_subopt_rel\<close>)
  qed (simp add: sub_environ_def rcv_sub_refl)
qed

lemma suboption_rel:
  assumes "0 \<le> subend s" "subend s < TELNET_BUFSIZE"
  shows "rcv_sub s (suboption s)"
proof -
  have naws: "rcv_sub s (sub_naws s)"
    by (auto simp: sub_naws_def clientstat_naws_def Let_def rcv_sub_def rcv_rel_def rcv_keep_def
        upd_trm_def tn_netflush_def tn_enc_def)
  have st: "rcv_sub s (sub_status s)"
    by (simp add: sub_status_def send_status_def Let_def rcv_sub_same same_io_steps)
  have au: "rcv_sub s (sub_authentication s)"
    by (simp add: sub_authentication_def tn_auth_def rcv_sub_same same_io_steps)
  have en: "rcv_sub s (sub_encrypt s)"
    by (simp add: sub_encrypt_def Let_def rcv_sub_same same_io_steps)
  show ?thesis
    using naws st au en sub_auth_rels [OF assms]
    by (simp add: suboption_def Let_def rcv_sub_refl)
qed

section \<open>The receiver\<close>

text \<open>The bounds of the buffers.\<close>

definition rcv_ok :: "tn \<Rightarrow> bool" where
  "rcv_ok s =
     (pfront s \<le> BUFSIZ \<and> 0 \<le> subpointer s \<and> subpointer s \<le> TELNET_BUFSIZE \<and>
      0 \<le> subend s \<and> subend s \<le> TELNET_BUFSIZE - 2 \<and> length (terminaltype s) \<le> 40)"

text \<open>One step: it may put one byte into the buffer towards the pty, and moves the sub-option pointers in bounds.\<close>

definition rcv_step :: "tn \<Rightarrow> tn \<Rightarrow> bool" where
  "rcv_step s t =
     (rcv_rel s t \<and> pfront t \<le> pfront s + 1 \<and>
      (0 \<le> subpointer s \<and> subpointer s \<le> TELNET_BUFSIZE \<longrightarrow>
         0 \<le> subpointer t \<and> subpointer t \<le> TELNET_BUFSIZE) \<and>
      subend t = subend s \<and> terminaltype t = terminaltype s)"

lemma same_io_step: "same_io t s \<Longrightarrow> rcv_step s t"
  by (simp add: rcv_step_def same_io_rel) (simp add: same_io_def pfront_def)

definition rcv_flush :: "tn \<Rightarrow> tn \<Rightarrow> bool" where
  "rcv_flush s t =
     (rcv_rel s t \<and> pfront t \<le> pfront s \<and> subpointer t = subpointer s \<and> subend t = subend s \<and>
      terminaltype t = terminaltype s)"

lemma pty_took_flush: "n \<le> length (ptyo s) \<Longrightarrow> rcv_flush s (pty_took n s)"
  by (auto simp: rcv_flush_def pty_took_def pfront_def rcv_rel_def Let_def)

lemma ptyflush_flush: "rcv_flush s (ptyflush s)"
proof -
  have w: "rcv_flush s (s\<lparr>pty_writes := ws, exited := x\<rparr>)" "rcv_flush s (s\<lparr>pty_writes := ws\<rparr>)" for ws x
    by (simp_all add: rcv_flush_def rcv_rel_def pfront_def)
  have "rcv_flush s (pty_took (min n (length (ptyo s))) (s\<lparr>pty_writes := ws\<rparr>))" for n ws
    using pty_took_flush [of "min n (length (ptyo s))" "s\<lparr>pty_writes := ws\<rparr>"]
    by (simp add: rcv_flush_def rcv_rel_def pfront_def)
  then show ?thesis
    using w pty_took_flush [of 0 s]
    by (auto simp: ptyflush_def rcv_flush_def [of s s] pfront_def split: list.split pty_reply.split)
qed

lemma rcv_flush_step:
  "rcv_flush s t \<Longrightarrow> rcv_step s (put_pty c t)"
  "rcv_flush s t \<Longrightarrow> same_io u t \<Longrightarrow> rcv_step s u"
  by (auto simp: rcv_flush_def rcv_step_def put_pty_def rcv_rel_def pfront_def same_io_def)

lemma same_io_put: "same_io t s \<Longrightarrow> rcv_step s (put_pty c t)"
  by (auto simp: rcv_step_def put_pty_def rcv_rel_def pfront_def same_io_def)

lemma rcv_step_alive:
  "(\<And>t. rcv_flush s t \<Longrightarrow> rcv_step s (f t)) \<Longrightarrow> rcv_step s (alive f (ptyflush s))"
  using ptyflush_flush [of s] rcv_flush_step(2) [of s "ptyflush s" "ptyflush s"] by (simp add: alive_def)

lemma rcv_step_recv_st: "rcv_step s t \<Longrightarrow> rcv_step s (t\<lparr>recv_st := st\<rparr>)"
  by (simp add: rcv_step_def rcv_rel_def pfront_def)

lemma rcv_step_net:
  "rcv_step s t \<Longrightarrow> rcv_step s (tn_enc f t)"
  by (simp add: rcv_step_def rcv_rel_def pfront_def tn_enc_def)

lemma command_steps:
  "rcv_step s (interrupt s)" "rcv_step s (sendbrk s)" "rcv_step s (sendsusp s)"
  "rcv_step s (doeof s)" "rcv_step s (recv_ayt s)" "rcv_step s (recv_erase c s)"
  "rcv_step s (recv_dm s)" "rcv_step s (recv_ao s)"
proof -
  show "rcv_step s (interrupt s)" "rcv_step s (sendbrk s)" "rcv_step s (sendsusp s)"
    unfolding interrupt_def sendbrk_def sendsusp_def by (rule rcv_step_alive, erule rcv_flush_step(1))+
  show "rcv_step s (doeof s)" unfolding doeof_def by (rule same_io_put) simp
  show "rcv_step s (recv_ayt s)" unfolding recv_ayt_def by (rule same_io_step) (simp add: same_io_steps)
  show "rcv_step s (recv_erase c s)"
    unfolding recv_erase_def
    by (rule rcv_step_alive)
      (auto split: option.split simp: same_io_steps intro: rcv_flush_step(1) rcv_flush_step(2) [OF _ same_io_steps(18)]
        rcv_flush_step(2))
  show "rcv_step s (recv_ao s)"
    unfolding recv_ao_def netprintf_urg_def netclear_def
    by (rule rcv_step_alive) (auto split: option.split intro!: rcv_step_net intro: rcv_flush_step)
  show "rcv_step s (recv_dm s)"
    by (auto simp: recv_dm_def settimer_def Let_def same_io_def intro!: same_io_step split: list.split)
qed

lemma sb_steps:
  "rcv_step s (sb_clear s)" "0 \<le> subpointer s \<Longrightarrow> rcv_step s (sb_accum c s)"
  by (auto simp: sb_clear_def sb_accum_def rcv_step_def rcv_rel_def pfront_def TELNET_BUFSIZE_def)

lemma iac_command_step: "rcv_step s (iac_command c s)"
  unfolding iac_command_def
  by (simp add: rcv_step_recv_st command_steps sb_steps same_io_put same_io_step same_io_steps)

lemma decrypt_in_same: "decrypt_in des c s = (d, t) \<Longrightarrow> same_io t s \<and> recv_st t = recv_st s \<and> exited t = exited s"
  by (auto simp: decrypt_in_def set_dec_stream_def tn_enc_def same_io_def Let_def case_prod_beta
      split: option.splits)

lemma peek_in_same: "same_io (peek_in des c s) s"
  by (auto simp: peek_in_def set_dec_stream_def tn_enc_def same_io_def split: option.splits)

lemma ts_data_step: "rcv_step s (ts_data des c nxt s)"
  unfolding ts_data_def
  by (simp add: same_io_put same_io_step same_io_steps peek_in_same)

text \<open>The whole step, from a state with room for a byte.\<close>

definition rcv_next :: "tn \<Rightarrow> tn \<Rightarrow> bool" where
  "rcv_next s t = (rcv_rel s t \<and> (rcv_ok s \<and> pfront s < BUFSIZ \<longrightarrow> rcv_ok t))"

lemma rcv_step_next: "rcv_step s t \<Longrightarrow> rcv_next s t"
  by (auto simp: rcv_step_def rcv_next_def rcv_ok_def)

lemma rcv_next_recv_st: "rcv_next s t \<Longrightarrow> rcv_next s (t\<lparr>recv_st := st\<rparr>)"
  by (simp add: rcv_next_def rcv_rel_def rcv_ok_def pfront_def)

lemma sb_end_spec:
  assumes "rcv_ok s"
  shows "rcv_rel s (sb_end c s)" "rcv_ok (sb_end c s)" "pfront (sb_end c s) = pfront s"
  using assms
  by (auto simp: sb_end_def sb_accum_def rcv_rel_def rcv_ok_def pfront_def TELNET_BUFSIZE_def Let_def)

lemma rcv_sub_ok: "rcv_sub s t \<Longrightarrow> rcv_ok s \<Longrightarrow> rcv_ok t \<and> pfront t = pfront s"
  by (simp add: rcv_sub_def rcv_keep_def rcv_ok_def pfront_def)

lemma ts_se_next:
  assumes "rcv_ok s" "pfront s < BUFSIZ"
  shows "rcv_rel s (ts_se c s) \<and> rcv_ok (ts_se c s)"
proof -
  define u where "u = suboption (sb_end c s)"
  note e = sb_end_spec [OF assms(1), of c]
  have "rcv_sub (sb_end c s) u"
    unfolding u_def by (rule suboption_rel) (use e(2) in \<open>auto simp: rcv_ok_def TELNET_BUFSIZE_def\<close>)
  then have u: "rcv_rel s u" "rcv_ok u" "pfront u = pfront s"
    using rcv_rel_trans [OF e(1)] rcv_sub_ok e by (auto simp: rcv_sub_def)
  define v where "v = u\<lparr>recv_st := TS_IAC\<rparr>"
  have v: "rcv_rel s v" "rcv_ok v" "pfront v = pfront s"
    using u by (simp_all add: v_def rcv_rel_def rcv_ok_def pfront_def)
  have "rcv_next v (iac_command c v)" by (rule rcv_step_next [OF iac_command_step])
  then have bad: "rcv_rel s (iac_command c v)" "rcv_ok (iac_command c v)"
    using v assms(2) rcv_rel_trans [OF v(1)] by (simp_all add: rcv_next_def)
  have acc: "rcv_next s (sb_accum c s)"
    using assms(1) by (intro rcv_step_next sb_steps) (simp add: rcv_ok_def)
  have keep: "rcv_rel s (t\<lparr>recv_st := st\<rparr>) \<and> rcv_ok (t\<lparr>recv_st := st\<rparr>)" if "rcv_rel s t" "rcv_ok t" for t st
    using that by (simp add: rcv_rel_def rcv_ok_def pfront_def)
  consider "c = SE" | "c = IAC" | "c \<noteq> SE" "c \<noteq> IAC" by blast
  then show ?thesis
  proof cases
    case 1
    then have "ts_se c s = u\<lparr>recv_st := TS_DATA\<rparr>" by (simp add: ts_se_def u_def)
    then show ?thesis using keep u by simp
  next
    case 2
    then show ?thesis using keep acc assms by (simp add: ts_se_def rcv_next_def)
  next
    case 3
    then have "ts_se c s = (if exited u then u else iac_command c v)"
      by (simp add: ts_se_def u_def v_def alive_def)
    then show ?thesis using u bad by simp
  qed
qed

lemma rcv_state_next:
  assumes "rcv_ok s" "pfront s < BUFSIZ"
  shows "rcv_rel s (rcv_state des c nxt s) \<and> rcv_ok (rcv_state des c nxt s)"
proof -
  have acc: "rcv_step s (sb_accum c s)" using assms(1) by (intro sb_steps) (simp add: rcv_ok_def)
  have cr: "rcv_step s (ts_data des c nxt (s\<lparr>recv_st := TS_DATA\<rparr>))"
    using ts_data_step [of "s\<lparr>recv_st := TS_DATA\<rparr>" des c nxt]
    by (simp add: rcv_step_def rcv_rel_def pfront_def)
  have se: "rcv_next s (ts_se c s)"
    using ts_se_next [OF assms] by (simp add: rcv_next_def)
  have "rcv_next s (rcv_state des c nxt s)"
    by (cases "recv_st s")
      (simp_all add: rcv_state_def rcv_step_next same_io_step same_io_steps same_io_options acc cr
        ts_data_step iac_command_step se)
  then show ?thesis
    using assms by (simp add: rcv_next_def)
qed

lemma rcv_byte_next:
  assumes "rcv_ok s" "pfront s < BUFSIZ"
  shows "rcv_rel s (rcv_byte des x nxt s) \<and> rcv_ok (rcv_byte des x nxt s)"
proof -
  obtain c t where d: "decrypt_in des x s = (c, t)" by fastforce
  then have io: "same_io t s" using decrypt_in_same by blast
  then have "rcv_rel s t" "rcv_ok t" "pfront t = pfront s"
    using same_io_rel [OF io] assms by (auto simp: rcv_keep_def rcv_ok_def pfront_def)
  with rcv_state_next [of t des c nxt] assms d show ?thesis
    by (auto simp: rcv_byte_def intro: rcv_rel_trans)
qed

lemma telrcv_next:
  "rcv_ok s \<Longrightarrow> rcv_rel s (snd (telrcv des xs s)) \<and> rcv_ok (snd (telrcv des xs s))"
proof (induction des xs s rule: telrcv.induct)
  case (2 des x xs s)
  show ?case
  proof (cases "exited s \<or> pfront s \<ge> BUFSIZ")
    case False
    define t where "t = rcv_byte des x (case xs of [] \<Rightarrow> past_input s | y # _ \<Rightarrow> y) s"
    have "rcv_rel s t" "rcv_ok t"
      using rcv_byte_next [OF 2(2)] False by (auto simp: t_def)
    moreover have "telrcv des (x # xs) s = telrcv des xs t" using False by (simp add: t_def)
    ultimately show ?thesis
      using 2(1) [OF False] rcv_rel_trans by (auto simp: t_def [symmetric])
  qed (use 2(2) in auto)
qed simp

section \<open>Properties\<close>

text \<open>
  C19. Memory safety of the receiver: whatever bytes arrive, in whatever pieces and states, the
  buffer towards the pty never holds more than \<open>BUFSIZ\<close> bytes, the sub-option pointers and the
  terminal type stay inside their arrays, and nothing outside the sub-option buffer is
  written, the in-place unescaping of environment names included.
\<close>

theorem telrcv_bounds:
  assumes "rcv_ok s"
  shows "rcv_ok (snd (telrcv des xs s)) \<and>
    (\<forall>i. subbuffer (snd (telrcv des xs s)) i \<noteq> subbuffer s i \<longrightarrow> 0 \<le> i \<and> i < TELNET_BUFSIZE)"
proof -
  note r = telrcv_next [OF assms, of des xs]
  have "0 \<le> i \<and> i < TELNET_BUFSIZE" if "subbuffer (snd (telrcv des xs s)) i \<noteq> subbuffer s i" for i
    using r that unfolding rcv_rel_def by (meson not_le)
  with r show ?thesis by blast
qed

lemma demo_tn_ok: "rcv_ok demo_tn"
  by (simp add: rcv_ok_def demo_tn_def tn_boot_def pfront_def TELNET_BUFSIZE_def)

lemma telrcv_bounds_witness:
  "rcv_ok (snd (telrcv (\<lambda>_ b. b) [72, IAC, SB, TELOPT_TTYPE, 0, 65, IAC, SE, IAC, AO] demo_tn))"
  using telrcv_bounds [OF demo_tn_ok] by blast


definition authed_tn :: tn where
  "authed_tn = demo_tn\<lparr>auth_negotiated := True\<rparr>"

definition env_message :: "byte list" where
  "env_message = [IAC, SB, TELOPT_NEW_ENVIRON, TELQUAL_IS, NEW_ENV_VAR, 65, NEW_ENV_VALUE, 98, IAC, SE]"


lemma status_option_length: "i < NTELOPTS \<Longrightarrow> length (status_option s (of_nat i)) \<le> 4"
proof -
  assume "i < NTELOPTS"
  then have "unat (of_nat i :: byte) < 40" by (simp add: NTELOPTS_def unat_of_nat)
  then have "(of_nat i :: byte) \<noteq> SE" "(of_nat i :: byte) \<noteq> IAC" by auto
  then show ?thesis by (simp add: status_option_def add_data_def)
qed

lemma concat_length_le:
  "(\<And>x. x \<in> set xs \<Longrightarrow> length (f x) \<le> k) \<Longrightarrow> length (concat (List.map f xs)) \<le> k * length xs"
  by (induction xs) (auto intro: add_mono)

text \<open>
  The status report fits its buffer: whatever the state of the options, \<open>send_status\<close>
  builds at most 175 of the 256 bytes of \<open>statusbuf\<close>, and sends the report between two flushes.
\<close>

theorem status_bounded:
  "length (status_message s) \<le> 175 \<and>
   tn_out (send_status s) = tn_out s @ [Net_flush, Net_write (status_message s), Net_flush]"
proof -
  have "length (concat (List.map (\<lambda>i. status_option s (of_nat i)) [0..<NTELOPTS])) \<le> 4 * length [0..<NTELOPTS]"
    by (rule concat_length_le) (simp add: status_option_length)
  moreover have "length (status_flow s) \<le> 9" by (simp add: status_flow_def)
  moreover have "status_message (tn_netflush s) = status_message s"
    by (simp add: status_message_def status_option_def status_flow_def tn_netflush_def tn_enc_def opt_defs opt_bit_def)
  ultimately show ?thesis
    by (simp add: status_message_def NTELOPTS_def)
      (simp add: send_status_def tn_out_def tn_netflush_def netprintf_def tn_enc_def log_net_def Let_def
        status_message_def NTELOPTS_def)
qed

text \<open>The report of the restart character is followed by an SB of its own, which opens a sub-option that never comes.\<close>

lemma status_stray_sb:
  assumes "his_want_state_is_will TELOPT_LFLOW s" "0 \<le> restartany s"
  shows "\<exists>xs. status_message s = xs @ [SE, SB, IAC, SE]"
  using assms by (auto simp: status_message_def status_flow_def)

end
