(* ===== verification/TelrcvData.thy ===== *)
theory TelrcvData
  imports TelrcvInv EncNet
begin

text \<open>
  User data through the receiver: what a client sends as data, with every \<open>IAC\<close> doubled and a
  NUL after every carriage return, comes out of \<open>telrcv\<close> as it was, in clear or encrypted.
\<close>

section \<open>What the network carries\<close>

fun nvt_encode :: "bool \<Rightarrow> byte list \<Rightarrow> byte list" where
  "nvt_encode binary [] = []"
| "nvt_encode binary (c # cs) =
     (if c = IAC then [IAC, IAC] else if c = 13 \<and> \<not> binary then [13, 0] else [c]) @ nvt_encode binary cs"

text \<open>The decryption of a run of bytes, as the receiver does it one by one.\<close>

fun rx :: "des \<Rightarrow> byte list \<Rightarrow> tn \<Rightarrow> byte list \<times> tn" where
  "rx des [] s = ([], s)"
| "rx des (x # xs) s =
     (let (c, s) = decrypt_in des x s; (cs, s) = rx des xs s in (c # cs, s))"

definition tn_adj :: "byte list \<Rightarrow> recv_state \<Rightarrow> tn \<Rightarrow> tn" where
  "tn_adj d st s = s\<lparr>ptyo := ptyo s @ d, recv_st := st\<rparr>"

definition dec_index_ok :: "tn \<Rightarrow> bool" where
  "dec_index_ok s = (\<forall>m. str_index (dec_stream m s) \<le> 8)"

lemma tn_adj_simps [simp]:
  "auth (tn_adj d st s) = auth s" "options (tn_adj d st s) = options s" "exited (tn_adj d st s) = exited s"
  "recv_st (tn_adj d st s) = st" "ptyo (tn_adj d st s) = ptyo s @ d" "pback (tn_adj d st s) = pback s"
  "past_input (tn_adj d st s) = past_input s"
  "tn_adj d st (tn_adj d' st' s) = tn_adj (d' @ d) st s"
  "opt_bit b opt (tn_adj d st s) = opt_bit b opt s" "dec_index_ok (tn_adj d st s) = dec_index_ok s"
  by (simp_all add: tn_adj_def opt_bit_def dec_index_ok_def dec_stream_def)

lemma tn_adj_same: "recv_st s = st \<Longrightarrow> tn_adj [] st s = s"
  by (simp add: tn_adj_def)

lemma tn_enc_adj: "tn_enc f (tn_adj d st s) = tn_adj d st (tn_enc f s)"
  by (simp add: tn_enc_def tn_adj_def)

lemma decrypt_in_adj:
  "decrypt_in des c (tn_adj d st s) = (fst (decrypt_in des c s), tn_adj d st (snd (decrypt_in des c s)))"
  by (simp add: decrypt_in_def set_dec_stream_def tn_enc_adj dec_stream_def Let_def case_prod_beta split: option.split)

lemma rx_adj: "rx des xs (tn_adj d st s) = (fst (rx des xs s), tn_adj d st (snd (rx des xs s)))"
proof (induction xs arbitrary: s)
  case (Cons x xs)
  then show ?case by (simp add: decrypt_in_adj case_prod_beta Let_def)
qed simp

lemma dec_stream_set: "dec_stream m (set_dec_stream m' st s) = (if m = m' then st else dec_stream m s)"
  by (simp add: dec_stream_def set_dec_stream_def tn_enc_def upd_fb_def upd_stream_def)

lemma dec_index_in:
  assumes "dec_index_ok s" shows "dec_index_ok (snd (decrypt_in des c s))"
proof -
  have "str_index (snd (decrypt_byte des m st c)) \<le> 8" if "str_index st \<le> 8" for m st
    using that
    by (cases "str_index st = 8")
      (auto simp: decrypt_byte_def cfb64_decrypt_def ofb64_decrypt_def Let_def split: mode.split)
  then show ?thesis
    using assms
    by (auto simp: dec_index_ok_def decrypt_in_def dec_stream_set Let_def case_prod_beta split: option.split)
qed

text \<open>Looking ahead does not change what the next byte decrypts to.\<close>

lemma decrypt_back_byte:
  assumes "str_index st \<le> 8"
  shows "decrypt_byte des m (decrypt_back m (snd (decrypt_byte des m st c))) d = decrypt_byte des m st d"
  using assms
  by (auto simp: decrypt_byte_def decrypt_back_def cfb64_decrypt_def cfb64_decrypt_back_def
      ofb64_decrypt_def ofb64_decrypt_back_def Let_def split: mode.split)

lemma set_dec_stream_twice: "set_dec_stream m a (set_dec_stream m b s) = set_dec_stream m a s"
  by (simp add: set_dec_stream_def tn_enc_def upd_fb_def upd_stream_def)

lemma peek_in_decrypt:
  assumes "dec_index_ok s"
  shows "decrypt_in des d (peek_in des c s) = decrypt_in des d s"
proof (cases "decrypt_input (enc (auth s))")
  case (Some m)
  have same: "decrypt_input (enc (auth (set_dec_stream m st s))) = Some m" for st
    using Some by (simp add: set_dec_stream_def tn_enc_def upd_fb_def)
  have "str_index (dec_stream m s) \<le> 8" using assms by (simp add: dec_index_ok_def)
  from decrypt_back_byte [OF this] show ?thesis
    using Some by (simp add: decrypt_in_def peek_in_def same dec_stream_set set_dec_stream_twice)
qed (simp add: decrypt_in_def peek_in_def)

lemma peek_in_simps [simp]:
  "exited (peek_in des c s) = exited s" "ptyo (peek_in des c s) = ptyo s" "pback (peek_in des c s) = pback s"
  "past_input (peek_in des c s) = past_input s" "recv_st (peek_in des c s) = recv_st s"
  by (simp_all add: peek_in_def set_dec_stream_def tn_enc_def split: option.split)

lemma decrypt_in_frame:
  assumes "decrypt_in des x s = (c, t)"
  shows "exited t = exited s" "ptyo t = ptyo s" "pback t = pback s" "recv_st t = recv_st s"
    "past_input t = past_input s" "options t = options s"
  using assms
  by (auto simp: decrypt_in_def set_dec_stream_def tn_enc_def Let_def case_prod_beta split: option.splits)

section \<open>The receiver on data\<close>

definition rx_ready :: "tn \<Rightarrow> bool" where
  "rx_ready s = (\<not> exited s \<and> recv_st s = TS_DATA \<and> dec_index_ok s)"

lemma telrcv_Cons:
  assumes "\<not> exited s" "pfront s < BUFSIZ"
  shows "telrcv des (x # xs) s =
    telrcv des xs (rcv_byte des x (case xs of [] \<Rightarrow> past_input s | y # _ \<Rightarrow> y) s)"
  using assms by simp

lemma put_pty_adj: "put_pty c (s\<lparr>recv_st := st\<rparr>) = tn_adj [c] st s"
  by (simp add: put_pty_def tn_adj_def)

lemma put_pty_adj': "recv_st s = st \<Longrightarrow> put_pty c s = tn_adj [c] st s"
  by (simp add: put_pty_def tn_adj_def)

text \<open>A character of its own, an escaped \<open>IAC\<close>, and a carriage return with its NUL.\<close>

lemma rcv_plain:
  assumes "rx_ready s" "decrypt_in des x s = (c, t)" "c \<noteq> IAC" "c \<noteq> 13 \<or> his_state_is_will TELOPT_BINARY s"
  shows "rcv_byte des x nxt s = tn_adj [c] TS_DATA t"
proof -
  have "opt_bit b opt t = opt_bit b opt s" for b opt
    using decrypt_in_frame [OF assms(2)] by (simp add: opt_bit_def)
  with assms decrypt_in_frame [OF assms(2)] show ?thesis
    by (auto simp: rcv_byte_def rcv_state_def ts_data_def rx_ready_def opt_defs put_pty_adj')
qed

lemma rcv_iac:
  assumes "rx_ready s" "decrypt_in des x s = (IAC, t)" "decrypt_in des y t = (IAC, u)"
  shows "rcv_byte des x y s = tn_adj [] TS_IAC t"
    "rcv_byte des y nxt (rcv_byte des x y s) = tn_adj [IAC] TS_DATA u"
proof -
  show first: "rcv_byte des x y s = tn_adj [] TS_IAC t"
    using assms decrypt_in_frame [OF assms(2)]
    by (simp add: rcv_byte_def rcv_state_def ts_data_def rx_ready_def tn_adj_def)
  show "rcv_byte des y nxt (rcv_byte des x y s) = tn_adj [IAC] TS_DATA u"
    unfolding first
    by (simp add: rcv_byte_def rcv_state_def decrypt_in_adj assms(3) iac_command_def put_pty_def)
      (simp add: tn_adj_def)
qed

lemma rcv_cr:
  assumes "rx_ready s" "decrypt_in des x s = (13, t)" "decrypt_in des y t = (0, u)"
    "\<not> his_state_is_will TELOPT_BINARY s"
  shows "rcv_byte des x y s = tn_adj [13] TS_CR (peek_in des y t)"
    "rcv_byte des y nxt (rcv_byte des x y s) = tn_adj [13] TS_DATA u"
proof -
  have "opt_bit b opt t = opt_bit b opt s" for b opt
    using decrypt_in_frame [OF assms(2)] by (simp add: opt_bit_def)
  then show first: "rcv_byte des x y s = tn_adj [13] TS_CR (peek_in des y t)"
    using assms decrypt_in_frame [OF assms(2)]
    by (simp add: rcv_byte_def rcv_state_def ts_data_def rx_ready_def put_pty_adj opt_defs)
  have "decrypt_in des y (peek_in des y t) = (0, u)"
    using peek_in_decrypt [of t des y y] assms(1,3) dec_index_in [of s des x] assms(2)
    by (simp add: rx_ready_def)
  then show "rcv_byte des y nxt (rcv_byte des x y s) = tn_adj [13] TS_DATA u"
    unfolding first by (simp add: rcv_byte_def rcv_state_def decrypt_in_adj) (simp add: tn_adj_def)
qed

lemma telrcv_data:
  assumes "rx_ready s" "pfront s + length xs < BUFSIZ"
    and "rx des w s = (nvt_encode (his_state_is_will TELOPT_BINARY s) xs, s')"
  shows "telrcv des w s = ([], tn_adj xs TS_DATA s')"
  using assms
proof (induction xs arbitrary: w s s')
  case Nil
  then have "w = [] \<and> s' = s" by (cases w) (auto simp: Let_def case_prod_beta)
  with Nil.prems show ?case by (simp add: tn_adj_same rx_ready_def)
next
  case (Cons a xs)
  let ?b = "his_state_is_will TELOPT_BINARY s"
  obtain x w1 where w: "w = x # w1" using Cons.prems(3) by (cases w) (auto split: if_splits)
  obtain c t where d: "decrypt_in des x s = (c, t)" by fastforce
  note fr = decrypt_in_frame [OF d]
  have ca: "c = a" and r1: "rx des w1 t = (tl (nvt_encode ?b (a # xs)), s')"
    using Cons.prems(3) w d by (auto simp: Let_def case_prod_beta prod_eq_iff split: if_splits)
  have idx: "dec_index_ok t" using dec_index_in [of s des x] Cons.prems(1) d by (simp add: rx_ready_def)
  have room: "pfront s < BUFSIZ" "\<not> exited s" using Cons.prems(1,2) by (simp_all add: rx_ready_def)
  have run: "telrcv des w' (tn_adj [a] TS_DATA u) = ([], tn_adj (a # xs) TS_DATA s')"
    if "rx des w' u = (nvt_encode ?b xs, s')" "dec_index_ok u" "exited u = exited s" "ptyo u = ptyo s"
      "pback u = pback s" "options u = options s" for w' u
  proof -
    have "rx_ready (tn_adj [a] TS_DATA u)" "pfront (tn_adj [a] TS_DATA u) + length xs < BUFSIZ"
      using that room Cons.prems(2) by (simp_all add: rx_ready_def pfront_def)
    moreover have "his_state_is_will TELOPT_BINARY (tn_adj [a] TS_DATA u) = ?b"
      using that(6) by (simp add: opt_defs) (simp add: opt_bit_def)
    ultimately show ?thesis
      using Cons.IH [of "tn_adj [a] TS_DATA u" w' "tn_adj [a] TS_DATA s'"] that(1) by (simp add: rx_adj)
  qed
  show ?case
  proof (cases "a = IAC \<or> a = 13 \<and> \<not> ?b")
    case False
    then have "rcv_byte des x nxt s = tn_adj [a] TS_DATA t" for nxt
      using rcv_plain [OF Cons.prems(1) d] ca by auto
    moreover have "rx des w1 t = (nvt_encode ?b xs, s')" using r1 False by auto
    ultimately show ?thesis
      using run [OF _ idx] fr w room by (simp add: telrcv_Cons)
  next
    case True
    define k where "k = (if a = IAC then IAC else 0 :: byte)"
    have r1': "rx des w1 t = (k # nvt_encode ?b xs, s')" using r1 True by (auto simp: k_def)
    then obtain y w2 where w1: "w1 = y # w2" by (cases w1) auto
    obtain u where u: "decrypt_in des y t = (k, u)" and r2: "rx des w2 u = (nvt_encode ?b xs, s')"
      using r1' w1 by (auto simp: Let_def case_prod_beta prod_eq_iff)
    note fru = decrypt_in_frame [OF u]
    have idxu: "dec_index_ok u" using dec_index_in [OF idx, of des y] u by simp
    define v where "v = rcv_byte des x y s"
    have v: "pfront v < BUFSIZ" "\<not> exited v" "rcv_byte des y nxt v = tn_adj [a] TS_DATA u" for nxt
    proof -
      show "pfront v < BUFSIZ" "\<not> exited v" "rcv_byte des y nxt v = tn_adj [a] TS_DATA u"
        using True ca d u fr room Cons.prems(2) rcv_iac(1) [OF Cons.prems(1), of des x t y u] rcv_iac(2) [OF Cons.prems(1), of des x t y u nxt]
          rcv_cr(1) [OF Cons.prems(1), of des x t y u] rcv_cr(2) [OF Cons.prems(1), of des x t y u nxt]
        by (auto simp: v_def k_def pfront_def split: if_splits)
    qed
    have "telrcv des w s = telrcv des w1 v"
      using w w1 room by (simp add: telrcv_Cons v_def)
    also have "\<dots> = telrcv des w2 (tn_adj [a] TS_DATA u)"
      using v w1 by (simp add: telrcv_Cons)
    finally show ?thesis using run [OF r2 idxu] fr fru by simp
  qed
qed

lemma rx_plain: "decrypt_input (enc (auth s)) = None \<Longrightarrow> rx des w s = (w, s)"
  by (induction w) (simp_all add: decrypt_in_def)

lemma set_dec_stream_id: "set_dec_stream m (dec_stream m s) s = s"
  by (simp add: set_dec_stream_def dec_stream_def tn_enc_def upd_fb_def upd_stream_def)

lemma set_dec_stream_input: "decrypt_input (enc (auth (set_dec_stream m st s))) = decrypt_input (enc (auth s))"
  by (simp add: set_dec_stream_def tn_enc_def upd_fb_def)

lemma rx_cfb:
  assumes "decrypt_input (enc (auth s)) = Some CFB"
  shows "rx des w s =
    (fst (decrypt_run (cfb64_decrypt des) (dec_stream CFB s) w),
     set_dec_stream CFB (snd (decrypt_run (cfb64_decrypt des) (dec_stream CFB s) w)) s)"
  using assms
proof (induction w arbitrary: s)
  case Nil
  then show ?case by (simp add: set_dec_stream_id)
next
  case (Cons x w)
  then show ?case
    by (simp add: decrypt_in_def decrypt_byte_def Let_def case_prod_beta set_dec_stream_input
        dec_stream_set set_dec_stream_twice)
qed

section \<open>Properties\<close>

text \<open>
  User data arrives: the bytes a client has escaped for the network (every \<open>IAC\<close> doubled,
  a NUL after a carriage return unless it sends binary) come out of the receiver in order and unescaped, nothing is
  answered, and the receiver is ready for more.
\<close>

theorem data_received:
  assumes "\<not> exited s" "recv_st s = TS_DATA" "dec_index_ok s" "decrypt_input (enc (auth s)) = None"
    and "pfront s + length xs < BUFSIZ"
  shows "telrcv des (nvt_encode (his_state_is_will TELOPT_BINARY s) xs) s =
    ([], s\<lparr>ptyo := ptyo s @ xs\<rparr>)"
  using telrcv_data [of s xs des] assms rx_plain [OF assms(4)] by (simp add: rx_ready_def tn_adj_def)

lemma demo_tn_index: "dec_index_ok demo_tn"
proof -
  have "str_index (dec_stream CFB demo_tn) = 0" "str_index (dec_stream OFB demo_tn) = 0" by code_simp+
  then show ?thesis by (metis dec_index_ok_def mode.exhaust zero_le)
qed

lemma data_received_witness:
  "telrcv toy_des [104, 255, 255, 13, 0] demo_tn = ([], demo_tn\<lparr>ptyo := [104, 255, 13]\<rparr>)"
proof -
  have s: "\<not> exited demo_tn" "recv_st demo_tn = TS_DATA" "decrypt_input (enc (auth demo_tn)) = None"
    "\<not> his_state_is_will TELOPT_BINARY demo_tn" "ptyo demo_tn = []" "pback demo_tn = 0"
    by code_simp+
  have "pfront demo_tn + length [104, 255, 13 :: byte] < BUFSIZ"
    using s by (simp add: pfront_def BUFSIZ_def)
  from data_received [OF s(1,2) demo_tn_index s(3) this, of toy_des] s(4,5) show ?thesis
    by (simp del: telrcv.simps)
qed

text \<open>
  C17. Encrypted user data arrives: when the client's encrypting stream agrees with the server's
  decrypting stream, the escaped and encrypted bytes come out of the receiver as they were before, and the
  streams agree again, although the receiver looks one byte ahead after every carriage return
  and has to back its decryptor up.
\<close>

theorem encrypted_data_received:
  assumes "\<not> exited s" "recv_st s = TS_DATA" "dec_index_ok s"
    and "decrypt_input (enc (auth s)) = Some CFB" "cfb_agree e (dec_stream CFB s)"
    and "pfront s + length xs < BUFSIZ"
  shows "let (wire, e') = cfb64_encrypt des e (nvt_encode (his_state_is_will TELOPT_BINARY s) xs);
             (rest, s') = telrcv des wire s
         in rest = [] \<and> ptyo s' = ptyo s @ xs \<and> tn_out s' = tn_out s \<and> recv_st s' = TS_DATA \<and>
            cfb_agree e' (dec_stream CFB s')"
proof -
  let ?p = "nvt_encode (his_state_is_will TELOPT_BINARY s) xs"
  let ?w = "fst (cfb64_encrypt des e ?p)"
  let ?d = "snd (decrypt_run (cfb64_decrypt des) (dec_stream CFB s) ?w)"
  have agree: "cfb_agree (snd (cfb64_encrypt des e ?p)) ?d"
    and dec: "fst (decrypt_run (cfb64_decrypt des) (dec_stream CFB s) ?w) = ?p"
    using cfb.decrypt_run_enc [OF assms(5), of des ?p] by auto
  have "rx des ?w s = (?p, set_dec_stream CFB ?d s)"
    using rx_cfb [OF assms(4), of des ?w] dec by simp
  then have "telrcv des ?w s = ([], tn_adj xs TS_DATA (set_dec_stream CFB ?d s))"
    using telrcv_data [of s xs des ?w] assms by (simp add: rx_ready_def)
  moreover have "dec_stream CFB (tn_adj xs TS_DATA (set_dec_stream CFB ?d s)) = ?d"
    using dec_stream_set [of CFB CFB ?d s] by (simp add: dec_stream_def)
  ultimately show ?thesis
    using agree
    by (simp add: Let_def case_prod_beta)
      (simp add: tn_out_def set_dec_stream_def tn_enc_def upd_fb_def)
qed

definition secret_tn :: tn where
  "secret_tn = set_dec_stream CFB net_stream (tn_enc (\<lambda>e. e\<lparr>decrypt_input := Some CFB\<rparr>) demo_tn)"

lemma encrypted_data_received_witness:
  "let (wire, e') = cfb64_encrypt toy_des net_stream [104, 13, 0, 105];
       (rest, s') = telrcv toy_des wire secret_tn
   in rest = [] \<and> ptyo s' = [104, 13, 105]"
proof -
  have s: "\<not> exited secret_tn" "recv_st secret_tn = TS_DATA" "decrypt_input (enc (auth secret_tn)) = Some CFB"
    "\<not> his_state_is_will TELOPT_BINARY secret_tn" "ptyo secret_tn = []" "pback secret_tn = 0"
    by code_simp+
  have "dec_stream CFB secret_tn = net_stream" "dec_stream OFB secret_tn = dec_stream OFB demo_tn"
    by (simp add: secret_tn_def dec_stream_set) (simp add: secret_tn_def dec_stream_set, simp add: dec_stream_def tn_enc_def)
  then have "dec_index_ok secret_tn" "cfb_agree net_stream (dec_stream CFB secret_tn)"
  proof -
    assume d: "dec_stream CFB secret_tn = net_stream" "dec_stream OFB secret_tn = dec_stream OFB demo_tn"
    have "str_index (dec_stream m secret_tn) \<le> 8" for m
      using demo_tn_index d by (cases m) (auto simp: dec_index_ok_def net_stream_def)
    then show "dec_index_ok secret_tn" by (simp add: dec_index_ok_def)
    show "cfb_agree net_stream (dec_stream CFB secret_tn)"
      by (simp add: d net_stream_def cfb_agree_ready)
  qed
  moreover have "pfront secret_tn + length [104, 13, 105 :: byte] < BUFSIZ"
    using s by (simp add: pfront_def BUFSIZ_def)
  moreover have "nvt_encode (his_state_is_will TELOPT_BINARY secret_tn) [104, 13, 105] = [104, 13, 0, 105]"
    using s by simp
  ultimately have "let (wire, e') = cfb64_encrypt toy_des net_stream [104, 13, 0, 105];
             (rest, s') = telrcv toy_des wire secret_tn
         in rest = [] \<and> ptyo s' = [] @ [104, 13, 105] \<and> tn_out s' = tn_out secret_tn \<and>
            recv_st s' = TS_DATA \<and> cfb_agree e' (dec_stream CFB s')"
    using encrypted_data_received [OF s(1,2) _ s(3), of net_stream "[104, 13, 105]" toy_des] s(5) by metis
  then show ?thesis
    unfolding Let_def case_prod_beta by (simp only: append_Nil)
qed

end
