(* ===== verification/EnvironSpec.thy ===== *)
theory EnvironSpec
  imports TelrcvData Memory
begin

text \<open>
  The environment option end to end: what a client encodes (variables and values with their
  reserved bytes escaped, the whole sent as a sub-option with every \<open>IAC\<close> doubled) is what the
  server's in-place parser puts into the environment.
\<close>

section \<open>The encoding\<close>

definition env_special :: "byte \<Rightarrow> bool" where
  "env_special c = (c = NEW_ENV_VAR \<or> c = NEW_ENV_VALUE \<or> c = ENV_ESC \<or> c = ENV_USERVAR)"

fun env_escape :: "byte list \<Rightarrow> byte list" where
  "env_escape [] = []"
| "env_escape (c # cs) = (if env_special c then [ENV_ESC, c] else [c]) @ env_escape cs"

fun env_value :: "byte list option \<Rightarrow> byte list" where
  "env_value None = []"
| "env_value (Some v) = NEW_ENV_VALUE # env_escape v"

text \<open>\<open>k\<close> says which of the two kinds of variable a name is.\<close>

fun env_encode :: "(byte list \<Rightarrow> byte) \<Rightarrow> (byte list \<times> byte list option) list \<Rightarrow> byte list" where
  "env_encode k [] = []"
| "env_encode k ((n, v) # es) = k n # env_escape n @ env_value v @ env_encode k es"

definition env_kinds :: "(byte list \<Rightarrow> byte) \<Rightarrow> bool" where
  "env_kinds k = (\<forall>n. k n = NEW_ENV_VAR \<or> k n = ENV_USERVAR)"

lemma env_kindsD: "env_kinds k \<Longrightarrow> k n = NEW_ENV_VAR \<or> k n = ENV_USERVAR"
  by (simp add: env_kinds_def)

text \<open>What an entry does to an environment.\<close>

definition env_update ::
  "(byte list \<Rightarrow> byte list option) \<Rightarrow> byte list \<times> byte list option \<Rightarrow> byte list \<Rightarrow> byte list option" where
  "env_update en nv = (case nv of (n, v) \<Rightarrow> if envvarok n \<and> n \<noteq> [] then en(n := v) else en)"

lemma env_entry_env: "env (env_entry n v s) = env_update (env s) (n, v)"
  by (auto simp: env_entry_def env_update_def tn_setenv_def tn_unsetenv_def split: option.split)

section \<open>Strings in the buffer\<close>

text \<open>A string without NUL, terminated.\<close>

lemma c_str_reads:
  assumes "reads m p w" "0 \<notin> set w" "m (p + int (length w)) = 0" "p + int (length w) \<le> e"
  shows "c_str m p e = w"
  using assms
proof (induction w arbitrary: p)
  case Nil
  show ?case
  proof (cases "p \<le> e - 1")
    case True
    then have "[p..e - 1] = p # [p + 1..e - 1]" by (simp add: upto_rec1)
    with Nil show ?thesis by (simp add: c_str_def)
  qed (simp add: c_str_def)
next
  case (Cons x w)
  then have "[p..e - 1] = p # [p + 1..e - 1]" by (simp add: upto_rec1)
  moreover have "c_str m (p + 1) e = w"
    using Cons by (intro Cons.IH) (auto simp: reads_Cons algebra_simps)
  ultimately show ?case
    using Cons.prems by (auto simp: c_str_def reads_Cons)
qed

section \<open>The parser on an encoded string\<close>

lemma env_code_new: "env_code TELOPT_NEW_ENVIRON s c = c"
  by (simp add: env_code_def)

lemma env_loop_string:
  assumes "reads (subbuffer s) p (env_escape w)" "p + int (length (env_escape w)) \<le> e" "cp \<le> p"
  shows "env_loop TELOPT_NEW_ENVIRON e p cp varp valp s =
    env_loop TELOPT_NEW_ENVIRON e (p + int (length (env_escape w))) (cp + int (length w)) varp valp
      (s\<lparr>subbuffer := overwrite cp w (subbuffer s)\<rparr>)"
  using assms
proof (induction w arbitrary: p cp s)
  case (Cons x w)
  define k where "k = (if env_special x then 2 else 1 :: int)"
  have len: "int (length (env_escape (x # w))) = k + int (length (env_escape w))" by (simp add: k_def)
  have "env_loop TELOPT_NEW_ENVIRON e p cp varp valp s =
      env_loop TELOPT_NEW_ENVIRON e (p + k) (cp + 1) varp valp (env_store x cp s)"
  proof (cases "env_special x")
    case True
    then have "p + 1 < e" "subbuffer s p = ENV_ESC" "subbuffer s (p + 1) = x"
      using Cons.prems by (simp_all add: reads_Cons)
    with True show ?thesis
      by (simp add: env_loop.simps [of 39 e p cp varp valp s] env_code_def Let_def k_def)
  next
    case False
    then have "p < e" "subbuffer s p = x"
      using Cons.prems by (simp_all add: reads_Cons)
    with False show ?thesis
      by (simp add: env_loop.simps [of 39 e p cp varp valp s] env_code_def Let_def k_def
          env_special_def)
  qed
  moreover have "env_loop TELOPT_NEW_ENVIRON e (p + k) (cp + 1) varp valp (env_store x cp s) =
      env_loop TELOPT_NEW_ENVIRON e (p + k + int (length (env_escape w))) (cp + 1 + int (length w)) varp valp
        (env_store x cp s\<lparr>subbuffer := overwrite (cp + 1) w (subbuffer (env_store x cp s))\<rparr>)"
  proof (rule Cons.IH)
    have "reads (subbuffer s) (p + k) (env_escape w)"
      using Cons.prems(1) by (auto simp: k_def reads_Cons add.commute split: if_splits)
    moreover have "cp < p + k" using Cons.prems(3) by (simp add: k_def)
    ultimately show "reads (subbuffer (env_store x cp s)) (p + k) (env_escape w)"
      using reads_cong [of "p + k" "env_escape w" "subbuffer s" "subbuffer (env_store x cp s)"]
      by (simp add: env_store_def)
    show "p + k + int (length (env_escape w)) \<le> e" using Cons.prems(2) len by simp
    show "cp + 1 \<le> p + k" using Cons.prems(3) by (simp add: k_def)
  qed
  moreover have "env_store x cp s\<lparr>subbuffer := overwrite (cp + 1) w (subbuffer (env_store x cp s))\<rparr> =
      s\<lparr>subbuffer := overwrite cp (x # w) (subbuffer s)\<rparr>"
    by (simp add: env_store_def overwrite_Cons)
  ultimately show ?case using len by (simp add: algebra_simps)
qed simp

lemma escape_length: "length w \<le> length (env_escape w)"
  by (induction w) auto

text \<open>The name and the value of one entry, up to the separator or the end.\<close>

lemma env_loop_entry:
  assumes "reads (subbuffer s) p (env_escape n @ env_value v)" "p + int (length (env_escape n @ env_value v)) \<le> e"
    and "0 \<notin> set n" "\<And>w. v = Some w \<Longrightarrow> 0 \<notin> set w" "subend s = e"
  obtains m cp valp where
    "env_loop TELOPT_NEW_ENVIRON e p p p None s =
       env_loop TELOPT_NEW_ENVIRON e (p + int (length (env_escape n @ env_value v))) cp p valp (s\<lparr>subbuffer := m\<rparr>)"
    "cp \<le> p + int (length (env_escape n @ env_value v))"
    "\<And>i. p + int (length (env_escape n @ env_value v)) \<le> i \<Longrightarrow> m i = subbuffer s i"
    "c_str (m(cp := 0)) p e = n" "map_option (\<lambda>x. c_str (m(cp := 0)) x e) valp = v"
proof (cases v)
  case None
  let ?m = "overwrite p n (subbuffer s)"
  let ?cp = "p + int (length n)"
  show ?thesis
  proof (rule that [of ?cp None ?m])
    show "env_loop TELOPT_NEW_ENVIRON e p p p None s =
       env_loop TELOPT_NEW_ENVIRON e (p + int (length (env_escape n @ env_value v))) ?cp p None (s\<lparr>subbuffer := ?m\<rparr>)"
      using env_loop_string [of s p n e p] assms None by simp
    show "?cp \<le> p + int (length (env_escape n @ env_value v))" using escape_length [of n] by simp
    show "?m i = subbuffer s i" if "p + int (length (env_escape n @ env_value v)) \<le> i" for i
      using that escape_length [of n] by (intro overwrite_other) simp
    have "reads (?m(?cp := 0)) p n"
      using reads_cong [of p n "?m(?cp := 0)" ?m] reads_overwrite [of p n] by simp
    then show "c_str (?m(?cp := 0)) p e = n"
      using assms(2,3) escape_length [of n] by (intro c_str_reads) auto
    show "map_option (\<lambda>x. c_str (?m(?cp := 0)) x e) None = v" by (simp add: None)
  qed
next
  case (Some w)
  let ?q = "p + int (length (env_escape n))"
  let ?m1 = "overwrite p n (subbuffer s)"
  let ?cp1 = "p + int (length n)"
  let ?m2 = "?m1(?cp1 := 0)"
  let ?m = "overwrite (?q + 1) w ?m2"
  let ?cp = "?q + 1 + int (length w)"
  have cp1: "?cp1 \<le> ?q" using escape_length [of n] by simp
  have r: "reads (subbuffer s) p (env_escape n)" "subbuffer s ?q = NEW_ENV_VALUE"
      "reads (subbuffer s) (?q + 1) (env_escape w)"
    using assms(1) Some by (simp_all add: reads_append reads_Cons)
  have "env_loop TELOPT_NEW_ENVIRON e p p p None s =
      env_loop TELOPT_NEW_ENVIRON e ?q ?cp1 p None (s\<lparr>subbuffer := ?m1\<rparr>)"
    using env_loop_string [of s p n e p] r(1) assms(2) by simp
  also have "\<dots> = env_loop TELOPT_NEW_ENVIRON e (?q + 1) (?q + 1) p (Some (?q + 1)) (s\<lparr>subbuffer := ?m2\<rparr>)"
  proof -
    have "?m1 ?q = NEW_ENV_VALUE" using r(2) cp1 by (subst overwrite_other) auto
    moreover have "?q < e" using assms(2) Some by simp
    ultimately show ?thesis
      by (subst env_loop.simps [of _ e ?q]) (simp add: env_code_def env_store_def Let_def)
  qed
  also have "\<dots> = env_loop TELOPT_NEW_ENVIRON e (?q + 1 + int (length (env_escape w))) ?cp p (Some (?q + 1))
      (s\<lparr>subbuffer := ?m\<rparr>)"
  proof -
    have "reads ?m2 (?q + 1) (env_escape w)"
      using r(3) cp1 reads_cong [of "?q + 1" "env_escape w" ?m2 "subbuffer s"]
      by (simp add: overwrite_other)
    then show ?thesis
      using env_loop_string [of "s\<lparr>subbuffer := ?m2\<rparr>" "?q + 1" w e "?q + 1"] assms(2) Some by simp
  qed
  finally have run: "env_loop TELOPT_NEW_ENVIRON e p p p None s =
      env_loop TELOPT_NEW_ENVIRON e (p + int (length (env_escape n @ env_value v))) ?cp p (Some (?q + 1))
        (s\<lparr>subbuffer := ?m\<rparr>)"
    using Some by (simp add: algebra_simps)
  show ?thesis
  proof (rule that [OF run])
    show "?cp \<le> p + int (length (env_escape n @ env_value v))" using Some escape_length [of w] by simp
    show "?m i = subbuffer s i" if "p + int (length (env_escape n @ env_value v)) \<le> i" for i
      using that Some escape_length [of w] cp1 by (simp add: overwrite_other)
    have "reads (?m(?cp := 0)) p n"
      using reads_cong [of p n "?m(?cp := 0)" ?m1] reads_overwrite [of p n] cp1
      by (simp add: overwrite_other)
    moreover have "(?m(?cp := 0)) ?cp1 = 0" using cp1 by (simp add: overwrite_other)
    ultimately show "c_str (?m(?cp := 0)) p e = n"
      using assms(2,3) cp1 Some by (intro c_str_reads) auto
    have "reads (?m(?cp := 0)) (?q + 1) w"
      using reads_cong [of "?q + 1" w "?m(?cp := 0)" ?m] reads_overwrite [of "?q + 1" w] by simp
    then have "c_str (?m(?cp := 0)) (?q + 1) e = w"
      using assms(2,4) Some escape_length [of w] by (intro c_str_reads) auto
    then show "map_option (\<lambda>x. c_str (?m(?cp := 0)) x e) (Some (?q + 1)) = v" by (simp add: Some)
  qed
qed

section \<open>A whole message\<close>

lemma env_finish_env:
  "env (env_finish cp varp valp s) =
     env_update (env s) (c_str ((subbuffer s)(cp := 0)) varp (subend s),
       map_option (\<lambda>v. c_str ((subbuffer s)(cp := 0)) v (subend s)) valp)"
  by (simp add: env_finish_def env_entry_env Let_def)

lemma env_finish_frame:
  "subend (env_finish cp varp valp s) = subend s"
  "i \<noteq> cp \<Longrightarrow> subbuffer (env_finish cp varp valp s) i = subbuffer s i"
  by (simp_all add: env_finish_def env_entry_def tn_setenv_def tn_unsetenv_def Let_def split: option.split)

definition no_nul :: "(byte list \<times> byte list option) list \<Rightarrow> bool" where
  "no_nul es = (\<forall>(n, v) \<in> set es. 0 \<notin> set n \<and> (\<forall>w. v = Some w \<longrightarrow> 0 \<notin> set w))"

lemma env_loop_entries:
  assumes "reads (subbuffer s) p (env_escape n @ env_value v @ env_encode k es)"
    and "e = p + int (length (env_escape n @ env_value v @ env_encode k es))" "subend s = e" "no_nul ((n, v) # es)" "env_kinds k"
  shows "env (env_loop TELOPT_NEW_ENVIRON e p p p None s) = foldl env_update (env s) ((n, v) # es)"
  using assms
proof (induction es arbitrary: n v s p)
  case (Cons nv es)
  obtain n' v' where nv: "nv = (n', v')" by fastforce
  let ?len = "int (length (env_escape n @ env_value v))"
  have r: "reads (subbuffer s) p (env_escape n @ env_value v)" "subbuffer s (p + ?len) = k n'"
      "reads (subbuffer s) (p + ?len + 1) (env_escape n' @ env_value v' @ env_encode k es)"
    using Cons.prems(1) by (simp_all add: nv reads_append reads_Cons add.assoc)
  have nul: "0 \<notin> set n" "\<And>w. v = Some w \<Longrightarrow> 0 \<notin> set w" "no_nul ((n', v') # es)"
    using Cons.prems(4) by (auto simp: no_nul_def nv)
  have e: "p + ?len \<le> e" "p + ?len < e" using Cons.prems(2) by (simp_all add: nv)
  obtain m cp valp where m:
    "env_loop TELOPT_NEW_ENVIRON e p p p None s =
       env_loop TELOPT_NEW_ENVIRON e (p + ?len) cp p valp (s\<lparr>subbuffer := m\<rparr>)"
    "cp \<le> p + ?len" "\<And>i. p + ?len \<le> i \<Longrightarrow> m i = subbuffer s i"
    "c_str (m(cp := 0)) p e = n" "map_option (\<lambda>x. c_str (m(cp := 0)) x e) valp = v"
    using env_loop_entry [OF r(1) e(1) nul(1,2) Cons.prems(3)] by metis
  define u where "u = env_finish cp p valp (s\<lparr>subbuffer := m\<rparr>)"
  have "env_loop TELOPT_NEW_ENVIRON e (p + ?len) cp p valp (s\<lparr>subbuffer := m\<rparr>) =
      env_loop TELOPT_NEW_ENVIRON e (p + ?len + 1) (p + ?len + 1) (p + ?len + 1) None u"
    using m(3) [of "p + ?len"] r(2) e(2) env_kindsD [OF Cons.prems(5), of n']
    by (subst env_loop.simps [of _ e "p + ?len"]) (auto simp: env_code_def u_def Let_def)
  moreover have "env u = env_update (env s) (n, v)"
    using m(4,5) Cons.prems(3) by (simp add: u_def env_finish_env)
  moreover have "env (env_loop TELOPT_NEW_ENVIRON e (p + ?len + 1) (p + ?len + 1) (p + ?len + 1) None u) =
      foldl env_update (env u) ((n', v') # es)"
  proof (rule Cons.IH [OF _ _ _ nul(3) Cons.prems(5)])
    have "subbuffer u i = subbuffer s i" if "p + ?len < i" for i
      using that m(2,3) by (simp add: u_def env_finish_frame)
    then show "reads (subbuffer u) (p + ?len + 1) (env_escape n' @ env_value v' @ env_encode k es)"
      using r(3) reads_cong [of "p + ?len + 1" _ "subbuffer u" "subbuffer s"] by simp
    show "e = p + ?len + 1 + int (length (env_escape n' @ env_value v' @ env_encode k es))"
      using Cons.prems(2) by (simp add: nv)
    show "subend u = e" using Cons.prems(3) by (simp add: u_def env_finish_frame)
  qed
  ultimately show ?case using m(1) by (simp add: nv)
next
  case Nil
  let ?len = "int (length (env_escape n @ env_value v))"
  have r: "reads (subbuffer s) p (env_escape n @ env_value v)" and e: "p + ?len \<le> e" "e = p + ?len"
    using Nil by simp_all
  have nul: "0 \<notin> set n" "\<And>w. v = Some w \<Longrightarrow> 0 \<notin> set w" using Nil by (auto simp: no_nul_def)
  obtain m cp valp where m:
    "env_loop TELOPT_NEW_ENVIRON e p p p None s =
       env_loop TELOPT_NEW_ENVIRON e (p + ?len) cp p valp (s\<lparr>subbuffer := m\<rparr>)"
    "c_str (m(cp := 0)) p e = n" "map_option (\<lambda>x. c_str (m(cp := 0)) x e) valp = v"
    using env_loop_entry [OF r e(1) nul Nil.prems(3)] by metis
  have "env_loop TELOPT_NEW_ENVIRON e (p + ?len) cp p valp (s\<lparr>subbuffer := m\<rparr>) =
      env_finish cp p valp (s\<lparr>subbuffer := m\<rparr>)"
    using e(2) by (subst env_loop.simps [of _ e "p + ?len"]) simp
  then show ?case using m Nil.prems(3) by (simp add: env_finish_env)
qed

section \<open>Framing\<close>

declare telrcv.simps(2) [simp del]

definition sb_ready :: "tn \<Rightarrow> bool" where
  "sb_ready s = (\<not> exited s \<and> decrypt_input (enc (auth s)) = None \<and> pfront s < BUFSIZ)"

lemma sb_ready_simps [simp]:
  "sb_ready (s\<lparr>recv_st := st\<rparr>) = sb_ready s" "sb_ready (s\<lparr>subbuffer := m\<rparr>) = sb_ready s"
  "sb_ready (s\<lparr>subpointer := p\<rparr>) = sb_ready s"
  by (simp_all add: sb_ready_def pfront_def)

lemma telrcv_ready:
  assumes "sb_ready s"
  shows "telrcv des (x # xs) s =
    telrcv des xs (rcv_state des x (case xs of [] \<Rightarrow> past_input s | y # _ \<Rightarrow> y) s)"
  using assms by (simp add: telrcv.simps(2) sb_ready_def rcv_byte_def decrypt_in_def)

lemma telrcv_accum:
  assumes "sb_ready s" "recv_st s = TS_SB" "subpointer s + int (length xs) \<le> TELNET_BUFSIZE"
  shows "telrcv des (iac_double xs @ rest) s =
    telrcv des rest (s\<lparr>subbuffer := overwrite (subpointer s) xs (subbuffer s),
                       subpointer := subpointer s + int (length xs)\<rparr>)"
  using assms
proof (induction xs arbitrary: s)
  case (Cons x xs)
  let ?u = "s\<lparr>subbuffer := (subbuffer s)(subpointer s := x), subpointer := subpointer s + 1\<rparr>"
  have acc: "sb_accum x s = ?u" using Cons.prems(3) by (simp add: sb_accum_def)
  have "telrcv des (iac_double (x # xs) @ rest) s = telrcv des (iac_double xs @ rest) ?u"
  proof (cases "x = IAC")
    case True
    have esc: "rcv_state des IAC nxt (s\<lparr>recv_st := TS_SE\<rparr>) = ?u" for nxt
      using Cons.prems(2,3) True by (simp add: rcv_state_def ts_se_def sb_accum_def)
    have "telrcv des (IAC # IAC # ys) s = telrcv des ys ?u" for ys
      using Cons.prems(1,2) esc
      by (subst telrcv_ready, simp, subst telrcv_ready) (simp_all add: rcv_state_def [of _ _ _ s])
    then show ?thesis using True by simp
  next
    case False
    with Cons.prems acc show ?thesis by (simp add: telrcv_ready rcv_state_def)
  qed
  also have "\<dots> = telrcv des rest (?u\<lparr>subbuffer := overwrite (subpointer ?u) xs (subbuffer ?u),
                       subpointer := subpointer ?u + int (length xs)\<rparr>)"
    using Cons.prems by (intro Cons.IH) simp_all
  also have "?u\<lparr>subbuffer := overwrite (subpointer ?u) xs (subbuffer ?u),
                       subpointer := subpointer ?u + int (length xs)\<rparr> =
      s\<lparr>subbuffer := overwrite (subpointer s) (x # xs) (subbuffer s),
                       subpointer := subpointer s + int (length (x # xs))\<rparr>"
    using overwrite_Cons [of "subpointer s" xs "subbuffer s" x] by simp
  finally show ?case .
qed simp

text \<open>The whole sub-option: its handler sees the body at the start of the buffer.\<close>

lemma telrcv_suboption:
  assumes "sb_ready s" "recv_st s = TS_DATA" "int (length body) + 2 \<le> TELNET_BUFSIZE"
  obtains t where
    "telrcv des ([IAC, SB] @ iac_double body @ [IAC, SE] @ rest) s =
       telrcv des rest (suboption t\<lparr>recv_st := TS_DATA\<rparr>)"
    "reads (subbuffer t) 0 body" "subend t = int (length body)" "same_neg t s" "env t = env s"
    "auth_negotiated t = auth_negotiated s" "exited t = exited s" "auth t = auth s"
proof -
  let ?m = "overwrite 0 body (subbuffer s)"
  define u where "u = s\<lparr>subbuffer := ?m, subpointer := int (length body), recv_st := TS_SE\<rparr>"
  define v where "v = sb_end SE u"
  have "telrcv des ([IAC, SB] @ iac_double body @ [IAC, SE] @ rest) s =
      telrcv des (iac_double body @ [IAC, SE] @ rest) (s\<lparr>subpointer := 0, recv_st := TS_SB\<rparr>)"
    using assms(1,2) by (simp add: telrcv_ready rcv_state_def ts_data_def iac_command_def sb_clear_def)
  also have "\<dots> = telrcv des ([IAC, SE] @ rest) (s\<lparr>recv_st := TS_SB, subbuffer := ?m, subpointer := int (length body)\<rparr>)"
    using telrcv_accum [of "s\<lparr>subpointer := 0, recv_st := TS_SB\<rparr>" body des "[IAC, SE] @ rest"] assms
    by simp
  also have "\<dots> = telrcv des rest (suboption v\<lparr>recv_st := TS_DATA\<rparr>)"
    using assms(1) by (simp add: telrcv_ready rcv_state_def ts_se_def u_def v_def)
  finally have run: "telrcv des ([IAC, SB] @ iac_double body @ [IAC, SE] @ rest) s =
      telrcv des rest (suboption v\<lparr>recv_st := TS_DATA\<rparr>)" .
  have e: "v = u\<lparr>subbuffer := ?m(int (length body) := IAC, int (length body) + 1 := SE),
      subend := int (length body), subpointer := 0\<rparr>"
    using assms(3) by (simp add: v_def sb_end_def sb_accum_def u_def Let_def)
  show thesis
  proof (rule that [OF run])
    have "reads (subbuffer v) 0 body = reads ?m 0 body"
      by (rule reads_cong) (simp add: e)
    then show "reads (subbuffer v) 0 body" by (simp add: reads_overwrite)
  qed (simp_all add: e, simp_all add: u_def same_neg_def)
qed

section \<open>Properties\<close>

lemma env_skip_hit: "stop (m p) \<Longrightarrow> p < e \<Longrightarrow> env_skip stop m e p = p + 1"
  by (simp add: env_skip.simps [of stop m e p])

lemma env_subopt_entries:
  assumes "reads (subbuffer s) 0 ([TELOPT_NEW_ENVIRON, TELQUAL_IS] @ env_encode k ((n, v) # es))"
    and "subend s = 2 + int (length (env_encode k ((n, v) # es)))" "no_nul ((n, v) # es)" "env_kinds k"
  shows "env (env_subopt TELOPT_NEW_ENVIRON s) = foldl env_update (env s) ((n, v) # es)"
proof -
  let ?xs = "env_escape n @ env_value v @ env_encode k es"
  define t where "t = env_settimer TELOPT_NEW_ENVIRON s"
  have t: "subbuffer t = subbuffer s" "subend t = subend s" "env t = env s"
    by (simp_all add: t_def env_settimer_def settimer_def Let_def)
  have m: "subbuffer s 1 = TELQUAL_IS" "subbuffer s 2 = k n" "reads (subbuffer s) 3 ?xs"
    using assms(1) by (simp_all add: reads_Cons)
  have e: "subend s = 3 + int (length ?xs)" using assms(2) by simp
  let ?stop = "\<lambda>c. c = NEW_ENV_VAR \<or> c = ENV_USERVAR"
  have "?stop (subbuffer t 2)" "2 < subend t" using m(2) e t env_kindsD [OF assms(4), of n] by auto
  from env_skip_hit [of ?stop "subbuffer t" 2 "subend t", OF this] have "env_skip ?stop (subbuffer t) (subend t) 2 = 3" by simp
  then have "env_first TELOPT_NEW_ENVIRON t = (t, 3)" by (simp add: env_first_def)
  then have "env_subopt TELOPT_NEW_ENVIRON s =
      (if 3 \<ge> subend t then t else env_loop TELOPT_NEW_ENVIRON (subend t) 3 3 3 None t)"
    using m(1) by (simp add: env_subopt_def t_def Let_def)
  moreover have "env (env_loop TELOPT_NEW_ENVIRON (subend t) 3 3 3 None t) = foldl env_update (env t) ((n, v) # es)"
    using env_loop_entries [of t 3 n v k es "subend t"] m e t assms(3,4) by simp
  moreover have "foldl env_update (env t) ((n, v) # es) = env t" if "3 \<ge> subend t"
  proof -
    have "int (length ?xs) \<le> 0" using that e t by linarith
    then have "?xs = []" by (metis length_0_conv of_nat_le_0_iff)
    then have "env_escape n = []" "env_encode k es = []" by simp_all
    then have "n = []" "es = []"
      using escape_length [of n] by (simp, metis env_encode.simps(2) list.distinct(1) neq_Nil_conv surj_pair)
    then show ?thesis by (simp add: env_update_def)
  qed
  ultimately show ?thesis using t(3) by simp
qed

text \<open>
  When a client sends the variables \<open>es\<close>, escaped and framed as RFC 1572 says, each as a well-known
  variable or as one of the user's, after authentication is settled, the receiver's environment is
  changed exactly by them, one after the other; a variable without a value is removed and a name \<open>envvarok\<close>
  rejects is left out. The parser works in place in the sub-option buffer.
\<close>

lemma env_option_received:
  assumes "sb_ready s" "recv_st s = TS_DATA" "auth_negotiated s" "no_nul es" "es \<noteq> []" "env_kinds k"
    and "length (env_encode k es) + 4 \<le> 65535"
  shows "let (rest, s') = telrcv des
           ([IAC, SB] @ iac_double ([TELOPT_NEW_ENVIRON, TELQUAL_IS] @ env_encode k es) @ [IAC, SE]) s
         in rest = [] \<and> recv_st s' = TS_DATA \<and> env s' = foldl env_update (env s) es"
proof -
  let ?body = "[TELOPT_NEW_ENVIRON, TELQUAL_IS] @ env_encode k es"
  obtain n v es' where es: "es = (n, v) # es'" using assms(5) by (cases es) auto
  obtain t where t:
    "telrcv des ([IAC, SB] @ iac_double ?body @ [IAC, SE] @ []) s = telrcv des [] (suboption t\<lparr>recv_st := TS_DATA\<rparr>)"
    "reads (subbuffer t) 0 ?body" "subend t = int (length ?body)" "env t = env s"
    "auth_negotiated t = auth_negotiated s" "exited t = exited s"
    using telrcv_suboption [OF assms(1,2), of ?body des "[]"] assms(7) by (auto simp: TELNET_BUFSIZE_def)
  have "subbuffer t 0 = TELOPT_NEW_ENVIRON" using t(2) by (simp add: reads_Cons)
  then have "suboption t = sub_environ TELOPT_NEW_ENVIRON t" by (simp add: suboption_def)
  also have "\<dots> = env_subopt TELOPT_NEW_ENVIRON t"
  proof -
    have "\<not> subend t \<le> 1" "auth_negotiated t" "\<not> exited t"
      using t(3,5,6) assms(1,3) by (simp_all add: sb_ready_def)
    then show ?thesis by (simp add: sub_environ_def sb_auth_complete_def alive_def)
  qed
  finally have "suboption t = env_subopt TELOPT_NEW_ENVIRON t" .
  moreover have "env (env_subopt TELOPT_NEW_ENVIRON t) = foldl env_update (env t) es"
    using env_subopt_entries [of t k n v es'] t(2,3) assms(4,6) by (simp add: es)
  ultimately show ?thesis using t(1,4) by (simp add: Let_def case_prod_beta)
qed

end
