(* ===== verification/Netbuf.thy ===== *)
theory Netbuf
  imports Cipher Memory Telnet_Proto Pty
begin

text \<open>
  The output buffer of the telnet server (telnetd/utility.c, and the two routines of
  telnetd/authenc.c through which the encryption library reaches it): \<open>netflush\<close>,
  \<open>netwrite\<close>, \<open>netprintf\<close>, and the clearing of the buffer for a TELNET synch. Offsets into
  \<open>netobuf\<close> stand for the pointers, \<open>None\<close> for a null pointer. Definitions whose C names the
  client's network.c also has are marked with \<open>nb\<close>.
\<close>

section \<open>State\<close>

text \<open>
  \<open>nb_replies\<close> are what the next calls of \<open>write\<close> or \<open>send\<close> return, \<open>nb_wire\<close> what they
  have taken, each run with its out-of-band flag; \<open>nb_died\<close> is set when \<open>cleanup\<close> has been called.
\<close>

record netbuf =
  netobuf :: "int \<Rightarrow> byte"
  nfrontp :: int
  nbackp :: int
  nclearto :: "int option"
  neturg :: "int option"
  nb_replies :: "pty_reply list"
  nb_wire :: "(bool \<times> byte list) list"
  nb_died :: bool

definition NETOBUF :: int where "NETOBUF = 8192 + 64"

definition nb_bytes :: "netbuf \<Rightarrow> int \<Rightarrow> int \<Rightarrow> byte list" where
  "nb_bytes b p q = List.map (netobuf b) [p..q - 1]"

type_synonym 'k encryptor = "('k \<Rightarrow> byte list \<Rightarrow> byte list \<times> 'k) option"

section \<open>Flushing\<close>

text \<open>The encryption of what has been put into the buffer since the last time.\<close>

definition nb_encrypt_from :: "'k encryptor \<Rightarrow> int \<Rightarrow> 'k \<times> netbuf \<Rightarrow> 'k \<times> netbuf" where
  "nb_encrypt_from encf s kb =
     (case (encf, kb) of
        (None, _) \<Rightarrow> kb
      | (Some f, k, b) \<Rightarrow>
          if nfrontp b - s > 0
          then (let (xs, k) = f k (nb_bytes b s (nfrontp b))
                in (k, b\<lparr>netobuf := overwrite s xs (netobuf b)\<rparr>))
          else kb)"

definition nb_flush_encrypt :: "'k encryptor \<Rightarrow> 'k \<times> netbuf \<Rightarrow> 'k \<times> netbuf" where
  "nb_flush_encrypt encf kb =
     (let b = snd kb; s = (case nclearto b of Some c \<Rightarrow> c | None \<Rightarrow> nbackp b)
      in case encf of
           None \<Rightarrow> kb
         | Some f \<Rightarrow>
             if nfrontp b - s > 0
             then (let (k, b) = nb_encrypt_from encf s kb
                   in (k, b\<lparr>nclearto := Some (nfrontp b)\<rparr>))
             else kb)"

text \<open>What is done once the bytes are gone: the pointers that lie behind are reset.\<close>

definition nb_behind :: "int \<Rightarrow> int option \<Rightarrow> int option" where
  "nb_behind bk p = (case p of Some c \<Rightarrow> if bk > c then None else Some c | None \<Rightarrow> None)"

definition nb_settle :: "netbuf \<Rightarrow> netbuf" where
  "nb_settle b =
     (let b = b\<lparr>nclearto := nb_behind (nbackp b) (nclearto b)\<rparr>;
          b = (case neturg b of Some u \<Rightarrow> if nbackp b \<ge> u then b\<lparr>neturg := None\<rparr> else b | None \<Rightarrow> b)
      in if nbackp b = nfrontp b
         then b\<lparr>nbackp := 0, nfrontp := 0, nclearto := None\<rparr>
         else b)"

text \<open>
  How much goes into one call, and whether it is urgent (\<open>modern\<close> is the flag \<open>not42\<close>): without urgent data (or with an old peer) everything;
  else first what lies before the last byte in front of the mark, then that byte.
\<close>

definition nb_attempt :: "bool \<Rightarrow> netbuf \<Rightarrow> int \<times> bool" where
  "nb_attempt modern b =
     (case neturg b of
        None \<Rightarrow> (nfrontp b - nbackp b, False)
      | Some u \<Rightarrow>
          if \<not> modern then (nfrontp b - nbackp b, False)
          else let n = u - nbackp b in if n > 1 then (n - 1, False) else (n, True))"

definition nb_send :: "bool \<Rightarrow> netbuf \<Rightarrow> netbuf" where
  "nb_send modern b =
     (case nb_replies b of
        [] \<Rightarrow> b
      | r # rs \<Rightarrow>
          (case r of
             Wrote k \<Rightarrow>
               let (m, oob) = nb_attempt modern b; n = min (int k) m
               in nb_settle (b\<lparr>nb_replies := rs, nb_wire := nb_wire b @ [(oob, nb_bytes b (nbackp b) (nbackp b + n))],
                               nbackp := nbackp b + n\<rparr>)
           | Pty_retry \<Rightarrow> b\<lparr>nb_replies := rs\<rparr>
           | Pty_fatal \<Rightarrow> b\<lparr>nb_replies := rs, nb_died := True\<rparr>))"

definition nb_netflush :: "'k encryptor \<Rightarrow> bool \<Rightarrow> 'k \<times> netbuf \<Rightarrow> 'k \<times> netbuf" where
  "nb_netflush encf modern kb =
     (if nb_died (snd kb) then kb
      else if nfrontp (snd kb) - nbackp (snd kb) > 0
      then (let (k, b) = nb_flush_encrypt encf kb in (k, nb_send modern b))
      else (fst kb, nb_settle (snd kb)))"

section \<open>Writing\<close>

definition nb_append :: "byte list \<Rightarrow> netbuf \<Rightarrow> netbuf" where
  "nb_append xs b = b\<lparr>netobuf := overwrite (nfrontp b) xs (netobuf b), nfrontp := nfrontp b + int (length xs)\<rparr>"

text \<open>\<open>netwrite\<close> flushes when there is no room, and gives up when there still is none; the flag says whether it wrote.\<close>

definition netwrite :: "'k encryptor \<Rightarrow> bool \<Rightarrow> byte list \<Rightarrow> 'k \<times> netbuf \<Rightarrow> bool \<times> 'k \<times> netbuf" where
  "netwrite encf modern xs kb =
     (let kb = (if NETOBUF - nfrontp (snd kb) < int (length xs) then nb_netflush encf modern kb else kb)
      in if nb_died (snd kb) \<or> NETOBUF - nfrontp (snd kb) < int (length xs) then (False, kb)
         else (True, fst kb, nb_append xs (snd kb)))"

text \<open>
  \<open>netprintf_ext\<close> on an already formatted text: no more than \<open>BUFSIZ\<close>, not empty, and with
  \<open>seturg\<close> the mark is set on its last byte.
\<close>

definition netprintf_ext ::
  "'k encryptor \<Rightarrow> bool \<Rightarrow> bool \<Rightarrow> bool \<Rightarrow> byte list \<Rightarrow> 'k \<times> netbuf \<Rightarrow> bool \<times> 'k \<times> netbuf" where
  "netprintf_ext encf modern noflush seturg xs kb =
     (if xs = [] \<or> length xs > BUFSIZ then (False, kb)
      else
        let kb = (if NETOBUF - nfrontp (snd kb) < int (length xs) \<and> \<not> noflush
                  then nb_netflush encf modern kb else kb)
        in if nb_died (snd kb) \<or> NETOBUF - nfrontp (snd kb) < int (length xs) then (False, kb)
           else
             let b = nb_append xs (snd kb)
             in (True, fst kb, if seturg then b\<lparr>neturg := Some (nfrontp b - 1)\<rparr> else b))"

text \<open>\<open>net_encrypt\<close> of authenc.c: encrypts what is there, and counts all of it as done.\<close>

definition nb_net_encrypt :: "'k encryptor \<Rightarrow> 'k \<times> netbuf \<Rightarrow> 'k \<times> netbuf" where
  "nb_net_encrypt encf kb =
     (let b = snd kb;
          s = (case nclearto b of Some c \<Rightarrow> if c > nbackp b then c else nbackp b | None \<Rightarrow> nbackp b);
          (k, b) = nb_encrypt_from encf s kb
      in (k, b\<lparr>nclearto := Some (nfrontp b)\<rparr>))"

section \<open>Clearing\<close>

text \<open>
  The next item of the stream: a data byte, a command, an option request, or a whole sub-option.
  The search for the end of a sub-option has no bound in the code; here it ends, without a result, at the end
  of the array.
\<close>

function sb_look :: "(int \<Rightarrow> byte) \<Rightarrow> int \<Rightarrow> int option" where
  "sb_look m p =
     (if p \<ge> NETOBUF then None
      else if m p = IAC then (if m (p + 1) = SE then Some (p + 2) else sb_look m (p + 2))
      else sb_look m (p + 1))"
  by auto
termination by (relation "measure (\<lambda>(_, p). nat (NETOBUF - p))") auto

declare sb_look.simps [simp del]

definition nextitem :: "(int \<Rightarrow> byte) \<Rightarrow> int \<Rightarrow> int option" where
  "nextitem m p =
     (if m p \<noteq> IAC then Some (p + 1)
      else if m (p + 1) \<in> {DO, DONT, WILL, WONT} then Some (p + 3)
      else if m (p + 1) = SB then sb_look m (p + 2)
      else Some (p + 2))"

lemma sb_look_gt: "sb_look m p = Some q \<Longrightarrow> p < q"
proof (induction m p rule: sb_look.induct)
  case (1 m p)
  from 1(3) show ?case
    by (subst (asm) sb_look.simps) (auto split: if_splits dest: 1(1,2))
qed

lemma nextitem_gt: "nextitem m p = Some q \<Longrightarrow> p < q"
  by (auto simp: nextitem_def dest: sb_look_gt split: if_splits)

definition wewant :: "(int \<Rightarrow> byte) \<Rightarrow> int \<Rightarrow> int \<Rightarrow> bool" where
  "wewant m front p = (front > p \<and> m p = IAC \<and> m (p + 1) \<noteq> EC \<and> m (p + 1) \<noteq> EL)"

text \<open>The start of the item that is being sent, the end of a run of wanted items, and the loop that copies them down.\<close>

function nc_start :: "(int \<Rightarrow> byte) \<Rightarrow> int \<Rightarrow> int \<Rightarrow> int option" where
  "nc_start m bk p =
     (case nextitem m p of
        None \<Rightarrow> None
      | Some q \<Rightarrow> if q \<le> bk then nc_start m bk q else Some p)"
  by auto
termination by (relation "measure (\<lambda>(_, bk, p). nat (bk - p))") (auto dest!: nextitem_gt)

function nc_run :: "(int \<Rightarrow> byte) \<Rightarrow> int \<Rightarrow> int \<Rightarrow> int option" where
  "nc_run m front p =
     (case nextitem m p of
        None \<Rightarrow> None
      | Some q \<Rightarrow> if wewant m front q then nc_run m front q else Some q)"
  by auto
termination by (relation "measure (\<lambda>(_, front, p). nat (front - p))") (auto dest!: nextitem_gt simp: wewant_def)

declare nc_start.simps [simp del] nc_run.simps [simp del]

lemma nc_run_gt: "nc_run m front p = Some q \<Longrightarrow> p < q"
proof (induction m front p rule: nc_run.induct)
  case (1 m front p)
  from 1(2) obtain r where r: "nextitem m p = Some r"
      "q = r \<or> wewant m front r \<and> nc_run m front r = Some q"
    using nc_run.simps [of m front p] by (auto split: option.splits if_splits)
  then show ?case using 1(1) [OF r(1)] nextitem_gt [OF r(1)] by auto
qed

function nc_copy :: "(int \<Rightarrow> byte) \<Rightarrow> int \<Rightarrow> int \<Rightarrow> int \<Rightarrow> ((int \<Rightarrow> byte) \<times> int) option" where
  "nc_copy m front good p =
     (if front > p then
        if wewant m front p then
          (case nc_run m front p of
             None \<Rightarrow> None
           | Some q \<Rightarrow> nc_copy (overwrite good (List.map m [p..q - 1]) m) front (good + (q - p)) q)
        else (case nextitem m p of None \<Rightarrow> None | Some q \<Rightarrow> nc_copy m front good q)
      else Some (m, good))"
  by auto
termination by (relation "measure (\<lambda>(_, front, _, p). nat (front - p))") (auto dest!: nextitem_gt nc_run_gt)

declare nc_copy.simps [simp del]

definition nb_netclear :: "netbuf \<Rightarrow> netbuf option" where
  "nb_netclear b =
     (let first = (case nclearto b of Some c \<Rightarrow> c | None \<Rightarrow> 0)
      in case nc_start (netobuf b) (nbackp b) first of
           None \<Rightarrow> None
         | Some p \<Rightarrow>
             (case nc_copy (netobuf b) (nfrontp b) first p of
                None \<Rightarrow> None
              | Some (m, good) \<Rightarrow> Some (b\<lparr>netobuf := m, nbackp := 0, nfrontp := good, neturg := None\<rparr>)))"

end
