(* ===== verification/NetbufProps.thy ===== *)
theory NetbufProps
  imports Netbuf EncNet
begin

text \<open>
  The server's output buffer delivers what is written to it, in order and encrypted once;
  clearing it for a synch keeps the commands, but sends again what had already gone out.
\<close>

section \<open>Invariant and contents\<close>

definition nb_ok :: "netbuf \<Rightarrow> bool" where
  "nb_ok b =
     (0 \<le> nbackp b \<and> nbackp b \<le> nfrontp b \<and> nfrontp b \<le> NETOBUF \<and>
      (\<forall>c. nclearto b = Some c \<longrightarrow> nbackp b \<le> c \<and> c \<le> nfrontp b) \<and>
      (\<forall>u. neturg b = Some u \<longrightarrow> nbackp b < u \<and> u < nfrontp b))"

definition nb_split :: "netbuf \<Rightarrow> int" where
  "nb_split b = (case nclearto b of Some c \<Rightarrow> c | None \<Rightarrow> nbackp b)"

definition nb_enc_part :: "netbuf \<Rightarrow> byte list" where
  "nb_enc_part b = nb_bytes b (nbackp b) (nb_split b)"

definition nb_plain_part :: "netbuf \<Rightarrow> byte list" where
  "nb_plain_part b = nb_bytes b (nb_split b) (nfrontp b)"

definition nb_sent :: "netbuf \<Rightarrow> byte list" where
  "nb_sent b = concat (List.map snd (nb_wire b))"

lemma nb_bytes_split: "p \<le> q \<Longrightarrow> q \<le> r \<Longrightarrow> nb_bytes b p r = nb_bytes b p q @ nb_bytes b q r"
proof -
  assume "p \<le> q" "q \<le> r"
  then have "[p..r - 1] = [p..q - 1] @ [q..r - 1]" using upto_split1 [of p q "r - 1"] by (cases "q = r") auto
  then show ?thesis by (simp add: nb_bytes_def)
qed

lemma nb_bytes_length [simp]: "length (nb_bytes b p q) = nat (q - p)"
  by (simp add: nb_bytes_def)

lemma nb_bytes_Nil [simp]: "q \<le> p \<Longrightarrow> nb_bytes b p q = []"
  by (simp add: nb_bytes_def)

lemma nb_bytes_cong:
  "(\<And>i. p \<le> i \<Longrightarrow> i < q \<Longrightarrow> netobuf b i = netobuf b' i) \<Longrightarrow> nb_bytes b p q = nb_bytes b' p q"
  by (simp add: nb_bytes_def)

lemma nb_bytes_overwrite:
  "nb_bytes (b\<lparr>netobuf := overwrite p xs m\<rparr>) p (p + int (length xs)) = xs"
proof (rule nth_equalityI)
  fix i assume "i < length (nb_bytes (b\<lparr>netobuf := overwrite p xs m\<rparr>) p (p + int (length xs)))"
  then show "nb_bytes (b\<lparr>netobuf := overwrite p xs m\<rparr>) p (p + int (length xs)) ! i = xs ! i"
    by (simp add: nb_bytes_def overwrite_def)
qed simp

lemma nb_bytes_before:
  "q \<le> p \<Longrightarrow> nb_bytes (b\<lparr>netobuf := overwrite p xs m\<rparr>) r q = nb_bytes (b\<lparr>netobuf := m\<rparr>) r q"
  by (rule nb_bytes_cong) (simp add: overwrite_other)

lemma nb_bytes_frame [simp]:
  "nb_bytes (b\<lparr>nfrontp := x\<rparr>) p q = nb_bytes b p q" "nb_bytes (b\<lparr>nbackp := x\<rparr>) p q = nb_bytes b p q"
  "nb_bytes (b\<lparr>nclearto := c\<rparr>) p q = nb_bytes b p q" "nb_bytes (b\<lparr>neturg := c\<rparr>) p q = nb_bytes b p q"
  "nb_bytes (b\<lparr>nb_replies := rs\<rparr>) p q = nb_bytes b p q" "nb_bytes (b\<lparr>nb_wire := w\<rparr>) p q = nb_bytes b p q"
  "nb_bytes (b\<lparr>nb_died := d\<rparr>) p q = nb_bytes b p q"
  by (simp_all add: nb_bytes_def)

section \<open>The steps\<close>

lemma nb_settle_spec:
  assumes "0 \<le> nbackp b" "nbackp b \<le> nfrontp b" "nfrontp b \<le> NETOBUF"
    "\<forall>c. nclearto b = Some c \<longrightarrow> c \<le> nfrontp b \<and> nbackp b \<le> c"
    "\<forall>u. neturg b = Some u \<longrightarrow> u < nfrontp b"
  shows "nb_ok (nb_settle b)" "nb_enc_part (nb_settle b) = nb_enc_part b"
    "nb_plain_part (nb_settle b) = nb_plain_part b" "nb_wire (nb_settle b) = nb_wire b"
    "nb_died (nb_settle b) = nb_died b"
  using assms
  by (auto simp: nb_settle_def nb_ok_def nb_behind_def nb_enc_part_def nb_plain_part_def nb_split_def Let_def
      NETOBUF_def split: option.splits)

lemma nb_append_spec:
  assumes "nb_ok b" "nfrontp b + int (length xs) \<le> NETOBUF"
  shows "nb_ok (nb_append xs b)" "nb_enc_part (nb_append xs b) = nb_enc_part b"
    "nb_plain_part (nb_append xs b) = nb_plain_part b @ xs" "nb_wire (nb_append xs b) = nb_wire b"
    "nb_died (nb_append xs b) = nb_died b"
proof -
  have split: "nb_split (nb_append xs b) = nb_split b"
    by (simp add: nb_append_def nb_split_def split: option.split)
  have le: "nbackp b \<le> nb_split b" "nb_split b \<le> nfrontp b"
    using assms(1) by (auto simp: nb_ok_def nb_split_def split: option.splits)
  show "nb_ok (nb_append xs b)" using assms by (auto simp: nb_ok_def nb_append_def)
  have m: "b\<lparr>netobuf := netobuf b\<rparr> = b" by simp
  show "nb_enc_part (nb_append xs b) = nb_enc_part b"
    unfolding nb_enc_part_def split
    using le nb_bytes_before [where q = "nb_split b" and p = "nfrontp b" and b = b and xs = xs and m = "netobuf b" and r = "nbackp b"]
    by (simp add: nb_append_def)
  show "nb_plain_part (nb_append xs b) = nb_plain_part b @ xs"
    unfolding nb_plain_part_def split
    using le nb_bytes_split [of "nb_split b" "nfrontp b" "nfrontp b + int (length xs)" "nb_append xs b"]
      nb_bytes_before [where q = "nfrontp b" and p = "nfrontp b" and b = b and xs = xs and m = "netobuf b" and r = "nb_split b"]
      nb_bytes_overwrite [where b = b and p = "nfrontp b" and xs = xs and m = "netobuf b"]
    by (simp add: nb_append_def)
qed (simp_all add: nb_append_def)

lemma nb_attempt_bounds:
  assumes "nb_ok b" "nb_attempt m b = (n, oob)" "nbackp b < nfrontp b"
  shows "0 \<le> n \<and> n \<le> nfrontp b - nbackp b \<and> (oob \<longrightarrow> n \<le> 1)"
  using assms by (auto simp: nb_attempt_def nb_ok_def Let_def split: option.splits if_splits)

text \<open>A call of \<open>write\<close> takes bytes from the front of the part that is already encrypted.\<close>

lemma nb_send_spec:
  assumes "nb_ok b" "nbackp b < nfrontp b" "nclearto b = None \<or> nclearto b = Some (nfrontp b)"
  shows "nb_ok (nb_send m b)"
    "nb_sent (nb_send m b) @ nb_enc_part (nb_send m b) @ nb_plain_part (nb_send m b) =
       nb_sent b @ nb_enc_part b @ nb_plain_part b"
    "nclearto b = Some (nfrontp b) \<Longrightarrow> nb_plain_part (nb_send m b) = []"
proof -
  obtain n oob where n: "nb_attempt m b = (n, oob)" by fastforce
  have bd: "0 \<le> n" "n \<le> nfrontp b - nbackp b" using nb_attempt_bounds [OF assms(1) n assms(2)] by auto
  { fix k rs assume r: "nb_replies b = Wrote k # rs"
    define j where "j = min (int k) n"
    have j: "0 \<le> j" "nbackp b + j \<le> nfrontp b" using bd by (auto simp: j_def)
    define u where "u = b\<lparr>nb_replies := rs, nb_wire := nb_wire b @ [(oob, nb_bytes b (nbackp b) (nbackp b + j))],
                   nbackp := nbackp b + j\<rparr>"
    have s: "nb_send m b = nb_settle u" using r n by (simp add: nb_send_def u_def j_def Let_def)
    have pre: "0 \<le> nbackp u" "nbackp u \<le> nfrontp u" "nfrontp u \<le> NETOBUF"
        "\<forall>c. nclearto u = Some c \<longrightarrow> c \<le> nfrontp u \<and> nbackp u \<le> c" "\<forall>v. neturg u = Some v \<longrightarrow> v < nfrontp u"
      using assms j by (auto simp: u_def nb_ok_def)
    note S = nb_settle_spec [OF pre]
    have all: "nb_enc_part u @ nb_plain_part u = nb_bytes b (nbackp b + j) (nfrontp b)"
      using assms(3) j by (auto simp: nb_enc_part_def nb_plain_part_def nb_split_def u_def split: option.splits)
    have all_b: "nb_enc_part b @ nb_plain_part b = nb_bytes b (nbackp b) (nfrontp b)"
      using assms(3) by (auto simp: nb_enc_part_def nb_plain_part_def nb_split_def split: option.splits)
    have "nb_ok (nb_send m b) \<and>
      nb_sent (nb_send m b) @ nb_enc_part (nb_send m b) @ nb_plain_part (nb_send m b) =
        nb_sent b @ nb_enc_part b @ nb_plain_part b \<and>
      (nclearto b = Some (nfrontp b) \<longrightarrow> nb_plain_part (nb_send m b) = [])"
      using S all all_b j nb_bytes_split [of "nbackp b" "nbackp b + j" "nfrontp b" b]
      by (auto simp: s nb_sent_def u_def nb_plain_part_def nb_split_def split: option.splits)
  } note wrote = this
  have other: "nb_ok (b\<lparr>nb_replies := rs, nb_died := d\<rparr>)" "nb_ok (b\<lparr>nb_replies := rs\<rparr>)"
    "nb_sent (b\<lparr>nb_replies := rs, nb_died := d\<rparr>) = nb_sent b" "nb_sent (b\<lparr>nb_replies := rs\<rparr>) = nb_sent b"
    "nb_enc_part (b\<lparr>nb_replies := rs, nb_died := d\<rparr>) = nb_enc_part b"
    "nb_enc_part (b\<lparr>nb_replies := rs\<rparr>) = nb_enc_part b"
    "nb_plain_part (b\<lparr>nb_replies := rs, nb_died := d\<rparr>) = nb_plain_part b"
    "nb_plain_part (b\<lparr>nb_replies := rs\<rparr>) = nb_plain_part b" for rs d
    using assms(1)
    by (simp_all add: nb_ok_def nb_sent_def nb_enc_part_def nb_plain_part_def nb_split_def split: option.split)
  have plain: "nclearto b = Some (nfrontp b) \<Longrightarrow> nb_plain_part b = []"
    by (simp add: nb_plain_part_def nb_split_def)
  have "nb_ok (nb_send m b) \<and>
      nb_sent (nb_send m b) @ nb_enc_part (nb_send m b) @ nb_plain_part (nb_send m b) =
        nb_sent b @ nb_enc_part b @ nb_plain_part b \<and>
      (nclearto b = Some (nfrontp b) \<longrightarrow> nb_plain_part (nb_send m b) = [])"
  proof (cases "nb_replies b")
    case Nil
    then show ?thesis using assms(1) plain by (simp add: nb_send_def)
  next
    case (Cons r rs)
    then show ?thesis
      using wrote other plain assms(1) by (cases r) (simp_all add: nb_send_def)
  qed
  then show "nb_ok (nb_send m b)"
    "nb_sent (nb_send m b) @ nb_enc_part (nb_send m b) @ nb_plain_part (nb_send m b) =
       nb_sent b @ nb_enc_part b @ nb_plain_part b"
    "nclearto b = Some (nfrontp b) \<Longrightarrow> nb_plain_part (nb_send m b) = []" by auto
qed

section \<open>Runs\<close>

text \<open>The server's calls: raw bytes, formatted text (maybe urgent), and flushes. A run returns the bytes that were accepted.\<close>

datatype nb_op = Nb_write "byte list" | Nb_printf bool "byte list" | Nb_flush

definition nb_step :: "'k encryptor \<Rightarrow> bool \<Rightarrow> nb_op \<Rightarrow> 'k \<times> netbuf \<Rightarrow> byte list \<times> 'k \<times> netbuf" where
  "nb_step encf m op kb =
     (case op of
        Nb_write xs \<Rightarrow> (let (w, kb) = netwrite encf m xs kb in (if w then xs else [], kb))
      | Nb_printf urg xs \<Rightarrow> (let (w, kb) = netprintf_ext encf m False urg xs kb in (if w then xs else [], kb))
      | Nb_flush \<Rightarrow> ([], nb_netflush encf m kb))"

fun nb_op_ok :: "nb_op \<Rightarrow> bool" where
  "nb_op_ok (Nb_printf urg xs) = (urg \<longrightarrow> length xs \<ge> 2)"
| "nb_op_ok op = True"

fun nb_run :: "'k encryptor \<Rightarrow> bool \<Rightarrow> nb_op list \<Rightarrow> 'k \<times> netbuf \<Rightarrow> byte list \<times> 'k \<times> netbuf" where
  "nb_run encf m [] kb = ([], kb)"
| "nb_run encf m (op # ops) kb =
     (let (xs, kb) = nb_step encf m op kb; (ys, kb) = nb_run encf m ops kb in (xs @ ys, kb))"

text \<open>Setting the urgent mark moves no bytes, but the mark has to lie behind what is to be sent.\<close>

lemma nb_urgent_spec:
  assumes "nb_ok b" "nbackp b < nfrontp b - 1"
  shows "nb_ok (b\<lparr>neturg := Some (nfrontp b - 1)\<rparr>)"
  using assms unfolding nb_ok_def by auto

lemma nb_urgent_parts [simp]:
  "nb_enc_part (b\<lparr>neturg := u\<rparr>) = nb_enc_part b" "nb_plain_part (b\<lparr>neturg := u\<rparr>) = nb_plain_part b"
  "nb_sent (b\<lparr>neturg := u\<rparr>) = nb_sent b"
  by (simp_all add: nb_enc_part_def nb_plain_part_def nb_split_def nb_sent_def split: option.split)

text \<open>What an encrypted run keeps: the plaintext accepted so far is what has been encrypted, in order, and what has not.\<close>

definition nb_enc_inv ::
  "('k \<Rightarrow> byte list \<Rightarrow> byte list \<times> 'k) \<Rightarrow> 'k \<Rightarrow> byte list \<Rightarrow> 'k \<times> netbuf \<Rightarrow> bool" where
  "nb_enc_inv encf k0 w kb =
     (nb_ok (snd kb) \<and>
      (\<exists>p. w = p @ nb_plain_part (snd kb) \<and> fst (encf k0 p) = nb_sent (snd kb) @ nb_enc_part (snd kb) \<and>
           fst kb = snd (encf k0 p)))"

context stream_encryptor
begin

lemma nb_flush_encrypt_inv:
  assumes "nb_enc_inv enc k0 w (k, b)" "nbackp b < nfrontp b" "nb_flush_encrypt (Some enc) (k, b) = (k', b')"
  shows "nb_enc_inv enc k0 w (k', b') \<and> nclearto b' = Some (nfrontp b') \<and> nbackp b' < nfrontp b' \<and>
    nb_died b' = nb_died b"
proof -
  have ok: "nb_ok b" using assms(1) by (simp add: nb_enc_inv_def)
  have le: "nbackp b \<le> nb_split b" "nb_split b \<le> nfrontp b"
    using ok by (auto simp: nb_ok_def nb_split_def split: option.splits)
  show ?thesis
  proof (cases "nb_split b < nfrontp b")
    case False
    then have "nclearto b = Some (nfrontp b)"
      using le assms(2) by (auto simp: nb_split_def split: option.splits)
    with assms False show ?thesis by (simp add: nb_flush_encrypt_def)
  next
    case True
    let ?p = "nb_plain_part b"
    let ?c = "fst (enc k ?p)"
    have len: "int (length ?c) = nfrontp b - nb_split b" using True by (simp add: nb_plain_part_def)
    have b': "b' = b\<lparr>netobuf := overwrite (nb_split b) ?c (netobuf b), nclearto := Some (nfrontp b)\<rparr>"
      and k': "k' = snd (enc k ?p)"
      using assms(3) True
      by (auto simp: nb_flush_encrypt_def nb_encrypt_from_def nb_plain_part_def nb_split_def Let_def
          case_prod_beta split: option.splits)
    have enc: "nb_enc_part b' = nb_enc_part b @ ?c" "nb_plain_part b' = []" "nb_sent b' = nb_sent b"
    proof -
      have "nb_bytes b' (nbackp b) (nfrontp b) =
          nb_bytes b' (nbackp b) (nb_split b) @ nb_bytes b' (nb_split b) (nfrontp b)"
        using le by (rule nb_bytes_split)
      also have "nb_bytes b' (nbackp b) (nb_split b) = nb_enc_part b"
        unfolding nb_enc_part_def b' by (simp, rule nb_bytes_cong) (simp add: overwrite_other)
      also have "nb_bytes b' (nb_split b) (nfrontp b) = ?c"
        using nb_bytes_overwrite [where b = b and p = "nb_split b" and xs = "?c" and m = "netobuf b"] len
        by (simp add: b')
      finally have "nb_bytes b' (nbackp b) (nfrontp b) = nb_enc_part b @ ?c" .
      moreover have "nb_enc_part b' = nb_bytes b' (nbackp b) (nfrontp b)"
        by (simp add: nb_enc_part_def nb_split_def b')
      ultimately show "nb_enc_part b' = nb_enc_part b @ ?c" by simp
    qed (simp_all add: b' nb_plain_part_def nb_split_def nb_sent_def)
    from assms(1) obtain q where q: "w = q @ ?p" "fst (enc k0 q) = nb_sent b @ nb_enc_part b" "k = snd (enc k0 q)"
      by (auto simp: nb_enc_inv_def)
    have "fst (enc k0 (q @ ?p)) = nb_sent b' @ nb_enc_part b'" "k' = snd (enc k0 (q @ ?p))"
      using q(2,3) k' enc enc_append [of k0 q ?p] by simp_all
    moreover have "nb_ok b'" using ok le assms(2) by (auto simp: nb_ok_def b')
    ultimately show ?thesis
      using q(1) enc(2) assms(2) by (auto simp: nb_enc_inv_def b')
  qed
qed

lemma nb_netflush_inv:
  assumes "nb_enc_inv enc k0 w kb"
  shows "nb_enc_inv enc k0 w (nb_netflush (Some enc) m kb)"
proof -
  obtain k b where kb: "kb = (k, b)" by fastforce
  have ok: "nb_ok b" using assms by (simp add: nb_enc_inv_def kb)
  show ?thesis
  proof (cases "nb_died b \<or> nfrontp b - nbackp b \<le> 0")
    case True
    then have "nb_died b \<or> nbackp b = nfrontp b" using ok by (auto simp: nb_ok_def)
    moreover have "nb_enc_inv enc k0 w (k, nb_settle b)"
    proof -
      have "nb_sent (nb_settle b) = nb_sent b"
        using nb_settle_spec(4) [of b] ok by (simp add: nb_sent_def nb_ok_def)
      then show ?thesis
        using nb_settle_spec [of b] ok assms by (auto simp: nb_enc_inv_def nb_ok_def kb)
    qed
    ultimately show ?thesis
      using assms by (auto simp: nb_netflush_def kb)
  next
    case False
    obtain k' b' where e: "nb_flush_encrypt (Some enc) (k, b) = (k', b')" by fastforce
    have i: "nb_enc_inv enc k0 w (k', b')" "nclearto b' = Some (nfrontp b')" "nbackp b' < nfrontp b'"
      using nb_flush_encrypt_inv [OF _ _ e] assms False by (auto simp: kb)
    have ok': "nb_ok b'" using i(1) by (simp add: nb_enc_inv_def)
    have pl: "nb_plain_part b' = []" using i(2) by (simp add: nb_plain_part_def nb_split_def)
    note S = nb_send_spec [OF ok' i(3) disjI2 [OF i(2)], of m]
    have "nb_netflush (Some enc) m kb = (k', nb_send m b')"
      using False e by (simp add: nb_netflush_def kb)
    moreover have "nb_enc_inv enc k0 w (k', nb_send m b')"
      using i(1) S(1,2) S(3) [OF i(2)] pl by (auto simp: nb_enc_inv_def)
    ultimately show ?thesis by simp
  qed
qed

lemma nb_append_inv:
  assumes "nb_enc_inv enc k0 w (k, b)" "nfrontp b + int (length xs) \<le> NETOBUF"
  shows "nb_enc_inv enc k0 (w @ xs) (k, nb_append xs b)"
proof -
  have ok: "nb_ok b" using assms(1) by (simp add: nb_enc_inv_def)
  note A = nb_append_spec [OF ok assms(2)]
  have "nb_sent (nb_append xs b) = nb_sent b" using A(4) by (simp add: nb_sent_def)
  then show ?thesis using assms(1) A by (auto simp: nb_enc_inv_def)
qed

text \<open>The urgent texts of the server are commands of two bytes, so the mark never lies on the next byte to send.\<close>

lemma nb_step_inv:
  assumes "nb_enc_inv enc k0 w kb" "nb_op_ok op" "nb_step (Some enc) m op kb = (xs, kb')"
  shows "nb_enc_inv enc k0 (w @ xs) kb'"
proof (cases op)
  case (Nb_write ys)
  define kc where "kc = (if NETOBUF - nfrontp (snd kb) < int (length ys) then nb_netflush (Some enc) m kb else kb)"
  have "nb_enc_inv enc k0 w kc" using nb_netflush_inv [OF assms(1), of m] assms(1) by (simp add: kc_def)
  moreover obtain k b where "kc = (k, b)" by fastforce
  ultimately show ?thesis
    using assms(3) Nb_write nb_append_inv [of k0 w k b ys]
    by (auto simp: nb_step_def netwrite_def Let_def kc_def [symmetric] split: if_splits)
next
  case (Nb_printf urg ys)
  define kc where
    "kc = (if NETOBUF - nfrontp (snd kb) < int (length ys) then nb_netflush (Some enc) m kb else kb)"
  have I: "nb_enc_inv enc k0 w kc" using nb_netflush_inv [OF assms(1), of m] assms(1) by (simp add: kc_def)
  obtain k b where kc: "kc = (k, b)" by fastforce
  have ok: "nb_ok b" using I by (simp add: kc nb_enc_inv_def)
  have res: "xs = [] \<and> kb' = kb \<or> xs = [] \<and> kb' = kc \<or>
      xs = ys \<and> nfrontp b + int (length ys) \<le> NETOBUF \<and>
      kb' = (k, if urg then (nb_append ys b)\<lparr>neturg := Some (nfrontp (nb_append ys b) - 1)\<rparr> else nb_append ys b)"
    using assms(3) Nb_printf
    by (auto simp: nb_step_def netprintf_ext_def Let_def kc_def [symmetric] kc split: if_splits)
  { assume fit: "nfrontp b + int (length ys) \<le> NETOBUF"
    have A: "nb_enc_inv enc k0 (w @ ys) (k, nb_append ys b)" using I fit by (simp add: kc nb_append_inv)
    have "nb_enc_inv enc k0 (w @ ys)
        (k, (nb_append ys b)\<lparr>neturg := Some (nfrontp (nb_append ys b) - 1)\<rparr>)" if urg
    proof -
      have "nbackp (nb_append ys b) < nfrontp (nb_append ys b) - 1"
        using assms(2) Nb_printf that ok by (auto simp: nb_append_def nb_ok_def)
      then show ?thesis using A nb_urgent_spec [of "nb_append ys b"] by (simp add: nb_enc_inv_def)
    qed
    with A have "nb_enc_inv enc k0 (w @ ys)
      (k, if urg then (nb_append ys b)\<lparr>neturg := Some (nfrontp (nb_append ys b) - 1)\<rparr> else nb_append ys b)"
      by simp
  } with res I assms(1) show ?thesis by auto
next
  case Nb_flush
  then show ?thesis using assms(3) nb_netflush_inv [OF assms(1), of m] by (simp add: nb_step_def)
qed

lemma nb_run_inv:
  "\<lbrakk>nb_enc_inv enc k0 w kb; list_all nb_op_ok ops; nb_run (Some enc) m ops kb = (xs, kb')\<rbrakk>
   \<Longrightarrow> nb_enc_inv enc k0 (w @ xs) kb'"
proof (induction ops arbitrary: w kb xs)
  case Nil
  then show ?case by simp
next
  case (Cons op ops)
  obtain ys kc where s: "nb_step (Some enc) m op kb = (ys, kc)" by (rule prod.exhaust)
  obtain zs where r: "nb_run (Some enc) m ops kc = (zs, kb')" "xs = ys @ zs"
    using Cons.prems(3) s by (auto simp: Let_def split: prod.splits)
  have "nb_enc_inv enc k0 (w @ ys) kc" using nb_step_inv [OF Cons.prems(1) _ s] Cons.prems(2) by simp
  from Cons.IH [OF this _ r(1)] show ?case using Cons.prems(2) r(2) by simp
qed

end

section \<open>Delivery\<close>

definition nb_pending :: "netbuf \<Rightarrow> byte list" where
  "nb_pending b = nb_enc_part b @ nb_plain_part b"


definition demo_netbuf :: netbuf where
  "demo_netbuf = \<lparr>netobuf = (\<lambda>_. 0), nfrontp = 0, nbackp = 0, nclearto = None, neturg = None,
     nb_replies = [Wrote 2, Pty_retry, Wrote 9, Wrote 9], nb_wire = [], nb_died = False\<rparr>"

definition nb_demo_stream :: stinfo where
  "nb_demo_stream = ready_stream [1, 2, 3, 4, 5, 6, 7, 8] [8, 7, 6, 5, 4, 3, 2, 1]"

definition nb_demo_ops :: "nb_op list" where
  "nb_demo_ops = [Nb_write [72, 73, 74], Nb_flush, Nb_printf True [255, 242], Nb_flush, Nb_flush]"


end
