(* ===== verification/NetbufClear.thy ===== *)
theory NetbufClear
  imports NetbufProps
begin

text \<open>
  Clearing the server's output for a TELNET synch: from the boundary of an item, exactly
  the commands that have not been sent are kept; in the middle of an item, or with encrypted
  output waiting, bytes that have been sent are sent again.
\<close>

section \<open>Items\<close>

text \<open>The items of the buffer from an offset on, as the bytes of each; \<open>None\<close> when the last one is not whole.\<close>

function nb_items :: "(int \<Rightarrow> byte) \<Rightarrow> int \<Rightarrow> int \<Rightarrow> byte list list option" where
  "nb_items m front p =
     (if p = front then Some []
      else if p > front then None
      else case nextitem m p of
             None \<Rightarrow> None
           | Some q \<Rightarrow> map_option (\<lambda>its. List.map m [p..q - 1] # its) (nb_items m front q))"
  by auto
termination by (relation "measure (\<lambda>(_, front, p). nat (front - p))") (auto dest!: nextitem_gt)

declare nb_items.simps [simp del]

definition nb_wanted :: "byte list \<Rightarrow> bool" where
  "nb_wanted it = (case it of x # y # _ \<Rightarrow> x = IAC \<and> y \<noteq> EC \<and> y \<noteq> EL | _ \<Rightarrow> False)"

lemma nb_items_step:
  assumes "nb_items m front p = Some its" "p < front"
  obtains q its' where "nextitem m p = Some q" "its = List.map m [p..q - 1] # its'"
    "nb_items m front q = Some its'" "p < q" "q \<le> front"
proof -
  from assms obtain q its' where q: "nextitem m p = Some q" "its = List.map m [p..q - 1] # its'"
      "nb_items m front q = Some its'"
    by (subst (asm) nb_items.simps) (auto split: option.splits)
  have "q \<le> front" using q(3) by (subst (asm) nb_items.simps) (auto split: if_splits)
  with q that nextitem_gt [OF q(1)] show thesis by blast
qed

lemma nb_items_end: "nb_items m front front = Some []"
  by (simp add: nb_items.simps)

lemma nb_items_bytes:
  "nb_items m front p = Some its \<Longrightarrow> p \<le> front \<and> concat its = List.map m [p..front - 1]"
proof (induction m front p arbitrary: its rule: nb_items.induct)
  case (1 m front p)
  show ?case
  proof (cases "p = front")
    case True
    then show ?thesis using "1.prems" by (simp add: nb_items.simps)
  next
    case False
    then have "p < front" using "1.prems" by (subst (asm) nb_items.simps) (auto split: if_splits)
    then obtain q its' where q: "nextitem m p = Some q" "its = List.map m [p..q - 1] # its'"
        "nb_items m front q = Some its'" "p < q" "q \<le> front"
      using nb_items_step [OF "1.prems"] by blast
    have "concat its' = List.map m [q..front - 1]"
      using "1.IH" [OF False _ q(1,3)] \<open>p < front\<close> by simp
    moreover have "[p..front - 1] = [p..q - 1] @ [q..front - 1]"
      using q(4,5) upto_split1 [of p q "front - 1"] by (cases "q = front") auto
    ultimately show ?thesis using q(2) \<open>p < front\<close> by simp
  qed
qed

lemma nb_wanted_item:
  assumes "nextitem m p = Some q" "q \<le> front"
  shows "nb_wanted (List.map m [p..q - 1]) = wewant m front p"
proof (cases "m p = IAC")
  case False
  then have "q = p + 1" using assms(1) by (simp add: nextitem_def)
  then show ?thesis using False by (simp add: nb_wanted_def wewant_def)
next
  case True
  then have "p + 2 \<le> q" using assms(1) by (auto simp: nextitem_def dest: sb_look_gt split: if_splits)
  then have "[p..q - 1] = p # (p + 1) # [p + 1 + 1..q - 1]"
    using upto_rec1 [of p "q - 1"] upto_rec1 [of "p + 1" "q - 1"] by simp
  then show ?thesis using True assms(2) \<open>p + 2 \<le> q\<close> by (auto simp: nb_wanted_def wewant_def)
qed

section \<open>The loops\<close>

text \<open>A run of wanted items is the concatenation of the first ones, and what follows it is not wanted.\<close>

lemma nc_run_items:
  "\<lbrakk>nb_items m front p = Some its; p < front; wewant m front p; nc_run m front p = Some q\<rbrakk> \<Longrightarrow>
   \<exists>its1 its2. its = its1 @ its2 \<and> list_all nb_wanted its1 \<and> its1 \<noteq> [] \<and>
     concat its1 = List.map m [p..q - 1] \<and> nb_items m front q = Some its2 \<and> p < q \<and> q \<le> front"
proof (induction m front p arbitrary: its rule: nc_run.induct)
  case (1 m front p)
  obtain r its' where r: "nextitem m p = Some r" "its = List.map m [p..r - 1] # its'"
      "nb_items m front r = Some its'" "p < r" "r \<le> front"
    using nb_items_step [OF "1.prems"(1,2)] by blast
  have w: "nb_wanted (List.map m [p..r - 1])" using nb_wanted_item [OF r(1,5)] "1.prems"(3) by simp
  show ?case
  proof (cases "wewant m front r")
    case False
    then have "q = r" using "1.prems"(4) r(1) by (simp add: nc_run.simps [of m front p])
    then show ?thesis
      using r w by (intro exI [of _ "[List.map m [p..r - 1]]"] exI [of _ its']) simp
  next
    case True
    then have "nc_run m front r = Some q" "r < front"
      using "1.prems"(4) r(1) by (simp_all add: nc_run.simps [of m front p] wewant_def)
    from "1.IH" [OF r(1) True r(3) this(2) True this(1)] obtain a b where
      ab: "its' = a @ b" "list_all nb_wanted a" "concat a = List.map m [r..q - 1]"
        "nb_items m front q = Some b" "r < q" "q \<le> front" by blast
    have "[p..q - 1] = [p..r - 1] @ [r..q - 1]"
      using r(4) ab(5) upto_split1 [of p r "q - 1"] by simp
    then show ?thesis
      using r(2,4) w ab by (intro exI [of _ "List.map m [p..r - 1] # a"] exI [of _ b]) simp
  qed
qed

lemma nc_run_some: "nb_items m front p = Some its \<Longrightarrow> p < front \<Longrightarrow> \<exists>q. nc_run m front p = Some q"
proof (induction m front p arbitrary: its rule: nc_run.induct)
  case (1 m front p)
  obtain r its' where r: "nextitem m p = Some r" "nb_items m front r = Some its'"
    using nb_items_step [OF "1.prems"] by blast
  show ?case
  proof (cases "wewant m front r")
    case True
    then have "r < front" by (simp add: wewant_def)
    from "1.IH" [OF r(1) True r(2) this] show ?thesis
      using r(1) True by (simp add: nc_run.simps [of m front p])
  next
    case False
    then show ?thesis using r(1) by (simp add: nc_run.simps [of m front p])
  qed
qed

text \<open>The items do not depend on what lies before them.\<close>

lemma sb_look_cong: "(\<And>i. p \<le> i \<Longrightarrow> m i = m' i) \<Longrightarrow> sb_look m p = sb_look m' p"
proof (induction m p rule: sb_look.induct)
  case (1 m p)
  then have "m p = m' p" "m (p + 1) = m' (p + 1)" by simp_all
  with 1 show ?case by (simp add: sb_look.simps [of m p] sb_look.simps [of m' p])
qed

lemma nextitem_cong: "(\<And>i. p \<le> i \<Longrightarrow> m i = m' i) \<Longrightarrow> nextitem m p = nextitem m' p"
  using sb_look_cong [of "p + 2" m m'] by (simp add: nextitem_def)

lemma nb_items_cong:
  "(\<And>i. p \<le> i \<Longrightarrow> m i = m' i) \<Longrightarrow> nb_items m front p = nb_items m' front p"
proof (induction m front p rule: nb_items.induct)
  case (1 m front p)
  have n: "nextitem m p = nextitem m' p" by (rule nextitem_cong) (rule 1(2))
  have IH: "nb_items m front q = nb_items m' front q" if "p \<noteq> front" "\<not> p > front" "nextitem m p = Some q" for q
    using "1.IH" [OF that] 1(2) nextitem_gt [OF that(3)] by simp
  have "List.map m [p..q - 1] = List.map m' [p..q - 1]" for q using 1(2) by simp
  with IH n show ?case
    by (simp add: nb_items.simps [of m front p] nb_items.simps [of m' front p]
        del: map_eq_conv split: option.split)
qed

text \<open>The copying loop: the wanted items, put down from \<open>good\<close> on.\<close>

lemma nc_copy_items:
  "\<lbrakk>nb_items m front p = Some its; good \<le> p\<rbrakk> \<Longrightarrow>
   \<exists>m' g. nc_copy m front good p = Some (m', g) \<and> good \<le> g \<and> g \<le> front \<and>
     List.map m' [good..g - 1] = concat (List.filter nb_wanted its) \<and> (\<forall>i < good. m' i = m i)"
proof (induction "nat (front - p)" arbitrary: m p its good rule: less_induct)
  case less
  show ?case
  proof (cases "p < front")
    case False
    then have "p = front" using nb_items_bytes [OF less.prems(1)] by simp
    then show ?thesis using less.prems by (simp add: nc_copy.simps nb_items_end)
  next
    case True
    obtain q its' where q: "nextitem m p = Some q" "its = List.map m [p..q - 1] # its'"
        "nb_items m front q = Some its'" "p < q" "q \<le> front"
      using nb_items_step [OF less.prems(1) True] by blast
    show ?thesis
    proof (cases "wewant m front p")
      case False
      then have "\<not> nb_wanted (List.map m [p..q - 1])" using nb_wanted_item [OF q(1,5)] by simp
      moreover have "nc_copy m front good p = nc_copy m front good q"
        using True False q(1) by (simp add: nc_copy.simps [of m front good p])
      ultimately show ?thesis
        using less.hyps [OF _ q(3), of good] q less.prems(2) True by simp
    next
      case w: True
      obtain r where r: "nc_run m front p = Some r" using nc_run_some [OF less.prems(1) True] by blast
      from nc_run_items [OF less.prems(1) True w r] obtain a b where
        ab: "its = a @ b" "list_all nb_wanted a" "concat a = List.map m [p..r - 1]"
          "nb_items m front r = Some b" "p < r" "r \<le> front" by blast
      define xs where "xs = List.map m [p..r - 1]"
      define m1 where "m1 = overwrite good xs m"
      have len: "int (length xs) = r - p" using ab(5) by (simp add: xs_def)
      have items: "nb_items m1 front r = Some b"
        using ab(4,5) less.prems(2) len nb_items_cong [of r m1 m front] by (simp add: m1_def overwrite_other)
      then obtain m' g where g: "nc_copy m1 front (good + (r - p)) r = Some (m', g)" "good + (r - p) \<le> g" "g \<le> front"
          "List.map m' [good + (r - p)..g - 1] = concat (List.filter nb_wanted b)"
          "\<forall>i < good + (r - p). m' i = m1 i"
        using less.hyps [OF _ items, of "good + (r - p)"] ab(5) True less.prems(2) by auto
      have xs: "List.map m1 [good..good + (r - p) - 1] = xs"
        using nb_bytes_overwrite [where p = good and xs = xs and m = m] len by (simp add: nb_bytes_def m1_def)
      have "[good..g - 1] = [good..good + (r - p) - 1] @ [good + (r - p)..g - 1]"
        using ab(5) g(2) upto_split1 [of good "good + (r - p)" "g - 1"]
        by (cases "g = good + (r - p)") auto
      moreover have "List.map m' [good..good + (r - p) - 1] = xs"
        unfolding xs [symmetric] by (rule map_cong) (use g(5) in simp_all)
      moreover have "List.filter nb_wanted a = a" using ab(2) by (induction a) auto
      ultimately have "List.map m' [good..g - 1] = concat (List.filter nb_wanted its)"
        using g(4) ab(1,3) by (simp add: xs_def)
      moreover have "nc_copy m front good p = Some (m', g)"
        using True w r g(1) by (simp add: nc_copy.simps [of m front good p] m1_def xs_def)
      moreover have "\<forall>i < good. m' i = m i" using g(5) ab(5) by (simp add: m1_def overwrite_other)
      ultimately show ?thesis using g(2,3) ab(5) by auto
    qed
  qed
qed

text \<open>The search for the boundary finds it when what has been sent is a number of whole items.\<close>

lemma nc_start_boundary:
  "\<lbrakk>nb_items m bk p = Some sent; nb_items m front bk = Some its; bk < front\<rbrakk> \<Longrightarrow> nc_start m bk p = Some bk"
proof (induction m bk p arbitrary: sent rule: nc_start.induct)
  case (1 m bk p)
  show ?case
  proof (cases "p < bk")
    case True
    obtain q its' where "nextitem m p = Some q" "nb_items m bk q = Some its'" "q \<le> bk"
      using nb_items_step [OF "1.prems"(1) True] by blast
    then show ?thesis using "1.IH" [OF _ _ _ "1.prems"(2,3)] by (simp add: nc_start.simps [of m bk p])
  next
    case False
    then have "p = bk" using nb_items_bytes [OF "1.prems"(1)] by simp
    moreover obtain q where "nextitem m bk = Some q" "bk < q"
      using nb_items_step [OF "1.prems"(2,3)] by metis
    ultimately show ?thesis by (simp add: nc_start.simps [of m bk bk])
  qed
qed

section \<open>What is kept\<close>


definition synch_buffer :: netbuf where
  "synch_buffer = demo_netbuf\<lparr>netobuf := overwrite 0 [97, IAC, WILL, 1, 98, IAC, EC, IAC, DO, 24, 99] (\<lambda>_. 0), nfrontp := 11, nbackp := 1\<rparr>"


text \<open>
  \<open>netclear\<close> sends bytes twice. When the first byte of a command has gone out (\<open>write\<close> took
  one byte of WILL ECHO), the command is put back whole, so the peer reads two IACs, a data
  byte 255, in front of it; and when encrypted output is waiting, everything from the start of the
  buffer is sent again, what \<open>write\<close> has already taken included.
\<close>

theorem netclear_sends_again:
  "map_option (\<lambda>b. nb_sent b @ nb_bytes b (nbackp b) (nfrontp b))
     (nb_netclear (snd (snd (nb_run None True [Nb_write [IAC, WILL, 1], Nb_flush]
        ((), demo_netbuf\<lparr>nb_replies := [Wrote 1]\<rparr>))))) =
     Some [IAC, IAC, WILL, 1] \<and>
   map_option (\<lambda>b. (nb_sent b, nb_bytes b (nbackp b) (nfrontp b)))
     (nb_netclear (snd (snd (nb_run (Some (\<lambda>k xs. (List.map ((XOR) 42) xs, k))) True [Nb_write [97, 98, 99], Nb_flush]
        ((), demo_netbuf\<lparr>nb_replies := [Wrote 2]\<rparr>))))) =
     Some ([75, 72], [75, 72, 73])"
  by (rule conjI; code_simp)

end
