(* ===== verification/ClState.thy ===== *)
theory ClState
  imports Encrypt Auth Network
begin

text \<open>
  The state of the telnet client (telnet/telnet) and the small routines its protocol handlers
  call: the option bits of externs.h, the clocks, the output to the network and to the
  terminal, and the terminal mode (terminal.c and \<open>TerminalNewMode\<close> of sys_bsd.c).
  Authentication and encryption are part of the state; everything that goes into \<open>netoring\<close> is
  appended to the log \<open>net_out\<close> of the encryption library.

  The client is built with \<open>AUTHENTICATION\<close>, \<open>ENCRYPTION\<close>, \<open>LINEMODE\<close>, \<open>KLUDGELINEMODE\<close>, \<open>OLD_ENVIRON\<close>
  and \<open>ENV_HACK\<close>, without \<open>TN3270\<close> (telnet/Makefile.in), for POSIX terminals with the C
  library's special characters (no \<open>VSTATUS\<close>). Names that the server's model also has end in \<open>_c\<close>.
\<close>

section \<open>State\<close>

datatype recv_state_c =
  C_DATA | C_IAC | C_WILL | C_WONT | C_DO | C_DONT | C_CR | C_SB | C_SE

text \<open>The indices of \<open>c_cc\<close> that the client uses.\<close>

datatype cc_key =
  VINTR | VQUIT | VERASE | VKILL | VEOF | VSTART | VSTOP | VEOL | VSUSP | VDISCARD | VWERASE
| VREPRINT | VLNEXT

record spc =
  spc_val :: byte
  spc_valp :: "cc_key option"
  spc_flags :: byte
  spc_mylevel :: byte

datatype slc_mode = SLC_IMPORT | SLC_EXPORT | SLC_RVALUE

record env_lst =
  ev_var :: "byte list"
  ev_value :: "byte list"
  ev_export :: bool
  ev_welldefined :: bool

record clocks_c =
  k_system :: int
  k_echotoggle :: int
  k_modenegotiated :: int
  k_gotDM :: int

text \<open>
  \<open>c_sent\<close> counts the bytes that have left \<open>netoring\<close>, so what the ring holds is the rest of the
  log; \<open>ttyo\<close> is what \<open>ttyoring\<close> holds and \<open>tty_out\<close> what the terminal has taken. \<open>envlist\<close> is
  the list behind \<open>envlisthead\<close>. \<open>tnames\<close> and \<open>tnext\<close> are the array of terminal names and the position
  in it. \<open>win_size\<close> is what the terminal answers to \<open>TIOCGWINSZ\<close>, \<open>setupterm\<close> the terminal
  library's entry for a name, and \<open>ended\<close> is set when the process has ended: by
  \<open>ExitString\<close>, or because \<open>env_opt_add\<close> calls itself without end and the stack overflows.
\<close>

record tc =
  options_c :: "byte \<Rightarrow> byte"
  do_dont_resp_c :: "byte \<Rightarrow> byte"
  will_wont_resp_c :: "byte \<Rightarrow> byte"
  autologin :: bool
  flushout :: bool
  autoflush :: bool
  autosynch :: bool
  SYNCHing_c :: bool
  crmod :: bool
  crlf :: bool
  localflow :: bool
  restartany_c :: int
  localchars :: bool
  dontlecho :: bool
  flushline :: bool
  kludgelinemode :: bool
  linemode :: byte
  globalmode :: "32 word"
  prevmode :: "32 word"
  enc_passwd :: bool
  clk_c :: clocks_c
  escape :: byte
  rlogin :: byte
  echoc :: byte
  bol :: bool
  local :: bool
  new_tc :: "cc_key \<Rightarrow> byte"
  old_tc :: "cc_key \<Rightarrow> byte"
  spc_data :: "byte \<Rightarrow> spc"
  slc_mode :: slc_mode
  telopt_environ :: byte
  env_auto :: bool
  old_env_var :: byte
  old_env_value :: byte
  envlist :: "env_lst list"
  setupterm :: "byte list \<Rightarrow> byte list option"
  resettermname :: bool
  tnames :: "byte list list"
  tnext :: nat
  unknown :: "byte list"
  speeds_c :: "int \<times> int"
  win_size :: "(int \<times> int) option"
  telrcv_state :: recv_state_c
  subbuffer_c :: "int \<Rightarrow> byte"
  subpointer_c :: int
  subend_c :: int
  ttyo :: "byte list"
  tty_out :: "byte list"
  c_sent :: nat
  oob_replies_c :: "bool list"
  ended :: bool
  send_krb :: "authenticator \<Rightarrow> send_calls"
  auth_c :: auth_state

text \<open>
  The client's static data as \<open>init_telnet\<close>, \<open>TerminalSaveState\<close> and the initialisers leave them, with automatic login (option -a),
  the escape character Ctrl-] and no rlogin escape; \<open>cc\<close> are the special characters of the terminal and
  \<open>es\<close> the variables of \<open>env_init\<close>.
\<close>

definition tc_boot :: "(cc_key \<Rightarrow> byte) \<Rightarrow> env_lst list \<Rightarrow> auth_state \<Rightarrow> tc" where
  "tc_boot cc es a =
     \<lparr>options_c = (\<lambda>_. 0), do_dont_resp_c = (\<lambda>_. 0), will_wont_resp_c = (\<lambda>_. 0), autologin = True,
      flushout = False, autoflush = True, autosynch = False, SYNCHing_c = False, crmod = False, crlf = False,
      localflow = False, restartany_c = - 1, localchars = False, dontlecho = False, flushline = True,
      kludgelinemode = True, linemode = 0, globalmode = 0, prevmode = 0, enc_passwd = False,
      clk_c = \<lparr>k_system = 0, k_echotoggle = 0, k_modenegotiated = 0, k_gotDM = 0\<rparr>,
      escape = 29, rlogin = 0, echoc = 5, bol = True, local = False, new_tc = cc, old_tc = cc,
      spc_data = (\<lambda>_. \<lparr>spc_val = 0, spc_valp = None, spc_flags = 0, spc_mylevel = 0\<rparr>),
      slc_mode = SLC_EXPORT, telopt_environ = TELOPT_NEW_ENVIRON, env_auto = True,
      old_env_var = OLD_ENV_VAR, old_env_value = OLD_ENV_VALUE, envlist = es, setupterm = (\<lambda>_. None),
      resettermname = True, tnames = [], tnext = 0, unknown = [], speeds_c = (9600, 9600), win_size = Some (24, 80),
      telrcv_state = C_DATA, subbuffer_c = (\<lambda>_. 0), subpointer_c = 0, subend_c = 0, ttyo = [], tty_out = [],
      c_sent = 0, oob_replies_c = [], ended = False,
      send_krb = (\<lambda>_. \<lparr>s_cc_default = 1, s_sname = 0, s_get_principal = 0, s_get_credentials = 0,
        s_con_init = 0, s_mk_req = 0, s_mk_req_data = [], s_subkey = None, s_cred_key = (False, [])\<rparr>),
      auth_c = a\<rparr>"

section \<open>The network side\<close>

definition tc_enc :: "(enc_state \<Rightarrow> enc_state) \<Rightarrow> tc \<Rightarrow> tc" where
  "tc_enc f s = s\<lparr>auth_c := (auth_c s)\<lparr>enc := f (enc (auth_c s))\<rparr>\<rparr>"

text \<open>The bytes of a call: the client's library has only \<open>net_write\<close>, and the mark of a synch.\<close>

fun event_bytes :: "net_event \<Rightarrow> byte list" where
  "event_bytes (Net_write xs) = xs"
| "event_bytes (Net_urgent xs) = xs"
| "event_bytes e = []"

definition c_out :: "tc \<Rightarrow> net_event list" where "c_out s = net_out (enc (auth_c s))"

definition c_bytes :: "tc \<Rightarrow> byte list" where "c_bytes s = concat (List.map event_bytes (c_out s))"

text \<open>\<open>NETADD\<close>, \<open>NET2ADD\<close> and \<open>ring_supply_data\<close>; \<open>NETROOM\<close> is what is free of \<open>netobuf\<close>.\<close>

definition net_add :: "byte list \<Rightarrow> tc \<Rightarrow> tc" where
  "net_add xs = tc_enc (net_write xs)"

definition NETROOM :: "tc \<Rightarrow> int" where
  "NETROOM s = 2 * 65535 - (int (length (c_bytes s)) - int (c_sent s))"

section \<open>The terminal side\<close>

definition TTY_BUFSIZ :: int where "TTY_BUFSIZ = 2 * 8192"

definition TTYROOM :: "tc \<Rightarrow> int" where "TTYROOM s = TTY_BUFSIZ - int (length (ttyo s))"

definition TTYADD :: "byte \<Rightarrow> tc \<Rightarrow> tc" where
  "TTYADD c s = (if SYNCHing_c s \<or> flushout s then s else s\<lparr>ttyo := ttyo s @ [c]\<rparr>)"

text \<open>
  \<open>ttyflush\<close> until nothing is left: the output is dropped or written. (The code waits for the
  terminal in between; here the terminal takes everything in the end.)
\<close>

definition ttyflush_all :: "bool \<Rightarrow> tc \<Rightarrow> tc" where
  "ttyflush_all dropped s = s\<lparr>ttyo := [], tty_out := (if dropped then tty_out s else tty_out s @ ttyo s)\<rparr>"

section \<open>Option states and clocks\<close>

definition opt_bit_c :: "byte \<Rightarrow> byte \<Rightarrow> tc \<Rightarrow> bool" where
  "opt_bit_c b opt s = (options_c s opt AND b \<noteq> 0)"

definition my_state_is_do_c :: "byte \<Rightarrow> tc \<Rightarrow> bool" where "my_state_is_do_c = opt_bit_c 4"
definition my_state_is_will_c :: "byte \<Rightarrow> tc \<Rightarrow> bool" where "my_state_is_will_c = opt_bit_c 1"
definition my_want_state_is_do_c :: "byte \<Rightarrow> tc \<Rightarrow> bool" where "my_want_state_is_do_c = opt_bit_c 8"
definition my_want_state_is_will_c :: "byte \<Rightarrow> tc \<Rightarrow> bool" where "my_want_state_is_will_c = opt_bit_c 2"

definition set_opt_c :: "byte \<Rightarrow> byte \<Rightarrow> tc \<Rightarrow> tc" where
  "set_opt_c b opt s = s\<lparr>options_c := (options_c s)(opt := options_c s opt OR b)\<rparr>"

definition clear_opt_c :: "byte \<Rightarrow> byte \<Rightarrow> tc \<Rightarrow> tc" where
  "clear_opt_c b opt s = s\<lparr>options_c := (options_c s)(opt := options_c s opt AND NOT b)\<rparr>"

definition set_my_state_do_c :: "byte \<Rightarrow> tc \<Rightarrow> tc" where "set_my_state_do_c = set_opt_c 4"
definition set_my_state_will_c :: "byte \<Rightarrow> tc \<Rightarrow> tc" where "set_my_state_will_c = set_opt_c 1"
definition set_my_want_state_do_c :: "byte \<Rightarrow> tc \<Rightarrow> tc" where "set_my_want_state_do_c = set_opt_c 8"
definition set_my_want_state_will_c :: "byte \<Rightarrow> tc \<Rightarrow> tc" where "set_my_want_state_will_c = set_opt_c 2"
definition set_my_state_dont_c :: "byte \<Rightarrow> tc \<Rightarrow> tc" where "set_my_state_dont_c = clear_opt_c 4"
definition set_my_state_wont_c :: "byte \<Rightarrow> tc \<Rightarrow> tc" where "set_my_state_wont_c = clear_opt_c 1"
definition set_my_want_state_dont_c :: "byte \<Rightarrow> tc \<Rightarrow> tc" where "set_my_want_state_dont_c = clear_opt_c 8"
definition set_my_want_state_wont_c :: "byte \<Rightarrow> tc \<Rightarrow> tc" where "set_my_want_state_wont_c = clear_opt_c 2"

definition upd_do_resp_c :: "byte \<Rightarrow> (byte \<Rightarrow> byte) \<Rightarrow> tc \<Rightarrow> tc" where
  "upd_do_resp_c opt f s = s\<lparr>do_dont_resp_c := (do_dont_resp_c s)(opt := f (do_dont_resp_c s opt))\<rparr>"

definition upd_will_resp_c :: "byte \<Rightarrow> (byte \<Rightarrow> byte) \<Rightarrow> tc \<Rightarrow> tc" where
  "upd_will_resp_c opt f s = s\<lparr>will_wont_resp_c := (will_wont_resp_c s)(opt := f (will_wont_resp_c s opt))\<rparr>"

text \<open>\<open>settimer(x)\<close> stores the system clock in \<open>x\<close> and then advances it.\<close>

definition settimer_c :: "(int \<Rightarrow> clocks_c \<Rightarrow> clocks_c) \<Rightarrow> tc \<Rightarrow> tc" where
  "settimer_c store s =
     s\<lparr>clk_c := (store (k_system (clk_c s)) (clk_c s))\<lparr>k_system := k_system (clk_c s) + 1\<rparr>\<rparr>"

section \<open>Terminal modes\<close>

definition mode_if :: "bool \<Rightarrow> 32 word \<Rightarrow> 32 word" where
  "mode_if b m = (if b then m else 0)"

definition getconnmode :: "tc \<Rightarrow> 32 word" where
  "getconnmode s =
     (let mode = mode_if (\<not> my_want_state_is_do_c TELOPT_ECHO s) MODE_ECHO OR
                 mode_if (localflow s) MODE_FLOW OR
                 mode_if (my_want_state_is_will_c TELOPT_BINARY s) MODE_INBIN OR
                 mode_if (my_want_state_is_do_c TELOPT_BINARY s) MODE_OUTBIN
      in if kludgelinemode s then
           if \<not> my_want_state_is_do_c TELOPT_SGA s then
             let mode = mode OR ucast MODE_TRAPSIG OR ucast MODE_EDIT
             in if dontlecho s \<and> k_echotoggle (clk_c s) > k_modenegotiated (clk_c s)
                then mode AND NOT MODE_ECHO else mode
           else mode
         else if my_want_state_is_will_c TELOPT_LINEMODE s then mode OR ucast (linemode s)
         else mode)"

text \<open>
  \<open>TerminalNewMode\<close>, without the settings it gives to the terminal: the mode is recorded, and
  when it is a new one pending output is written or dropped before it takes effect.
\<close>

definition TerminalNewMode :: "32 word \<Rightarrow> tc \<Rightarrow> tc" where
  "TerminalNewMode f s =
     (let s' = s\<lparr>globalmode := f AND NOT MODE_FORCE\<rparr>
      in if prevmode s' = f then s'
         else (ttyflush_all (SYNCHing_c s' \<or> flushout s') s')
                \<lparr>prevmode := f AND NOT MODE_FORCE, localchars := (f AND ucast MODE_TRAPSIG \<noteq> 0)\<rparr>)"

definition setconnmode :: "bool \<Rightarrow> tc \<Rightarrow> tc" where
  "setconnmode force s =
     (let newmode = getconnmode s OR mode_if force MODE_FORCE;
          s = TerminalNewMode newmode s
      in if newmode AND (MODE_ECHO OR ucast MODE_EDIT) = ucast MODE_EDIT then
           if my_want_state_is_will_c TELOPT_ENCRYPT s \<and> \<not> enc_passwd s \<and> encrypt_output (enc (auth_c s)) = None
           then (tc_enc (encrypt_request_start []) s)\<lparr>enc_passwd := True\<rparr>
           else s
         else if enc_passwd s then (tc_enc encrypt_request_end s)\<lparr>enc_passwd := False\<rparr>
         else s)"

definition setcommandmode :: "tc \<Rightarrow> tc" where
  "setcommandmode = TerminalNewMode (- 1)"

end
