(* ===== verification/ClEnv.thy ===== *)
theory ClEnv
  imports ClState
begin

text \<open>
  The telnet client's environment: the list of variables (commands.c) and the answer to the
  server's request for them (\<open>env_opt\<close> and its helpers in telnet.c).
\<close>

section \<open>The list\<close>

definition opt_welldefined :: "byte list \<Rightarrow> bool" where
  "opt_welldefined ep =
     (ep \<in> c_string ` {''USER'', ''DISPLAY'', ''PRINTER'', ''SYSTEMTYPE'', ''JOB'', ''ACCT''})"

fun env_find :: "byte list \<Rightarrow> env_lst list \<Rightarrow> env_lst option" where
  "env_find var [] = None"
| "env_find var (ep # es) = (if ev_var ep = var then Some ep else env_find var es)"

text \<open>A change of the first entry of a name.\<close>

fun env_change :: "byte list \<Rightarrow> (env_lst \<Rightarrow> env_lst) \<Rightarrow> env_lst list \<Rightarrow> env_lst list" where
  "env_change var f [] = []"
| "env_change var f (ep # es) = (if ev_var ep = var then f ep # es else ep # env_change var f es)"

definition env_define :: "byte list \<Rightarrow> byte list \<Rightarrow> env_lst list \<Rightarrow> env_lst list" where
  "env_define var v es =
     (let ep = \<lparr>ev_var = var, ev_value = v, ev_export = True, ev_welldefined = opt_welldefined var\<rparr>
      in if env_find var es \<noteq> None then env_change var (\<lambda>_. ep) es else ep # es)"

fun env_undefine :: "byte list \<Rightarrow> env_lst list \<Rightarrow> env_lst list" where
  "env_undefine var [] = []"
| "env_undefine var (ep # es) = (if ev_var ep = var then es else ep # env_undefine var es)"

definition env_export :: "byte list \<Rightarrow> env_lst list \<Rightarrow> env_lst list" where
  "env_export var = env_change var (\<lambda>ep. ep\<lparr>ev_export := True\<rparr>)"

definition env_unexport :: "byte list \<Rightarrow> env_lst list \<Rightarrow> env_lst list" where
  "env_unexport var = env_change var (\<lambda>ep. ep\<lparr>ev_export := False\<rparr>)"

definition env_getvalue :: "byte list \<Rightarrow> env_lst list \<Rightarrow> byte list option" where
  "env_getvalue var es = map_option ev_value (env_find var es)"

definition env_is_exported :: "byte list \<Rightarrow> env_lst list \<Rightarrow> bool" where
  "env_is_exported var es = (case env_find var es of Some ep \<Rightarrow> ev_export ep | None \<Rightarrow> False)"

text \<open>What \<open>env_default(0, w)\<close> returns one after the other, after \<open>env_default(1, w)\<close>.\<close>

definition env_default :: "bool \<Rightarrow> env_lst list \<Rightarrow> byte list list" where
  "env_default w es = List.map ev_var (List.filter (\<lambda>ep. ev_export ep \<and> ev_welldefined ep = w) es)"

text \<open>
  \<open>env_init\<close>: the variables of the process, not exported; a local DISPLAY gets the name of the
  host, USER is taken from LOGNAME, and DISPLAY and PRINTER are exported.
\<close>

fun env_environ :: "byte list list \<Rightarrow> env_lst list \<Rightarrow> env_lst list" where
  "env_environ [] es = es"
| "env_environ (epp # rest) es =
     (if 61 \<in> set epp
      then let var = takeWhile (\<lambda>c. c \<noteq> 61) epp; v = drop 1 (dropWhile (\<lambda>c. c \<noteq> 61) epp)
           in env_environ rest (env_unexport var (env_define var v es))
      else env_environ rest es)"

definition local_display :: "byte list \<Rightarrow> bool" where
  "local_display v = (take 1 v = c_string '':'' \<or> take 5 v = c_string ''unix:'')"

definition env_init :: "byte list list \<Rightarrow> byte list \<Rightarrow> env_lst list \<Rightarrow> env_lst list" where
  "env_init environ hbuf es =
     (let es = env_environ environ es;
          es = (case env_getvalue (c_string ''DISPLAY'') es of
                  Some v \<Rightarrow>
                    if local_display v
                    then env_change (c_string ''DISPLAY'')
                           (\<lambda>ep. ep\<lparr>ev_value := take 256 hbuf @ dropWhile (\<lambda>c. c \<noteq> 58) (ev_value ep)\<rparr>) es
                    else es
                | None \<Rightarrow> es);
          es = (case (env_find (c_string ''USER'') es, env_getvalue (c_string ''LOGNAME'') es) of
                  (None, Some v) \<Rightarrow> env_unexport (c_string ''USER'') (env_define (c_string ''USER'') v es)
                | _ \<Rightarrow> es)
      in env_export (c_string ''PRINTER'') (env_export (c_string ''DISPLAY'') es))"

section \<open>The reply\<close>

text \<open>A reply under construction: what has been written to \<open>opt_reply\<close>, and its allocated size.\<close>

type_synonym opt_reply = "byte list \<times> int"

definition OPT_REPLY_SIZE :: int where "OPT_REPLY_SIZE = 256"

definition env_opt_start :: "tc \<Rightarrow> opt_reply" where
  "env_opt_start s = ([IAC, SB, telopt_environ s, TELQUAL_IS], OPT_REPLY_SIZE)"

definition env_opt_start_info :: "tc \<Rightarrow> opt_reply" where
  "env_opt_start_info s = ([IAC, SB, telopt_environ s, TELQUAL_INFO], OPT_REPLY_SIZE)"

definition env_byte :: "byte \<Rightarrow> byte list" where
  "env_byte c =
     (if c = IAC then [IAC, c]
      else if c = NEW_ENV_VAR \<or> c = NEW_ENV_VALUE \<or> c = ENV_ESC \<or> c = ENV_USERVAR then [ENV_ESC, c]
      else [c])"

definition env_var_code :: "tc \<Rightarrow> byte list \<Rightarrow> byte" where
  "env_var_code s ep =
     (if opt_welldefined ep
      then (if telopt_environ s = TELOPT_OLD_ENVIRON then old_env_var s else NEW_ENV_VAR)
      else ENV_USERVAR)"

definition env_value_code :: "tc \<Rightarrow> byte" where
  "env_value_code s = (if telopt_environ s = TELOPT_OLD_ENVIRON then old_env_value s else NEW_ENV_VALUE)"

definition env_item :: "tc \<Rightarrow> byte list \<Rightarrow> byte list" where
  "env_item s ep =
     env_var_code s ep # concat (List.map env_byte ep) @
     (case env_getvalue ep (envlist s) of
        Some vp \<Rightarrow> env_value_code s # concat (List.map env_byte vp)
      | None \<Rightarrow> [])"

definition env_add_one :: "tc \<Rightarrow> byte list \<Rightarrow> opt_reply \<Rightarrow> opt_reply" where
  "env_add_one s ep r =
     (let vlen = (case env_getvalue ep (envlist s) of Some vp \<Rightarrow> int (length vp) | None \<Rightarrow> 0);
          elen = 2 * vlen + 2 * int (length ep) + 6
      in (fst r @ env_item s ep, if snd r - int (length (fst r)) < elen then snd r + elen else snd r))"

text \<open>
  A request without a name (\<open>NULL\<close> or the empty string) asks for all exported variables, the
  user's first. The code calls itself for each of them, so a variable whose name is empty starts the
  same list again, without end: \<open>None\<close>.
\<close>

definition env_all :: "tc \<Rightarrow> byte list list" where
  "env_all s = env_default False (envlist s) @ env_default True (envlist s)"

definition env_opt_add :: "tc \<Rightarrow> byte list \<Rightarrow> opt_reply \<Rightarrow> opt_reply option" where
  "env_opt_add s ep r =
     (if ep = [] then (if [] \<in> set (env_all s) then None else Some (fold (env_add_one s) (env_all s) r))
      else Some (env_add_one s ep r))"

definition env_opt_end :: "bool \<Rightarrow> opt_reply \<Rightarrow> tc \<Rightarrow> tc" where
  "env_opt_end emptyok r s =
     (let len = int (length (fst r)) + 2
      in if emptyok \<or> len > 6
         then (if NETROOM s > len then net_add (fst r @ [IAC, SE]) s else s)
         else s)"

section \<open>Requests\<close>

text \<open>
  The names of a request, read from the sub-option buffer: \<open>ep\<close> is the name that is being
  collected. The code unescapes in place, behind what it still has to read, and the name ends at its first NUL. An old server's
  VAR confirms the numbers of VAR and VALUE.
\<close>

definition env_confirm :: "byte \<Rightarrow> tc \<Rightarrow> tc" where
  "env_confirm c s =
     (if c = OLD_ENV_VAR \<and> telopt_environ s = TELOPT_OLD_ENVIRON \<and> env_auto s
      then s\<lparr>old_env_var := OLD_ENV_VAR, old_env_value := OLD_ENV_VALUE\<rparr> else s)"

definition env_add_name :: "tc \<Rightarrow> byte list option \<Rightarrow> opt_reply option \<Rightarrow> opt_reply option" where
  "env_add_name s ep r =
     (case (ep, r) of
        (Some n, Some r) \<Rightarrow> env_opt_add s (takeWhile (\<lambda>c. c \<noteq> 0) n) r
      | (None, r) \<Rightarrow> r
      | _ \<Rightarrow> None)"

function env_send_loop ::
  "(int \<Rightarrow> byte) \<Rightarrow> int \<Rightarrow> int \<Rightarrow> byte list option \<Rightarrow> tc \<times> opt_reply option \<Rightarrow> tc \<times> opt_reply option" where
  "env_send_loop m e i ep (s, r) =
     (if i < e then
        if m i = OLD_ENV_VAR \<or> m i = OLD_ENV_VALUE \<or> m i = ENV_USERVAR then
          let s = env_confirm (m i) s in env_send_loop m e (i + 1) (Some []) (s, env_add_name s ep r)
        else if m i = ENV_ESC then
          env_send_loop m e (i + 2) (map_option (\<lambda>n. n @ [m (i + 1)]) ep) (s, r)
        else env_send_loop m e (i + 1) (map_option (\<lambda>n. n @ [m i]) ep) (s, r)
      else (s, env_add_name s ep r))"
  by auto
termination by (relation "measure (\<lambda>(_, e, i, _). nat (e - i))") auto

declare env_send_loop.simps [simp del]

text \<open>\<open>env_opt\<close> on the buffer behind the option's number.\<close>

definition env_opt :: "tc \<Rightarrow> tc" where
  "env_opt s =
     (if subbuffer_c s 1 = TELQUAL_SEND then
        let r = env_opt_start s; len = subend_c s - 1;
            (s, r) = (if len = 1 then (s, env_opt_add s [] r)
                      else env_send_loop (subbuffer_c s) (subend_c s) 2 None (s, Some r))
        in case r of None \<Rightarrow> s\<lparr>ended := True\<rparr> | Some r \<Rightarrow> env_opt_end True r s
      else s)"

text \<open>The user's command to send a variable.\<close>

definition env_send :: "byte list \<Rightarrow> tc \<Rightarrow> tc" where
  "env_send var s =
     (if \<not> my_state_is_will_c TELOPT_NEW_ENVIRON s \<and> \<not> my_state_is_will_c TELOPT_OLD_ENVIRON s then s
      else case env_find var (envlist s) of
             None \<Rightarrow> s
           | Some ep \<Rightarrow>
               (case env_opt_add s (ev_var ep) (env_opt_start_info s) of
                  None \<Rightarrow> s\<lparr>ended := True\<rparr>
                | Some r \<Rightarrow> env_opt_end False r s))"

end
