(* ===== verification/ClSlc.thy ===== *)
theory ClSlc
  imports ClState
begin

text \<open>
  The telnet client's line mode: the negotiation of the special characters (\<open>slc_*\<close> of
  telnet.c) and of the editing mode (\<open>lm_*\<close>).
\<close>

section \<open>The characters of the terminal\<close>

text \<open>
  \<open>tcval\<close>, without \<open>VSTATUS\<close>: where the character of a function is kept. externs.h defines
  \<open>termForw2Char\<close> as \<open>VEOL\<close>, as \<open>termForw1Char\<close>.
\<close>

definition tcval :: "byte \<Rightarrow> cc_key option" where
  "tcval f =
     (if f = SLC_IP then Some VINTR
      else if f = SLC_ABORT then Some VQUIT
      else if f = SLC_EOF then Some VEOF
      else if f = SLC_EC then Some VERASE
      else if f = SLC_EL then Some VKILL
      else if f = SLC_XON then Some VSTART
      else if f = SLC_XOFF then Some VSTOP
      else if f = SLC_FORW1 then Some VEOL
      else if f = SLC_FORW2 then Some VEOL
      else if f = SLC_AO then Some VDISCARD
      else if f = SLC_SUSP then Some VSUSP
      else if f = SLC_EW then Some VWERASE
      else if f = SLC_RP then Some VREPRINT
      else if f = SLC_LNEXT then Some VLNEXT
      else None)"

definition VDISABLE :: byte where [simp]: "VDISABLE = 0"

definition TerminalDefaultChars :: "tc \<Rightarrow> tc" where
  "TerminalDefaultChars s = s\<lparr>new_tc := old_tc s\<rparr>"

definition upd_spc :: "byte \<Rightarrow> (spc \<Rightarrow> spc) \<Rightarrow> tc \<Rightarrow> tc" where
  "upd_spc f g s = s\<lparr>spc_data := (spc_data s)(f := g (spc_data s f))\<rparr>"

text \<open>The functions 1 to \<open>NSLC\<close>, in order.\<close>

definition slc_funcs :: "byte list" where
  "slc_funcs = [1, 2, 3, 4, 5, 6, 7, 8, 9, 10, 11, 12, 13, 14, 15, 16, 17, 18]"

section \<open>The reply\<close>

definition slc_start_reply :: "byte list" where
  "slc_start_reply = [IAC, SB, TELOPT_LINEMODE, LM_SLC]"

definition twice_iac :: "byte \<Rightarrow> byte list" where
  "twice_iac c = (if c = IAC then [c, IAC] else [c])"

definition slc_add_reply :: "byte \<Rightarrow> byte \<Rightarrow> byte \<Rightarrow> byte list \<Rightarrow> byte list" where
  "slc_add_reply func flags v r =
     (if length r + 6 > 128 then r else r @ twice_iac func @ twice_iac flags @ twice_iac v)"

definition slc_end_reply :: "byte list \<Rightarrow> tc \<Rightarrow> tc" where
  "slc_end_reply r s =
     (if length r \<le> 4 \<or> length r + 2 > 128 then s
      else if NETROOM s > int (length r) + 2 then net_add (r @ [IAC, SE]) s else s)"

section \<open>Export and import\<close>

fun slc_update_loop :: "byte list \<Rightarrow> bool \<Rightarrow> tc \<Rightarrow> bool \<times> tc" where
  "slc_update_loop [] need s = (need, s)"
| "slc_update_loop (f # fs) need s =
     (if spc_flags (spc_data s f) AND SLC_ACK = 0 then slc_update_loop fs need s
      else
        let s = upd_spc f (\<lambda>p. p\<lparr>spc_flags := spc_flags p AND NOT SLC_ACK\<rparr>) s; p = spc_data s f
        in case spc_valp p of
             None \<Rightarrow> slc_update_loop fs need s
           | Some k \<Rightarrow>
               if new_tc s k \<noteq> spc_val p
               then slc_update_loop fs True (s\<lparr>new_tc := (new_tc s)(k := spc_val p)\<rparr>)
               else slc_update_loop fs need s)"

definition slc_update :: "tc \<Rightarrow> bool \<times> tc" where
  "slc_update = slc_update_loop slc_funcs False"

text \<open>The entry of a function when its character is offered: the level is set from the old value.\<close>

definition spc_offer :: "(cc_key \<Rightarrow> byte) \<Rightarrow> spc \<Rightarrow> spc" where
  "spc_offer cc p =
     (let p = p\<lparr>spc_flags := (if spc_val p = VDISABLE then SLC_NOSUPPORT else spc_mylevel p)\<rparr>
      in case spc_valp p of Some k \<Rightarrow> p\<lparr>spc_val := cc k\<rparr> | None \<Rightarrow> p)"

fun slc_export_loop :: "byte list \<Rightarrow> byte list \<Rightarrow> tc \<Rightarrow> byte list \<times> tc" where
  "slc_export_loop [] r s = (r, s)"
| "slc_export_loop (f # fs) r s =
     (if spc_mylevel (spc_data s f) \<noteq> SLC_NOSUPPORT
      then let s = upd_spc f (spc_offer (new_tc s)) s; p = spc_data s f
           in slc_export_loop fs (slc_add_reply f (spc_flags p) (spc_val p) r) s
      else slc_export_loop fs r s)"

definition slc_export :: "tc \<Rightarrow> tc" where
  "slc_export s =
     (let (r, s) = slc_export_loop slc_funcs slc_start_reply (TerminalDefaultChars s)
      in setconnmode True (snd (slc_update (slc_end_reply r s))))"

definition slc_import :: "bool \<Rightarrow> tc \<Rightarrow> tc" where
  "slc_import def s =
     (if NETROOM s > 9
      then net_add [IAC, SB, TELOPT_LINEMODE, LM_SLC, 0, if def then SLC_DEFAULT else SLC_VARIABLE, 0, IAC, SE] s
      else s)"

definition slc_mode_export :: "tc \<Rightarrow> tc" where
  "slc_mode_export s =
     (let s = s\<lparr>slc_mode := SLC_EXPORT\<rparr>
      in if my_state_is_will_c TELOPT_LINEMODE s then slc_export s else s)"

definition slc_mode_import :: "bool \<Rightarrow> tc \<Rightarrow> tc" where
  "slc_mode_import def s =
     (let s = s\<lparr>slc_mode := (if def then SLC_IMPORT else SLC_RVALUE)\<rparr>
      in if my_state_is_will_c TELOPT_LINEMODE s then slc_import def s else s)"

text \<open>The initial entry of a function: those of the first list have a character of their own.\<close>

definition slc_supported :: "byte list" where
  "slc_supported =
     [SLC_SYNCH, SLC_AO, SLC_AYT, SLC_ABORT, SLC_EOF, SLC_SUSP, SLC_EC, SLC_EL, SLC_EW, SLC_RP, SLC_LNEXT,
      SLC_XON, SLC_XOFF, SLC_FORW1, SLC_FORW2, SLC_IP]"

definition slc_flush_flags :: "byte \<Rightarrow> byte" where
  "slc_flush_flags f =
     (if f = SLC_ABORT \<or> f = SLC_IP then SLC_FLUSHIN OR SLC_FLUSHOUT
      else if f = SLC_SUSP then SLC_FLUSHIN else 0)"

definition spc_init :: "(cc_key \<Rightarrow> byte) \<Rightarrow> byte \<Rightarrow> spc" where
  "spc_init cc f =
     (if f \<in> set slc_supported then
        (case tcval f of
           Some k \<Rightarrow> \<lparr>spc_val = cc k, spc_valp = Some k, spc_flags = SLC_NOSUPPORT,
                      spc_mylevel = SLC_VARIABLE OR slc_flush_flags f\<rparr>
         | None \<Rightarrow> \<lparr>spc_val = 0, spc_valp = None, spc_flags = SLC_NOSUPPORT, spc_mylevel = SLC_DEFAULT\<rparr>)
      else \<lparr>spc_val = 0, spc_valp = None, spc_flags = SLC_NOSUPPORT, spc_mylevel = SLC_NOSUPPORT\<rparr>)"

definition slc_init :: "tc \<Rightarrow> tc" where
  "slc_init s =
     (let s = s\<lparr>localchars := True, spc_data := spc_init (new_tc s)\<rparr>
      in if slc_mode s = SLC_EXPORT then slc_export s else slc_import True s)"

section \<open>What the server asks for\<close>

text \<open>One triplet: the new entry, and whether it is answered. \<open>fl\<close> are the flags, \<open>v\<close> the value.\<close>

definition slc_flags_fixed :: "byte \<Rightarrow> byte" where
  "slc_flags_fixed fl =
     (if fl AND (SLC_LEVELBITS OR SLC_ACK) = SLC_DEFAULT OR SLC_ACK then fl AND NOT SLC_ACK else fl)"

definition slc_triplet :: "byte \<Rightarrow> byte \<Rightarrow> spc \<Rightarrow> bool \<times> spc" where
  "slc_triplet fl v p =
     (let level = fl AND (SLC_LEVELBITS OR SLC_ACK)
      in if v = spc_val p \<and> level AND SLC_LEVELBITS = spc_flags p AND SLC_LEVELBITS then (False, p)
         else
           let fl = slc_flags_fixed fl
           in if level = (spc_flags p AND SLC_LEVELBITS) OR SLC_ACK
              then (False, p\<lparr>spc_val := v, spc_flags := fl\<rparr>)
              else
                let level = level AND NOT SLC_ACK;
                    p = (if level \<le> spc_mylevel p AND SLC_LEVELBITS
                         then p\<lparr>spc_flags := fl OR SLC_ACK, spc_val := v\<rparr> else p);
                    p = (if level = SLC_DEFAULT
                         then p\<lparr>spc_flags := (if spc_mylevel p AND SLC_LEVELBITS \<noteq> SLC_DEFAULT
                                               then spc_mylevel p else SLC_NOSUPPORT)\<rparr>
                         else p)
                in (True, p))"

fun slc_loop :: "byte list \<Rightarrow> byte list \<Rightarrow> tc \<Rightarrow> byte list \<times> tc" where
  "slc_loop (f # fl # v # rest) r s =
     (if f = 0 then slc_loop rest r s
      else if f > NSLC then
        slc_loop rest (if fl AND SLC_LEVELBITS \<noteq> SLC_NOSUPPORT then slc_add_reply f SLC_NOSUPPORT 0 r else r) s
      else
        let (ans, p) = slc_triplet fl v (spc_data s f); s = upd_spc f (\<lambda>_. p) s
        in slc_loop rest (if ans then slc_add_reply f (spc_flags p) (spc_val p) r else r) s)"
| "slc_loop _ r s = (r, s)"

definition slc :: "byte list \<Rightarrow> tc \<Rightarrow> tc" where
  "slc cp s =
     (let (r, s) = slc_loop cp slc_start_reply s; (need, s) = slc_update (slc_end_reply r s)
      in if need then setconnmode True s else s)"

text \<open>The user has changed a character.\<close>

fun slc_check_loop :: "byte list \<Rightarrow> byte list \<Rightarrow> tc \<Rightarrow> byte list \<times> tc" where
  "slc_check_loop [] r s = (r, s)"
| "slc_check_loop (f # fs) r s =
     (case spc_valp (spc_data s f) of
        None \<Rightarrow> slc_check_loop fs r s
      | Some k \<Rightarrow>
          if spc_val (spc_data s f) \<noteq> new_tc s k
          then let s = upd_spc f (\<lambda>p. p\<lparr>spc_val := new_tc s k,
                         spc_flags := (if new_tc s k = VDISABLE then SLC_NOSUPPORT else spc_mylevel p)\<rparr>) s;
                   p = spc_data s f
               in slc_check_loop fs (slc_add_reply f (spc_flags p) (spc_val p) r) s
          else slc_check_loop fs r s)"

definition slc_check :: "tc \<Rightarrow> tc" where
  "slc_check s =
     (let (r, s) = slc_check_loop slc_funcs slc_start_reply s in setconnmode True (slc_end_reply r s))"

section \<open>Line mode\<close>

text \<open>Forward masks and unknown functions are refused; a refusal is not answered.\<close>

definition lm_will :: "byte list \<Rightarrow> tc \<Rightarrow> tc" where
  "lm_will cmd s =
     (case cmd of
        [] \<Rightarrow> s
      | c # _ \<Rightarrow> if NETROOM s > 7 then net_add [IAC, SB, TELOPT_LINEMODE, DONT, c, IAC, SE] s else s)"

definition lm_wont :: "byte list \<Rightarrow> tc \<Rightarrow> tc" where "lm_wont cmd s = s"

definition lm_do :: "byte list \<Rightarrow> tc \<Rightarrow> tc" where
  "lm_do cmd s =
     (case cmd of
        [] \<Rightarrow> s
      | c # _ \<Rightarrow> if NETROOM s > 7 then net_add [IAC, SB, TELOPT_LINEMODE, WONT, c, IAC, SE] s else s)"

definition lm_dont :: "byte list \<Rightarrow> tc \<Rightarrow> tc" where "lm_dont cmd s = s"

definition lm_mode :: "byte list \<Rightarrow> bool \<Rightarrow> tc \<Rightarrow> tc" where
  "lm_mode cmd init s =
     (case cmd of
        [c] \<Rightarrow>
          if linemode s AND MODE_MASK AND NOT MODE_ACK = c then s
          else if c AND MODE_ACK \<noteq> 0 then s
          else
            let lm = c AND (MODE_MASK AND NOT MODE_ACK); s = s\<lparr>linemode := lm\<rparr>;
                s = (if NETROOM s > 7
                     then net_add [IAC, SB, TELOPT_LINEMODE, LM_MODE, if init then lm else lm OR MODE_ACK, IAC, SE] s
                     else s)
            in setconnmode False s
      | _ \<Rightarrow> s)"

end
