(* ===== verification/ClOptions.thy ===== *)
theory ClOptions
  imports ClEnv ClSlc
begin

text \<open>
  The option negotiation of the telnet client (telnet.c): what it sends of its own accord and how
  it answers WILL, WONT, DO and DONT.
\<close>

section \<open>Sending\<close>

definition send_do_c :: "byte \<Rightarrow> bool \<Rightarrow> tc \<Rightarrow> tc" where
  "send_do_c c init s =
     (if init \<and> ((do_dont_resp_c s c = 0 \<and> my_state_is_do_c c s) \<or> my_want_state_is_do_c c s) then s
      else net_add [IAC, DO, c]
             (if init then upd_do_resp_c c (\<lambda>r. r + 1) (set_my_want_state_do_c c s) else s))"

definition send_dont_c :: "byte \<Rightarrow> bool \<Rightarrow> tc \<Rightarrow> tc" where
  "send_dont_c c init s =
     (if init \<and> ((do_dont_resp_c s c = 0 \<and> \<not> my_state_is_do_c c s) \<or> \<not> my_want_state_is_do_c c s) then s
      else net_add [IAC, DONT, c]
             (if init then upd_do_resp_c c (\<lambda>r. r + 1) (set_my_want_state_dont_c c s) else s))"

definition send_will_c :: "byte \<Rightarrow> bool \<Rightarrow> tc \<Rightarrow> tc" where
  "send_will_c c init s =
     (if init \<and> ((will_wont_resp_c s c = 0 \<and> my_state_is_will_c c s) \<or> my_want_state_is_will_c c s) then s
      else net_add [IAC, WILL, c]
             (if init then upd_will_resp_c c (\<lambda>r. r + 1) (set_my_want_state_will_c c s) else s))"

definition send_wont_c :: "byte \<Rightarrow> bool \<Rightarrow> tc \<Rightarrow> tc" where
  "send_wont_c c init s =
     (if init \<and> ((will_wont_resp_c s c = 0 \<and> \<not> my_state_is_will_c c s) \<or> \<not> my_want_state_is_will_c c s) then s
      else net_add [IAC, WONT, c]
             (if init then upd_will_resp_c c (\<lambda>r. r + 1) (set_my_want_state_wont_c c s) else s))"

section \<open>WILL and WONT\<close>

definition dec_do_resp_c :: "bool \<Rightarrow> byte \<Rightarrow> tc \<Rightarrow> tc" where
  "dec_do_resp_c same option s =
     (if do_dont_resp_c s option \<noteq> 0
      then (let s = upd_do_resp_c option (\<lambda>r. r - 1) s
            in if do_dont_resp_c s option \<noteq> 0 \<and> same then upd_do_resp_c option (\<lambda>r. r - 1) s else s)
      else s)"

definition dec_will_resp_c :: "bool \<Rightarrow> byte \<Rightarrow> tc \<Rightarrow> tc" where
  "dec_will_resp_c same option s =
     (if will_wont_resp_c s option \<noteq> 0
      then (let s = upd_will_resp_c option (\<lambda>r. r - 1) s
            in if will_wont_resp_c s option \<noteq> 0 \<and> same then upd_will_resp_c option (\<lambda>r. r - 1) s else s)
      else s)"

definition modenegotiated :: "tc \<Rightarrow> tc" where
  "modenegotiated = settimer_c (\<lambda>v c. c\<lparr>k_modenegotiated := v\<rparr>)"

definition will_accepted_c :: "byte \<Rightarrow> bool" where
  "will_accepted_c option =
     (option \<in> {TELOPT_ECHO, TELOPT_BINARY, TELOPT_SGA, TELOPT_STATUS, TELOPT_AUTHENTICATION, TELOPT_ENCRYPT})"

text \<open>The timing mark: output is no longer dropped, and the option stays off.\<close>

definition tm_answered :: "tc \<Rightarrow> tc" where
  "tm_answered s =
     set_my_state_dont_c TELOPT_TM (set_my_want_state_dont_c TELOPT_TM (s\<lparr>flushout := False\<rparr>))"

definition will_unwanted_c :: "byte \<Rightarrow> tc \<Rightarrow> tc" where
  "will_unwanted_c option s =
     (if will_accepted_c option
      then setconnmode False (send_do_c option False (set_my_want_state_do_c option
             (if option \<in> {TELOPT_ECHO, TELOPT_BINARY, TELOPT_SGA} then modenegotiated s else s)))
      else send_dont_c option False (upd_do_resp_c option (\<lambda>r. r + 1) s))"

definition willoption_c :: "byte \<Rightarrow> tc \<Rightarrow> tc" where
  "willoption_c option s =
     (let s = dec_do_resp_c (my_state_is_do_c option s) option s;
          unwanted = (do_dont_resp_c s option = 0 \<and> \<not> my_want_state_is_do_c option s)
      in if unwanted \<and> option = TELOPT_TM then tm_answered s
         else
           let s = set_my_state_do_c option (if unwanted then will_unwanted_c option s else s)
           in if option = TELOPT_ENCRYPT then tc_enc encrypt_send_support s else s)"

definition wont_wanted_c :: "byte \<Rightarrow> tc \<Rightarrow> tc" where
  "wont_wanted_c option s =
     (let s = (if option = TELOPT_ECHO \<or> option = TELOPT_SGA \<and> kludgelinemode s then modenegotiated s else s);
          s = set_my_want_state_dont_c option s;
          s = (if my_state_is_do_c option s then send_dont_c option False s else s)
      in setconnmode False s)"

definition wontoption_c :: "byte \<Rightarrow> tc \<Rightarrow> tc" where
  "wontoption_c option s =
     (let s = dec_do_resp_c (\<not> my_state_is_do_c option s) option s
      in if do_dont_resp_c s option = 0 \<and> my_want_state_is_do_c option s then
           if option = TELOPT_TM then tm_answered s
           else set_my_state_dont_c option (wont_wanted_c option s)
         else
           set_my_state_dont_c option
             (if option = TELOPT_TM then set_my_want_state_dont_c option (s\<lparr>flushout := False\<rparr>) else s))"

section \<open>DO and DONT\<close>

definition display_exported :: "tc \<Rightarrow> bool" where
  "display_exported s =
     (env_getvalue (c_string ''DISPLAY'') (envlist s) \<noteq> None \<and>
      env_is_exported (c_string ''DISPLAY'') (envlist s))"

text \<open>Which options are agreed to: some depend on the state, and on the other environment option.\<close>

definition do_accepted_c :: "byte \<Rightarrow> tc \<Rightarrow> bool" where
  "do_accepted_c option s =
     (option \<in> {TELOPT_BINARY, TELOPT_NAWS, TELOPT_TSPEED, TELOPT_LFLOW, TELOPT_TTYPE, TELOPT_SGA,
                TELOPT_ENCRYPT, TELOPT_NEW_ENVIRON} \<or>
      option = TELOPT_OLD_ENVIRON \<and> \<not> my_state_is_will_c TELOPT_NEW_ENVIRON s \<or>
      option = TELOPT_AUTHENTICATION \<and> autologin s \<or>
      option = TELOPT_XDISPLOC \<and> display_exported s)"

definition do_environ :: "byte \<Rightarrow> tc \<Rightarrow> tc" where
  "do_environ option s =
     (if option = TELOPT_NEW_ENVIRON then
        (if my_state_is_will_c TELOPT_OLD_ENVIRON s then send_wont_c TELOPT_OLD_ENVIRON True s else s)
          \<lparr>telopt_environ := option\<rparr>
      else if option = TELOPT_OLD_ENVIRON \<and> \<not> my_state_is_will_c TELOPT_NEW_ENVIRON s
      then s\<lparr>telopt_environ := option\<rparr> else s)"

definition do_unwanted_c :: "byte \<Rightarrow> tc \<Rightarrow> tc" where
  "do_unwanted_c option s =
     (if do_accepted_c option s
      then setconnmode False (send_will_c option False (set_my_want_state_will_c option (do_environ option s)))
      else send_wont_c option False (upd_will_resp_c option (\<lambda>r. r + 1) s))"

text \<open>Line mode: going ahead is suppressed and the special characters are exchanged.\<close>

definition no_kludge :: "tc \<Rightarrow> tc" where
  "no_kludge s = send_do_c TELOPT_SGA True (s\<lparr>kludgelinemode := False\<rparr>)"

definition dooption_c :: "byte \<Rightarrow> tc \<Rightarrow> tc" where
  "dooption_c option s =
     (let s = dec_will_resp_c (my_state_is_will_c option s) option s
      in if will_wont_resp_c s option = 0 then
           if \<not> my_want_state_is_will_c option s then
             if option = TELOPT_TM then
               set_my_state_wont_c TELOPT_TM (set_my_want_state_wont_c TELOPT_TM (send_will_c option False s))
             else if option = TELOPT_LINEMODE then
               slc_init (set_my_state_will_c TELOPT_LINEMODE (send_will_c option False
                 (set_my_want_state_will_c TELOPT_LINEMODE (no_kludge s))))
             else set_my_state_will_c option (do_unwanted_c option s)
           else if option = TELOPT_LINEMODE then
             send_do_c TELOPT_SGA False (slc_init (set_my_state_will_c option (no_kludge s)))
           else set_my_state_will_c option s
         else set_my_state_will_c option s)"

definition dont_wanted_c :: "byte \<Rightarrow> tc \<Rightarrow> tc" where
  "dont_wanted_c option s =
     (let s = (if option = TELOPT_LINEMODE then s\<lparr>linemode := 0\<rparr>
               else if option = TELOPT_NEW_ENVIRON
               then (send_will_c TELOPT_OLD_ENVIRON True s)\<lparr>telopt_environ := TELOPT_OLD_ENVIRON\<rparr>
               else s);
          s = set_my_want_state_wont_c option s;
          s = (if my_state_is_will_c option s then send_wont_c option False s else s)
      in setconnmode False s)"

definition dontoption_c :: "byte \<Rightarrow> tc \<Rightarrow> tc" where
  "dontoption_c option s =
     (let s = dec_will_resp_c (\<not> my_state_is_will_c option s) option s
      in set_my_state_wont_c option
           (if will_wont_resp_c s option = 0 \<and> my_want_state_is_will_c option s
            then dont_wanted_c option s else s))"

section \<open>What the user and the connection start\<close>

definition tel_enter_binary :: "bool \<Rightarrow> bool \<Rightarrow> tc \<Rightarrow> tc" where
  "tel_enter_binary r w s =
     (let s = (if r then send_do_c TELOPT_BINARY True s else s)
      in if w then send_will_c TELOPT_BINARY True s else s)"

definition tel_leave_binary :: "bool \<Rightarrow> bool \<Rightarrow> tc \<Rightarrow> tc" where
  "tel_leave_binary r w s =
     (let s = (if r then send_dont_c TELOPT_BINARY True s else s)
      in if w then send_wont_c TELOPT_BINARY True s else s)"

text \<open>The negotiation at the head of \<open>telnet\<close>: \<open>telnetport\<close>, \<open>wantencryption\<close> and \<open>eight\<close> are its settings.\<close>

definition telnet_start :: "bool \<Rightarrow> bool \<Rightarrow> (bool \<times> bool) option \<Rightarrow> tc \<Rightarrow> tc" where
  "telnet_start telnetport wantencryption eight s =
     (let s = (if autologin s then send_will_c TELOPT_AUTHENTICATION True s else s);
          s = (if telnetport \<or> wantencryption
               then send_will_c TELOPT_ENCRYPT True (send_do_c TELOPT_ENCRYPT True s) else s)
      in if telnetport then
           let s = send_do_c TELOPT_SGA True s;
               s = fold (\<lambda>opt. send_will_c opt True)
                     [TELOPT_TTYPE, TELOPT_NAWS, TELOPT_TSPEED, TELOPT_LFLOW, TELOPT_LINEMODE, TELOPT_NEW_ENVIRON] s;
               s = send_do_c TELOPT_STATUS True s;
               s = (if display_exported s then send_will_c TELOPT_XDISPLOC True s else s)
           in (case eight of Some (r, w) \<Rightarrow> tel_enter_binary r w s | None \<Rightarrow> s)
         else s)"

end
