(* ===== verification/ClSub.thy ===== *)
theory ClSub
  imports ClOptions Memory
begin

text \<open>
  The telnet client's sub-options: the terminal names (\<open>mklist\<close>, \<open>gettermname\<close>) and \<open>suboption\<close>
  of telnet.c, with the terminal speeds and the window size of sys_bsd.c.
\<close>

section \<open>Terminal names\<close>

definition upper :: "byte \<Rightarrow> byte" where
  "upper c = (if 97 \<le> c \<and> c \<le> 122 then c - 32 else c)"

definition lower :: "byte \<Rightarrow> byte" where
  "lower c = (if 65 \<le> c \<and> c \<le> 90 then c + 32 else c)"

definition upcase :: "byte list \<Rightarrow> byte list" where
  "upcase = List.map upper"

text \<open>\<open>strncasecmp\<close> over a whole string and its NUL.\<close>

definition same_nocase :: "byte list \<Rightarrow> byte list \<Rightarrow> bool" where
  "same_nocase a b = (List.map lower a = List.map lower b)"

definition is_unique :: "byte list \<Rightarrow> byte list list \<Rightarrow> bool" where
  "is_unique name as = (\<forall>a \<in> set as. \<not> same_nocase a name)"

text \<open>
  The scan of the terminal's entry: \<open>cur\<close> is what lies between \<open>cp2\<close> and \<open>cp\<close>, \<open>bad\<close> the flag for a
  name with spaces, \<open>front\<close> whether a name matched the environment's, and \<open>as\<close> the other names, each
  with whether it begins the buffer. \<open>first\<close> says whether \<open>cp2\<close> does.
  The buffer is given with its terminating NUL and what follows it in the array; a name ends at its
  first NUL, but its length is the distance of the separators.
\<close>

definition until_nul :: "byte list \<Rightarrow> byte list" where
  "until_nul = takeWhile (\<lambda>c. c \<noteq> 0)"


definition tn_entry ::
  "byte list option \<Rightarrow> bool \<Rightarrow> bool \<Rightarrow> byte list \<Rightarrow> byte list option \<Rightarrow> (bool \<times> byte list) list \<Rightarrow>
   byte list option \<times> (bool \<times> byte list) list" where
  "tn_entry name bad first cur front as =
     (let nm = until_nul cur
      in if bad \<or> length cur > 40 then (front, as)
         else if (case name of Some n \<Rightarrow> same_nocase n nm | None \<Rightarrow> False) then (Some nm, as)
         else if is_unique nm (List.map snd as) then (front, as @ [(first, nm)])
         else (front, as))"

definition tn_char :: "byte \<Rightarrow> bool \<Rightarrow> byte list \<Rightarrow> bool \<times> byte list" where
  "tn_char c bad cur = (if c = 32 \<or> c \<ge> 128 then (True, cur @ [c]) else (bad, cur @ [upper c]))"

text \<open>After a separator the code skips further bars, and takes the next character whatever it is.\<close>

fun mk_scan ::
  "byte list option \<Rightarrow> byte list \<Rightarrow> bool \<Rightarrow> bool \<Rightarrow> byte list \<Rightarrow> byte list option \<Rightarrow> (bool \<times> byte list) list \<Rightarrow>
   byte list option \<times> (bool \<times> byte list) list"
and mk_skip ::
  "byte list option \<Rightarrow> byte list \<Rightarrow> byte list option \<Rightarrow> (bool \<times> byte list) list \<Rightarrow>
   byte list option \<times> (bool \<times> byte list) list" where
  "mk_scan name [] bad first cur front as = (front, as)"
| "mk_scan name (c # cs) bad first cur front as =
     (if c = 0 then (front, as)
      else if c = 58 then tn_entry name bad first cur front as
      else if c = 124 then (let (front, as) = tn_entry name bad first cur front as in mk_skip name cs front as)
      else let (bad, cur) = tn_char c bad cur in mk_scan name cs bad first cur front as)"
| "mk_skip name [] front as = (front, as)"
| "mk_skip name (c # cs) front as =
     (if c = 124 then mk_skip name cs front as
      else let (bad, cur) = tn_char c False [] in mk_scan name cs bad False cur front as)"

text \<open>An old two-character first name goes to the end.\<close>

definition v6_name :: "(bool \<times> byte list) list \<Rightarrow> byte list list" where
  "v6_name as =
     (case as of
        (True, n) # rest \<Rightarrow> if length n = 2 then List.map snd rest @ [n] else List.map snd as
      | _ \<Rightarrow> List.map snd as)"

text \<open>
  The array: the name of the environment in front, the others, and the last one twice (three times when there
  is no name to put in front: the loop that moves the array down leaves the last entry where it was).
  An array without any name is that of \<open>unknown\<close>.
\<close>

definition name_unknown :: "byte list" where "name_unknown = c_string ''UNKNOWN''"

definition mk_unknown :: "byte list option \<Rightarrow> byte list" where
  "mk_unknown name =
     (case name of Some n \<Rightarrow> if length n > 40 then name_unknown else upcase n | None \<Rightarrow> name_unknown)"

definition mk_name :: "byte list option \<Rightarrow> byte list option" where
  "mk_name name =
     (case name of Some n \<Rightarrow> if length n > 40 then None else Some (upcase n) | None \<Rightarrow> None)"

definition mklist :: "byte list \<Rightarrow> byte list option \<Rightarrow> byte list list" where
  "mklist buf name =
     (let (front, as) = mk_scan (mk_name name) buf False True [] None [];
          names = v6_name as;
          dup = (case (names, front) of ([], None) \<Rightarrow> [] | ([], Some f) \<Rightarrow> [f] | _ \<Rightarrow> [List.last names]);
          head = (case front of Some f \<Rightarrow> [f] | None \<Rightarrow> (case mk_name name of Some n \<Rightarrow> [n] | None \<Rightarrow> []));
          argv = head @ names @ dup @ (if head = [] then dup else [])
      in if argv = [] then [mk_unknown name] else argv)"

text \<open>
  \<open>gettermname\<close>: the names one after the other, then from the start again. \<open>upcase\<close> writes into the
  string of the variable itself.
\<close>

definition term_name :: "tc \<Rightarrow> tc" where
  "term_name s =
     (let tname = env_getvalue (c_string ''TERM'') (envlist s); s = s\<lparr>resettermname := False, tnext := 0\<rparr>;
          up = (\<lambda>n s. if length n \<le> 40
                      then s\<lparr>envlist := env_change (c_string ''TERM'') (\<lambda>ep. ep\<lparr>ev_value := upcase n\<rparr>) (envlist s)\<rparr>
                      else s)
      in case tname of
           None \<Rightarrow> s\<lparr>unknown := name_unknown, tnames := [name_unknown]\<rparr>
         | Some n \<Rightarrow>
             (case setupterm s n of
                Some buf \<Rightarrow> (up n s)\<lparr>unknown := mk_unknown tname, tnames := mklist buf tname\<rparr>
              | None \<Rightarrow> (up n s)\<lparr>unknown := mk_unknown tname, tnames := [mk_unknown tname]\<rparr>))"

definition gettermname :: "tc \<Rightarrow> byte list \<times> tc" where
  "gettermname s =
     (let s = (if resettermname s then term_name s else s);
          i = (if tnext s \<ge> length (tnames s) then 0 else tnext s)
      in (tnames s ! i, s\<lparr>tnext := i + 1\<rparr>))"

section \<open>Speeds and sizes\<close>

fun find_speed_c :: "int \<Rightarrow> (int \<times> int) list \<Rightarrow> int" where
  "find_speed_c v [] = - 1"
| "find_speed_c v ((speed, code) # ts) = (if speed \<noteq> - 1 \<and> code < v then find_speed_c v ts else speed)"

text \<open>The system's codes of the speeds are the speeds themselves here, and 38400 is known.\<close>

definition termspeeds_c :: "(int \<times> int) list" where
  "termspeeds_c =
     [(0, 0), (50, 50), (75, 75), (110, 110), (134, 134), (150, 150), (200, 200), (300, 300), (600, 600),
      (1200, 1200), (1800, 1800), (2400, 2400), (4800, 4800), (9600, 9600), (19200, 19200), (38400, 38400),
      (- 1, 38400)]"

definition TerminalSpeeds :: "tc \<Rightarrow> int \<times> int" where
  "TerminalSpeeds s =
     (let (inp, out) = speeds_c s; inp = (if inp = 0 then out else inp)
      in (find_speed_c inp termspeeds_c, find_speed_c out termspeeds_c))"

fun decimal_digits :: "nat \<Rightarrow> nat \<Rightarrow> byte list" where
  "decimal_digits 0 n = []"
| "decimal_digits (Suc fuel) n =
     (if n < 10 then [of_nat n + 48] else decimal_digits fuel (n div 10) @ [of_nat (n mod 10) + 48])"

definition decimal :: "int \<Rightarrow> byte list" where
  "decimal n = (if n < 0 then 45 # decimal_digits 20 (nat (- n)) else decimal_digits 20 (nat n))"

definition put_short :: "int \<Rightarrow> byte list" where
  "put_short x = twice_iac (of_int (x div 256)) @ twice_iac (of_int x)"

definition sendnaws :: "tc \<Rightarrow> tc" where
  "sendnaws s =
     (if \<not> my_state_is_will_c TELOPT_NAWS s then s
      else case win_size s of
             None \<Rightarrow> s
           | Some (rows, cols) \<Rightarrow>
               let msg = [IAC, SB, TELOPT_NAWS] @ put_short cols @ put_short rows @ [IAC, SE]
               in if NETROOM s \<ge> int (length msg) then net_add msg s else s)"

section \<open>The handlers\<close>

text \<open>What \<open>snprintf\<close> leaves in \<open>temp\<close>: at most 49 characters and a NUL, so of a formatted text its first 49.\<close>

definition snprintf_temp :: "byte list \<Rightarrow> byte list" where
  "snprintf_temp xs = take 49 xs"

definition temp_reply :: "byte \<Rightarrow> byte list \<Rightarrow> byte list" where
  "temp_reply opt body = snprintf_temp ([IAC, SB, opt, TELQUAL_IS] @ body @ [IAC, SE])"

definition sub_ttype_c :: "tc \<Rightarrow> tc" where
  "sub_ttype_c s =
     (if \<not> my_want_state_is_will_c TELOPT_TTYPE s \<or> subend_c s \<le> 1 \<or> subbuffer_c s 1 \<noteq> TELQUAL_SEND then s
      else
        let (name, s) = gettermname s
        in if int (length name) + 6 < NETROOM s then net_add (temp_reply TELOPT_TTYPE name) s
           else s\<lparr>ended := True\<rparr>)"

definition sub_tspeed_c :: "tc \<Rightarrow> tc" where
  "sub_tspeed_c s =
     (if \<not> my_want_state_is_will_c TELOPT_TSPEED s \<or> subend_c s \<le> 1 \<or> subbuffer_c s 1 \<noteq> TELQUAL_SEND then s
      else
        let (ispeed, ospeed) = TerminalSpeeds s;
            temp = temp_reply TELOPT_TSPEED (decimal ospeed @ [44] @ decimal ispeed)
        in if int (length temp) < NETROOM s then net_add temp s else s)"

definition sub_lflow_c :: "tc \<Rightarrow> tc" where
  "sub_lflow_c s =
     (if \<not> my_want_state_is_will_c TELOPT_LFLOW s \<or> subend_c s \<le> 1 then s
      else
        let c = subbuffer_c s 1; go = (\<lambda>s. setconnmode False (setcommandmode s))
        in if c = LFLOW_RESTART_ANY then go (s\<lparr>restartany_c := 1\<rparr>)
           else if c = LFLOW_RESTART_XON then go (s\<lparr>restartany_c := 0\<rparr>)
           else if c = LFLOW_ON then go (s\<lparr>localflow := True\<rparr>)
           else if c = LFLOW_OFF then go (s\<lparr>localflow := False\<rparr>)
           else s)"

definition sub_rest :: "tc \<Rightarrow> byte list" where
  "sub_rest s = List.map (subbuffer_c s) [2..subend_c s - 1]"

definition sub_linemode_c :: "tc \<Rightarrow> tc" where
  "sub_linemode_c s =
     (if \<not> my_want_state_is_will_c TELOPT_LINEMODE s \<or> subend_c s \<le> 1 then s
      else
        let c = subbuffer_c s 1; d = sub_rest s
        in if c = WILL then lm_will d s
           else if c = WONT then lm_wont d s
           else if c = DO then lm_do d s
           else if c = DONT then lm_dont d s
           else if c = LM_SLC then slc d s
           else if c = LM_MODE then lm_mode d False s
           else s)"

definition sub_environ_c :: "byte \<Rightarrow> tc \<Rightarrow> tc" where
  "sub_environ_c subchar s =
     (if subend_c s \<le> 1 then s
      else
        let c = subbuffer_c s 1
        in if c = TELQUAL_IS \<or> c = TELQUAL_INFO then
             (if \<not> my_want_state_is_do_c subchar s then s else env_opt s)
           else if c = TELQUAL_SEND then
             (if \<not> my_want_state_is_will_c subchar s then s else env_opt s)
           else s)"

definition sub_xdisploc_c :: "tc \<Rightarrow> tc" where
  "sub_xdisploc_c s =
     (if \<not> my_want_state_is_will_c TELOPT_XDISPLOC s \<or> subend_c s \<le> 1 \<or> subbuffer_c s 1 \<noteq> TELQUAL_SEND then s
      else case env_getvalue (c_string ''DISPLAY'') (envlist s) of
             None \<Rightarrow> send_wont_c TELOPT_XDISPLOC True s
           | Some dp \<Rightarrow>
               if \<not> env_is_exported (c_string ''DISPLAY'') (envlist s) then send_wont_c TELOPT_XDISPLOC True s
               else
                 let temp = temp_reply TELOPT_XDISPLOC dp
                 in if int (length temp) < NETROOM s then net_add temp s else s)"

definition tc_auth :: "(auth_state \<Rightarrow> auth_state) \<Rightarrow> tc \<Rightarrow> tc" where
  "tc_auth f s = s\<lparr>auth_c := f (auth_c s)\<rparr>"

text \<open>The client takes IS and NAME as well, if the server's side of the option is on; \<open>krb\<close> and \<open>rd_rep\<close> say what the Kerberos library answers.\<close>

definition sub_authentication_c ::
  "(byte list \<Rightarrow> is_calls) \<Rightarrow> (byte list \<Rightarrow> reply_calls) \<Rightarrow> tc \<Rightarrow> tc" where
  "sub_authentication_c krb rd_rep s =
     (if \<not> autologin s \<or> subend_c s \<le> 1 then s
      else
        let c = subbuffer_c s 1; d = sub_rest s; want_do = my_want_state_is_do_c TELOPT_AUTHENTICATION s;
            want_will = my_want_state_is_will_c TELOPT_AUTHENTICATION s
        in if c = TELQUAL_IS then (if want_do then tc_auth (auth_is (krb d) d) s else s)
           else if c = TELQUAL_SEND then (if want_will then tc_auth (auth_send (send_krb s) d) s else s)
           else if c = TELQUAL_REPLY then (if want_will then tc_auth (auth_reply (rd_rep d) d) s else s)
           else if c = TELQUAL_NAME then (if want_do then tc_auth (auth_name d) s else s)
           else s)"

definition sub_encrypt_c :: "tc \<Rightarrow> tc" where
  "sub_encrypt_c s =
     (if subend_c s \<le> 1 then s
      else
        let c = subbuffer_c s 1; d = sub_rest s; want_do = my_want_state_is_do_c TELOPT_ENCRYPT s;
            want_will = my_want_state_is_will_c TELOPT_ENCRYPT s
        in if c = ENCRYPT_START then (if want_do then tc_enc (encrypt_start d) s else s)
           else if c = ENCRYPT_END then (if want_do then tc_enc encrypt_end s else s)
           else if c = ENCRYPT_SUPPORT then (if want_will then tc_enc (encrypt_support d) s else s)
           else if c = ENCRYPT_REQSTART then (if want_will then tc_enc (encrypt_request_start d) s else s)
           else if c = ENCRYPT_REQEND then (if want_will then tc_enc encrypt_request_end s else s)
           else if c = ENCRYPT_IS then (if want_do then tc_enc (encrypt_is d) s else s)
           else if c = ENCRYPT_REPLY then (if want_will then tc_enc (encrypt_reply d) s else s)
           else if c = ENCRYPT_ENC_KEYID then (if want_do then tc_enc (encrypt_enc_keyid d) s else s)
           else if c = ENCRYPT_DEC_KEYID then (if want_will then tc_enc (encrypt_dec_keyid d) s else s)
           else s)"

definition suboption_c ::
  "(byte list \<Rightarrow> is_calls) \<Rightarrow> (byte list \<Rightarrow> reply_calls) \<Rightarrow> tc \<Rightarrow> tc" where
  "suboption_c krb rd_rep s =
     (let c = subbuffer_c s 0
      in if c = TELOPT_TTYPE then sub_ttype_c s
         else if c = TELOPT_TSPEED then sub_tspeed_c s
         else if c = TELOPT_LFLOW then sub_lflow_c s
         else if c = TELOPT_LINEMODE then sub_linemode_c s
         else if c = TELOPT_OLD_ENVIRON \<or> c = TELOPT_NEW_ENVIRON then sub_environ_c c s
         else if c = TELOPT_XDISPLOC then sub_xdisploc_c s
         else if c = TELOPT_AUTHENTICATION then sub_authentication_c krb rd_rep s
         else if c = TELOPT_ENCRYPT then sub_encrypt_c s
         else s)"

end
