(* ===== verification/ClRcv.thy ===== *)
theory ClRcv
  imports ClSub Telrcv
begin

text \<open>
  The telnet client's receiver and sender (\<open>telrcv\<close> and \<open>telsnd\<close> of telnet.c): bytes from the network
  become output for the terminal, commands and options; what the user types becomes data for
  the server, commands, or local actions. The rings hand out their contents in consecutive pieces; the
  model takes the list of these pieces. \<open>des\<close> is the DES block function; \<open>kis\<close> and \<open>rd_rep\<close> are the
  answers of the Kerberos library, and \<open>command\<close> is the command interpreter (commands.c).
\<close>

section \<open>Decryption\<close>

definition dec_stream_c :: "mode \<Rightarrow> tc \<Rightarrow> stinfo" where
  "dec_stream_c m s = streams (fbs (enc (auth_c s)) m) DIR_DECRYPT"

definition set_dec_stream_c :: "mode \<Rightarrow> stinfo \<Rightarrow> tc \<Rightarrow> tc" where
  "set_dec_stream_c m st = tc_enc (upd_fb m (upd_stream DIR_DECRYPT (\<lambda>_. st)))"

definition decrypt_in_c :: "des \<Rightarrow> byte \<Rightarrow> tc \<Rightarrow> byte \<times> tc" where
  "decrypt_in_c des c s =
     (case decrypt_input (enc (auth_c s)) of
        None \<Rightarrow> (c, s)
      | Some m \<Rightarrow>
          let (y, st) = decrypt_byte des m (dec_stream_c m s) c in (y, set_dec_stream_c m st s))"

definition decrypt_undo_c :: "tc \<Rightarrow> tc" where
  "decrypt_undo_c s =
     (case decrypt_input (enc (auth_c s)) of
        None \<Rightarrow> s
      | Some m \<Rightarrow> set_dec_stream_c m (decrypt_back m (dec_stream_c m s)) s)"

section \<open>The receiver\<close>

definition SUBBUFSIZE :: int where "SUBBUFSIZE = 256"

definition sb_accum_c :: "byte \<Rightarrow> tc \<Rightarrow> tc" where
  "sb_accum_c c s =
     (if subpointer_c s < SUBBUFSIZE
      then s\<lparr>subbuffer_c := (subbuffer_c s)(subpointer_c s := c), subpointer_c := subpointer_c s + 1\<rparr>
      else s)"

definition sb_end_c :: "byte \<Rightarrow> tc \<Rightarrow> tc" where
  "sb_end_c c s =
     (let s = sb_accum_c c (sb_accum_c IAC s)
      in s\<lparr>subend_c := subpointer_c s - 2, subpointer_c := 0\<rparr>)"

definition recv_dm_c :: "tc \<Rightarrow> tc" where
  "recv_dm_c s =
     settimer_c (\<lambda>v c. c\<lparr>k_gotDM := v\<rparr>)
       (let s = ttyflush_all True (s\<lparr>SYNCHing_c := True\<rparr>)
        in case oob_replies_c s of
             [] \<Rightarrow> s\<lparr>SYNCHing_c := False\<rparr>
           | r # rs \<Rightarrow> s\<lparr>SYNCHing_c := r, oob_replies_c := rs\<rparr>)"

text \<open>
  A data byte; \<open>xs\<close> is the rest of the piece. After a carriage return the next byte of the piece is
  looked at, and taken if it belongs to the carriage return; the number of bytes taken comes
  with the state.
\<close>

definition cr_c :: "des \<Rightarrow> byte list \<Rightarrow> tc \<Rightarrow> nat \<times> tc" where
  "cr_c des xs s =
     (case xs of
        [] \<Rightarrow>
          let s = TTYADD 13 (s\<lparr>telrcv_state := C_CR\<rparr>) in (0, if crmod s then TTYADD 10 s else s)
      | x # _ \<Rightarrow>
          let (c, s) = decrypt_in_c des x s
          in if c = 0 then (1, TTYADD 13 s)
             else if \<not> my_want_state_is_do_c TELOPT_ECHO s \<and> c = 10 then (1, TTYADD 10 s)
             else let s = TTYADD 13 (decrypt_undo_c s) in (0, if crmod s then TTYADD 10 s else s))"

definition ts_data_c :: "des \<Rightarrow> byte \<Rightarrow> byte list \<Rightarrow> tc \<Rightarrow> nat \<times> tc" where
  "ts_data_c des c xs s =
     (if c = IAC then (0, s\<lparr>telrcv_state := C_IAC\<rparr>)
      else if c = 13 \<and> \<not> my_want_state_is_do_c TELOPT_BINARY s then cr_c des xs s
      else (0, TTYADD c s))"

definition process_iac :: "byte \<Rightarrow> tc \<Rightarrow> tc" where
  "process_iac c s =
     (if c = WILL then s\<lparr>telrcv_state := C_WILL\<rparr>
      else if c = WONT then s\<lparr>telrcv_state := C_WONT\<rparr>
      else if c = DO then s\<lparr>telrcv_state := C_DO\<rparr>
      else if c = DONT then s\<lparr>telrcv_state := C_DONT\<rparr>
      else if c = SB then s\<lparr>subpointer_c := 0, telrcv_state := C_SB\<rparr>
      else
        (if c = DM then recv_dm_c s
         else if c = IAC then TTYADD IAC s
         else s)\<lparr>telrcv_state := C_DATA\<rparr>)"

definition ts_do_c :: "byte \<Rightarrow> tc \<Rightarrow> tc" where
  "ts_do_c c s =
     (let s = dooption_c c s
      in (if c = TELOPT_NAWS then sendnaws s
          else if c = TELOPT_LFLOW then setconnmode False (setcommandmode (s\<lparr>localflow := True\<rparr>))
          else s)\<lparr>telrcv_state := C_DATA\<rparr>)"

definition ts_se_c :: "(byte list \<Rightarrow> is_calls) \<Rightarrow> (byte list \<Rightarrow> reply_calls) \<Rightarrow> byte \<Rightarrow> tc \<Rightarrow> tc" where
  "ts_se_c kis rd_rep c s =
     (if c = SE then (suboption_c kis rd_rep (sb_end_c c s))\<lparr>telrcv_state := C_DATA\<rparr>
      else if c = IAC then (sb_accum_c c s)\<lparr>telrcv_state := C_SB\<rparr>
      else
        let s = suboption_c kis rd_rep (sb_end_c c s)
        in if ended s then s else process_iac c (s\<lparr>telrcv_state := C_IAC\<rparr>))"

definition rcv_state_c ::
  "des \<Rightarrow> (byte list \<Rightarrow> is_calls) \<Rightarrow> (byte list \<Rightarrow> reply_calls) \<Rightarrow> byte \<Rightarrow> byte list \<Rightarrow> tc \<Rightarrow> nat \<times> tc" where
  "rcv_state_c des kis rd_rep c xs s =
     (case telrcv_state s of
        C_CR \<Rightarrow>
          let s = s\<lparr>telrcv_state := C_DATA\<rparr>
          in if c = 0 then (0, s)
             else if c = 10 \<and> \<not> my_want_state_is_do_c TELOPT_ECHO s \<and> \<not> crmod s then (0, TTYADD c s)
             else ts_data_c des c xs s
      | C_DATA \<Rightarrow> ts_data_c des c xs s
      | C_IAC \<Rightarrow> (0, process_iac c s)
      | C_WILL \<Rightarrow> (0, (willoption_c c s)\<lparr>telrcv_state := C_DATA\<rparr>)
      | C_WONT \<Rightarrow> (0, (wontoption_c c s)\<lparr>telrcv_state := C_DATA\<rparr>)
      | C_DO \<Rightarrow> (0, ts_do_c c s)
      | C_DONT \<Rightarrow> (0, (setconnmode False ((dontoption_c c s)\<lparr>flushline := True\<rparr>))\<lparr>telrcv_state := C_DATA\<rparr>)
      | C_SB \<Rightarrow> (0, if c = IAC then s\<lparr>telrcv_state := C_SE\<rparr> else sb_accum_c c s)
      | C_SE \<Rightarrow> (0, ts_se_c kis rd_rep c s))"

text \<open>One piece, until it is used up, the terminal's ring is nearly full, or the process has ended.\<close>

function telrcv_piece ::
  "des \<Rightarrow> (byte list \<Rightarrow> is_calls) \<Rightarrow> (byte list \<Rightarrow> reply_calls) \<Rightarrow> byte list \<Rightarrow> tc \<Rightarrow> byte list \<times> tc" where
  "telrcv_piece des kis rd_rep [] s = ([], s)"
| "telrcv_piece des kis rd_rep (x # xs) s =
     (if ended s \<or> TTYROOM s \<le> 2 then (x # xs, s)
      else
        let (c, s) = decrypt_in_c des x s; (n, s) = rcv_state_c des kis rd_rep c xs s
        in telrcv_piece des kis rd_rep (drop n xs) s)"
  by pat_completeness auto
termination by (relation "measure (\<lambda>(_, _, _, xs, _). length xs)") auto

declare telrcv_piece.simps(2) [simp del]

fun telrcv_c ::
  "des \<Rightarrow> (byte list \<Rightarrow> is_calls) \<Rightarrow> (byte list \<Rightarrow> reply_calls) \<Rightarrow> byte list list \<Rightarrow> tc \<Rightarrow> byte list \<times> tc" where
  "telrcv_c des kis rd_rep [] s = ([], s)"
| "telrcv_c des kis rd_rep (p # ps) s =
     (let (left, s) = telrcv_piece des kis rd_rep p s
      in if left = [] then telrcv_c des kis rd_rep ps s else (left @ concat ps, s))"

section \<open>Commands to the server\<close>

definition doflush :: "tc \<Rightarrow> tc" where
  "doflush s =
     ttyflush_all True ((net_add [IAC, DO, TELOPT_TM] s)\<lparr>flushline := True, flushout := True\<rparr>)"

text \<open>The client's \<open>netclear\<close> does nothing; the urgent mark is set behind the IAC.\<close>

definition dosynch :: "tc \<Rightarrow> tc" where
  "dosynch s = net_add [DM] (tc_enc (\<lambda>e. e\<lparr>net_out := net_out e @ [Net_urgent [IAC]]\<rparr>) s)"

definition send_command :: "byte \<Rightarrow> tc \<Rightarrow> tc" where
  "send_command c s =
     (let s = (net_add [IAC, c] s)\<lparr>flushline := True\<rparr>;
          s = (if autoflush s then doflush s else s)
      in if autosynch s then dosynch s else s)"

definition intp_c :: "tc \<Rightarrow> tc" where "intp_c = send_command IP"
definition sendbrk_c :: "tc \<Rightarrow> tc" where "sendbrk_c = send_command BREAK"
definition sendabort :: "tc \<Rightarrow> tc" where "sendabort = send_command ABORT"
definition sendsusp_c :: "tc \<Rightarrow> tc" where "sendsusp_c = send_command SUSP"
definition sendeof :: "tc \<Rightarrow> tc" where "sendeof = net_add [IAC, xEOF]"
definition sendayt :: "tc \<Rightarrow> tc" where "sendayt = net_add [IAC, AYT]"
definition xmitEL :: "tc \<Rightarrow> tc" where "xmitEL = net_add [IAC, EL]"
definition xmitEC :: "tc \<Rightarrow> tc" where "xmitEC = net_add [IAC, EC]"

definition xmitAO :: "tc \<Rightarrow> tc" where
  "xmitAO s = (let s = net_add [IAC, AO] s in if autoflush s then doflush s else s)"

definition get_status :: "tc \<Rightarrow> bool \<times> tc" where
  "get_status s =
     (if \<not> my_want_state_is_do_c TELOPT_STATUS s then (False, s)
      else (True, if NETROOM s \<ge> 6 then net_add [IAC, SB, TELOPT_STATUS, TELQUAL_SEND, IAC, SE] s else s))"

definition LOCAL_CHARS :: "32 word \<Rightarrow> bool" where
  "LOCAL_CHARS m = (m AND (ucast MODE_EDIT OR ucast MODE_TRAPSIG) \<noteq> 0)"

text \<open>\<open>TerminalSpecialChars\<close>: whether the character is to be sent.\<close>

definition TerminalSpecialChars :: "byte \<Rightarrow> tc \<Rightarrow> bool \<times> tc" where
  "TerminalSpecialChars c s =
     (if c = new_tc s VINTR then (False, intp_c s)
      else if c = new_tc s VQUIT then (False, if kludgelinemode s then sendbrk_c s else sendabort s)
      else if c = new_tc s VEOF then
        (if my_want_state_is_will_c TELOPT_LINEMODE s then (False, sendeof s) else (True, s))
      else if c = new_tc s VSUSP then (False, sendsusp_c s)
      else if c = new_tc s VDISCARD then (False, xmitAO s)
      else if \<not> LOCAL_CHARS (globalmode s) then
        (if c = new_tc s VKILL then (False, xmitEL s)
         else if c = new_tc s VERASE then (False, xmitEC s)
         else (True, s))
      else (True, s))"

section \<open>The sender\<close>

definition strip :: "byte \<Rightarrow> byte" where "strip x = x AND 127"

text \<open>
  What comes of a byte: it goes on with the rest of the piece (the byte and its stripped value may have been
  replaced), the loop continues, or it ends.
\<close>

datatype escaped = Send byte byte "byte list" | Next "byte list" | Leave "byte list"

definition run_command :: "(byte list \<Rightarrow> tc \<Rightarrow> tc) \<Rightarrow> byte list \<Rightarrow> tc \<Rightarrow> escaped \<times> tc" where
  "run_command command xs s = (Leave [], (command xs s)\<lparr>bol := True, flushline := True\<rparr>)"

text \<open>The character after the escape of rlogin; another one than the escape is taken again, after it.\<close>

definition rlogin_local :: "(byte list \<Rightarrow> tc \<Rightarrow> tc) \<Rightarrow> byte \<Rightarrow> byte list \<Rightarrow> tc \<Rightarrow> escaped \<times> tc" where
  "rlogin_local command c xs s =
     (let sc = strip c; s = s\<lparr>local := False\<rparr>
      in if sc = 46 \<or> c = new_tc s VEOF then (Next xs, command (c_string ''close'' @ [10]) (s\<lparr>bol := True\<rparr>))
         else if sc = new_tc s VSUSP then (Next xs, command (c_string ''z'' @ [10]) (s\<lparr>bol := True\<rparr>))
         else if sc = escape s then run_command command xs s
         else if sc \<noteq> rlogin s then (Send (rlogin s) (rlogin s) (c # xs), s)
         else (Send c sc xs, s))"

definition rlogin_escape :: "(byte list \<Rightarrow> tc \<Rightarrow> tc) \<Rightarrow> byte \<Rightarrow> byte list \<Rightarrow> tc \<Rightarrow> escaped \<times> tc" where
  "rlogin_escape command c xs s =
     (if bol s then
        (if strip c = rlogin s then (Next xs, s\<lparr>bol := False, local := True\<rparr>)
         else (Send c (strip c) xs, s\<lparr>bol := False\<rparr>))
      else if local s then rlogin_local command c xs s
      else (Send c (strip c) xs, s))"

definition snd_escape :: "(byte list \<Rightarrow> tc \<Rightarrow> tc) \<Rightarrow> byte \<Rightarrow> byte list \<Rightarrow> tc \<Rightarrow> escaped \<times> tc" where
  "snd_escape command c xs s =
     (if rlogin s \<noteq> VDISABLE then
        (case rlogin_escape command c xs s of
           (Send c sc ys, s) \<Rightarrow> (Send c sc ys, if sc = 10 \<or> sc = 13 then s\<lparr>bol := True\<rparr> else s)
         | r \<Rightarrow> r)
      else if strip c = escape s then
        (case xs of
           x # ys \<Rightarrow> if strip x = escape s then (Send c (strip c) ys, s\<lparr>bol := False\<rparr>) else run_command command xs s
         | [] \<Rightarrow> run_command command xs s)
      else (Send c (strip c) xs, s\<lparr>bol := False\<rparr>))"

text \<open>The key that switches the local echo, in kludge line mode; twice it is itself.\<close>

definition toggle_echo :: "tc \<Rightarrow> tc" where
  "toggle_echo s =
     (setconnmode False (settimer_c (\<lambda>v k. k\<lparr>k_echotoggle := v\<rparr>) (s\<lparr>dontlecho := \<not> dontlecho s\<rparr>)))
       \<lparr>flushline := True\<rparr>"

definition snd_echo :: "byte \<Rightarrow> byte \<Rightarrow> byte list \<Rightarrow> tc \<Rightarrow> escaped \<times> tc" where
  "snd_echo c sc xs s =
     (if kludgelinemode s \<and> globalmode s AND ucast MODE_EDIT \<noteq> 0 \<and> sc = echoc s then
        (case xs of
           x # ys \<Rightarrow> if strip x = echoc s then (Send c sc ys, s) else (Leave xs, toggle_echo s)
         | [] \<Rightarrow> (Leave xs, toggle_echo s))
      else (Send c sc xs, s))"

definition snd_bytes :: "byte \<Rightarrow> tc \<Rightarrow> byte list" where
  "snd_bytes c s =
     (if \<not> my_want_state_is_will_c TELOPT_BINARY s then
        if c = 10 then (if LOCAL_CHARS (globalmode s) then [13, 10] else [10])
        else if c = 13 then (if \<not> crlf s then [13, 0] else [13, 10])
        else if c = IAC then [IAC, IAC]
        else [c]
      else if c = IAC then [IAC, IAC]
      else [c])"

definition snd_data :: "byte \<Rightarrow> tc \<Rightarrow> tc" where
  "snd_data c s =
     (let s' = net_add (snd_bytes c s) s
      in if \<not> my_want_state_is_will_c TELOPT_BINARY s \<and> (c = 10 \<or> c = 13)
         then s'\<lparr>bol := True, flushline := True\<rparr> else s')"

definition snd_char :: "byte \<Rightarrow> byte \<Rightarrow> byte list \<Rightarrow> tc \<Rightarrow> escaped \<times> tc" where
  "snd_char c sc xs s =
     (let (add, s) = (if LOCAL_CHARS (globalmode s) then TerminalSpecialChars sc s else (True, s))
      in if add then (Next xs, snd_data c s) else (Leave xs, s\<lparr>bol := True\<rparr>))"

definition snd_byte :: "(byte list \<Rightarrow> tc \<Rightarrow> tc) \<Rightarrow> byte \<Rightarrow> byte list \<Rightarrow> tc \<Rightarrow> escaped \<times> tc" where
  "snd_byte command c xs s =
     (case snd_escape command c xs s of
        (Send c sc xs, s) \<Rightarrow>
          (case snd_echo c sc xs s of
             (Send c sc xs, s) \<Rightarrow> snd_char c sc xs s
           | r \<Rightarrow> r)
      | r \<Rightarrow> r)"

section \<open>The loop of the sender\<close>

text \<open>
  A round takes a byte, or it takes the escape of rlogin for one that is taken again: the flag
  \<open>local\<close> is then cleared.
\<close>

definition snd_measure :: "byte list \<Rightarrow> tc \<Rightarrow> nat" where
  "snd_measure xs s = 2 * length xs + (if local s then 1 else 0)"

lemma local_add [simp]: "local (net_add xs s) = local s" by (simp add: net_add_def tc_enc_def)

lemma local_data: "local (snd_data c s) = local s" by (simp add: snd_data_def Let_def)

lemma local_command: "local (send_command c s) = local s"
  by (simp add: send_command_def doflush_def dosynch_def ttyflush_all_def tc_enc_def Let_def)

lemma local_special: "local (snd (TerminalSpecialChars c s)) = local s"
  by (simp add: TerminalSpecialChars_def intp_c_def sendbrk_c_def sendabort_def sendsusp_c_def local_command
      sendeof_def xmitAO_def xmitEL_def xmitEC_def doflush_def ttyflush_all_def Let_def)

lemma snd_char_next:
  assumes "snd_char c sc xs s = (Next ys, t)"
  shows "ys = xs \<and> local t = local s"
proof -
  obtain a u where e: "(if LOCAL_CHARS (globalmode s) then TerminalSpecialChars sc s else (True, s)) = (a, u)"
    by (cases "if LOCAL_CHARS (globalmode s) then TerminalSpecialChars sc s else (True, s)")
  have "local u = local s" using e local_special [of sc s] by (auto split: if_splits)
  then show ?thesis using assms e by (auto simp: snd_char_def local_data split: if_splits)
qed

lemma snd_echo_send:
  "snd_echo c sc xs s = (Send c' sc' ys, t) \<Longrightarrow> length ys \<le> length xs \<and> local t = local s"
  by (auto simp: snd_echo_def split: if_splits list.splits)

lemma snd_echo_next: "snd_echo c sc xs s \<noteq> (Next ys, t)"
  by (auto simp: snd_echo_def split: list.splits)

lemma rlogin_local_send:
  "rlogin_local command c xs s = (Send c' sc ys, t) \<Longrightarrow> length ys \<le> Suc (length xs) \<and> \<not> local t"
  by (auto simp: rlogin_local_def run_command_def Let_def split: if_splits)

lemma rlogin_local_next: "rlogin_local command c xs s = (Next ys, t) \<Longrightarrow> length ys \<le> length xs"
  by (auto simp: rlogin_local_def run_command_def Let_def split: if_splits)

lemma snd_escape_send:
  assumes "snd_escape command c xs s = (Send c' sc ys, t)"
  shows "snd_measure ys t < snd_measure (c # xs) s"
  using assms
  by (auto simp: snd_escape_def rlogin_escape_def run_command_def snd_measure_def
      split: if_splits escaped.splits prod.splits list.splits dest!: rlogin_local_send)

lemma snd_escape_next:
  assumes "snd_escape command c xs s = (Next ys, t)"
  shows "snd_measure ys t < snd_measure (c # xs) s"
  using assms
  by (auto simp: snd_escape_def rlogin_escape_def run_command_def snd_measure_def
      split: if_splits escaped.splits prod.splits list.splits dest!: rlogin_local_next)

lemma snd_byte_next:
  assumes "snd_byte command c xs s = (Next ys, t)"
  shows "snd_measure ys t < snd_measure (c # xs) s"
proof -
  obtain r u where e: "snd_escape command c xs s = (r, u)" by fastforce
  show ?thesis
  proof (cases r)
    case (Send c' sc zs)
    obtain r2 v where e2: "snd_echo c' sc zs u = (r2, v)" by fastforce
    note m = snd_escape_send [OF e [unfolded Send]]
    show ?thesis
    proof (cases r2)
      case (Send c2 sc2 ws)
      have "ys = ws \<and> local t = local v"
        using assms e e2 \<open>r = _\<close> Send by (auto simp: snd_byte_def intro: snd_char_next dest: snd_char_next)
      then show ?thesis using snd_echo_send [OF e2 [unfolded Send]] m by (auto simp: snd_measure_def)
    next
      case (Next ws)
      then show ?thesis using e2 snd_echo_next by blast
    next
      case (Leave ws)
      then show ?thesis using assms e e2 \<open>r = _\<close> by (simp add: snd_byte_def)
    qed
  next
    case (Next zs)
    then show ?thesis using assms e snd_escape_next [of command c xs s zs u] by (simp add: snd_byte_def)
  next
    case (Leave zs)
    then show ?thesis using assms e by (simp add: snd_byte_def)
  qed
qed

text \<open>One piece: what is left of it, whether the loop goes on, and the state.\<close>

function telsnd_piece :: "(byte list \<Rightarrow> tc \<Rightarrow> tc) \<Rightarrow> byte list \<Rightarrow> tc \<Rightarrow> byte list \<times> bool \<times> tc" where
  "telsnd_piece command [] s = ([], True, s)"
| "telsnd_piece command (x # xs) s =
     (if ended s \<or> NETROOM s \<le> 2 then (x # xs, False, s)
      else case snd_byte command x xs s of
             (Next ys, s) \<Rightarrow> telsnd_piece command ys s
           | (Leave ys, s) \<Rightarrow> (ys, False, s)
           | (Send _ _ ys, s) \<Rightarrow> (ys, False, s))"
  by pat_completeness auto
termination
  by (relation "measure (\<lambda>(_, xs, s). snd_measure xs s)") (auto dest: snd_byte_next [OF sym])

declare telsnd_piece.simps(2) [simp del]

fun telsnd :: "(byte list \<Rightarrow> tc \<Rightarrow> tc) \<Rightarrow> byte list list \<Rightarrow> tc \<Rightarrow> byte list \<times> tc" where
  "telsnd command [] s = ([], s)"
| "telsnd command (p # ps) s =
     (let (left, go, s) = telsnd_piece command p s
      in if go then telsnd command ps s else (left @ concat ps, s))"

end
