(* ===== verification/Negotiation.thy ===== *)
theory Negotiation
  imports OptSpec
begin

text \<open>
  Two ends of one option: the abstract machine of state.c at both ends of a connection, with
  the messages that are under way in each direction. Both ends agree to the option. However requests
  of the two users, messages and answers interleave, the negotiation comes to rest, and then
  the ends agree.
\<close>

section \<open>The machine with its messages\<close>

text \<open>\<open>True\<close> stands for WILL or DO, \<open>False\<close> for WONT or DONT. What a request and a received message send:\<close>

definition requested :: "bool \<Rightarrow> neg \<Rightarrow> bool list" where
  "requested new n =
     (if (want_resp n = 0 \<and> new = my_state n) \<or> want_state n = new then [] else [new])"

definition answer :: "bool \<Rightarrow> neg \<Rightarrow> bool list" where
  "answer new n =
     (if neg_dec (new = my_state n) (want_resp n) = 0 \<and> new \<noteq> want_state n \<and> (new \<or> my_state n)
      then [new] else [])"

text \<open>The ends \<open>a\<close> and \<open>b\<close>, the messages on their way from \<open>a\<close> to \<open>b\<close>, and those from \<open>b\<close> to \<open>a\<close>.\<close>

type_synonym 'e wires = "'e \<times> bool list \<times> bool list"

datatype side = Near | Far

datatype neg_event = Ask side bool | Deliver side

fun neg_step :: "neg_event \<Rightarrow> (neg \<times> neg) wires \<Rightarrow> (neg \<times> neg) wires" where
  "neg_step (Ask Near new) ((a, b), ab, ba) = ((request new a, b), ab @ requested new a, ba)"
| "neg_step (Ask Far new) ((a, b), ab, ba) = ((a, request new b), ab, ba @ requested new b)"
| "neg_step (Deliver Near) ((a, b), ab, m # ba) = ((receive m True a, b), ab @ answer m a, ba)"
| "neg_step (Deliver Far) ((a, b), m # ab, ba) = ((a, receive m True b), ab, ba @ answer m b)"
| "neg_step (Deliver _) s = s"

section \<open>The invariant\<close>

text \<open>Every message on its way turns the state of the end that it goes to.\<close>

fun turning :: "bool \<Rightarrow> bool list \<Rightarrow> bool" where
  "turning s [] = True"
| "turning s (m # ms) = (m \<noteq> s \<and> turning m ms)"

definition toward :: "neg \<Rightarrow> bool list \<Rightarrow> neg \<Rightarrow> bool" where
  "toward b ba a = (turning (my_state a) ba \<and> want_state b = last (my_state a # ba))"

definition own_parity :: "neg \<Rightarrow> bool" where
  "own_parity n = ((want_state n = my_state n) = even (want_resp n))"

definition neg_inv :: "(neg \<times> neg) wires \<Rightarrow> bool" where
  "neg_inv s = (case s of ((a, b), ab, ba) \<Rightarrow>
     toward b ba a \<and> toward a ab b \<and> own_parity a \<and> own_parity b \<and>
     want_resp a + want_resp b = length ab + length ba)"

definition neg_swap :: "(neg \<times> neg) wires \<Rightarrow> (neg \<times> neg) wires" where
  "neg_swap s = (case s of ((a, b), ab, ba) \<Rightarrow> ((b, a), ba, ab))"

lemma neg_inv_swap: "neg_inv (neg_swap s) = neg_inv s"
  by (auto simp: neg_inv_def neg_swap_def split: prod.splits)

fun other :: "side \<Rightarrow> side" where "other Near = Far" | "other Far = Near"

fun swap_event :: "neg_event \<Rightarrow> neg_event" where
  "swap_event (Ask d new) = Ask (other d) new"
| "swap_event (Deliver d) = Deliver (other d)"

lemma neg_step_swap: "neg_step (swap_event e) (neg_swap s) = neg_swap (neg_step e s)"
  by (cases "(e, s)" rule: neg_step.cases) (auto simp: neg_swap_def)

lemma turning_snoc: "turning s (ms @ [m]) = (turning s ms \<and> m \<noteq> last (s # ms))"
  by (induction ms arbitrary: s) auto

lemma request_cases:
  assumes "own_parity n"
  shows "new = want_state n \<and> request new n = n \<and> requested new n = [] \<or>
     new \<noteq> want_state n \<and> requested new n = [new] \<and>
     request new n = n\<lparr>want_state := new, want_resp := want_resp n + 1\<rparr>"
proof (cases "new = want_state n")
  case False
  then have "\<not> (want_resp n = 0 \<and> new = my_state n)" using assms by (auto simp: own_parity_def)
  with False show ?thesis by (auto simp: request_def requested_def)
qed (simp add: request_def requested_def)

lemma ask_inv:
  assumes "neg_inv ((a, b), ab, ba)"
  shows "neg_inv (neg_step (Ask Near new) ((a, b), ab, ba))"
proof -
  have "own_parity a" using assms by (simp add: neg_inv_def)
  from request_cases [OF this, of new] show ?thesis
  proof (elim disjE conjE)
    assume "request new a = a" "requested new a = []"
    then show ?thesis using assms by simp
  next
    assume "new \<noteq> want_state a" "requested new a = [new]"
      "request new a = a\<lparr>want_state := new, want_resp := want_resp a + 1\<rparr>"
    then show ?thesis
      using assms by (simp add: neg_inv_def toward_def own_parity_def turning_snoc) metis
  qed
qed

text \<open>A message that turns the state is an answer that was waited for, or it is answered.\<close>

lemma receive_turning:
  assumes "own_parity a" "m \<noteq> my_state a"
  shows "want_resp a > 0 \<and> answer m a = [] \<and>
      receive m True a = \<lparr>my_state = m, want_state = want_state a, want_resp = want_resp a - 1\<rparr> \<or>
    want_resp a = 0 \<and> want_state a = my_state a \<and> answer m a = [m] \<and>
      receive m True a = \<lparr>my_state = m, want_state = m, want_resp = 0\<rparr>"
  using assms by (auto simp: receive_dec answer_def neg_dec_def own_parity_def Let_def)

lemma deliver_inv:
  assumes "neg_inv ((a, b), ab, m # ba)"
  shows "neg_inv (neg_step (Deliver Near) ((a, b), ab, m # ba))"
proof -
  have m: "m \<noteq> my_state a" "own_parity a" using assms by (auto simp: neg_inv_def toward_def)
  show ?thesis
    using receive_turning [OF m(2,1)]
  proof (elim disjE conjE)
    assume "want_resp a > 0" "answer m a = []"
      "receive m True a = \<lparr>my_state = m, want_state = want_state a, want_resp = want_resp a - 1\<rparr>"
    then show ?thesis
      using assms m by (cases "want_resp a") (auto simp: neg_inv_def toward_def own_parity_def)
  next
    assume "want_resp a = 0" "want_state a = my_state a" "answer m a = [m]"
      "receive m True a = \<lparr>my_state = m, want_state = m, want_resp = 0\<rparr>"
    then show ?thesis
      using assms m by (auto simp: neg_inv_def toward_def own_parity_def turning_snoc)
  qed
qed

lemma neg_step_inv_near: "neg_inv s \<Longrightarrow> e = Ask Near new \<or> e = Deliver Near \<Longrightarrow> neg_inv (neg_step e s)"
  by (cases "(e, s)" rule: neg_step.cases) (auto simp del: neg_step.simps(1,3) simp: ask_inv deliver_inv)

lemma neg_step_inv: "neg_inv s \<Longrightarrow> neg_inv (neg_step e s)"
proof -
  assume i: "neg_inv s"
  have sw: "neg_inv (neg_step e s) = neg_inv (neg_step (swap_event e) (neg_swap s))"
    by (simp add: neg_step_swap neg_inv_swap)
  show ?thesis
  proof (cases e)
    case (Ask d new)
    then show ?thesis using i sw neg_step_inv_near neg_inv_swap by (cases d) auto
  next
    case (Deliver d)
    then show ?thesis using i sw neg_step_inv_near neg_inv_swap by (cases d) auto
  qed
qed

section \<open>Coming to rest\<close>

text \<open>How many deliveries are left when nothing more is asked: each message once, and once more those that are answered.\<close>

definition to_deliver :: "(neg \<times> neg) wires \<Rightarrow> nat" where
  "to_deliver s = (case s of ((a, b), ab, ba) \<Rightarrow>
     length ab + length ba + nat \<bar>int (length ba) - int (want_resp a)\<bar>)"

fun pending :: "side \<Rightarrow> (neg \<times> neg) wires \<Rightarrow> bool list" where
  "pending Near (_, ab, ba) = ba"
| "pending Far (_, ab, ba) = ab"

lemma to_deliver_swap: "neg_inv s \<Longrightarrow> to_deliver (neg_swap s) = to_deliver s"
  by (auto simp: to_deliver_def neg_swap_def neg_inv_def split: prod.splits)

lemma deliver_near_count:
  assumes "neg_inv ((a, b), ab, m # ba)"
  shows "to_deliver ((a, b), ab, m # ba) = Suc (to_deliver (neg_step (Deliver Near) ((a, b), ab, m # ba)))"
proof -
  have m: "m \<noteq> my_state a" "own_parity a" using assms by (auto simp: neg_inv_def toward_def)
  from receive_turning [OF m(2,1)] show ?thesis by (auto simp: to_deliver_def)
qed

lemma deliver_count:
  assumes "neg_inv s" "pending d s \<noteq> []"
  shows "to_deliver s = Suc (to_deliver (neg_step (Deliver d) s))"
proof -
  obtain a b ab ba where s: "s = ((a, b), ab, ba)" by (metis prod.collapse)
  show ?thesis
  proof (cases d)
    case Near
    with assms s deliver_near_count show ?thesis by (cases ba) auto
  next
    case Far
    then obtain m ab' where ab: "ab = m # ab'" using assms(2) s by (cases ab) auto
    have i: "neg_inv ((b, a), ba, m # ab')" using assms(1) neg_inv_swap [of s] s ab by (simp add: neg_swap_def)
    have "to_deliver (neg_swap s) = Suc (to_deliver (neg_step (Deliver Near) (neg_swap s)))"
      using deliver_near_count [OF i] s ab by (simp add: neg_swap_def)
    moreover have "neg_step (Deliver Near) (neg_swap s) = neg_swap (neg_step (Deliver d) s)"
      using neg_step_swap [of "Deliver d" s] Far by simp
    ultimately show ?thesis
      using to_deliver_swap [OF assms(1)] to_deliver_swap [OF neg_step_inv [OF assms(1)]] by simp
  qed
qed

lemma neg_at_rest:
  assumes "neg_inv ((a, b), [], [])"
  shows "want_resp a = 0 \<and> want_resp b = 0 \<and> my_state a = want_state a \<and> my_state b = want_state b \<and>
    my_state a = my_state b"
  using assms by (auto simp: neg_inv_def toward_def own_parity_def)

lemma to_deliver_0: "neg_inv s \<Longrightarrow> to_deliver s = 0 \<longleftrightarrow> pending Near s = [] \<and> pending Far s = []"
  by (auto simp: to_deliver_def neg_inv_def split: prod.splits)

end
