(* ===== verification/ClOptSpec.thy ===== *)
theory ClOptSpec
  imports ClOptions Negotiation
begin

text \<open>
  The client's option handlers implement the same abstract machine as the server's.
\<close>

section \<open>What the small steps do to the negotiation state\<close>

definition his_neg_c :: "byte \<Rightarrow> tc \<Rightarrow> neg" where
  "his_neg_c opt s = \<lparr>my_state = my_state_is_do_c opt s, want_state = my_want_state_is_do_c opt s,
                      want_resp = unat (do_dont_resp_c s opt)\<rparr>"

definition my_neg_c :: "byte \<Rightarrow> tc \<Rightarrow> neg" where
  "my_neg_c opt s = \<lparr>my_state = my_state_is_will_c opt s, want_state = my_want_state_is_will_c opt s,
                     want_resp = unat (will_wont_resp_c s opt)\<rparr>"

lemmas opt_defs_c = my_state_is_do_c_def my_want_state_is_do_c_def my_state_is_will_c_def
  my_want_state_is_will_c_def set_my_state_do_c_def set_my_state_will_c_def set_my_want_state_do_c_def
  set_my_want_state_will_c_def set_my_state_dont_c_def set_my_state_wont_c_def
  set_my_want_state_dont_c_def set_my_want_state_wont_c_def

lemma set_opt_bit_c [simp]: "opt_bit_c b o' (set_opt_c c opt s) =
    (if o' = opt then opt_bit_c b opt s \<or> c AND b \<noteq> 0 else opt_bit_c b o' s)"
proof -
  have "(x OR c) AND b = (x AND b) OR (c AND b)" for x :: byte
    by (metis and.commute bit.conj_disj_distrib)
  then show ?thesis by (auto simp: opt_bit_c_def set_opt_c_def or_eq_0_iff)
qed

lemma clear_opt_bit_c:
  assumes "b = 1 \<or> b = 2 \<or> b = 4 \<or> b = 8" "c = 1 \<or> c = 2 \<or> c = 4 \<or> c = 8"
  shows "opt_bit_c b o' (clear_opt_c c opt s) =
    (if o' = opt then opt_bit_c b opt s \<and> b \<noteq> c else opt_bit_c b o' s)"
proof -
  have "(x AND NOT c) AND b = (if b = c then 0 else x AND b)" for x :: byte
    using assms by (elim disjE) (simp_all, (rule byte_eqI; simp add: bit_simps)+)
  then show ?thesis by (auto simp: opt_bit_c_def clear_opt_c_def)
qed

definition same_neg_c :: "tc \<Rightarrow> tc \<Rightarrow> bool" where
  "same_neg_c s' s = (options_c s' = options_c s \<and> do_dont_resp_c s' = do_dont_resp_c s \<and>
                      will_wont_resp_c s' = will_wont_resp_c s)"

lemma same_neg_c_bits: "same_neg_c s' s \<Longrightarrow> opt_bit_c b opt s' = opt_bit_c b opt s"
  by (simp add: same_neg_c_def opt_bit_c_def)

lemma tc_enc_same: "same_neg_c (tc_enc f s) s"
  by (simp add: tc_enc_def same_neg_c_def)

lemma TerminalNewMode_same: "same_neg_c (TerminalNewMode f s) s"
  by (simp add: TerminalNewMode_def same_neg_c_def ttyflush_all_def Let_def)

lemma setconnmode_same: "same_neg_c (setconnmode force s) s"
  using TerminalNewMode_same [of "getconnmode s OR mode_if force MODE_FORCE" s]
  by (auto simp: setconnmode_def same_neg_c_def tc_enc_def Let_def)

lemma net_add_same: "same_neg_c (net_add xs s) s"
  by (simp add: net_add_def tc_enc_same)

lemma settimer_same_c: "same_neg_c (settimer_c f s) s"
  by (simp add: settimer_c_def same_neg_c_def)

lemma frame_c [simp]:
  "opt_bit_c b opt (setconnmode force s) = opt_bit_c b opt s"
  "do_dont_resp_c (setconnmode force s) = do_dont_resp_c s"
  "will_wont_resp_c (setconnmode force s) = will_wont_resp_c s"
  "opt_bit_c b opt (net_add xs s) = opt_bit_c b opt s"
  "do_dont_resp_c (net_add xs s) = do_dont_resp_c s"
  "will_wont_resp_c (net_add xs s) = will_wont_resp_c s"
  "opt_bit_c b opt (modenegotiated s) = opt_bit_c b opt s"
  "do_dont_resp_c (modenegotiated s) = do_dont_resp_c s"
  "will_wont_resp_c (modenegotiated s) = will_wont_resp_c s"
  "opt_bit_c b opt (tc_enc f s) = opt_bit_c b opt s"
  "do_dont_resp_c (tc_enc f s) = do_dont_resp_c s"
  "will_wont_resp_c (tc_enc f s) = will_wont_resp_c s"
  unfolding modenegotiated_def
  by (simp_all only: setconnmode_same [THEN same_neg_c_bits] setconnmode_same [unfolded same_neg_c_def]
      net_add_same [THEN same_neg_c_bits] net_add_same [unfolded same_neg_c_def]
      settimer_same_c [THEN same_neg_c_bits] settimer_same_c [unfolded same_neg_c_def]
      tc_enc_same [THEN same_neg_c_bits] tc_enc_same [unfolded same_neg_c_def])

lemma field_frame_c [simp]:
  "opt_bit_c b opt (s\<lparr>flushout := v\<rparr>) = opt_bit_c b opt s"
  "opt_bit_c b opt (s\<lparr>linemode := l\<rparr>) = opt_bit_c b opt s"
  "opt_bit_c b opt (s\<lparr>telopt_environ := e\<rparr>) = opt_bit_c b opt s"
  "opt_bit_c b opt (s\<lparr>kludgelinemode := k\<rparr>) = opt_bit_c b opt s"
  by (simp_all add: opt_bit_c_def)

lemma upd_resp_same_c [simp]:
  "opt_bit_c b o' (upd_do_resp_c opt f s) = opt_bit_c b o' s"
  "opt_bit_c b o' (upd_will_resp_c opt f s) = opt_bit_c b o' s"
  "do_dont_resp_c (upd_do_resp_c opt f s) = (do_dont_resp_c s)(opt := f (do_dont_resp_c s opt))"
  "will_wont_resp_c (upd_will_resp_c opt f s) = (will_wont_resp_c s)(opt := f (will_wont_resp_c s opt))"
  "will_wont_resp_c (upd_do_resp_c opt f s) = will_wont_resp_c s"
  "do_dont_resp_c (upd_will_resp_c opt f s) = do_dont_resp_c s"
  by (simp_all add: upd_do_resp_c_def upd_will_resp_c_def opt_bit_c_def)

lemma set_opt_same_c [simp]:
  "do_dont_resp_c (set_opt_c b opt s) = do_dont_resp_c s" "will_wont_resp_c (set_opt_c b opt s) = will_wont_resp_c s"
  "do_dont_resp_c (clear_opt_c b opt s) = do_dont_resp_c s" "will_wont_resp_c (clear_opt_c b opt s) = will_wont_resp_c s"
  by (simp_all add: set_opt_c_def clear_opt_c_def)

lemma dec_resp_c [simp]:
  "do_dont_resp_c (dec_do_resp_c same opt s) = (do_dont_resp_c s)(opt := resp_dec same (do_dont_resp_c s opt))"
  "opt_bit_c b o' (dec_do_resp_c same opt s) = opt_bit_c b o' s"
  "will_wont_resp_c (dec_do_resp_c same opt s) = will_wont_resp_c s"
  "will_wont_resp_c (dec_will_resp_c same opt s) = (will_wont_resp_c s)(opt := resp_dec same (will_wont_resp_c s opt))"
  "opt_bit_c b o' (dec_will_resp_c same opt s) = opt_bit_c b o' s"
  "do_dont_resp_c (dec_will_resp_c same opt s) = do_dont_resp_c s"
  by (simp_all add: dec_do_resp_c_def dec_will_resp_c_def resp_dec_def Let_def fun_eq_iff)

lemma send_noinit_c [simp]:
  "send_do_c opt False s = net_add [IAC, DO, opt] s" "send_dont_c opt False s = net_add [IAC, DONT, opt] s"
  "send_will_c opt False s = net_add [IAC, WILL, opt] s" "send_wont_c opt False s = net_add [IAC, WONT, opt] s"
  by (simp_all add: send_do_c_def send_dont_c_def send_will_c_def send_wont_c_def)

section \<open>Refinement\<close>

lemma willoption_c_refines:
  assumes "opt \<noteq> TELOPT_TM"
  shows "his_neg_c opt (willoption_c opt s) = receive True (will_accepted_c opt) (his_neg_c opt s)"
  using assms
  by (cases "my_state_is_do_c opt s"; cases "my_want_state_is_do_c opt s"; cases "will_accepted_c opt";
      cases "opt = TELOPT_ENCRYPT"; simp add: willoption_c_def Let_def opt_defs_c will_unwanted_c_def his_neg_c_def receive_dec
      clear_opt_bit_c resp_dec_zero unat_resp_dec resp_dec_inc)

lemma wontoption_c_refines:
  assumes "opt \<noteq> TELOPT_TM"
  shows "his_neg_c opt (wontoption_c opt s) = receive False True (his_neg_c opt s)"
  using assms
  by (cases "my_state_is_do_c opt s"; cases "my_want_state_is_do_c opt s";
      simp add: wontoption_c_def Let_def opt_defs_c wont_wanted_c_def his_neg_c_def receive_dec
      clear_opt_bit_c resp_dec_zero unat_resp_dec resp_dec_inc)

lemma do_environ_neg [simp]:
  "opt \<noteq> TELOPT_OLD_ENVIRON \<Longrightarrow> opt_bit_c b opt (do_environ o' s) = opt_bit_c b opt s"
  "opt \<noteq> TELOPT_OLD_ENVIRON \<Longrightarrow> will_wont_resp_c (do_environ o' s) opt = will_wont_resp_c s opt"
  "do_dont_resp_c (do_environ o' s) = do_dont_resp_c s"
  by (auto simp: do_environ_def send_wont_c_def opt_defs_c clear_opt_c_def opt_bit_c_def upd_will_resp_c_def
      net_add_def tc_enc_def Let_def)

lemma send_other_neg [simp]:
  "opt \<noteq> o' \<Longrightarrow> opt_bit_c b opt (send_will_c o' i s) = opt_bit_c b opt s"
  "opt \<noteq> o' \<Longrightarrow> will_wont_resp_c (send_will_c o' i s) opt = will_wont_resp_c s opt"
  by (auto simp: send_will_c_def opt_defs_c set_opt_c_def opt_bit_c_def upd_will_resp_c_def
      net_add_def tc_enc_def Let_def)

lemma dooption_c_refines:
  assumes "opt \<notin> {TELOPT_TM, TELOPT_LINEMODE, TELOPT_OLD_ENVIRON}"
  shows "my_neg_c opt (dooption_c opt s) =
    receive True (do_accepted_c opt (dec_will_resp_c (my_state_is_will_c opt s) opt s)) (my_neg_c opt s)"
  using assms
  by (cases "my_state_is_will_c opt s"; cases "my_want_state_is_will_c opt s";
      cases "do_accepted_c opt (dec_will_resp_c (my_state_is_will_c opt s) opt s)";
      simp add: dooption_c_def Let_def opt_defs_c do_unwanted_c_def my_neg_c_def receive_dec
      clear_opt_bit_c resp_dec_zero unat_resp_dec resp_dec_inc)

lemma dontoption_c_refines:
  assumes "opt \<noteq> TELOPT_OLD_ENVIRON"
  shows "my_neg_c opt (dontoption_c opt s) = receive False True (my_neg_c opt s)"
  using assms
  by (cases "my_state_is_will_c opt s"; cases "my_want_state_is_will_c opt s";
      simp add: dontoption_c_def Let_def opt_defs_c dont_wanted_c_def my_neg_c_def receive_dec
      clear_opt_bit_c resp_dec_zero unat_resp_dec resp_dec_inc)

text \<open>The conditions under which an option is agreed to are not touched by the counters.\<close>

lemma do_accepted_dec [simp]:
  "do_accepted_c opt (dec_will_resp_c same opt s) = do_accepted_c opt s"
proof -
  have "envlist (dec_will_resp_c same opt s) = envlist s" "autologin (dec_will_resp_c same opt s) = autologin s"
    by (simp_all add: dec_will_resp_c_def upd_will_resp_c_def Let_def)
  then show ?thesis by (simp add: do_accepted_c_def display_exported_def opt_defs_c)
qed

end
