(* ===== verification/Agree.thy ===== *)
theory Agree
  imports ClOptSpec
begin

text \<open>
  The telnet client and the telnet server at the two ends of a connection: the negotiation of an
  option that both agree to comes to rest, and then both ends are in the same state.
\<close>

section \<open>What is written\<close>

text \<open>The messages about one option among the calls of the network routines.\<close>

definition neg_msgs :: "byte \<Rightarrow> byte \<Rightarrow> byte \<Rightarrow> net_event list \<Rightarrow> bool list" where
  "neg_msgs pos ngt opt es =
     concat (List.map (\<lambda>e. if e = Net_write [IAC, pos, opt] then [True]
                           else if e = Net_write [IAC, ngt, opt] then [False] else []) es)"

definition emitted :: "net_event list \<Rightarrow> net_event list \<Rightarrow> net_event list" where
  "emitted old new = drop (length old) new"

lemma neg_msgs_Nil [simp]: "neg_msgs pos ngt opt [] = []"
  by (simp add: neg_msgs_def)

lemma neg_msgs_append [simp]: "neg_msgs pos ngt opt (xs @ ys) = neg_msgs pos ngt opt xs @ neg_msgs pos ngt opt ys"
  by (simp add: neg_msgs_def)

text \<open>A longer message is never a negotiation.\<close>

definition quiet :: "net_event \<Rightarrow> bool" where
  "quiet e = (case e of Net_write xs \<Rightarrow> length xs > 3 | _ \<Rightarrow> True)"

lemma quiet_msgs: "list_all quiet es \<Longrightarrow> neg_msgs pos ngt opt es = []"
  by (induction es) (auto simp: neg_msgs_def quiet_def split: net_event.splits)

text \<open>\<open>adds es s' s\<close>: the step from \<open>s\<close> to \<open>s'\<close> has written \<open>es\<close>.\<close>

definition quietly :: "enc_state \<Rightarrow> enc_state \<Rightarrow> bool" where
  "quietly s' s = (\<exists>es. net_out s' = net_out s @ es \<and> list_all quiet es)"

lemma quietly_refl [simp]: "quietly s s"
  by (simp add: quietly_def)

lemma quietly_trans: "quietly s'' s' \<Longrightarrow> quietly s' s \<Longrightarrow> quietly s'' s"
  unfolding quietly_def by (metis append.assoc list_all_append)

lemma quietly_frame:
  "quietly (upd_fb m f s) s" "quietly (s\<lparr>randoms := rs\<rparr>) s" "quietly (s\<lparr>autoencrypt := b\<rparr>) s"
  "quietly (s\<lparr>encrypt_output := eo, encrypt_mode := em\<rparr>) s" "quietly (s\<lparr>encrypt_output := eo\<rparr>) s"
  "quietly (net_encrypt s) s" "length xs > 3 \<Longrightarrow> quietly (net_write xs s) s"
  by (auto simp: quietly_def upd_fb_def net_encrypt_def net_write_def quiet_def)

lemma feed_message_long: "length payload \<ge> 3 \<Longrightarrow> 3 < length (feed_message c payload buf)"
  by (simp add: feed_message_def put_at_def min_def) arith

lemma fb64_start_quietly: "quietly (snd (fb64_start m d sv s)) s"
proof -
  have w: "quietly (upd_fb m g (net_write xs (upd_fb m f (s\<lparr>randoms := rs\<rparr>)))) s"
    if "length xs > 3" for f g xs rs
    using that
    by (intro quietly_trans [OF quietly_frame(1)] quietly_trans [OF quietly_frame(7)]
        quietly_trans [OF quietly_frame(1)] quietly_frame(2)) simp
  show ?thesis
    unfolding fb64_start_def
    by (auto simp: Let_def quietly_frame feed_message_long intro!: w split: dir.split list.split option.split)
qed

lemma encrypt_start_output_quietly: "quietly (encrypt_start_output type s) s"
  unfolding encrypt_start_output_def Let_def
  by (auto simp: case_prod_beta fb64_start_quietly split: option.split
      intro!: quietly_trans [OF quietly_frame(4)] quietly_trans [OF quietly_frame(6)]
        quietly_trans [OF quietly_frame(7) fb64_start_quietly])

lemma encrypt_request_quietly:
  "quietly (encrypt_request_start d s) s" "quietly (encrypt_request_end s) s"
  by (auto simp: encrypt_request_start_def encrypt_request_end_def encrypt_send_end_def Let_def
      quietly_frame encrypt_start_output_quietly
      intro!: quietly_trans [OF quietly_frame(5)] quietly_trans [OF quietly_frame(6)] quietly_frame(7))

section \<open>The client's messages\<close>

definition writes :: "byte \<Rightarrow> byte \<Rightarrow> byte \<Rightarrow> tc \<Rightarrow> tc \<Rightarrow> bool list \<Rightarrow> bool" where
  "writes pos ngt opt s' s ms = (\<exists>es. c_out s' = c_out s @ es \<and> neg_msgs pos ngt opt es = ms)"

lemma writes_emitted: "writes pos ngt opt s' s ms \<Longrightarrow> neg_msgs pos ngt opt (emitted (c_out s) (c_out s')) = ms"
  by (auto simp: writes_def emitted_def)

lemma writes_trans: "writes pos ngt opt s'' s' ms' \<Longrightarrow> writes pos ngt opt s' s ms \<Longrightarrow> writes pos ngt opt s'' s (ms @ ms')"
  unfolding writes_def by (metis append.assoc neg_msgs_append)

lemma writes_same: "c_out s' = c_out s \<Longrightarrow> writes pos ngt opt s' s []"
  by (auto simp: writes_def intro!: exI [of _ "[]"])

lemma c_out_same [simp]:
  "c_out (set_opt_c b opt s) = c_out s" "c_out (clear_opt_c b opt s) = c_out s"
  "c_out (upd_do_resp_c opt f s) = c_out s" "c_out (upd_will_resp_c opt f s) = c_out s"
  "c_out (dec_do_resp_c same opt s) = c_out s" "c_out (dec_will_resp_c same opt s) = c_out s"
  "c_out (modenegotiated s) = c_out s" "c_out (s\<lparr>flushout := v\<rparr>) = c_out s" "c_out (s\<lparr>linemode := l\<rparr>) = c_out s"
  "c_out (s\<lparr>telopt_environ := e\<rparr>) = c_out s" "c_out (TerminalNewMode md s) = c_out s"
  "c_out (s\<lparr>enc_passwd := b'\<rparr>) = c_out s"
  by (simp_all add: c_out_def set_opt_c_def clear_opt_c_def upd_do_resp_c_def upd_will_resp_c_def
      dec_do_resp_c_def dec_will_resp_c_def modenegotiated_def settimer_c_def TerminalNewMode_def
      ttyflush_all_def Let_def)

lemma c_out_net_add [simp]: "c_out (net_add xs s) = c_out s @ [Net_write xs]"
  by (simp add: c_out_def net_add_def tc_enc_def net_write_def)

lemma tc_enc_writes: "quietly (f (enc (auth_c s))) (enc (auth_c s)) \<Longrightarrow> writes pos ngt opt (tc_enc f s) s []"
  by (auto simp: writes_def quietly_def c_out_def tc_enc_def quiet_msgs)

lemma setconnmode_writes: "writes pos ngt opt (setconnmode force s) s []"
proof -
  define t where "t = TerminalNewMode (getconnmode s OR mode_if force MODE_FORCE) s"
  have t: "c_out t = c_out s" by (simp add: t_def)
  have "writes pos ngt opt ((tc_enc (encrypt_request_start []) t)\<lparr>enc_passwd := True\<rparr>) t []"
    "writes pos ngt opt ((tc_enc encrypt_request_end t)\<lparr>enc_passwd := False\<rparr>) t []"
    using tc_enc_writes [of "encrypt_request_start []" t, OF encrypt_request_quietly(1)]
      tc_enc_writes [of encrypt_request_end t, OF encrypt_request_quietly(2)]
    by (simp_all add: writes_def)
  then have "writes pos ngt opt (setconnmode force s) t []"
    unfolding setconnmode_def Let_def t_def [symmetric] by (simp add: writes_same)
  with t show ?thesis by (simp add: writes_def)
qed

lemma neg_msgs_one:
  "neg_msgs pos ngt opt [Net_write [IAC, pos, opt]] = [True]"
  "pos \<noteq> ngt \<Longrightarrow> neg_msgs pos ngt opt [Net_write [IAC, ngt, opt]] = [False]"
  "opt' \<noteq> opt \<Longrightarrow> neg_msgs pos ngt opt [Net_write [IAC, c, opt']] = []"
  by (simp_all add: neg_msgs_def)

lemma net_add_writes:
  "writes pos ngt opt (net_add [IAC, pos, opt] s) s [True]"
  "pos \<noteq> ngt \<Longrightarrow> writes pos ngt opt (net_add [IAC, ngt, opt] s) s [False]"
  "opt' \<noteq> opt \<Longrightarrow> writes pos ngt opt (net_add [IAC, c, opt'] s) s []"
  unfolding writes_def by (metis c_out_net_add neg_msgs_one)+

lemma net_add_writes_from:
  "c_out t = c_out s \<Longrightarrow> writes pos ngt opt (net_add xs t) s (neg_msgs pos ngt opt [Net_write xs])"
  by (auto simp: writes_def intro!: exI [of _ "[Net_write xs]"])

text \<open>The environment options send messages about each other only.\<close>

lemma environ_writes:
  "opt \<noteq> o' \<Longrightarrow> writes pos ngt opt (send_will_c o' i s) s []"
  "opt \<noteq> o' \<Longrightarrow> writes pos ngt opt (send_wont_c o' i s) s []"
  using net_add_writes_from [of _ s pos ngt opt "[IAC, WILL, o']"] net_add_writes_from [of _ s pos ngt opt "[IAC, WONT, o']"]
    neg_msgs_one(3) [of o' opt pos ngt]
  by (auto simp: send_will_c_def send_wont_c_def opt_defs_c writes_same)

lemma do_environ_writes: "opt \<noteq> TELOPT_OLD_ENVIRON \<Longrightarrow> writes pos ngt opt (do_environ o' s) s []"
  using environ_writes(2) [of opt TELOPT_OLD_ENVIRON pos ngt True s] by (auto simp: do_environ_def writes_def)

section \<open>What the client's handlers send\<close>

lemma dooption_c_writes:
  assumes "opt \<notin> {TELOPT_TM, TELOPT_LINEMODE, TELOPT_OLD_ENVIRON}" "do_accepted_c opt s"
  shows "writes WILL WONT opt (dooption_c opt s) s (answer True (my_neg_c opt s))"
proof -
  define t where "t = dec_will_resp_c (my_state_is_will_c opt s) opt s"
  have t: "c_out t = c_out s" by (simp add: t_def)
  have acc: "do_accepted_c opt t" using assms(2) by (simp add: t_def)
  have unwanted: "writes WILL WONT opt (do_unwanted_c opt t) t [True]"
  proof -
    define u where "u = do_environ opt t"
    have u: "writes WILL WONT opt u t []" using assms(1) by (simp add: u_def do_environ_writes)
    have "writes WILL WONT opt (net_add [IAC, WILL, opt] (set_my_want_state_will_c opt u)) u [True]"
      using net_add_writes_from [of "set_my_want_state_will_c opt u" u WILL WONT opt "[IAC, WILL, opt]"]
      by (simp add: set_my_want_state_will_c_def neg_msgs_def)
    from writes_trans [OF setconnmode_writes writes_trans [OF this u]] show ?thesis
      using acc by (simp add: do_unwanted_c_def u_def)
  qed
  have "dooption_c opt s = set_my_state_will_c opt
      (if will_wont_resp_c t opt = 0 \<and> \<not> my_want_state_is_will_c opt t then do_unwanted_c opt t else t)"
    using assms(1) by (simp add: dooption_c_def Let_def t_def)
  moreover have "answer True (my_neg_c opt s) =
      (if will_wont_resp_c t opt = 0 \<and> \<not> my_want_state_is_will_c opt t then [True] else [])"
    by (simp add: answer_def my_neg_c_def t_def resp_dec_zero opt_defs_c)
  ultimately show ?thesis
    using unwanted t by (auto simp: writes_def set_my_state_will_c_def)
qed

lemma dontoption_c_writes:
  assumes "opt \<notin> {TELOPT_OLD_ENVIRON}"
  shows "writes WILL WONT opt (dontoption_c opt s) s (answer False (my_neg_c opt s))"
proof -
  define t where "t = dec_will_resp_c (\<not> my_state_is_will_c opt s) opt s"
  have t: "c_out t = c_out s" by (simp add: t_def)
  have wanted: "writes WILL WONT opt (dont_wanted_c opt t) t (if my_state_is_will_c opt t then [False] else [])"
  proof -
    define u where "u = (if opt = TELOPT_LINEMODE then t\<lparr>linemode := 0\<rparr>
               else if opt = TELOPT_NEW_ENVIRON
               then (send_will_c TELOPT_OLD_ENVIRON True t)\<lparr>telopt_environ := TELOPT_OLD_ENVIRON\<rparr>
               else t)"
    have u: "writes WILL WONT opt u t []"
      using environ_writes(1) [of opt TELOPT_OLD_ENVIRON WILL WONT True t] assms
      by (auto simp: u_def writes_def)
    have b: "my_state_is_will_c opt u = my_state_is_will_c opt t"
      using assms by (simp add: u_def opt_defs_c)
    define v where "v = set_my_want_state_wont_c opt u"
    have v: "c_out v = c_out u" "my_state_is_will_c opt v = my_state_is_will_c opt t"
      using b by (simp_all add: v_def opt_defs_c clear_opt_bit_c)
    have "writes WILL WONT opt (if my_state_is_will_c opt v then send_wont_c opt False v else v) u
        (if my_state_is_will_c opt t then [False] else [])"
      using net_add_writes_from [OF v(1), of WILL WONT opt "[IAC, WONT, opt]"] v
      by (auto simp: neg_msgs_def writes_same)
    moreover have "dont_wanted_c opt t =
        setconnmode False (if my_state_is_will_c opt v then send_wont_c opt False v else v)"
      by (simp only: dont_wanted_c_def Let_def u_def v_def)
    ultimately show ?thesis
      using writes_trans [OF setconnmode_writes writes_trans [OF _ u]] by fastforce
  qed
  have "dontoption_c opt s = set_my_state_wont_c opt
      (if will_wont_resp_c t opt = 0 \<and> my_want_state_is_will_c opt t then dont_wanted_c opt t else t)"
    by (simp add: dontoption_c_def Let_def t_def)
  moreover have "answer False (my_neg_c opt s) =
      (if will_wont_resp_c t opt = 0 \<and> my_want_state_is_will_c opt t
       then (if my_state_is_will_c opt t then [False] else []) else [])"
    by (simp add: answer_def my_neg_c_def t_def resp_dec_zero opt_defs_c)
  ultimately show ?thesis
    using wanted t by (auto simp: writes_def set_my_state_wont_c_def)
qed

lemma willoption_c_writes:
  assumes "opt \<notin> {TELOPT_TM, TELOPT_ENCRYPT}" "will_accepted_c opt"
  shows "writes DO DONT opt (willoption_c opt s) s (answer True (his_neg_c opt s))"
proof -
  define t where "t = dec_do_resp_c (my_state_is_do_c opt s) opt s"
  have t: "c_out t = c_out s" by (simp add: t_def)
  have unwanted: "writes DO DONT opt (will_unwanted_c opt t) t [True]"
  proof -
    define u where "u = (if opt \<in> {TELOPT_ECHO, TELOPT_BINARY, TELOPT_SGA} then modenegotiated t else t)"
    have u: "c_out (set_my_want_state_do_c opt u) = c_out t" by (simp add: u_def set_my_want_state_do_c_def)
    have "writes DO DONT opt (net_add [IAC, DO, opt] (set_my_want_state_do_c opt u)) t [True]"
      using net_add_writes_from [OF u, of DO DONT opt "[IAC, DO, opt]"] by (simp add: neg_msgs_def)
    from writes_trans [OF setconnmode_writes this] show ?thesis
      using assms(2) by (simp add: will_unwanted_c_def u_def)
  qed
  have "willoption_c opt s = set_my_state_do_c opt
      (if do_dont_resp_c t opt = 0 \<and> \<not> my_want_state_is_do_c opt t then will_unwanted_c opt t else t)"
    using assms(1) by (simp add: willoption_c_def Let_def t_def)
  moreover have "answer True (his_neg_c opt s) =
      (if do_dont_resp_c t opt = 0 \<and> \<not> my_want_state_is_do_c opt t then [True] else [])"
    by (simp add: answer_def his_neg_c_def t_def resp_dec_zero opt_defs_c)
  ultimately show ?thesis
    using unwanted t by (auto simp: writes_def set_my_state_do_c_def)
qed

lemma wontoption_c_writes:
  assumes "opt \<noteq> TELOPT_TM"
  shows "writes DO DONT opt (wontoption_c opt s) s (answer False (his_neg_c opt s))"
proof -
  define t where "t = dec_do_resp_c (\<not> my_state_is_do_c opt s) opt s"
  have t: "c_out t = c_out s" by (simp add: t_def)
  have wanted: "writes DO DONT opt (wont_wanted_c opt t) t (if my_state_is_do_c opt t then [False] else [])"
  proof -
    define v where "v = set_my_want_state_dont_c opt
      (if opt = TELOPT_ECHO \<or> opt = TELOPT_SGA \<and> kludgelinemode t then modenegotiated t else t)"
    have v: "c_out v = c_out t" "my_state_is_do_c opt v = my_state_is_do_c opt t"
      by (simp_all add: v_def opt_defs_c clear_opt_bit_c)
    have "writes DO DONT opt (if my_state_is_do_c opt v then send_dont_c opt False v else v) t
        (if my_state_is_do_c opt t then [False] else [])"
      using net_add_writes_from [OF v(1), of DO DONT opt "[IAC, DONT, opt]"] v
      by (auto simp: neg_msgs_def writes_same)
    from writes_trans [OF setconnmode_writes this] have
      "writes DO DONT opt (setconnmode False (if my_state_is_do_c opt v then send_dont_c opt False v else v)) t
        (if my_state_is_do_c opt t then [False] else [])" by simp
    moreover have "wont_wanted_c opt t =
        setconnmode False (if my_state_is_do_c opt v then send_dont_c opt False v else v)"
      by (simp only: wont_wanted_c_def Let_def v_def)
    ultimately show ?thesis by simp
  qed
  have "wontoption_c opt s = set_my_state_dont_c opt
      (if do_dont_resp_c t opt = 0 \<and> my_want_state_is_do_c opt t then wont_wanted_c opt t else t)"
    using assms by (simp add: wontoption_c_def Let_def t_def)
  moreover have "answer False (his_neg_c opt s) =
      (if do_dont_resp_c t opt = 0 \<and> my_want_state_is_do_c opt t
       then (if my_state_is_do_c opt t then [False] else []) else [])"
    by (simp add: answer_def his_neg_c_def t_def resp_dec_zero opt_defs_c)
  ultimately show ?thesis
    using wanted t by (auto simp: writes_def set_my_state_dont_c_def)
qed

text \<open>Requests.\<close>

lemma send_will_c_request:
  assumes "will_wont_resp_c s opt \<noteq> 255"
  shows "my_neg_c opt (send_will_c opt True s) = request True (my_neg_c opt s)"
    "my_neg_c opt (send_wont_c opt True s) = request False (my_neg_c opt s)"
    "writes WILL WONT opt (send_will_c opt True s) s (requested True (my_neg_c opt s))"
    "writes WILL WONT opt (send_wont_c opt True s) s (requested False (my_neg_c opt s))"
  using assms net_add_writes_from [of _ s WILL WONT opt "[IAC, WILL, opt]"]
    net_add_writes_from [of _ s WILL WONT opt "[IAC, WONT, opt]"]
  by (auto simp: send_will_c_def send_wont_c_def opt_defs_c my_neg_c_def request_def requested_def
      unat_eq_0 unat_inc clear_opt_bit_c neg_msgs_def writes_same)

lemma send_do_c_request:
  assumes "do_dont_resp_c s opt \<noteq> 255"
  shows "his_neg_c opt (send_do_c opt True s) = request True (his_neg_c opt s)"
    "his_neg_c opt (send_dont_c opt True s) = request False (his_neg_c opt s)"
    "writes DO DONT opt (send_do_c opt True s) s (requested True (his_neg_c opt s))"
    "writes DO DONT opt (send_dont_c opt True s) s (requested False (his_neg_c opt s))"
  using assms net_add_writes_from [of _ s DO DONT opt "[IAC, DO, opt]"]
    net_add_writes_from [of _ s DO DONT opt "[IAC, DONT, opt]"]
  by (auto simp: send_do_c_def send_dont_c_def opt_defs_c his_neg_c_def request_def requested_def
      unat_eq_0 unat_inc clear_opt_bit_c neg_msgs_def writes_same)

section \<open>What the server's handlers send\<close>

definition writes_s :: "byte \<Rightarrow> byte \<Rightarrow> byte \<Rightarrow> tn \<Rightarrow> tn \<Rightarrow> bool list \<Rightarrow> bool" where
  "writes_s pos ngt opt s' s ms = (\<exists>es. tn_out s' = tn_out s @ es \<and> neg_msgs pos ngt opt es = ms)"

lemma writes_s_emitted:
  "writes_s pos ngt opt s' s ms \<Longrightarrow> neg_msgs pos ngt opt (emitted (tn_out s) (tn_out s')) = ms"
  by (auto simp: writes_s_def emitted_def)

lemma willoption_writes:
  assumes "opt \<notin> {TELOPT_TM, TELOPT_ECHO, TELOPT_LFLOW, TELOPT_AUTHENTICATION, TELOPT_ENCRYPT, TELOPT_LOGOUT,
      TELOPT_SGA}"
  shows "will_accepted opt \<Longrightarrow> writes_s DO DONT opt (willoption opt s) s (answer True (his_neg opt s))"
    "writes_s DO DONT opt (wontoption opt s) s (answer False (his_neg opt s))"
  using replies_out [OF assms, of s]
  by (auto simp: writes_s_def answer_def his_neg_def resp_dec_zero neg_msgs_def opt_defs)

lemma dooption_writes:
  assumes "opt \<notin> {TELOPT_TM, TELOPT_LOGOUT, TELOPT_SGA}"
  shows "do_accepted opt \<Longrightarrow> writes_s WILL WONT opt (dooption opt s) s (answer True (my_neg opt s))"
    "writes_s WILL WONT opt (dontoption opt s) s (answer False (my_neg opt s))"
  using assms
  by (auto simp: writes_s_def answer_def my_neg_def resp_dec_zero neg_msgs_def opt_defs dooption_def dontoption_def
      Let_def do_unwanted_def dont_wanted_def switch_out clear_opt_bit)

lemma send_do_request:
  assumes "opt \<noteq> TELOPT_TM" "do_dont_resp s opt \<noteq> 255"
  shows "his_neg opt (send_do opt True s) = request True (his_neg opt s)"
    "his_neg opt (send_dont opt True s) = request False (his_neg opt s)"
    "writes_s DO DONT opt (send_do opt True s) s (requested True (his_neg opt s))"
    "writes_s DO DONT opt (send_dont opt True s) s (requested False (his_neg opt s))"
  using assms
  by (auto simp: send_do_def send_dont_def Let_def opt_defs his_neg_def request_def requested_def unat_eq_0
      unat_inc clear_opt_bit writes_s_def neg_msgs_def)

lemma send_will_request:
  assumes "will_wont_resp s opt \<noteq> 255"
  shows "my_neg opt (send_will opt True s) = request True (my_neg opt s)"
    "my_neg opt (send_wont opt True s) = request False (my_neg opt s)"
    "writes_s WILL WONT opt (send_will opt True s) s (requested True (my_neg opt s))"
    "writes_s WILL WONT opt (send_wont opt True s) s (requested False (my_neg opt s))"
  using assms
  by (auto simp: send_will_def send_wont_def Let_def opt_defs my_neg_def request_def requested_def unat_eq_0
      unat_inc clear_opt_bit writes_s_def neg_msgs_def)

end
