(* ===== verification/Settle.thy ===== *)
theory Settle
  imports Agree
begin

text \<open>
  The negotiation between two ends, through an interface that the client's and the server's
  handlers provide: what an end does when it is asked and when a message comes in is what the
  abstract machine does.
\<close>

section \<open>The interface\<close>

text \<open>
  One end of an option: its negotiation state, what a request of its user and a received
  message do, which messages about the option a step has sent, whether it agrees to the option, and
  whether its counter has room for another request.
\<close>

record 's opt_end =
  e_neg :: "'s \<Rightarrow> neg"
  e_ask :: "bool \<Rightarrow> 's \<Rightarrow> 's"
  e_get :: "bool \<Rightarrow> 's \<Rightarrow> 's"
  e_sent :: "'s \<Rightarrow> 's \<Rightarrow> bool list"
  e_agrees :: "'s \<Rightarrow> bool"
  e_room :: "'s \<Rightarrow> bool"

locale option_end =
  fixes e :: "'s opt_end"
  assumes get_neg: "e_agrees e s \<Longrightarrow> e_neg e (e_get e m s) = receive m True (e_neg e s)"
    and get_sent: "e_agrees e s \<Longrightarrow> e_sent e s (e_get e m s) = answer m (e_neg e s)"
    and ask_neg: "e_room e s \<Longrightarrow> e_neg e (e_ask e new s) = request new (e_neg e s)"
    and ask_sent: "e_room e s \<Longrightarrow> e_sent e s (e_ask e new s) = requested new (e_neg e s)"

text \<open>
  A step of the pair: a request, a delivery, or anything else that an end does which leaves this
  option alone and sends no message about it.
\<close>

inductive pair_step ::
  "'a opt_end \<Rightarrow> 'b opt_end \<Rightarrow> ('a \<times> 'b) wires \<Rightarrow> neg_event option \<Rightarrow> ('a \<times> 'b) wires \<Rightarrow> bool"
  for ea :: "'a opt_end" and eb :: "'b opt_end" where
  ask_near: "e_room ea a \<Longrightarrow> a' = e_ask ea new a \<Longrightarrow>
    pair_step ea eb ((a, b), ab, ba) (Some (Ask Near new)) ((a', b), ab @ e_sent ea a a', ba)"
| ask_far: "e_room eb b \<Longrightarrow> b' = e_ask eb new b \<Longrightarrow>
    pair_step ea eb ((a, b), ab, ba) (Some (Ask Far new)) ((a, b'), ab, ba @ e_sent eb b b')"
| get_near: "e_agrees ea a \<Longrightarrow> a' = e_get ea m a \<Longrightarrow>
    pair_step ea eb ((a, b), ab, m # ba) (Some (Deliver Near)) ((a', b), ab @ e_sent ea a a', ba)"
| get_far: "e_agrees eb b \<Longrightarrow> b' = e_get eb m b \<Longrightarrow>
    pair_step ea eb ((a, b), m # ab, ba) (Some (Deliver Far)) ((a, b'), ab, ba @ e_sent eb b b')"
| other_near: "e_neg ea a' = e_neg ea a \<Longrightarrow> e_sent ea a a' = [] \<Longrightarrow>
    pair_step ea eb ((a, b), ab, ba) None ((a', b), ab, ba)"
| other_far: "e_neg eb b' = e_neg eb b \<Longrightarrow> e_sent eb b b' = [] \<Longrightarrow>
    pair_step ea eb ((a, b), ab, ba) None ((a, b'), ab, ba)"

inductive pair_run ::
  "'a opt_end \<Rightarrow> 'b opt_end \<Rightarrow> ('a \<times> 'b) wires \<Rightarrow> neg_event list \<Rightarrow> ('a \<times> 'b) wires \<Rightarrow> bool"
  for ea :: "'a opt_end" and eb :: "'b opt_end" where
  run_nil: "pair_run ea eb s [] s"
| run_silent: "pair_step ea eb s None s' \<Longrightarrow> pair_run ea eb s' evs s'' \<Longrightarrow> pair_run ea eb s evs s''"
| run_event: "pair_step ea eb s (Some ev) s' \<Longrightarrow> pair_run ea eb s' evs s'' \<Longrightarrow>
    pair_run ea eb s (ev # evs) s''"

definition pair_abs :: "'a opt_end \<Rightarrow> 'b opt_end \<Rightarrow> ('a \<times> 'b) wires \<Rightarrow> (neg \<times> neg) wires" where
  "pair_abs ea eb s = (case s of ((a, b), ab, ba) \<Rightarrow> ((e_neg ea a, e_neg eb b), ab, ba))"

definition off :: "neg \<Rightarrow> bool" where
  "off n = (n = \<lparr>my_state = False, want_state = False, want_resp = 0\<rparr>)"

fun is_delivery :: "neg_event \<Rightarrow> bool" where
  "is_delivery (Deliver d) = True"
| "is_delivery (Ask d new) = False"

section \<open>What the pair does\<close>

locale option_pair = near: option_end ea + far: option_end eb
  for ea :: "'a opt_end" and eb :: "'b opt_end"
begin

lemma step_simulates:
  "pair_step ea eb s ev s' \<Longrightarrow>
   pair_abs ea eb s' = (case ev of Some e \<Rightarrow> neg_step e (pair_abs ea eb s) | None \<Rightarrow> pair_abs ea eb s)"
  by (induction rule: pair_step.induct)
     (simp_all add: pair_abs_def near.get_neg near.get_sent near.ask_neg near.ask_sent
       far.get_neg far.get_sent far.ask_neg far.ask_sent)

lemma run_simulates:
  "pair_run ea eb s evs s' \<Longrightarrow> pair_abs ea eb s' = fold neg_step evs (pair_abs ea eb s)"
  by (induction rule: pair_run.induct) (auto dest!: step_simulates)

lemma run_inv: "pair_run ea eb s evs s' \<Longrightarrow> neg_inv (pair_abs ea eb s) \<Longrightarrow> neg_inv (pair_abs ea eb s')"
proof -
  have "neg_inv t \<Longrightarrow> neg_inv (fold neg_step evs t)" for t
    by (induction evs arbitrary: t) (simp_all add: neg_step_inv)
  then show "pair_run ea eb s evs s' \<Longrightarrow> neg_inv (pair_abs ea eb s) \<Longrightarrow> neg_inv (pair_abs ea eb s')"
    by (simp add: run_simulates)
qed

lemma start_inv: "off (e_neg ea a) \<Longrightarrow> off (e_neg eb b) \<Longrightarrow> neg_inv (pair_abs ea eb ((a, b), [], []))"
  by (simp add: off_def pair_abs_def neg_inv_def toward_def own_parity_def)

text \<open>Every delivery counts down what is left to deliver.\<close>

lemma delivery_pending: "pair_step ea eb s (Some (Deliver d)) s' \<Longrightarrow> pending d (pair_abs ea eb s) \<noteq> []"
  by (erule pair_step.cases) (auto simp: pair_abs_def)

lemma deliveries_count:
  "pair_run ea eb s evs s' \<Longrightarrow> neg_inv (pair_abs ea eb s) \<Longrightarrow> list_all is_delivery evs \<Longrightarrow>
   to_deliver (pair_abs ea eb s) = length evs + to_deliver (pair_abs ea eb s')"
proof (induction rule: pair_run.induct)
  case (run_nil s)
  then show ?case by simp
next
  case (run_silent s s' evs s'')
  then show ?case by (simp add: step_simulates)
next
  case (run_event s ev s' evs s'')
  then obtain d where ev: "ev = Deliver d" by (cases ev) auto
  have "pair_abs ea eb s' = neg_step (Deliver d) (pair_abs ea eb s)"
    using step_simulates [OF run_event.hyps(1)] ev by simp
  moreover have "to_deliver (pair_abs ea eb s) = Suc (to_deliver (neg_step (Deliver d) (pair_abs ea eb s)))"
    using deliver_count [OF run_event.prems(1)] delivery_pending run_event.hyps(1) ev by blast
  ultimately show ?case
    using run_event.IH run_event.prems neg_step_inv by simp
qed

lemma at_rest:
  assumes "neg_inv (pair_abs ea eb ((a, b), [], []))"
  shows "\<exists>on. e_neg ea a = \<lparr>my_state = on, want_state = on, want_resp = 0\<rparr> \<and>
              e_neg eb b = \<lparr>my_state = on, want_state = on, want_resp = 0\<rparr>"
  using neg_at_rest [OF assms [unfolded pair_abs_def prod.case]]
  by (cases "e_neg ea a"; cases "e_neg eb b") simp

text \<open>From the start, through any run: what is left comes in so many deliveries, and then the ends agree.\<close>

lemma settles:
  assumes "off (e_neg ea a0)" "off (e_neg eb b0)" "pair_run ea eb ((a0, b0), [], []) evs ((a, b), ab, ba)"
    and "pair_run ea eb ((a, b), ab, ba) ds ((a', b'), ab', ba')" "list_all is_delivery ds"
  shows "length ds \<le> 2 * (length ab + length ba) \<and>
    (ab' = [] \<and> ba' = [] \<longleftrightarrow> length ds = length ab + length ba + nat \<bar>int (length ba) - int (want_resp (e_neg ea a))\<bar>) \<and>
    (ab' = [] \<and> ba' = [] \<longrightarrow>
      (\<exists>on. e_neg ea a' = \<lparr>my_state = on, want_state = on, want_resp = 0\<rparr> \<and>
            e_neg eb b' = \<lparr>my_state = on, want_state = on, want_resp = 0\<rparr>))"
proof -
  have i: "neg_inv (pair_abs ea eb ((a, b), ab, ba))" using run_inv [OF assms(3) start_inv [OF assms(1,2)]] .
  have i': "neg_inv (pair_abs ea eb ((a', b'), ab', ba'))" using run_inv [OF assms(4) i] .
  have c: "to_deliver (pair_abs ea eb ((a, b), ab, ba)) = length ds + to_deliver (pair_abs ea eb ((a', b'), ab', ba'))"
    using deliveries_count [OF assms(4) i assms(5)] .
  have bound: "to_deliver (pair_abs ea eb ((a, b), ab, ba)) \<le> 2 * (length ab + length ba)"
    using i by (auto simp: to_deliver_def neg_inv_def pair_abs_def)
  have z: "to_deliver (pair_abs ea eb ((a', b'), ab', ba')) = 0 \<longleftrightarrow> ab' = [] \<and> ba' = []"
    using to_deliver_0 [OF i'] by (auto simp: pair_abs_def)
  have t: "to_deliver (pair_abs ea eb ((a, b), ab, ba)) =
      length ab + length ba + nat \<bar>int (length ba) - int (want_resp (e_neg ea a))\<bar>"
    by (simp add: to_deliver_def pair_abs_def)
  show ?thesis
  proof (intro conjI)
    show "length ds \<le> 2 * (length ab + length ba)" using c bound by simp
    show "(ab' = [] \<and> ba' = []) = (length ds = length ab + length ba + nat \<bar>int (length ba) - int (want_resp (e_neg ea a))\<bar>)"
      using c z t by simp
    show "ab' = [] \<and> ba' = [] \<longrightarrow> (\<exists>on. e_neg ea a' = \<lparr>my_state = on, want_state = on, want_resp = 0\<rparr> \<and>
            e_neg eb b' = \<lparr>my_state = on, want_state = on, want_resp = 0\<rparr>)"
      using at_rest i' by blast
  qed
qed

end

section \<open>Client and server\<close>

text \<open>The options that the client performs and the server accepts, and those that the server performs.\<close>

definition client_options :: "byte set" where
  "client_options = {TELOPT_BINARY, TELOPT_TTYPE, TELOPT_NAWS, TELOPT_TSPEED, TELOPT_XDISPLOC, TELOPT_NEW_ENVIRON}"

definition server_options :: "byte set" where
  "server_options = {TELOPT_BINARY, TELOPT_ECHO, TELOPT_STATUS}"

definition client_will :: "byte \<Rightarrow> tc opt_end" where
  "client_will opt =
     \<lparr>e_neg = my_neg_c opt,
      e_ask = (\<lambda>new. if new then send_will_c opt True else send_wont_c opt True),
      e_get = (\<lambda>m. if m then dooption_c opt else dontoption_c opt),
      e_sent = (\<lambda>s s'. neg_msgs WILL WONT opt (emitted (c_out s) (c_out s'))),
      e_agrees = (\<lambda>s. opt \<in> client_options \<and> do_accepted_c opt s),
      e_room = (\<lambda>s. will_wont_resp_c s opt \<noteq> 255)\<rparr>"

definition server_do :: "byte \<Rightarrow> tn opt_end" where
  "server_do opt =
     \<lparr>e_neg = his_neg opt,
      e_ask = (\<lambda>new. if new then send_do opt True else send_dont opt True),
      e_get = (\<lambda>m. if m then willoption opt else wontoption opt),
      e_sent = (\<lambda>s s'. neg_msgs DO DONT opt (emitted (tn_out s) (tn_out s'))),
      e_agrees = (\<lambda>s. opt \<in> client_options),
      e_room = (\<lambda>s. opt \<noteq> TELOPT_TM \<and> do_dont_resp s opt \<noteq> 255)\<rparr>"

definition client_do :: "byte \<Rightarrow> tc opt_end" where
  "client_do opt =
     \<lparr>e_neg = his_neg_c opt,
      e_ask = (\<lambda>new. if new then send_do_c opt True else send_dont_c opt True),
      e_get = (\<lambda>m. if m then willoption_c opt else wontoption_c opt),
      e_sent = (\<lambda>s s'. neg_msgs DO DONT opt (emitted (c_out s) (c_out s'))),
      e_agrees = (\<lambda>s. opt \<in> server_options),
      e_room = (\<lambda>s. do_dont_resp_c s opt \<noteq> 255)\<rparr>"

definition server_will :: "byte \<Rightarrow> tn opt_end" where
  "server_will opt =
     \<lparr>e_neg = my_neg opt,
      e_ask = (\<lambda>new. if new then send_will opt True else send_wont opt True),
      e_get = (\<lambda>m. if m then dooption opt else dontoption opt),
      e_sent = (\<lambda>s s'. neg_msgs WILL WONT opt (emitted (tn_out s) (tn_out s'))),
      e_agrees = (\<lambda>s. opt \<in> server_options),
      e_room = (\<lambda>s. will_wont_resp s opt \<noteq> 255)\<rparr>"

lemmas client_will_sent = dooption_c_writes [THEN writes_emitted, simplified]
  dontoption_c_writes [THEN writes_emitted, simplified] send_will_c_request(3,4) [THEN writes_emitted, simplified]

lemmas client_do_sent = willoption_c_writes [THEN writes_emitted, simplified]
  wontoption_c_writes [THEN writes_emitted, simplified] send_do_c_request(3,4) [THEN writes_emitted, simplified]

lemmas server_do_sent = willoption_writes [THEN writes_s_emitted, simplified]
  send_do_request(3,4) [THEN writes_s_emitted, simplified]

lemmas server_will_sent = dooption_writes [THEN writes_s_emitted, simplified]
  send_will_request(3,4) [THEN writes_s_emitted, simplified]

interpretation client_will: option_end "client_will opt" for opt
  by unfold_locales
    (auto simp: client_will_def client_options_def dooption_c_refines dontoption_c_refines send_will_c_request(1,2)
      client_will_sent)

interpretation server_do: option_end "server_do opt" for opt
  by unfold_locales
    (auto simp: server_do_def client_options_def willoption_refines wontoption_refines will_accepted_def
      send_do_request(1,2) server_do_sent)

interpretation client_do: option_end "client_do opt" for opt
  by unfold_locales
    (auto simp: client_do_def server_options_def willoption_c_refines wontoption_c_refines will_accepted_c_def
      send_do_c_request(1,2) client_do_sent)

interpretation server_will: option_end "server_will opt" for opt
  by unfold_locales
    (auto simp: server_will_def server_options_def dooption_refines dontoption_refines do_accepted_def
      send_will_request(1,2) server_will_sent)

interpretation client_performs: option_pair "client_will opt" "server_do opt" for opt
  by unfold_locales

interpretation server_performs: option_pair "client_do opt" "server_will opt" for opt
  by unfold_locales

text \<open>
  C5. Negotiation settles. Take the client and the server with an option that the client performs and the
  server accepts (binary, terminal type, window size, speed, display, environment), off at both ends.
  After any interleaving of requests by either user, deliveries in either direction and anything
  else the two ends do, the messages still under way come to an end: when nothing more is asked,
  at most twice as many deliveries follow as messages are under way (exactly the number given), and
  then both ends have the option in the same state, want that state, and wait for no answer.
\<close>

theorem client_options_agree:
  assumes "off (my_neg_c opt c0)" "off (his_neg opt v0)"
    and "pair_run (client_will opt) (server_do opt) ((c0, v0), [], []) evs ((c, v), ab, ba)"
    and "pair_run (client_will opt) (server_do opt) ((c, v), ab, ba) ds ((c', v'), ab', ba')" "list_all is_delivery ds"
  shows "length ds \<le> 2 * (length ab + length ba) \<and>
    (ab' = [] \<and> ba' = [] \<longleftrightarrow>
       length ds = length ab + length ba + nat \<bar>int (length ba) - int (unat (will_wont_resp_c c opt))\<bar>) \<and>
    (ab' = [] \<and> ba' = [] \<longrightarrow>
       (\<exists>on. my_neg_c opt c' = \<lparr>my_state = on, want_state = on, want_resp = 0\<rparr> \<and>
             his_neg opt v' = \<lparr>my_state = on, want_state = on, want_resp = 0\<rparr>))"
  using client_performs.settles [OF _ _ assms(3-5)] assms(1,2)
  by (simp add: client_will_def server_do_def my_neg_c_def)

text \<open>
  C6. The same for an option that the server performs and the client accepts: binary, echo, status.
\<close>

theorem server_options_agree:
  assumes "off (his_neg_c opt c0)" "off (my_neg opt v0)"
    and "pair_run (client_do opt) (server_will opt) ((c0, v0), [], []) evs ((c, v), ab, ba)"
    and "pair_run (client_do opt) (server_will opt) ((c, v), ab, ba) ds ((c', v'), ab', ba')" "list_all is_delivery ds"
  shows "length ds \<le> 2 * (length ab + length ba) \<and>
    (ab' = [] \<and> ba' = [] \<longleftrightarrow>
       length ds = length ab + length ba + nat \<bar>int (length ba) - int (unat (do_dont_resp_c c opt))\<bar>) \<and>
    (ab' = [] \<and> ba' = [] \<longrightarrow>
       (\<exists>on. his_neg_c opt c' = \<lparr>my_state = on, want_state = on, want_resp = 0\<rparr> \<and>
             my_neg opt v' = \<lparr>my_state = on, want_state = on, want_resp = 0\<rparr>))"
  using server_performs.settles [OF _ _ assms(3-5)] assms(1,2)
  by (simp add: client_do_def server_will_def his_neg_c_def)

section \<open>A run\<close>

definition demo_cc :: "cc_key \<Rightarrow> byte" where
  "demo_cc k = (case k of VINTR \<Rightarrow> 3 | VQUIT \<Rightarrow> 28 | VERASE \<Rightarrow> 127 | VKILL \<Rightarrow> 21 | VEOF \<Rightarrow> 4 | VSTART \<Rightarrow> 17
     | VSTOP \<Rightarrow> 19 | VEOL \<Rightarrow> 0 | VSUSP \<Rightarrow> 26 | VDISCARD \<Rightarrow> 15 | VWERASE \<Rightarrow> 23 | VREPRINT \<Rightarrow> 18 | VLNEXT \<Rightarrow> 22)"

definition demo_tc :: tc where "demo_tc = tc_boot demo_cc [] (auth_boot False)"

context option_pair
begin

text \<open>One user asks for the option, the other end agrees, and the answer arrives.\<close>

lemma one_request:
  assumes "off (e_neg ea a)" "off (e_neg eb b)" "e_room ea a" "\<And>s. e_agrees ea s" "\<And>s. e_agrees eb s"
  shows "\<exists>a1 a' b'. pair_run ea eb ((a, b), [], []) [Ask Near True] ((a1, b), [True], []) \<and>
    pair_run ea eb ((a1, b), [True], []) [Deliver Far, Deliver Near] ((a', b'), [], [])"
proof -
  define a1 where "a1 = e_ask ea True a"
  define b' where "b' = e_get eb True b"
  define a' where "a' = e_get ea True a1"
  have n1: "e_neg ea a1 = \<lparr>my_state = False, want_state = True, want_resp = 1\<rparr>" "e_sent ea a a1 = [True]"
    using near.ask_neg [OF assms(3), of True] near.ask_sent [OF assms(3), of True] assms(1)
    by (simp_all add: a1_def off_def request_def requested_def)
  have n2: "e_sent eb b b' = [True]"
    using far.get_sent [OF assms(5), of b True] assms(2) by (simp add: b'_def off_def answer_def neg_dec_def)
  have n3: "e_sent ea a1 a' = []"
    using near.get_sent [OF assms(4), of a1 True] n1(1) by (simp add: a'_def answer_def neg_dec_def)
  have s1: "pair_step ea eb ((a, b), [], []) (Some (Ask Near True)) ((a1, b), [True], [])"
    using pair_step.ask_near [of ea a a1 True eb b "[]" "[]"] assms(3) n1(2) by (simp add: a1_def)
  have s2: "pair_step ea eb ((a1, b), [True], []) (Some (Deliver Far)) ((a1, b'), [], [True])"
    using pair_step.get_far [of eb b b' True ea a1 "[]" "[]"] assms(5) n2 by (simp add: b'_def)
  have s3: "pair_step ea eb ((a1, b'), [], [True]) (Some (Deliver Near)) ((a', b'), [], [])"
    using pair_step.get_near [of ea a1 a' True eb b' "[]" "[]"] assms(4) n3 by (simp add: a'_def)
  show ?thesis
    using pair_run.run_event [OF s1 pair_run.run_nil]
      pair_run.run_event [OF s2 pair_run.run_event [OF s3 pair_run.run_nil]] by blast
qed

end

lemma demo_off:
  "off (my_neg_c opt demo_tc)" "off (his_neg opt demo_tn)" "off (his_neg_c opt demo_tc)" "off (my_neg opt demo_tn)"
  "e_room (client_will opt) demo_tc" "e_room (client_do opt) demo_tc"
  by (simp_all add: off_def my_neg_c_def his_neg_c_def his_neg_def my_neg_def demo_tc_def demo_tn_def tc_boot_def
      tn_boot_def opt_defs_c opt_defs opt_bit_c_def opt_bit_def client_will_def client_do_def)

lemma ttype_agreed: "e_agrees (client_will TELOPT_TTYPE) s" "e_agrees (server_do TELOPT_TTYPE) t"
  "e_agrees (client_do TELOPT_ECHO) s" "e_agrees (server_will TELOPT_ECHO) t"
  by (simp_all add: client_will_def server_do_def client_do_def server_will_def client_options_def
      server_options_def do_accepted_c_def)

lemma client_options_agree_witness:
  "\<exists>c c' v' on. pair_run (client_will TELOPT_TTYPE) (server_do TELOPT_TTYPE) ((demo_tc, demo_tn), [], [])
       [Ask Near True] ((c, demo_tn), [True], []) \<and>
     pair_run (client_will TELOPT_TTYPE) (server_do TELOPT_TTYPE) ((c, demo_tn), [True], [])
       [Deliver Far, Deliver Near] ((c', v'), [], []) \<and>
     my_neg_c TELOPT_TTYPE c' = \<lparr>my_state = on, want_state = on, want_resp = 0\<rparr> \<and>
     his_neg TELOPT_TTYPE v' = \<lparr>my_state = on, want_state = on, want_resp = 0\<rparr>"
proof -
  have o: "off (e_neg (client_will TELOPT_TTYPE) demo_tc)" "off (e_neg (server_do TELOPT_TTYPE) demo_tn)"
    using demo_off(1,2) [of TELOPT_TTYPE] by (simp_all add: client_will_def server_do_def)
  obtain c c' v' where
    R: "pair_run (client_will TELOPT_TTYPE) (server_do TELOPT_TTYPE) ((demo_tc, demo_tn), [], [])
       [Ask Near True] ((c, demo_tn), [True], [])"
    and S: "pair_run (client_will TELOPT_TTYPE) (server_do TELOPT_TTYPE) ((c, demo_tn), [True], [])
       [Deliver Far, Deliver Near] ((c', v'), [], [])"
    using client_performs.one_request [OF o demo_off(5) ttype_agreed(1,2)] by blast
  show ?thesis using client_options_agree [OF demo_off(1,2) R S] R S by fastforce
qed

lemma server_options_agree_witness:
  "\<exists>c c' v' on. pair_run (client_do TELOPT_ECHO) (server_will TELOPT_ECHO) ((demo_tc, demo_tn), [], [])
       [Ask Near True] ((c, demo_tn), [True], []) \<and>
     pair_run (client_do TELOPT_ECHO) (server_will TELOPT_ECHO) ((c, demo_tn), [True], [])
       [Deliver Far, Deliver Near] ((c', v'), [], []) \<and>
     his_neg_c TELOPT_ECHO c' = \<lparr>my_state = on, want_state = on, want_resp = 0\<rparr> \<and>
     my_neg TELOPT_ECHO v' = \<lparr>my_state = on, want_state = on, want_resp = 0\<rparr>"
proof -
  have o: "off (e_neg (client_do TELOPT_ECHO) demo_tc)" "off (e_neg (server_will TELOPT_ECHO) demo_tn)"
    using demo_off(3,4) [of TELOPT_ECHO] by (simp_all add: client_do_def server_will_def)
  obtain c c' v' where
    R: "pair_run (client_do TELOPT_ECHO) (server_will TELOPT_ECHO) ((demo_tc, demo_tn), [], [])
       [Ask Near True] ((c, demo_tn), [True], [])"
    and S: "pair_run (client_do TELOPT_ECHO) (server_will TELOPT_ECHO) ((c, demo_tn), [True], [])
       [Deliver Far, Deliver Near] ((c', v'), [], [])"
    using server_performs.one_request [OF o demo_off(6) ttype_agreed(3,4)] by blast
  show ?thesis using server_options_agree [OF demo_off(3,4) R S] R S by fastforce
qed

section \<open>Refusal\<close>

text \<open>
  C37. A refusal does not settle. When the client asks for an option that the server does not know (line mode,
  in this build), the server answers DONT, and the client, whose state never was on, does not answer
  that. The client is off again, but the server goes on holding the option to be on, with a
  count of one answer that never comes.
\<close>

theorem refused_option_stays_on:
  assumes "\<not> will_accepted opt" "opt \<notin> {TELOPT_TM, TELOPT_ECHO, TELOPT_LOGOUT, TELOPT_OLD_ENVIRON}"
    and "off (my_neg_c opt c)" "off (his_neg opt v)"
  shows "c_out (send_will_c opt True c) = c_out c @ [Net_write [IAC, WILL, opt]] \<and>
    tn_out (willoption opt v) = tn_out v @ [Net_write [IAC, DONT, opt]] \<and>
    neg_msgs WILL WONT opt (emitted (c_out (send_will_c opt True c))
        (c_out (dontoption_c opt (send_will_c opt True c)))) = [] \<and>
    off (my_neg_c opt (dontoption_c opt (send_will_c opt True c))) \<and>
    his_neg opt (willoption opt v) = \<lparr>my_state = True, want_state = False, want_resp = 1\<rparr>"
proof -
  have n: "my_neg_c opt c = \<lparr>my_state = False, want_state = False, want_resp = 0\<rparr>"
    "his_neg opt v = \<lparr>my_state = False, want_state = False, want_resp = 0\<rparr>"
    using assms(3,4) by (simp_all add: off_def)
  have z: "will_wont_resp_c c opt = 0" using n(1) by (simp add: my_neg_c_def unat_eq_0)
  have w: "my_neg_c opt (send_will_c opt True c) = \<lparr>my_state = False, want_state = True, want_resp = 1\<rparr>"
    using send_will_c_request(1) [of c opt] z n(1) by (simp add: request_def)
  have "c_out (send_will_c opt True c) = c_out c @ [Net_write [IAC, WILL, opt]]"
    using n(1) z by (simp add: send_will_c_def my_neg_c_def opt_defs_c)
  moreover have "tn_out (willoption opt v) = tn_out v @ [Net_write [IAC, DONT, opt]]"
    using replies_out [of opt v] n(2) assms(1,2)
    by (auto simp: his_neg_def will_accepted_def resp_dec_zero neg_dec_def opt_defs)
  moreover have "neg_msgs WILL WONT opt (emitted (c_out (send_will_c opt True c))
        (c_out (dontoption_c opt (send_will_c opt True c)))) = []"
    using dontoption_c_writes [THEN writes_emitted, of opt "send_will_c opt True c"] assms(2) w
    by (simp add: answer_def)
  moreover have "off (my_neg_c opt (dontoption_c opt (send_will_c opt True c)))"
    using dontoption_c_refines [of opt "send_will_c opt True c"] assms(2) w by (simp add: off_def receive_def)
  moreover have "his_neg opt (willoption opt v) = \<lparr>my_state = True, want_state = False, want_resp = 1\<rparr>"
    using willoption_refines [of opt v] assms(1,2) n(2) by (simp add: receive_def)
  ultimately show ?thesis by blast
qed

lemma refused_option_stays_on_witness:
  "off (my_neg_c TELOPT_LINEMODE (dontoption_c TELOPT_LINEMODE (send_will_c TELOPT_LINEMODE True demo_tc))) \<and>
   his_neg TELOPT_LINEMODE (willoption TELOPT_LINEMODE demo_tn) = \<lparr>my_state = True, want_state = False, want_resp = 1\<rparr>"
proof -
  have "\<not> will_accepted TELOPT_LINEMODE"
    "TELOPT_LINEMODE \<notin> {TELOPT_TM, TELOPT_ECHO, TELOPT_LOGOUT, TELOPT_OLD_ENVIRON}"
    by (simp_all add: will_accepted_def)
  from refused_option_stays_on [OF this demo_off(1,2)] show ?thesis by blast
qed

end
