(* ===== verification/ClProps.thy ===== *)
theory ClProps
  imports ClRcv EnvironSpec Settle
begin

text \<open>
  What the client's handlers achieve together with the server's: the environment that the server
  asks for and the text that the user types arrive as they were. The replies are built within the bounds of
  their buffers.
\<close>

section \<open>The reply with the environment\<close>

definition reply_fits :: "opt_reply \<Rightarrow> bool" where
  "reply_fits r = (int (length (fst r)) + 4 \<le> snd r)"

lemma byte_length: "length (env_byte c) \<le> 2"
  by (simp add: env_byte_def)

lemma bytes_length: "length (concat (List.map env_byte cs)) \<le> 2 * length cs"
proof (induction cs)
  case (Cons c cs)
  then show ?case using byte_length [of c] by simp
qed simp

lemma item_length:
  "int (length (env_item s ep)) + 4 \<le>
     2 * (case env_getvalue ep (envlist s) of Some vp \<Rightarrow> int (length vp) | None \<Rightarrow> 0) + 2 * int (length ep) + 6"
proof (cases "env_getvalue ep (envlist s)")
  case None
  then show ?thesis using bytes_length [of ep] by (simp add: env_item_def del: length_concat)
next
  case (Some vp)
  then show ?thesis
    using bytes_length [of ep] bytes_length [of vp] by (simp add: env_item_def del: length_concat)
qed

lemma add_one_fits: "reply_fits r \<Longrightarrow> reply_fits (env_add_one s ep r)"
  using item_length [of s ep] by (simp add: reply_fits_def env_add_one_def Let_def)

lemma add_fits:
  assumes "env_opt_add s ep r = Some r'" "reply_fits r" shows "reply_fits r'"
proof -
  have "reply_fits (fold (env_add_one s) ns r)" for ns
    using assms(2) by (induction ns arbitrary: r) (simp_all add: add_one_fits)
  then show ?thesis using assms by (auto simp: env_opt_add_def add_one_fits split: if_splits)
qed

lemma add_name_fits:
  assumes "env_add_name s ep r = Some r'" "\<And>r'. r = Some r' \<Longrightarrow> reply_fits r'" shows "reply_fits r'"
  using assms by (auto simp: env_add_name_def intro: add_fits split: option.splits)

lemma send_loop_fits:
  assumes "env_send_loop m e i ep (s, r) = (s', Some r')" "\<And>r'. r = Some r' \<Longrightarrow> reply_fits r'"
  shows "reply_fits r'"
  using assms
proof (induction m e i ep "(s, r)" arbitrary: s r rule: env_send_loop.induct)
  case (1 m e i ep s r)
  show ?case
  proof (cases "i < e")
    case False
    then show ?thesis using "1.prems" by (auto simp: env_send_loop.simps [of m e i] intro: add_name_fits)
  next
    case True
    show ?thesis
    proof (cases "m i = OLD_ENV_VAR \<or> m i = OLD_ENV_VALUE \<or> m i = ENV_USERVAR")
      case sep: True
      show ?thesis
        using "1.prems" True sep "1.hyps"(1) [OF True sep refl] add_name_fits
        by (simp add: env_send_loop.simps [of m e i] Let_def)
    next
      case False
      then show ?thesis
        using "1.prems" True "1.hyps"(2,3)
        by (cases "m i = ENV_ESC") (simp_all add: env_send_loop.simps [of m e i])
    qed
  qed
qed

section \<open>The server asks for the environment\<close>

definition client_entries :: "tc \<Rightarrow> (byte list \<times> byte list option) list" where
  "client_entries c = List.map (\<lambda>n. (n, env_getvalue n (envlist c))) (env_all c)"

definition client_kind :: "byte list \<Rightarrow> byte" where
  "client_kind n = (if opt_welldefined n then NEW_ENV_VAR else ENV_USERVAR)"

lemma client_kinds: "env_kinds client_kind"
  by (simp add: env_kinds_def client_kind_def)

lemma iac_double_append [simp]: "iac_double (xs @ ys) = iac_double xs @ iac_double ys"
  by (induction xs) simp_all

lemma bytes_escaped: "concat (List.map env_byte w) = iac_double (env_escape w)"
  by (induction w) (simp_all add: env_byte_def env_special_def)

lemma item_encoded:
  assumes "telopt_environ s = TELOPT_NEW_ENVIRON"
  shows "env_item s n = iac_double (env_encode client_kind [(n, env_getvalue n (envlist s))])"
  using assms
  by (simp add: env_item_def env_var_code_def env_value_code_def client_kind_def bytes_escaped split: option.split)

lemma encode_append: "env_encode k (xs @ ys) = env_encode k xs @ env_encode k ys"
  by (induction k xs rule: env_encode.induct) simp_all

lemma items_encoded:
  assumes "telopt_environ s = TELOPT_NEW_ENVIRON"
  shows "concat (List.map (env_item s) ns) =
    iac_double (env_encode client_kind (List.map (\<lambda>n. (n, env_getvalue n (envlist s))) ns))"
proof (induction ns)
  case (Cons n ns)
  let ?e = "(n, env_getvalue n (envlist s))" and ?es = "List.map (\<lambda>n. (n, env_getvalue n (envlist s))) ns"
  have "env_encode client_kind (?e # ?es) = env_encode client_kind [?e] @ env_encode client_kind ?es"
    using encode_append [of client_kind "[?e]" ?es] by (simp only: append_Cons append_Nil)
  then show ?case by (simp only: list.map concat.simps Cons item_encoded [OF assms, of n] iac_double_append)
qed simp

lemma fold_add_one: "fst (fold (env_add_one s) ns r) = fst r @ concat (List.map (env_item s) ns)"
  by (induction ns arbitrary: r) (simp_all add: env_add_one_def Let_def)

definition env_request :: "byte list" where
  "env_request = [IAC, SB, TELOPT_NEW_ENVIRON, TELQUAL_SEND, IAC, SE]"

definition env_answer :: "tc \<Rightarrow> byte list" where
  "env_answer c = [IAC, SB] @ iac_double ([TELOPT_NEW_ENVIRON, TELQUAL_IS] @ env_encode client_kind (client_entries c)) @
     [IAC, SE]"

text \<open>The client is between commands, its input is in clear, and both rings have room.\<close>

definition cl_ready :: "tc \<Rightarrow> bool" where
  "cl_ready c = (\<not> ended c \<and> telrcv_state c = C_DATA \<and> TTYROOM c > 2 \<and> decrypt_input (enc (auth_c c)) = None)"

lemma telrcv_piece_step:
  assumes "\<not> ended s" "TTYROOM s > 2" "decrypt_input (enc (auth_c s)) = None"
  shows "telrcv_piece des kis rd_rep (x # xs) s =
    (let (n, s) = rcv_state_c des kis rd_rep x xs s in telrcv_piece des kis rd_rep (drop n xs) s)"
  using assms by (simp add: telrcv_piece.simps(2) decrypt_in_c_def)

lemma env_request_received:
  assumes "cl_ready c" "telopt_environ c = TELOPT_NEW_ENVIRON" "my_want_state_is_will_c TELOPT_NEW_ENVIRON c"
    and "[] \<notin> set (env_all c)" "NETROOM c > int (length (env_answer c))"
  shows "\<exists>t. telrcv_c des kis rd_rep [env_request] c = ([], net_add (env_answer c) t\<lparr>telrcv_state := C_DATA\<rparr>) \<and>
    c_bytes t = c_bytes c"
proof -
  define t where "t = sb_end_c SE (c\<lparr>subbuffer_c := (subbuffer_c c)(0 := TELOPT_NEW_ENVIRON, 1 := TELQUAL_SEND),
     subpointer_c := 2, telrcv_state := C_SE\<rparr>)"
  have r: "telrcv_piece des kis rd_rep env_request c =
      (let s = suboption_c kis rd_rep t\<lparr>telrcv_state := C_DATA\<rparr> in ([], s))"
    using assms(1)
    by (simp add: env_request_def telrcv_piece_step rcv_state_c_def ts_data_c_def cl_ready_def TTYROOM_def
        process_iac_def ts_se_c_def sb_accum_c_def SUBBUFSIZE_def t_def Let_def)
  have e: "t = c\<lparr>telrcv_state := C_SE, subpointer_c := 0, subend_c := 2,
     subbuffer_c := (subbuffer_c c)(0 := TELOPT_NEW_ENVIRON, 1 := TELQUAL_SEND, 2 := IAC, 3 := SE)\<rparr>"
    by (simp add: t_def sb_end_c_def sb_accum_c_def SUBBUFSIZE_def Let_def)
  have same: "env_all t = env_all c" "envlist t = envlist c" "telopt_environ t = telopt_environ c"
    "env_opt_start t = env_opt_start c" "NETROOM t = NETROOM c" "c_bytes t = c_bytes c"
    by (simp_all add: e env_all_def env_opt_start_def NETROOM_def c_bytes_def c_out_def)
  have "suboption_c kis rd_rep t = env_opt t"
    using assms(3) by (simp add: suboption_c_def sub_environ_c_def e my_want_state_is_will_c_def opt_bit_c_def)
  also have "\<dots> = env_opt_end True (fold (env_add_one t) (env_all c) (env_opt_start c)) t"
  proof -
    have "subbuffer_c t 1 = TELQUAL_SEND" "subend_c t - 1 = 1" by (simp_all add: e)
    moreover have "env_opt_add t [] (env_opt_start c) = Some (fold (env_add_one t) (env_all c) (env_opt_start c))"
      using assms(4) by (simp add: env_opt_add_def same)
    ultimately show ?thesis by (simp add: env_opt_def same)
  qed
  also have "\<dots> = net_add (env_answer c) t"
  proof -
    have w: "fst (fold (env_add_one t) (env_all c) (env_opt_start c)) @ [IAC, SE] = env_answer c"
      using items_encoded [of t] assms(2)
      by (simp add: fold_add_one env_opt_start_def env_answer_def client_entries_def same)
    from arg_cong [OF w, of length] show ?thesis using assms(5) w
      by (simp add: env_opt_end_def same Let_def)
  qed
  finally show ?thesis using r same(6) by (auto simp: Let_def)
qed

section \<open>The user's text\<close>

text \<open>
  The client sends characters as they are typed: no rlogin escape, the escape character does not
  occur, no line editing or signal trapping, and a carriage return is followed by a NUL.
\<close>

definition snd_plain :: "byte list \<Rightarrow> tc \<Rightarrow> bool" where
  "snd_plain xs c =
     (\<not> ended c \<and> rlogin c = VDISABLE \<and> (\<forall>x \<in> set xs. strip x \<noteq> escape c) \<and> \<not> LOCAL_CHARS (globalmode c) \<and>
      \<not> crlf c)"

definition binary_c :: "tc \<Rightarrow> bool" where
  "binary_c c = my_want_state_is_will_c TELOPT_BINARY c"

lemma and_or_zero: "m AND (a OR b) = 0 \<Longrightarrow> m AND a = 0" for m a b :: "'w::len word"
  by (auto simp: bit_eq_iff bit_simps)

lemma no_edit: "\<not> LOCAL_CHARS m \<Longrightarrow> m AND ucast MODE_EDIT = 0"
  using and_or_zero [of m "ucast MODE_EDIT" "ucast MODE_TRAPSIG"] by (simp only: LOCAL_CHARS_def not_not)

lemma snd_byte_plain:
  assumes "snd_plain (x # xs) c"
  shows "snd_byte command x xs c = (Next xs, snd_data x (c\<lparr>bol := False\<rparr>))"
  using assms no_edit [of "globalmode c"]
  by (simp add: snd_byte_def snd_escape_def snd_echo_def snd_char_def snd_plain_def)

lemma c_bytes_add [simp]: "c_bytes (net_add xs c) = c_bytes c @ xs"
  by (simp add: c_bytes_def)

lemma snd_data_plain:
  assumes "snd_plain (x # xs) c"
  defines "t \<equiv> snd_data x (c\<lparr>bol := False\<rparr>)"
  shows "snd_plain xs t" "binary_c t = binary_c c"
    "c_bytes t = c_bytes c @ nvt_encode (binary_c c) [x]"
    "NETROOM t = NETROOM c - int (length (nvt_encode (binary_c c) [x]))"
proof -
  let ?w = "nvt_encode (binary_c c) [x]"
  have "snd_bytes x (c\<lparr>bol := False\<rparr>) = ?w"
    using assms by (auto simp: snd_bytes_def snd_plain_def binary_c_def my_want_state_is_will_c_def opt_bit_c_def)
  then have t: "t = net_add ?w (c\<lparr>bol := False\<rparr>) \<or>
      t = (net_add ?w (c\<lparr>bol := False\<rparr>))\<lparr>bol := True, flushline := True\<rparr>"
    by (simp add: t_def snd_data_def Let_def)
  show "snd_plain xs t" using t assms(1) by (auto simp: snd_plain_def net_add_def tc_enc_def)
  show "binary_c t = binary_c c"
    using t by (auto simp: binary_c_def my_want_state_is_will_c_def opt_bit_c_def net_add_def tc_enc_def)
  show b: "c_bytes t = c_bytes c @ ?w"
    using t by (auto simp: c_bytes_def c_out_def net_add_def tc_enc_def net_write_def)
  have "c_sent t = c_sent c" using t by (auto simp: net_add_def tc_enc_def)
  then show "NETROOM t = NETROOM c - int (length ?w)" using b by (simp add: NETROOM_def)
qed

lemma nvt_append: "nvt_encode b (xs @ ys) = nvt_encode b xs @ nvt_encode b ys"
  by (induction xs) simp_all

lemma telsnd_piece_plain:
  assumes "snd_plain xs c" "NETROOM c > 2 + int (length (nvt_encode (binary_c c) xs))"
  shows "\<exists>t. telsnd_piece command xs c = ([], True, t) \<and> c_bytes t = c_bytes c @ nvt_encode (binary_c c) xs \<and>
    binary_c t = binary_c c \<and> snd_plain [] t \<and> NETROOM t = NETROOM c - int (length (nvt_encode (binary_c c) xs)) \<and>
    escape t = escape c"
  using assms
proof (induction xs arbitrary: c)
  case Nil
  then show ?case by simp
next
  case (Cons x xs)
  define u where "u = snd_data x (c\<lparr>bol := False\<rparr>)"
  note u = snd_data_plain [OF Cons.prems(1), folded u_def]
  have split: "nvt_encode b (x # xs) = nvt_encode b [x] @ nvt_encode b xs" for b
    using nvt_append [of b "[x]" xs] by simp
  have esc: "escape u = escape c" by (simp add: u_def snd_data_def net_add_def tc_enc_def Let_def)
  have "telsnd_piece command (x # xs) c = telsnd_piece command xs u"
    using Cons.prems snd_byte_plain [OF Cons.prems(1)] by (simp add: telsnd_piece.simps(2) snd_plain_def u_def)
  moreover have "2 + int (length (nvt_encode (binary_c u) xs)) < NETROOM u"
    using u(2,4) Cons.prems(2) split [of "binary_c c"] by (simp del: nvt_encode.simps)
  from Cons.IH [OF u(1) this] obtain t where
    "telsnd_piece command xs u = ([], True, t)" "c_bytes t = c_bytes u @ nvt_encode (binary_c u) xs"
    "binary_c t = binary_c u" "snd_plain [] t" "NETROOM t = NETROOM u - int (length (nvt_encode (binary_c u) xs))"
    "escape t = escape u"
    by blast
  ultimately show ?case
    using u(2-4) esc by (simp add: split [of "binary_c c"] del: nvt_encode.simps)
qed

lemma telsnd_plain:
  assumes "snd_plain (concat ps) c" "NETROOM c > 2 + int (length (nvt_encode (binary_c c) (concat ps)))"
  shows "\<exists>t. telsnd command ps c = ([], t) \<and> c_bytes t = c_bytes c @ nvt_encode (binary_c c) (concat ps)"
  using assms
proof (induction ps arbitrary: c)
  case Nil
  then show ?case by simp
next
  case (Cons p ps)
  have "snd_plain p c" "2 + int (length (nvt_encode (binary_c c) p)) < NETROOM c"
    using Cons.prems by (auto simp: snd_plain_def nvt_append)
  from telsnd_piece_plain [OF this] obtain u where u:
    "telsnd_piece command p c = ([], True, u)" "c_bytes u = c_bytes c @ nvt_encode (binary_c c) p"
    "binary_c u = binary_c c" "snd_plain [] u" "NETROOM u = NETROOM c - int (length (nvt_encode (binary_c c) p))"
    "escape u = escape c"
    by blast
  have "snd_plain (concat ps) u" using u(4,6) Cons.prems(1) by (auto simp: snd_plain_def)
  moreover have "2 + int (length (nvt_encode (binary_c u) (concat ps))) < NETROOM u"
    using Cons.prems(2) u(3,5) by (simp add: nvt_append)
  ultimately obtain t where "telsnd command ps u = ([], t)"
      "c_bytes t = c_bytes u @ nvt_encode (binary_c u) (concat ps)"
    using Cons.IH by blast
  then show ?case using u by (auto simp: nvt_append)
qed

section \<open>Properties\<close>

text \<open>
  C38. The reply with the environment fits its buffer: however the request for variables reads, whatever
  the variables and their values are, what has been written to \<open>opt_reply\<close> together with the two bytes that
  end it is never longer than the size it has been given by then.
\<close>

theorem env_reply_fits:
  "case env_send_loop m e i None (s, Some (env_opt_start s)) of
     (_, Some r) \<Rightarrow> int (length (fst r @ [IAC, SE])) \<le> snd r
   | (_, None) \<Rightarrow> True"
proof -
  have "reply_fits (env_opt_start s)" by (simp add: reply_fits_def env_opt_start_def OPT_REPLY_SIZE_def)
  then show ?thesis
    using send_loop_fits [of m e i None s "Some (env_opt_start s)"]
    by (auto simp: reply_fits_def split: prod.split option.split)
qed


definition env_tc :: tc where
  "env_tc = set_my_want_state_will_c TELOPT_NEW_ENVIRON
     (demo_tc\<lparr>envlist := [\<lparr>ev_var = [85, 83, 69, 82], ev_value = [255, 1, 98], ev_export = True, ev_welldefined = True\<rparr>,
        \<lparr>ev_var = [76, 68, 95], ev_value = [99], ev_export = True, ev_welldefined = False\<rparr>,
        \<lparr>ev_var = [80], ev_value = [], ev_export = False, ev_welldefined = False\<rparr>]\<rparr>)"

lemma env_tc_list:
  "env_all env_tc = [[76, 68, 95], [85, 83, 69, 82]]"
  "client_entries env_tc = [([76, 68, 95], Some [99]), ([85, 83, 69, 82], Some [255, 1, 98])]"
  by code_simp+

lemma authed_tn_ready: "sb_ready authed_tn"
proof -
  have "\<not> exited authed_tn" "decrypt_input (enc (auth authed_tn)) = None" "ptyo authed_tn = []" "pback authed_tn = 0"
    by code_simp+
  then show ?thesis by (simp add: sb_ready_def pfront_def BUFSIZ_def)
qed




end
