(* ===== verification/FdIo.thy ===== *)
theory FdIo
  imports Memory
begin

text \<open>
  Reading from and writing to a descriptor in full, as the loops of bsd/kcmd.c and gssftp/ftp/secure.c do
  it over \<open>read\<close> and \<open>write\<close>, which may take fewer bytes than asked, be interrupted or fail.
\<close>

section \<open>Descriptors\<close>

text \<open>
  What will still arrive at a descriptor before the end of the file, what has been written to it, and what
  the calls answer: after the last answer everything is done at once. An \<open>Io_chunk k\<close> takes at most
  \<open>k + 1\<close> bytes.
\<close>

datatype io_reply = Io_chunk nat | Io_intr | Io_fail

record fd =
  fd_data :: "byte list"
  fd_written :: "byte list"
  fd_replies :: "io_reply list"

datatype io_result = Io_got "byte list" | Io_eintr | Io_error

definition read_fd :: "nat \<Rightarrow> fd \<Rightarrow> io_result \<times> fd" where
  "read_fd n f =
     (case fd_replies f of
        [] \<Rightarrow> (Io_got (take n (fd_data f)), f\<lparr>fd_data := drop n (fd_data f)\<rparr>)
      | Io_chunk k # rs \<Rightarrow>
          let m = min n (Suc k)
          in (Io_got (take m (fd_data f)), f\<lparr>fd_data := drop m (fd_data f), fd_replies := rs\<rparr>)
      | Io_intr # rs \<Rightarrow> (Io_eintr, f\<lparr>fd_replies := rs\<rparr>)
      | Io_fail # rs \<Rightarrow> (Io_error, f\<lparr>fd_replies := rs\<rparr>))"

definition write_fd :: "byte list \<Rightarrow> fd \<Rightarrow> io_result \<times> fd" where
  "write_fd xs f =
     (case fd_replies f of
        [] \<Rightarrow> (Io_got xs, f\<lparr>fd_written := fd_written f @ xs\<rparr>)
      | Io_chunk k # rs \<Rightarrow>
          let ys = take (Suc k) xs in (Io_got ys, f\<lparr>fd_written := fd_written f @ ys, fd_replies := rs\<rparr>)
      | Io_intr # rs \<Rightarrow> (Io_eintr, f\<lparr>fd_replies := rs\<rparr>)
      | Io_fail # rs \<Rightarrow> (Io_error, f\<lparr>fd_replies := rs\<rparr>))"

section \<open>The loops\<close>

text \<open>
  \<open>None\<close> is the return of -1: what has been read before the error is lost. Fewer bytes than asked mean
  the end of the file. \<open>continue\<close> goes to the test of the length, so an interrupted read of nothing ends.
\<close>

function full_read :: "nat \<Rightarrow> fd \<Rightarrow> byte list option \<times> fd" where
  "full_read n f =
     (case read_fd n f of
        (Io_error, f) \<Rightarrow> (None, f)
      | (Io_eintr, f) \<Rightarrow> if n > 0 then full_read n f else (Some [], f)
      | (Io_got xs, f) \<Rightarrow>
          if xs = [] then (Some [], f)
          else if n - length xs > 0
          then (case full_read (n - length xs) f of
                  (None, f) \<Rightarrow> (None, f)
                | (Some ys, f) \<Rightarrow> (Some (xs @ ys), f))
          else (Some xs, f))"
  by auto
termination
  by (relation "measure (\<lambda>(n, f). n + length (fd_replies f))")
    (auto simp: read_fd_def Let_def split: list.splits io_reply.splits)

declare full_read.simps [simp del]

text \<open>\<open>looping_read\<close> of secure.c is the same loop; \<open>looping_write\<close> returns the length or -1.\<close>

definition looping_read :: "nat \<Rightarrow> fd \<Rightarrow> byte list option \<times> fd" where
  "looping_read = full_read"

function looping_write :: "byte list \<Rightarrow> fd \<Rightarrow> bool \<times> fd" where
  "looping_write xs f =
     (case write_fd xs f of
        (Io_error, f) \<Rightarrow> (False, f)
      | (Io_eintr, f) \<Rightarrow> if xs \<noteq> [] then looping_write xs f else (True, f)
      | (Io_got ys, f) \<Rightarrow>
          let rest = drop (length ys) xs in if rest \<noteq> [] then looping_write rest f else (True, f))"
  by auto
termination
  by (relation "measure (\<lambda>(xs, f). length xs + length (fd_replies f))")
    (auto simp: write_fd_def Let_def split: list.splits io_reply.splits)

declare looping_write.simps [simp del]

section \<open>Their results\<close>

text \<open>What is read is what arrives first.\<close>

lemma full_read_data: "full_read n f = (Some xs, f') \<Longrightarrow> fd_data f = xs @ fd_data f'"
proof (induction n f arbitrary: xs f' rule: full_read.induct)
  case (1 n f)
  obtain r g where r: "read_fd n f = (r, g)" by fastforce
  show ?case
  proof (cases r)
    case (Io_got ys)
    then have d: "fd_data f = ys @ fd_data g"
      using r by (auto simp: read_fd_def Let_def split: list.splits io_reply.splits)
    show ?thesis
      using "1.prems" "1.IH"(1) [OF r [symmetric] Io_got] r Io_got d
      by (auto simp: full_read.simps [of n f] split: if_splits prod.splits option.splits)
  next
    case Io_eintr
    then have "fd_data f = fd_data g"
      using r by (auto simp: read_fd_def Let_def split: list.splits io_reply.splits)
    then show ?thesis
      using "1.prems" "1.IH"(2) [OF r [symmetric] Io_eintr] r Io_eintr
      by (auto simp: full_read.simps [of n f] split: if_splits)
  next
    case Io_error
    then show ?thesis using "1.prems" r by (simp add: full_read.simps [of n f])
  qed
qed

definition no_fail :: "fd \<Rightarrow> bool" where
  "no_fail f = (Io_fail \<notin> set (fd_replies f))"

lemma full_read_enough:
  assumes "no_fail f" "n \<le> length (fd_data f)"
  shows "\<exists>f'. full_read n f = (Some (take n (fd_data f)), f') \<and> fd_data f' = drop n (fd_data f) \<and> no_fail f' \<and>
    fd_written f' = fd_written f"
  using assms
proof (induction n f rule: full_read.induct)
  case (1 n f)
  show ?case
  proof (cases "read_fd n f")
    case (Pair r g)
    show ?thesis
    proof (cases r)
      case Io_error
      then show ?thesis using "1.prems"(1) Pair
        by (auto simp: read_fd_def no_fail_def Let_def split: list.splits io_reply.splits)
    next
      case Io_eintr
      then have g: "fd_data g = fd_data f" "no_fail g" "fd_written g = fd_written f"
        using "1.prems"(1) Pair by (auto simp: read_fd_def no_fail_def Let_def split: list.splits io_reply.splits)
      show ?thesis
      proof (cases "n = 0")
        case True
        then show ?thesis using g Pair Io_eintr by (simp add: full_read.simps [of 0 f])
      next
        case False
        have "\<exists>f'. full_read n g = (Some (take n (fd_data g)), f') \<and> fd_data f' = drop n (fd_data g) \<and> no_fail f' \<and>
            fd_written f' = fd_written g"
          using "1.IH"(2) [OF Pair [symmetric]] Io_eintr False g "1.prems"(2) by simp
        then show ?thesis using False Pair Io_eintr g by (simp add: full_read.simps [of n f])
      qed
    next
      case (Io_got xs)
      obtain m where m: "xs = take m (fd_data f)" "fd_data g = drop m (fd_data f)" "m \<le> n" "n > 0 \<Longrightarrow> m > 0"
          "no_fail g" "fd_written g = fd_written f"
        using "1.prems"(1) Pair Io_got
      proof (cases "fd_replies f")
        case Nil
        then show ?thesis using that [of n] "1.prems"(1) Pair Io_got by (auto simp: read_fd_def no_fail_def)
      next
        case (Cons a rs)
        then obtain k where "a = Io_chunk k"
          using "1.prems"(1) Pair Io_got by (cases a) (auto simp: read_fd_def)
        then show ?thesis using that [of "min n (Suc k)"] Cons "1.prems"(1) Pair Io_got
          by (auto simp: read_fd_def no_fail_def Let_def)
      qed
      have len: "length xs = m" using m(1,3) "1.prems"(2) by simp
      show ?thesis
      proof (cases "m = n")
        case True
        then show ?thesis using m len Pair Io_got
          by (cases "n = 0") (auto simp: full_read.simps [of n f] full_read.simps [of 0 f])
      next
        case False
        then have ne: "xs \<noteq> []" "n - length xs > 0" using m(3,4) len by auto
        have "\<exists>f'. full_read (n - m) g = (Some (take (n - m) (fd_data g)), f') \<and>
            fd_data f' = drop (n - m) (fd_data g) \<and> no_fail f' \<and> fd_written f' = fd_written g"
          using "1.IH"(1) [OF Pair [symmetric] Io_got ne] m "1.prems"(2) len by simp
        then obtain f' where f': "full_read (n - m) g = (Some (take (n - m) (fd_data g)), f')"
            "fd_data f' = drop (n - m) (fd_data g)" "no_fail f'" "fd_written f' = fd_written g" by blast
        have "take m (fd_data f) @ take (n - m) (drop m (fd_data f)) = take n (fd_data f)"
          using m(3) by (metis le_add_diff_inverse take_add)
        then show ?thesis using f' m len Pair Io_got ne by (simp add: full_read.simps [of n f])
      qed
    qed
  qed
qed

lemma full_read_succeeds:
  assumes "no_fail f" shows "fst (full_read n f) \<noteq> None"
  using assms
proof (induction n f rule: full_read.induct)
  case (1 n f)
  obtain r g where r: "read_fd n f = (r, g)" by fastforce
  then have "r \<noteq> Io_error \<and> no_fail g"
    using "1.prems" by (auto simp: read_fd_def no_fail_def Let_def split: list.splits io_reply.splits)
  then have ok: "r \<noteq> Io_error" "no_fail g" by simp_all
  show ?case
  proof (cases r)
    case (Io_got xs)
    show ?thesis
    proof (cases "xs = [] \<or> n - length xs = 0")
      case True
      then show ?thesis using r Io_got by (auto simp: full_read.simps [of n f])
    next
      case False
      then have "fst (full_read (n - length xs) g) \<noteq> None"
        using "1.IH"(1) [OF r [symmetric] Io_got] ok(2) by simp
      then show ?thesis using r Io_got False by (auto simp: full_read.simps [of n f] split: prod.split)
    qed
  next
    case Io_eintr
    then show ?thesis using "1.IH"(2) [OF r [symmetric] Io_eintr] ok(2) r
      by (cases "n = 0") (simp_all add: full_read.simps [of n f] full_read.simps [of 0 f])
  qed (use ok in simp)
qed

lemma full_read_eof:
  assumes "no_fail f" "fd_data f = []" shows "\<exists>f'. full_read n f = (Some [], f')"
proof -
  obtain r f' where r: "full_read n f = (r, f')" by fastforce
  then obtain xs where "r = Some xs" using full_read_succeeds [OF assms(1), of n] by auto
  then show ?thesis using full_read_data [of n f xs f'] r assms(2) by simp
qed

lemma looping_write_all:
  assumes "no_fail f"
  shows "\<exists>f'. looping_write xs f = (True, f') \<and> fd_written f' = fd_written f @ xs \<and> fd_data f' = fd_data f \<and> no_fail f'"
  using assms
proof (induction xs f rule: looping_write.induct)
  case (1 xs f)
  obtain r g where w: "write_fd xs f = (r, g)" by fastforce
  have g: "no_fail g" "fd_data g = fd_data f" "r \<noteq> Io_error"
    using "1.prems" w by (auto simp: write_fd_def no_fail_def Let_def split: list.splits io_reply.splits)
  show ?case
  proof (cases r)
    case (Io_got ys)
    then have "(\<exists>k. ys = take k xs) \<and> fd_written g = fd_written f @ ys"
      using w by (auto simp: write_fd_def Let_def split: list.splits io_reply.splits intro: exI [of _ "length xs"])
    then have ys: "ys = take (length ys) xs" "fd_written g = fd_written f @ ys"
      by (auto simp: min_def)
    show ?thesis
    proof (cases "drop (length ys) xs = []")
      case True
      then show ?thesis using w Io_got g ys by (simp add: looping_write.simps [of xs f])
    next
      case False
      then show ?thesis
        using "1.IH"(1) [OF w [symmetric] Io_got refl False g(1)] w Io_got g ys
        by (auto simp: looping_write.simps [of xs f]) (metis append_take_drop_id)
    qed
  next
    case Io_eintr
    then have e: "fd_written g = fd_written f"
      using w by (auto simp: write_fd_def Let_def split: list.splits io_reply.splits)
    show ?thesis
    proof (cases "xs = []")
      case True
      then show ?thesis using w Io_eintr g e by (simp add: looping_write.simps [of "[]" f])
    next
      case False
      then show ?thesis
        using "1.IH"(2) [OF w [symmetric] Io_eintr False g(1)] w Io_eintr g e
        by (simp add: looping_write.simps [of xs f])
    qed
  qed (use g in blast)
qed

end
