(* ===== verification/KStream.thy ===== *)
theory KStream
  imports FdIo Fifo
begin

text \<open>
  The encrypted streams of the bsd remote commands (bsd/kcmd.c): \<open>rcmd_stream_init_krb5\<close>,
  \<open>v5_des_read\<close>, \<open>v5_des_write\<close> and the messages of the set-up. A write becomes one packet, four bytes
  of length and the encryption of the data; a read takes from what the last packet left over.
\<close>

section \<open>Messages\<close>

definition be32 :: "nat \<Rightarrow> byte list" where
  "be32 n =
     (let k = int n
      in [of_int (k div 16777216 mod 256), of_int (k div 65536 mod 256), of_int (k div 256 mod 256), of_int (k mod 256)])"

definition un32 :: "byte list \<Rightarrow> nat" where
  "un32 xs = nat (foldl (\<lambda>n x. 256 * n + uint x) 0 xs)"

text \<open>\<open>writev\<close> answers with an error, or takes at least a part, which is success here.\<close>

definition write_message :: "byte list \<Rightarrow> fd \<Rightarrow> bool \<times> fd" where
  "write_message xs f =
     (case write_fd (be32 (length xs) @ xs) f of
        (Io_got _, f) \<Rightarrow> (True, f)
      | (_, f) \<Rightarrow> (False, f))"

text \<open>
  \<open>VALID_UINT_BITS\<close> are all 32 bits, so every length passes the test; one with the highest bit set becomes a
  negative \<open>int\<close>, and \<open>read\<close> refuses such a count. Other lengths are allocated, which succeeds here.
\<close>

datatype msg_error = M_errno | M_aborted

definition read_message :: "fd \<Rightarrow> (msg_error + byte list) \<times> fd" where
  "read_message f =
     (case full_read 4 f of
        (None, f) \<Rightarrow> (Inl M_errno, f)
      | (Some h, f) \<Rightarrow>
          if length h \<noteq> 4 then (Inl M_aborted, f)
          else if int (un32 h) > 2147483647 then (Inl M_errno, f)
          else if un32 h = 0 then (Inr [], f)
          else (case full_read (un32 h) f of
                  (None, f) \<Rightarrow> (Inl M_errno, f)
                | (Some xs, f) \<Rightarrow> if length xs \<noteq> un32 h then (Inl M_aborted, f) else (Inr xs, f)))"

section \<open>The state of the streams\<close>

text \<open>
  The Kerberos library: the length of an encryption, encryption and decryption under a key usage with a
  cipher state (none in the old protocol), the size of a block, and the first cipher state of a usage.
  \<open>kc_fixed_iv\<close> says whether the key's type is one of the DES types. A cipher state is a list of bytes.
\<close>

type_synonym cipher_state = "byte list option"

record kcrypto =
  kc_length :: "nat \<Rightarrow> nat option"
  kc_encrypt :: "nat \<Rightarrow> cipher_state \<Rightarrow> byte list \<Rightarrow> (byte list \<times> cipher_state) option"
  kc_decrypt :: "nat \<Rightarrow> cipher_state \<Rightarrow> byte list \<Rightarrow> (byte list \<times> cipher_state) option"
  kc_block_size :: "nat option"
  kc_init_state :: "nat \<Rightarrow> byte list option"
  kc_fixed_iv :: bool

text \<open>
  Of each pair the first is for the primary connection and the second for the other one (\<open>True\<close>).
  What is stored are \<open>ks_nstored\<close> bytes of \<open>ks_storage\<close> from \<open>ks_ptr\<close>.
\<close>

record kstream =
  ks_des :: bool
  ks_lencheck :: bool
  ks_use_ivecs :: bool
  ks_usage_i :: "bool \<Rightarrow> nat"
  ks_usage_o :: "bool \<Rightarrow> nat"
  ks_ivec_i :: "bool \<Rightarrow> cipher_state"
  ks_ivec_o :: "bool \<Rightarrow> cipher_state"
  ks_storage :: "int \<Rightarrow> byte"
  ks_ptr :: int
  ks_nstored :: int

definition KCMD_KEYUSAGE :: nat where "KCMD_KEYUSAGE = 1026"

definition per_conn :: "'a \<Rightarrow> 'a \<Rightarrow> bool \<Rightarrow> 'a" where
  "per_conn a b sec = (if sec then b else a)"

definition rcmd_stream_init_normal :: kstream where
  "rcmd_stream_init_normal =
     \<lparr>ks_des = False, ks_lencheck = False, ks_use_ivecs = False, ks_usage_i = (\<lambda>_. 0), ks_usage_o = (\<lambda>_. 0),
      ks_ivec_i = (\<lambda>_. None), ks_ivec_o = (\<lambda>_. None), ks_storage = (\<lambda>_. 0), ks_ptr = 0, ks_nstored = 0\<rparr>"

definition ks_old :: "bool \<Rightarrow> kstream" where
  "ks_old lencheck =
     rcmd_stream_init_normal\<lparr>ks_des := True, ks_lencheck := lencheck, ks_usage_i := (\<lambda>_. KCMD_KEYUSAGE),
       ks_usage_o := (\<lambda>_. KCMD_KEYUSAGE)\<rparr>"

text \<open>The initial vectors of the DES types: \<open>memset\<close> with a number that tells the side and the connection.\<close>

definition fixed_ivec :: "nat \<Rightarrow> nat \<Rightarrow> cipher_state" where
  "fixed_ivec blocksize c = Some (replicate blocksize (of_nat c))"

definition ks_fixed :: "nat \<Rightarrow> bool \<Rightarrow> kstream \<Rightarrow> kstream" where
  "ks_fixed blocksize am_client s =
     (let c = (if am_client then 1 else 0)
      in s\<lparr>ks_ivec_i := per_conn (fixed_ivec blocksize c) (fixed_ivec blocksize (2 + c)),
           ks_ivec_o := per_conn (fixed_ivec blocksize (1 - c)) (fixed_ivec blocksize (2 + (1 - c)))\<rparr>)"

definition ks_usages :: "bool \<Rightarrow> kstream \<Rightarrow> kstream" where
  "ks_usages am_client s =
     (if am_client
      then s\<lparr>ks_usage_i := per_conn 1028 1030, ks_usage_o := per_conn 1032 1034\<rparr>
      else s\<lparr>ks_usage_i := per_conn 1032 1034, ks_usage_o := per_conn 1028 1030\<rparr>)"

text \<open>\<open>None\<close> is the call of \<open>abort\<close>.\<close>

definition rcmd_stream_init_krb5 :: "kcrypto \<Rightarrow> bool \<Rightarrow> bool \<Rightarrow> bool \<Rightarrow> bool \<Rightarrow> kstream option" where
  "rcmd_stream_init_krb5 K encrypt_flag lencheck am_client old_protocol =
     (if \<not> encrypt_flag then Some rcmd_stream_init_normal
      else
        let s = ks_old lencheck
        in if old_protocol then Some s
           else
             let s = s\<lparr>ks_use_ivecs := True\<rparr>
             in if kc_fixed_iv K then
                  (case kc_block_size K of None \<Rightarrow> None | Some blocksize \<Rightarrow> Some (ks_fixed blocksize am_client s))
                else
                  let s = ks_usages am_client s;
                      st = (\<lambda>u. kc_init_state K u)
                  in if st (ks_usage_i s False) = None \<or> st (ks_usage_o s False) = None \<or>
                        st (ks_usage_i s True) = None \<or> st (ks_usage_o s True) = None then None
                     else Some (s\<lparr>ks_ivec_i := (\<lambda>sec. st (ks_usage_i s sec)), ks_ivec_o := (\<lambda>sec. st (ks_usage_o s sec))\<rparr>))"

section \<open>Writing\<close>

definition KRCMD_BUFSIZ :: int where "KRCMD_BUFSIZ = 5120"

text \<open>
  The packet for a buffer: in the new protocol the length goes once more in front of the data. \<open>None\<close> for
  the failure of the library, which includes that its output would not fit \<open>des_outpkt\<close>.
\<close>

definition ks_plain :: "bool \<Rightarrow> byte list \<Rightarrow> byte list" where
  "ks_plain use_ivecs buf = (if use_ivecs then be32 (length buf) @ buf else buf)"

definition ks_packet :: "kcrypto \<Rightarrow> bool \<Rightarrow> kstream \<Rightarrow> byte list \<Rightarrow> (byte list \<times> kstream) option" where
  "ks_packet K sec s buf =
     (case kc_encrypt K (ks_usage_o s sec) (if ks_use_ivecs s then ks_ivec_o s sec else None)
             (ks_plain (ks_use_ivecs s) buf) of
        None \<Rightarrow> None
      | Some (cipher, iv) \<Rightarrow>
          if int (length cipher) > 2 * KRCMD_BUFSIZ then None
          else Some (be32 (length buf) @ cipher,
                     if ks_use_ivecs s then s\<lparr>ks_ivec_o := (ks_ivec_o s)(sec := iv)\<rparr> else s))"

text \<open>The outer \<open>None\<close> is the call of \<open>abort\<close>, for a buffer that does not fit \<open>tmpbuf\<close>; -1 is an error.\<close>

definition v5_des_write :: "kcrypto \<Rightarrow> bool \<Rightarrow> byte list \<Rightarrow> kstream \<Rightarrow> fd \<Rightarrow> (int \<times> kstream \<times> fd) option" where
  "v5_des_write K sec buf s f =
     (if ks_use_ivecs s \<and> int (length buf) + 4 > 2 * KRCMD_BUFSIZ + 8 then None
      else case ks_packet K sec s buf of
             None \<Rightarrow> Some (- 1, s, f)
           | Some (pkt, s) \<Rightarrow>
               (case write_fd pkt f of
                  (Io_got ys, f) \<Rightarrow> Some (if length ys \<noteq> length pkt then - 1 else int (length buf), s, f)
                | (_, f) \<Rightarrow> Some (- 1, s, f)))"

section \<open>Reading\<close>

definition ks_get :: "int \<Rightarrow> kstream \<Rightarrow> byte list \<times> kstream" where
  "ks_get n s =
     (List.map (ks_storage s) [ks_ptr s..ks_ptr s + n - 1],
      s\<lparr>ks_ptr := ks_ptr s + n, ks_nstored := ks_nstored s - n\<rparr>)"

text \<open>The first byte of a length: with the check, bytes that are not zero are skipped.\<close>

function ks_first :: "bool \<Rightarrow> fd \<Rightarrow> byte list option \<times> fd" where
  "ks_first lencheck f =
     (case full_read 1 f of
        (Some [c], f) \<Rightarrow> if c = 0 \<or> \<not> lencheck then (Some [c], f) else ks_first lencheck f
      | r \<Rightarrow> r)"
  by auto
termination
  by (relation "measure (\<lambda>(_, f). length (fd_data f))") (auto dest: full_read_data [OF sym])

declare ks_first.simps [simp del]

text \<open>The other bytes of the length, one by one: \<open>None\<close> when one of them does not come.\<close>

fun ks_rest :: "nat \<Rightarrow> byte list \<Rightarrow> fd \<Rightarrow> byte list option \<times> fd" where
  "ks_rest 0 h f = (Some h, f)"
| "ks_rest (Suc n) h f =
     (case full_read 1 f of
        (Some [c], f) \<Rightarrow> ks_rest n (h @ [c]) f
      | (_, f) \<Rightarrow> (None, f))"

text \<open>
  The packet behind its length: whether all is well (otherwise -1 is returned). When the length inside
  differs from that outside, what has been decrypted stays stored.
\<close>

definition ks_store :: "nat \<Rightarrow> bool \<Rightarrow> byte list \<times> cipher_state \<Rightarrow> kstream \<Rightarrow> bool \<times> kstream" where
  "ks_store rd_len sec pi s =
     (let (plain, iv) = pi;
          s = s\<lparr>ks_storage := overwrite 0 plain (ks_storage s), ks_ptr := 0, ks_nstored := int rd_len\<rparr>
      in if ks_use_ivecs s then
           let s = s\<lparr>ks_ivec_i := (ks_ivec_i s)(sec := iv)\<rparr>
           in if un32 (List.map (ks_storage s) [0, 1, 2, 3]) \<noteq> rd_len then (False, s) else (True, s\<lparr>ks_ptr := 4\<rparr>)
         else (True, s))"

definition ks_fill :: "kcrypto \<Rightarrow> bool \<Rightarrow> nat \<Rightarrow> kstream \<Rightarrow> fd \<Rightarrow> bool \<times> kstream \<times> fd" where
  "ks_fill K sec rd_len s f =
     (case kc_length K (if ks_use_ivecs s then rd_len + 4 else rd_len) of
        None \<Rightarrow> (False, s, f)
      | Some net_len \<Rightarrow>
          if net_len = 0 \<or> int net_len > 2 * KRCMD_BUFSIZ then (False, s, f)
          else case full_read net_len f of
                 (None, f) \<Rightarrow> (False, s, f)
               | (Some cipher, f) \<Rightarrow>
                   if length cipher \<noteq> net_len then (False, s, f)
                   else case kc_decrypt K (ks_usage_i s sec) (if ks_use_ivecs s then ks_ivec_i s sec else None) cipher of
                          None \<Rightarrow> (False, s, f)
                        | Some pi \<Rightarrow>
                            if int (length (fst pi)) > 2 * KRCMD_BUFSIZ then (False, s, f)
                            else let (ok, s) = ks_store rd_len sec pi s in (ok, s, f))"

text \<open>
  \<open>v5_des_read\<close>: what it returns, what it has put into the buffer, and the state. Leftover bytes that do not
  satisfy the read are given out together with the next packet, whose arrival is waited for; when it does not
  come, they are in the buffer but the return says that nothing was read.
\<close>

definition ks_next :: "kcrypto \<Rightarrow> bool \<Rightarrow> int \<Rightarrow> byte list \<Rightarrow> kstream \<Rightarrow> fd \<Rightarrow> (int \<times> byte list) \<times> kstream \<times> fd" where
  "ks_next K sec len pre s f =
     (case ks_first (ks_lencheck s) f of
        (None, f) \<Rightarrow> ((- 1, pre), s, f)
      | (Some [], f) \<Rightarrow> ((0, pre), s, f)
      | (Some h, f) \<Rightarrow>
          (case ks_rest 3 h f of
             (None, f) \<Rightarrow> ((0, pre), s, f)
           | (Some h, f) \<Rightarrow>
               (case ks_fill K sec (un32 h) s f of
                  (False, s, f) \<Rightarrow> ((- 1, pre), s, f)
                | (True, s, f) \<Rightarrow>
                    if ks_nstored s > len then
                      let (xs, s) = ks_get len s in ((int (length pre) + len, pre @ xs), s, f)
                    else
                      let n = ks_nstored s; (xs, s) = ks_get n s
                      in ((int (length pre) + n, pre @ xs), s, f))))"

definition v5_des_read :: "kcrypto \<Rightarrow> bool \<Rightarrow> nat \<Rightarrow> kstream \<Rightarrow> fd \<Rightarrow> (int \<times> byte list) \<times> kstream \<times> fd" where
  "v5_des_read K sec len s f =
     (if ks_nstored s \<ge> int len then
        let (xs, s) = ks_get (int len) s in ((int len, xs), s, f)
      else
        let (pre, s) = ks_get (ks_nstored s) s in ks_next K sec (int len - int (length pre)) pre s f)"

text \<open>\<open>normal_read\<close>, and \<open>rcmd_stream_read\<close> through the pointer that the initialisation has set.\<close>

definition normal_read :: "nat \<Rightarrow> fd \<Rightarrow> (int \<times> byte list) \<times> fd" where
  "normal_read len f =
     (case read_fd len f of
        (Io_got xs, f) \<Rightarrow> ((int (length xs), xs), f)
      | (_, f) \<Rightarrow> ((- 1, []), f))"

definition rcmd_stream_read :: "kcrypto \<Rightarrow> bool \<Rightarrow> nat \<Rightarrow> kstream \<Rightarrow> fd \<Rightarrow> (int \<times> byte list) \<times> kstream \<times> fd" where
  "rcmd_stream_read K sec len s f =
     (if ks_des s then v5_des_read K sec len s f
      else let (r, f) = normal_read len f in (r, s, f))"

definition twrite :: "byte list \<Rightarrow> fd \<Rightarrow> int \<times> fd" where
  "twrite buf f = (case write_fd buf f of (Io_got ys, f) \<Rightarrow> (int (length ys), f) | (_, f) \<Rightarrow> (- 1, f))"

definition rcmd_stream_write :: "kcrypto \<Rightarrow> bool \<Rightarrow> byte list \<Rightarrow> kstream \<Rightarrow> fd \<Rightarrow> (int \<times> kstream \<times> fd) option" where
  "rcmd_stream_write K sec buf s f =
     (if ks_des s then v5_des_write K sec buf s f
      else let (n, f) = twrite buf f in Some (n, s, f))"

end
