(* ===== verification/KStreamProps.thy ===== *)
theory KStreamProps
  imports KStream
begin

text \<open>
  What is written to an encrypted stream of the remote commands is read from it: the pair of a
  writer and a reader is a byte queue. What the reader keeps stays within its storage whatever arrives.
\<close>

section \<open>The library\<close>

text \<open>
  What the streams rely on: decryption gives back what was encrypted, perhaps with padding behind
  it, and the same next cipher state; the length function tells the length of the encryption, which is
  positive and not shorter than the data.
\<close>

definition kc_lengths :: "kcrypto \<Rightarrow> bool" where
  "kc_lengths K = (\<forall>n m. kc_length K n = Some m \<longrightarrow> n \<le> m \<and> 0 < m)"

definition kc_inverse :: "kcrypto \<Rightarrow> bool" where
  "kc_inverse K =
     (\<forall>u iv plain cipher iv'. kc_encrypt K u iv plain = Some (cipher, iv') \<longrightarrow>
        kc_length K (length plain) = Some (length cipher) \<and>
        (\<exists>pad. kc_decrypt K u iv cipher = Some (plain @ pad, iv') \<and> length (plain @ pad) \<le> length cipher))"

definition kc_ok :: "kcrypto \<Rightarrow> bool" where
  "kc_ok K = (kc_lengths K \<and> kc_inverse K)"

section \<open>Lengths\<close>

lemma length_be32 [simp]: "length (be32 n) = 4"
  by (simp add: be32_def Let_def)

lemma base256:
  fixes n a b c :: int
  assumes "n = 256 * a + x" "a = 256 * b + y" "b = 256 * c + z"
  shows "256 * (256 * (256 * c + z) + y) + x = n"
  using assms by simp

lemma un32_be32:
  assumes "n < 4294967296" shows "un32 (be32 n) = n"
proof -
  have u: "uint (of_int (k mod 256) :: byte) = k mod 256" for k by (simp add: uint_word_of_int)
  define a where "a = int n div 256"
  define b where "b = a div 256"
  define c where "c = b div 256"
  have d: "int n div 65536 = b" "int n div 16777216 = c" by (simp_all add: a_def b_def c_def zdiv_zmult2_eq [symmetric])
  have "int n < 4294967296" using assms by simp
  then have "int n div 16777216 < 256" by (simp add: div_less_iff_less_mult)
  then have "c mod 256 = c" using d(2) by simp
  moreover have "int n = 256 * a + int n mod 256" "a = 256 * b + a mod 256" "b = 256 * c + b mod 256"
    by (simp_all add: a_def b_def c_def)
  note base256 [OF this]
  ultimately have "256 * (256 * (256 * (c mod 256) + b mod 256) + a mod 256) + int n mod 256 = int n" by simp
  then show ?thesis by (simp add: un32_def be32_def Let_def u d flip: a_def)
qed

lemma be32_first:
  assumes "n < 16777216" shows "be32 n ! 0 = 0"
proof -
  have "int n div 16777216 = 0" using assms by simp
  then show ?thesis by (simp add: be32_def Let_def)
qed

section \<open>What a wire holds\<close>

text \<open>The first packet of a wire: its data, the next cipher state, and the rest of the wire.\<close>

definition packet_plain :: "kcrypto \<Rightarrow> nat \<Rightarrow> bool \<Rightarrow> cipher_state \<Rightarrow> nat \<Rightarrow> byte list \<Rightarrow> (byte list \<times> cipher_state) option" where
  "packet_plain K u ivs iv n cipher =
     (case kc_decrypt K u (if ivs then iv else None) cipher of
        None \<Rightarrow> None
      | Some (plain, iv') \<Rightarrow>
          if int (length plain) > 2 * KRCMD_BUFSIZ \<or> length plain < (if ivs then n + 4 else n) \<or>
             (ivs \<and> un32 (take 4 plain) \<noteq> n) then None
          else Some (take n (drop (if ivs then 4 else 0) plain), if ivs then iv' else iv))"

definition packet_size :: "kcrypto \<Rightarrow> bool \<Rightarrow> byte list \<Rightarrow> nat option" where
  "packet_size K ivs wire =
     (if length wire < 4 \<or> wire ! 0 \<noteq> 0 then None
      else
        let n = un32 (take 4 wire)
        in case kc_length K (if ivs then n + 4 else n) of
             None \<Rightarrow> None
           | Some m \<Rightarrow> if m = 0 \<or> int m > 2 * KRCMD_BUFSIZ \<or> length wire < 4 + m then None else Some m)"

definition packet_data ::
  "kcrypto \<Rightarrow> nat \<Rightarrow> bool \<Rightarrow> cipher_state \<Rightarrow> byte list \<Rightarrow> (byte list \<times> cipher_state \<times> byte list) option" where
  "packet_data K u ivs iv wire =
     (case packet_size K ivs wire of
        None \<Rightarrow> None
      | Some m \<Rightarrow>
          (case packet_plain K u ivs iv (un32 (take 4 wire)) (take m (drop 4 wire)) of
             None \<Rightarrow> None
           | Some (d, iv') \<Rightarrow> Some (d, iv', drop (4 + m) wire)))"

lemma packet_size_bounds: "packet_size K ivs wire = Some m \<Longrightarrow> 0 < m \<and> 4 + m \<le> length wire"
  by (auto simp: packet_size_def Let_def split: if_splits option.splits)

lemma packet_size_append: "packet_size K ivs wire = Some m \<Longrightarrow> packet_size K ivs (wire @ w) = Some m"
  by (auto simp: packet_size_def Let_def nth_append split: if_splits option.splits)

lemma packet_data_rest: "packet_data K u ivs iv wire = Some (d, iv', rest) \<Longrightarrow> length rest < length wire"
  by (auto simp: packet_data_def dest: packet_size_bounds split: option.splits prod.splits)

lemma packet_data_append:
  assumes "packet_data K u ivs iv wire = Some (d, iv', rest)"
  shows "packet_data K u ivs iv (wire @ w) = Some (d, iv', rest @ w)"
proof -
  obtain m where m: "packet_size K ivs wire = Some m" using assms by (auto simp: packet_data_def split: option.splits)
  from packet_size_bounds [OF m] have "4 + m \<le> length wire" "4 \<le> length wire" by simp_all
  with m assms packet_size_append [OF m, of w] show ?thesis
    by (auto simp: packet_data_def split: option.splits prod.splits)
qed

text \<open>The data of all packets on the wire, and the cipher state behind them.\<close>

function stream_data ::
  "kcrypto \<Rightarrow> nat \<Rightarrow> bool \<Rightarrow> cipher_state \<Rightarrow> byte list \<Rightarrow> (byte list \<times> cipher_state) option" where
  "stream_data K u ivs iv wire =
     (if wire = [] then Some ([], iv)
      else case packet_data K u ivs iv wire of
             None \<Rightarrow> None
           | Some (d, iv', rest) \<Rightarrow>
               (case stream_data K u ivs iv' rest of
                  None \<Rightarrow> None
                | Some (d', iv'') \<Rightarrow> Some (d @ d', iv'')))"
  by auto
termination
  by (relation "measure (\<lambda>(_, _, _, _, w). length w)") (auto dest: packet_data_rest)

declare stream_data.simps [simp del]

lemma stream_data_Nil [simp]: "stream_data K u ivs iv [] = Some ([], iv)"
  by (simp add: stream_data.simps)

lemma stream_data_append:
  assumes "stream_data K u ivs iv w1 = Some (d1, iv1)" "stream_data K u ivs iv1 w2 = Some (d2, iv2)"
  shows "stream_data K u ivs iv (w1 @ w2) = Some (d1 @ d2, iv2)"
  using assms
proof (induction K u ivs iv w1 arbitrary: d1 rule: stream_data.induct)
  case (1 K u ivs iv wire)
  show ?case
  proof (cases "wire = []")
    case False
    obtain d iv' rest where p: "packet_data K u ivs iv wire = Some (d, iv', rest)"
      using "1.prems"(1) False by (auto simp: stream_data.simps [of K u ivs iv wire] split: option.splits)
    obtain d' where d': "stream_data K u ivs iv' rest = Some (d', iv1)" "d1 = d @ d'"
      using "1.prems"(1) False p by (auto simp: stream_data.simps [of K u ivs iv wire] split: option.splits)
    show ?thesis
      using "1.IH" [OF False p refl refl d'(1) "1.prems"(2)] packet_data_append [OF p, of w2] False d'(2)
      by (simp add: stream_data.simps [of K u ivs iv "wire @ w2"])
  qed (use "1.prems" in simp)
qed

text \<open>A packet holds what was written.\<close>

lemma packet_of_write:
  assumes "kc_ok K" "ks_packet K sec w buf = Some (pkt, w')"
  defines "ivs \<equiv> ks_use_ivecs w"
  shows "stream_data K (ks_usage_o w sec) ivs (if ivs then ks_ivec_o w sec else iv) pkt =
    Some (buf, if ivs then ks_ivec_o w' sec else iv)"
proof -
  let ?iv = "if ivs then ks_ivec_o w sec else None" and ?p = "ks_plain ivs buf"
  obtain cipher iv' where c: "kc_encrypt K (ks_usage_o w sec) ?iv ?p = Some (cipher, iv')"
    using assms(2) by (auto simp: ks_packet_def ivs_def split: option.splits)
  have l: "int (length cipher) \<le> 2 * KRCMD_BUFSIZ" "pkt = be32 (length buf) @ cipher"
      "w' = (if ivs then w\<lparr>ks_ivec_o := (ks_ivec_o w)(sec := iv')\<rparr> else w)"
    using assms(2) c by (auto simp: ks_packet_def ivs_def split: if_splits)
  have "kc_lengths K" "kc_inverse K" using assms(1) by (simp_all add: kc_ok_def)
  then obtain pad where k: "kc_length K (length ?p) = Some (length cipher)"
      "kc_decrypt K (ks_usage_o w sec) ?iv cipher = Some (?p @ pad, iv')"
      "length (?p @ pad) \<le> length cipher" "length ?p \<le> length cipher" "0 < length cipher"
    using c by (metis kc_inverse_def kc_lengths_def)
  have len: "length ?p = (if ivs then length buf + 4 else length buf)" by (simp add: ks_plain_def)
  have small: "length buf < 4294967296" "length buf < 16777216"
    using k(4) l(1) len by (auto simp: KRCMD_BUFSIZ_def split: if_splits)
  have h: "un32 (be32 (length buf)) = length buf" "be32 (length buf) ! 0 = 0"
    using un32_be32 [OF small(1)] be32_first [OF small(2)] by simp_all
  have "packet_size K ivs pkt = Some (length cipher)"
    using k(1,5) l(1,2) h len by (auto simp: packet_size_def nth_append)
  moreover have "packet_plain K (ks_usage_o w sec) ivs (if ivs then ks_ivec_o w sec else iv) (length buf) cipher =
      Some (buf, if ivs then ks_ivec_o w' sec else iv)"
  proof (cases ivs)
    case True
    then have "?p = be32 (length buf) @ buf" by (simp add: ks_plain_def)
    then show ?thesis using True k(2,3) l(1,3) h(1) by (simp add: packet_plain_def)
  next
    case False
    then have "?p = buf" by (simp add: ks_plain_def)
    then show ?thesis using False k(2,3) l(1,3) by (simp add: packet_plain_def)
  qed
  ultimately have "packet_data K (ks_usage_o w sec) ivs (if ivs then ks_ivec_o w sec else iv) pkt =
      Some (buf, if ivs then ks_ivec_o w' sec else iv, [])"
    using l(2) h(1) by (simp add: packet_data_def)
  moreover have "pkt \<noteq> []" using k(5) l(2) by auto
  ultimately show ?thesis by (simp add: stream_data.simps [of K _ _ _ pkt])
qed

section \<open>The reader on a packet\<close>

definition stored :: "kstream \<Rightarrow> byte list" where
  "stored s = List.map (ks_storage s) [ks_ptr s..ks_ptr s + ks_nstored s - 1]"

lemma length_stored: "ks_nstored s \<ge> 0 \<Longrightarrow> int (length (stored s)) = ks_nstored s"
  by (simp add: stored_def)

lemma map_upto_take:
  assumes "0 \<le> n" "n \<le> k"
  shows "List.map m [p..p + n - 1] = take (nat n) (List.map m [p..p + k - 1])"
    "List.map m [p + n..p + k - 1] = drop (nat n) (List.map m [p..p + k - 1])"
proof -
  have "[p..p + k - 1] = [p..p + n - 1] @ [p + n..p + k - 1]"
    using assms upto_split1 [of p "p + n" "p + k - 1"]
    by (cases "n = k") (auto simp: upto_split1)
  then show "List.map m [p..p + n - 1] = take (nat n) (List.map m [p..p + k - 1])"
    "List.map m [p + n..p + k - 1] = drop (nat n) (List.map m [p..p + k - 1])"
    using assms by simp_all
qed

lemma ks_get_stored:
  assumes "0 \<le> n" "n \<le> ks_nstored s" "ks_get n s = (xs, s')"
  shows "xs = take (nat n) (stored s)" "stored s' = drop (nat n) (stored s)" "ks_nstored s' = ks_nstored s - n"
    "s' = s\<lparr>ks_ptr := ks_ptr s + n, ks_nstored := ks_nstored s - n\<rparr>"
  using assms map_upto_take [of n "ks_nstored s" "ks_storage s" "ks_ptr s"]
  by (auto simp: ks_get_def stored_def algebra_simps)

lemma overwrite_upto:
  assumes "i + n \<le> length xs"
  shows "List.map (overwrite 0 xs m) [int i..int i + int n - 1] = take n (drop i xs)"
proof (rule nth_equalityI)
  show "length (List.map (overwrite 0 xs m) [int i..int i + int n - 1]) = length (take n (drop i xs))"
    using assms by simp
  show "List.map (overwrite 0 xs m) [int i..int i + int n - 1] ! j = take n (drop i xs) ! j"
    if "j < length (List.map (overwrite 0 xs m) [int i..int i + int n - 1])" for j
    using that assms by (auto simp: overwrite_def nat_add_distrib)
qed

lemma ks_store_stored:
  assumes "length plain \<ge> (if ks_use_ivecs s then n + 4 else n)" "ks_use_ivecs s \<Longrightarrow> un32 (take 4 plain) = n"
  obtains s' where "ks_store n sec (plain, iv) s = (True, s')"
    "stored s' = take n (drop (if ks_use_ivecs s then 4 else 0) plain)" "ks_nstored s' = int n"
    "ks_use_ivecs s' = ks_use_ivecs s" "ks_usage_i s' = ks_usage_i s" "ks_lencheck s' = ks_lencheck s"
    "ks_ivec_i s' = (if ks_use_ivecs s then (ks_ivec_i s)(sec := iv) else ks_ivec_i s)"
proof (cases "ks_use_ivecs s")
  case True
  have "List.map (overwrite 0 plain (ks_storage s)) [0, 1, 2, 3] = take 4 plain"
    using overwrite_upto [of 0 4 plain "ks_storage s"] assms(1) True by (simp add: upto_rec1)
  then have "un32 (List.map (overwrite 0 plain (ks_storage s)) [0, 1, 2, 3]) = n"
    using assms(2) True by simp
  moreover have "List.map (overwrite 0 plain (ks_storage s)) [4..4 + int n - 1] = take n (drop 4 plain)"
    using overwrite_upto [of 4 n plain "ks_storage s"] assms(1) True by (simp add: add.commute)
  ultimately show ?thesis using True
    by (intro that [of "snd (ks_store n sec (plain, iv) s)"]) (simp_all add: ks_store_def Let_def stored_def del: list.map)
next
  case False
  have "List.map (overwrite 0 plain (ks_storage s)) [0..int n - 1] = take n plain"
    using overwrite_upto [of 0 n plain "ks_storage s"] assms(1) False by simp
  then show ?thesis using False by (intro that [of "snd (ks_store n sec (plain, iv) s)"]) (simp_all add: ks_store_def Let_def stored_def)
qed

lemma full_read_one:
  assumes "no_fail f" "fd_data f = x # xs"
  shows "\<exists>f'. full_read 1 f = (Some [x], f') \<and> fd_data f' = xs \<and> no_fail f'"
  using full_read_enough [OF assms(1), of 1] assms(2) by auto

lemma ks_header:
  assumes "no_fail f" "fd_data f = x0 # x1 # x2 # x3 # xs" "x0 = 0 \<or> \<not> lencheck"
  obtains f1 f2 where "ks_first lencheck f = (Some [x0], f1)" "ks_rest 3 [x0] f1 = (Some [x0, x1, x2, x3], f2)"
    "fd_data f2 = xs" "no_fail f2"
proof -
  obtain f1 where f1: "full_read 1 f = (Some [x0], f1)" "fd_data f1 = x1 # x2 # x3 # xs" "no_fail f1"
    using full_read_one [OF assms(1,2)] by blast
  obtain f2 where f2: "full_read 1 f1 = (Some [x1], f2)" "fd_data f2 = x2 # x3 # xs" "no_fail f2"
    using full_read_one [OF f1(3,2)] by blast
  obtain f3 where f3: "full_read 1 f2 = (Some [x2], f3)" "fd_data f3 = x3 # xs" "no_fail f3"
    using full_read_one [OF f2(3,2)] by blast
  obtain f4 where f4: "full_read 1 f3 = (Some [x3], f4)" "fd_data f4 = xs" "no_fail f4"
    using full_read_one [OF f3(3,2)] by blast
  show ?thesis
    by (rule that [of f1 f4])
      (use assms(3) f1 f2 f3 f4 in \<open>simp_all add: ks_first.simps [of lencheck f] numeral_3_eq_3\<close>)
qed

lemma ks_fill_packet:
  assumes "packet_plain K (ks_usage_i s sec) (ks_use_ivecs s) (if ks_use_ivecs s then ks_ivec_i s sec else iv) n
      (take m (fd_data f)) = Some (d, iv')"
    and "kc_length K (if ks_use_ivecs s then n + 4 else n) = Some m" "m \<noteq> 0" "int m \<le> 2 * KRCMD_BUFSIZ"
    and "m \<le> length (fd_data f)" "no_fail f"
  obtains s' f' where "ks_fill K sec n s f = (True, s', f')" "stored s' = d" "ks_nstored s' = int (length d)"
    "fd_data f' = drop m (fd_data f)" "ks_use_ivecs s' = ks_use_ivecs s" "ks_usage_i s' = ks_usage_i s"
    "ks_lencheck s' = ks_lencheck s" "(if ks_use_ivecs s then ks_ivec_i s' sec else iv) = iv'"
proof -
  obtain plain iv2 where p: "kc_decrypt K (ks_usage_i s sec) (if ks_use_ivecs s then ks_ivec_i s sec else None) (take m (fd_data f)) = Some (plain, iv2)"
    using assms(1) by (auto simp: packet_plain_def split: option.splits if_splits)
  then have p': "int (length plain) \<le> 2 * KRCMD_BUFSIZ" "length plain \<ge> (if ks_use_ivecs s then n + 4 else n)"
      "ks_use_ivecs s \<Longrightarrow> un32 (take 4 plain) = n" "d = take n (drop (if ks_use_ivecs s then 4 else 0) plain)"
      "iv' = (if ks_use_ivecs s then iv2 else iv)"
    using assms(1) by (auto simp: packet_plain_def split: if_splits)
  obtain f' where f': "full_read m f = (Some (take m (fd_data f)), f')" "fd_data f' = drop m (fd_data f)"
    using full_read_enough [OF assms(6,5)] by blast
  obtain s' where s': "ks_store n sec (plain, iv2) s = (True, s')" "stored s' = d" "ks_nstored s' = int n"
    "ks_use_ivecs s' = ks_use_ivecs s" "ks_usage_i s' = ks_usage_i s" "ks_lencheck s' = ks_lencheck s"
    "ks_ivec_i s' = (if ks_use_ivecs s then (ks_ivec_i s)(sec := iv2) else ks_ivec_i s)"
    using ks_store_stored [OF p'(2,3), of sec iv2] p'(4) by metis
  have "length d = n" using p'(2,4) by (auto split: if_splits)
  moreover have "ks_fill K sec n s f = (True, s', f')"
    using assms(2-5) p p'(1) f' s'(1) by (simp add: ks_fill_def)
  ultimately show ?thesis using s' f' p'(5) by (intro that [of s' f']) simp_all
qed

definition same_conn :: "kstream \<Rightarrow> kstream \<Rightarrow> bool" where
  "same_conn s' s = (ks_use_ivecs s' = ks_use_ivecs s \<and> ks_usage_i s' = ks_usage_i s \<and> ks_lencheck s' = ks_lencheck s)"

text \<open>The cipher state a reader starts from, and the data that are still on its wire.\<close>

definition ivec_in :: "bool \<Rightarrow> kstream \<Rightarrow> cipher_state" where
  "ivec_in sec s = (if ks_use_ivecs s then ks_ivec_i s sec else None)"

definition wire_data :: "kcrypto \<Rightarrow> bool \<Rightarrow> kstream \<Rightarrow> byte list \<Rightarrow> (byte list \<times> cipher_state) option" where
  "wire_data K sec s wire = stream_data K (ks_usage_i s sec) (ks_use_ivecs s) (ivec_in sec s) wire"

lemma ks_next_packet:
  assumes "wire_data K sec s (fd_data f) = Some (d, iv)" "fd_data f \<noteq> []" "no_fail f" "0 \<le> len"
  obtains n xs s' f' d1 d2 where "ks_next K sec len pre s f = ((int (length pre) + int (length xs), pre @ xs), s', f')"
    "d = d1 @ d2" "xs = take (nat len) d1" "stored s' = drop (nat len) d1" "0 \<le> ks_nstored s'"
    "wire_data K sec s' (fd_data f') = Some (d2, iv)" "same_conn s' s"
proof -
  let ?u = "ks_usage_i s sec" and ?ivs = "ks_use_ivecs s" and ?n = "un32 (take 4 (fd_data f))"
  obtain d1 iv' rest where pk: "packet_data K ?u ?ivs (ivec_in sec s) (fd_data f) = Some (d1, iv', rest)"
    using assms(1,2) by (auto simp: wire_data_def stream_data.simps [of K _ _ _ "fd_data f"] split: option.splits)
  obtain d2 where d2: "stream_data K ?u ?ivs iv' rest = Some (d2, iv)" "d = d1 @ d2"
    using assms(1,2) pk by (auto simp: wire_data_def stream_data.simps [of K _ _ _ "fd_data f"] split: option.splits)
  obtain m where m: "packet_size K ?ivs (fd_data f) = Some m"
      "packet_plain K ?u ?ivs (ivec_in sec s) ?n (take m (drop 4 (fd_data f))) = Some (d1, iv')"
      "rest = drop (4 + m) (fd_data f)"
    using pk by (auto simp: packet_data_def split: option.splits prod.splits)
  have sz: "4 \<le> length (fd_data f)" "fd_data f ! 0 = 0" "kc_length K (if ?ivs then ?n + 4 else ?n) = Some m"
      "m \<noteq> 0" "int m \<le> 2 * KRCMD_BUFSIZ" "4 + m \<le> length (fd_data f)"
    using m(1) by (auto simp: packet_size_def Let_def split: if_splits option.splits)
  obtain x0 x1 x2 x3 xs where w: "fd_data f = x0 # x1 # x2 # x3 # xs"
    using sz(1) by (auto simp: numeral_eq_Suc Suc_le_length_iff)
  have x0: "x0 = 0 \<or> \<not> ks_lencheck s" using sz(2) w by simp
  obtain f1 f2 where h: "ks_first (ks_lencheck s) f = (Some [x0], f1)" "ks_rest 3 [x0] f1 = (Some [x0, x1, x2, x3], f2)"
      "fd_data f2 = xs" "no_fail f2"
    using ks_header [OF assms(3) w x0] by metis
  have n: "un32 [x0, x1, x2, x3] = ?n" by (simp add: w)
  obtain s1 f3 where s1: "ks_fill K sec ?n s f2 = (True, s1, f3)" "stored s1 = d1" "ks_nstored s1 = int (length d1)"
      "fd_data f3 = drop m (fd_data f2)" "ks_use_ivecs s1 = ?ivs" "ks_usage_i s1 = ks_usage_i s"
      "ks_lencheck s1 = ks_lencheck s" "(if ?ivs then ks_ivec_i s1 sec else None) = iv'"
  proof (rule ks_fill_packet [of K s sec None ?n m f2 d1 iv'])
    show "packet_plain K ?u ?ivs (if ?ivs then ks_ivec_i s sec else None) ?n (take m (fd_data f2)) = Some (d1, iv')"
      using m(2) w h(3) by (simp add: ivec_in_def)
    show "m \<le> length (fd_data f2)" using sz(6) w h(3) by simp
  qed (use sz h(4) in auto)
  let ?k = "if ks_nstored s1 > len then len else ks_nstored s1"
  obtain ys s2 where g: "ks_get ?k s1 = (ys, s2)" by fastforce
  have k: "0 \<le> ?k" "?k \<le> ks_nstored s1" using assms(4) s1(3) by auto
  note gs = ks_get_stored [OF k g]
  have t: "take (nat ?k) d1 = take (nat len) d1" "drop (nat ?k) d1 = drop (nat len) d1" using s1(3) by auto
  have "int (length ys) = ?k" using gs(1) s1(2,3) k by auto
  then have "ks_next K sec len pre s f = ((int (length pre) + int (length ys), pre @ ys), s2, f3)"
    using h n s1(1) g by (auto simp: ks_next_def Let_def split: if_splits)
  moreover have "wire_data K sec s2 (fd_data f3) = Some (d2, iv)"
  proof -
    have "ivec_in sec s2 = iv'" "ks_use_ivecs s2 = ?ivs" "ks_usage_i s2 = ks_usage_i s"
      using gs(4) s1(5,6,8) by (auto simp: ivec_in_def)
    moreover have "fd_data f3 = rest"
    proof -
      have "drop (4 + m) (fd_data f) = drop m (drop 4 (fd_data f))" by (simp add: add.commute)
      then show ?thesis using s1(4) h(3) m(3) by (simp add: w)
    qed
    ultimately show ?thesis using d2(1) by (simp add: wire_data_def)
  qed
  ultimately show ?thesis
    using that [of ys s2 f3 d1 d2] d2(2) gs(1,2,3) gs(4) k s1 t by (auto simp: same_conn_def)
qed

section \<open>A writer and a reader as a queue\<close>

text \<open>
  The state: the writer, the wire between the two, the reader. The reader's descriptor answers each call
  with the replies \<open>rs\<close>.
\<close>

type_synonym kpair = "kstream \<times> byte list \<times> kstream"

definition on_wire :: "byte list \<Rightarrow> io_reply list \<Rightarrow> fd" where
  "on_wire wire rs = \<lparr>fd_data = wire, fd_written = [], fd_replies = rs\<rparr>"

definition kp_put :: "kcrypto \<Rightarrow> bool \<Rightarrow> byte list \<Rightarrow> kpair \<Rightarrow> kpair" where
  "kp_put K sec xs p =
     (case p of (w, wire, r) \<Rightarrow>
        (case v5_des_write K sec xs w (on_wire [] []) of
           None \<Rightarrow> p
         | Some (_, w, f) \<Rightarrow> (w, wire @ fd_written f, r)))"

definition kp_can_put :: "kcrypto \<Rightarrow> bool \<Rightarrow> byte list \<Rightarrow> kpair \<Rightarrow> bool" where
  "kp_can_put K sec xs p =
     (case v5_des_write K sec xs (fst p) (on_wire [] []) of None \<Rightarrow> False | Some (n, _) \<Rightarrow> n \<noteq> - 1)"

definition kp_get :: "kcrypto \<Rightarrow> bool \<Rightarrow> io_reply list \<Rightarrow> nat \<Rightarrow> kpair \<Rightarrow> byte list \<times> kpair" where
  "kp_get K sec rs len p =
     (case p of (w, wire, r) \<Rightarrow>
        let ((n, xs), r, f) = v5_des_read K sec len r (on_wire wire rs)
        in (take (nat n) xs, (w, fd_data f, r)))"

definition kp_can_get :: "nat \<Rightarrow> kpair \<Rightarrow> bool" where
  "kp_can_get len p = (case p of (w, wire, r) \<Rightarrow> wire \<noteq> [] \<or> int len \<le> ks_nstored r)"

definition kp_inv :: "kcrypto \<Rightarrow> bool \<Rightarrow> io_reply list \<Rightarrow> kpair \<Rightarrow> bool" where
  "kp_inv K sec rs p =
     (case p of (w, wire, r) \<Rightarrow>
        kc_ok K \<and> Io_fail \<notin> set rs \<and> ks_use_ivecs w = ks_use_ivecs r \<and> ks_usage_o w sec = ks_usage_i r sec \<and>
        0 \<le> ks_nstored r \<and>
        (\<exists>d. wire_data K sec r wire = Some (d, if ks_use_ivecs w then ks_ivec_o w sec else None)))"

definition kp_contents :: "kcrypto \<Rightarrow> bool \<Rightarrow> kpair \<Rightarrow> byte list" where
  "kp_contents K sec p =
     (case p of (w, wire, r) \<Rightarrow> stored r @ (case wire_data K sec r wire of Some (d, _) \<Rightarrow> d | None \<Rightarrow> []))"

lemma kp_put_spec:
  assumes "kp_inv K sec rs p" "kp_can_put K sec xs p"
  shows "kp_inv K sec rs (kp_put K sec xs p)" "kp_contents K sec (kp_put K sec xs p) = kp_contents K sec p @ xs"
proof -
  obtain w wire r where p: "p = (w, wire, r)" by (cases p)
  obtain pkt w' where pk: "ks_packet K sec w xs = Some (pkt, w')"
      "v5_des_write K sec xs w (on_wire [] []) = Some (int (length xs), w', on_wire [] []\<lparr>fd_written := pkt\<rparr>)"
    using assms(2)
    by (auto simp: kp_can_put_def p v5_des_write_def write_fd_def on_wire_def split: if_splits option.splits)
  obtain d where d: "wire_data K sec r wire = Some (d, if ks_use_ivecs w then ks_ivec_o w sec else None)"
    using assms(1) by (auto simp: kp_inv_def p)
  have i: "kc_ok K" "Io_fail \<notin> set rs" "ks_use_ivecs w = ks_use_ivecs r" "ks_usage_o w sec = ks_usage_i r sec" "0 \<le> ks_nstored r"
    using assms(1) by (simp_all add: kp_inv_def p)
  have "wire_data K sec r (wire @ pkt) = Some (d @ xs, if ks_use_ivecs w then ks_ivec_o w' sec else None)"
    using stream_data_append [OF d [unfolded wire_data_def]] packet_of_write [OF i(1) pk(1), of None] i(3,4)
    by (simp add: wire_data_def)
  moreover have "ks_use_ivecs w' = ks_use_ivecs w" "ks_usage_o w' = ks_usage_o w"
    using pk(1) by (auto simp: ks_packet_def split: option.splits if_splits)
  ultimately show "kp_inv K sec rs (kp_put K sec xs p)" "kp_contents K sec (kp_put K sec xs p) = kp_contents K sec p @ xs"
    using pk(2) i d by (simp_all add: kp_put_def p kp_inv_def kp_contents_def)
qed

lemma kp_get_spec:
  assumes "kp_inv K sec rs p" "kp_can_get n p"
  shows "kp_inv K sec rs (snd (kp_get K sec rs n p))"
    "kp_contents K sec p = fst (kp_get K sec rs n p) @ kp_contents K sec (snd (kp_get K sec rs n p))"
proof -
  obtain w wire r where p: "p = (w, wire, r)" by (cases p)
  obtain d where d: "wire_data K sec r wire = Some (d, if ks_use_ivecs w then ks_ivec_o w sec else None)"
    using assms(1) by (auto simp: kp_inv_def p)
  have i: "kc_ok K" "Io_fail \<notin> set rs" "ks_use_ivecs w = ks_use_ivecs r" "ks_usage_o w sec = ks_usage_i r sec" "0 \<le> ks_nstored r"
    using assms(1) by (simp_all add: kp_inv_def p)
  have nf: "no_fail (on_wire wire rs)" using i(2) by (simp add: no_fail_def on_wire_def)
  have "kp_inv K sec rs (snd (kp_get K sec rs n p)) \<and>
    kp_contents K sec p = fst (kp_get K sec rs n p) @ kp_contents K sec (snd (kp_get K sec rs n p))"
  proof (cases "int n \<le> ks_nstored r")
    case True
    obtain xs r' where g: "ks_get (int n) r = (xs, r')" by fastforce
    note gs = ks_get_stored [OF _ True g]
    have "length xs = n" using gs(1) length_stored [OF i(5)] True by simp
    then have "kp_get K sec rs n p = (xs, (w, wire, r'))"
      using True g by (simp add: kp_get_def p v5_des_read_def on_wire_def)
    moreover have "wire_data K sec r' wire = wire_data K sec r wire" using gs(4) by (simp add: wire_data_def ivec_in_def)
    ultimately show ?thesis using gs i d True by (simp add: kp_inv_def kp_contents_def p)
  next
    case False
    obtain pre r1 where g: "ks_get (ks_nstored r) r = (pre, r1)" by fastforce
    note gs = ks_get_stored [OF i(5) _ g]
    have pre: "pre = stored r" "int (length pre) = ks_nstored r"
      using gs(1) length_stored [OF i(5)] by simp_all
    have "wire_data K sec r1 wire = wire_data K sec r wire" using gs(4) by (simp add: wire_data_def ivec_in_def)
    then have d1: "wire_data K sec r1 (fd_data (on_wire wire rs)) = Some (d, if ks_use_ivecs w then ks_ivec_o w sec else None)"
      using d by (simp add: on_wire_def)
    have wne: "fd_data (on_wire wire rs) \<noteq> []" and len: "0 \<le> int n - int (length pre)"
      using assms(2) False pre(2) by (simp_all add: kp_can_get_def p on_wire_def)
    from ks_next_packet [OF d1 wne nf len, of pre] obtain xs r2 f2 da db where nx:
      "ks_next K sec (int n - int (length pre)) pre r1 (on_wire wire rs) = ((int (length pre) + int (length xs), pre @ xs), r2, f2)"
      "d = da @ db" "xs = take (nat (int n - int (length pre))) da" "stored r2 = drop (nat (int n - int (length pre))) da"
      "0 \<le> ks_nstored r2" "wire_data K sec r2 (fd_data f2) = Some (db, if ks_use_ivecs w then ks_ivec_o w sec else None)"
      "same_conn r2 r1"
      by metis
    have "kp_get K sec rs n p = (pre @ xs, (w, fd_data f2, r2))"
      using False g nx(1) by (simp add: kp_get_def p v5_des_read_def nat_int_add)
    moreover have "ks_use_ivecs r2 = ks_use_ivecs r" "ks_usage_i r2 = ks_usage_i r"
      using nx(7) gs(4) by (simp_all add: same_conn_def)
    ultimately show ?thesis using nx i d pre(1) by (simp add: kp_inv_def kp_contents_def p)
  qed
  then show "kp_inv K sec rs (snd (kp_get K sec rs n p))"
    "kp_contents K sec p = fst (kp_get K sec rs n p) @ kp_contents K sec (snd (kp_get K sec rs n p))" by blast+
qed

interpretation kstream_fifo: byte_fifo "kp_inv K sec rs" "kp_contents K sec" "kp_can_put K sec" "kp_put K sec"
  kp_can_get "kp_get K sec rs" for K sec rs
  by unfold_locales (rule kp_put_spec kp_get_spec; assumption)+

section \<open>Both ends\<close>

text \<open>What one side's streams send with is what the other's receive with.\<close>

lemma init_agrees:
  assumes "rcmd_stream_init_krb5 K True lc am old = Some a" "rcmd_stream_init_krb5 K True lc' (\<not> am) old = Some b"
  shows "ks_use_ivecs a = ks_use_ivecs b \<and> ks_usage_o a sec = ks_usage_i b sec \<and> ks_nstored b = 0 \<and>
    (ks_use_ivecs a \<longrightarrow> ks_ivec_o a sec = ks_ivec_i b sec)"
  using assms
  by (cases sec)
    (auto simp: rcmd_stream_init_krb5_def ks_old_def rcmd_stream_init_normal_def ks_fixed_def ks_usages_def
      per_conn_def Let_def split: if_splits option.splits)

lemma init_inv:
  assumes "kc_ok K" "Io_fail \<notin> set rs" "rcmd_stream_init_krb5 K True lc am old = Some a"
    "rcmd_stream_init_krb5 K True lc' (\<not> am) old = Some b"
  shows "kp_inv K sec rs (a, [], b)" "kp_contents K sec (a, [], b) = []"
  using init_agrees [OF assms(3,4), of sec] assms(1,2)
  by (auto simp: kp_inv_def kp_contents_def wire_data_def ivec_in_def stored_def)

section \<open>Bounds\<close>

text \<open>Whatever arrives, what is stored lies within the storage.\<close>

definition ks_bounded :: "kstream \<Rightarrow> bool" where
  "ks_bounded s = (0 \<le> ks_ptr s \<and> 0 \<le> ks_nstored s \<and> ks_ptr s + ks_nstored s \<le> 2 * KRCMD_BUFSIZ)"

definition outside_same :: "kstream \<Rightarrow> kstream \<Rightarrow> bool" where
  "outside_same s' s = (\<forall>i. i < 0 \<or> 2 * KRCMD_BUFSIZ \<le> i \<longrightarrow> ks_storage s' i = ks_storage s i)"

lemma ks_get_bounded:
  "ks_bounded s \<Longrightarrow> 0 \<le> n \<Longrightarrow> n \<le> ks_nstored s \<Longrightarrow> ks_get n s = (xs, s') \<Longrightarrow>
   ks_bounded s' \<and> outside_same s' s \<and> int (length xs) = n"
  by (auto simp: ks_get_def ks_bounded_def outside_same_def)

lemma ks_fill_bounded:
  assumes "ks_bounded s" "kc_lengths K" "ks_fill K sec n s f = (ok, s', f')"
  shows "ks_bounded s' \<and> outside_same s' s"
proof -
  have st: "ks_bounded t \<and> outside_same t s"
    if "ks_store n sec pi s = (b, t)" "int (length (fst pi)) \<le> 2 * KRCMD_BUFSIZ"
      "kc_length K (if ks_use_ivecs s then n + 4 else n) = Some m" "int m \<le> 2 * KRCMD_BUFSIZ" for pi b t m
  proof -
    have "(if ks_use_ivecs s then n + 4 else n) \<le> m" using assms(2) that(3) by (auto simp: kc_lengths_def)
    then show ?thesis
      using that
      by (auto simp: ks_store_def ks_bounded_def outside_same_def overwrite_def Let_def split_beta split: if_splits)
  qed
  show ?thesis
    using assms(1,3)
    by (auto simp: ks_fill_def outside_same_def split: option.splits if_splits prod.splits
        dest!: st [unfolded outside_same_def])
qed

lemma ks_next_bounded:
  assumes "ks_bounded s" "kc_lengths K" "0 \<le> len" "ks_next K sec len pre s f = ((n, xs), s', f')"
  shows "ks_bounded s' \<and> outside_same s' s \<and> n \<le> int (length pre) + len \<and> int (length xs) \<le> int (length pre) + len"
proof -
  have tr: "outside_same c a" if "outside_same c b" "outside_same b a" for a b c
    using that by (simp add: outside_same_def)
  have g: "ks_bounded v \<and> outside_same v s \<and> int (length ys) \<le> len"
    if "ks_fill K sec m s f0 = (True, u, f1)" "ks_get (if ks_nstored u > len then len else ks_nstored u) u = (ys, v)" for m f0 f1 u v ys
    using ks_fill_bounded [OF assms(1,2) that(1)] ks_get_bounded [OF _ _ _ that(2)] assms(3) tr [of v u s]
    by (auto simp: ks_bounded_def split: if_splits)
  have b: "ks_bounded u \<and> outside_same u s" if "ks_fill K sec m s f0 = (False, u, f1)" for m f0 f1 u
    by (rule ks_fill_bounded [OF assms(1,2) that])
  show ?thesis
  proof (cases "ks_first (ks_lencheck s) f")
    case (Pair h f0)
    show ?thesis
    proof (cases "\<exists>c cs. h = Some (c # cs)")
      case False
      then show ?thesis using assms(1,3,4) Pair
        by (cases h) (auto simp: ks_next_def outside_same_def neq_Nil_conv split: list.splits)
    next
      case True
      then obtain c cs where h: "h = Some (c # cs)" by blast
      obtain h2 f1 where r: "ks_rest 3 (c # cs) f0 = (h2, f1)" by fastforce
      show ?thesis
      proof (cases h2)
        case None
        then show ?thesis using assms(1,3,4) Pair h r by (auto simp: ks_next_def outside_same_def)
      next
        case (Some hd)
        obtain ok u f2 where fl: "ks_fill K sec (un32 hd) s f1 = (ok, u, f2)" by (metis prod_cases3)
        show ?thesis
        proof (cases ok)
          case False
          then show ?thesis using assms(3,4) Pair h r Some fl b by (auto simp: ks_next_def)
        next
          case True
          obtain ys v where y: "ks_get (if ks_nstored u > len then len else ks_nstored u) u = (ys, v)" by fastforce
          have "n \<le> int (length pre) + len \<and> xs = pre @ ys \<and> s' = v"
            using assms(4) Pair h r Some fl True y by (auto simp: ks_next_def Let_def split: if_splits)
          then show ?thesis using g [of "un32 hd" f1 u f2 ys v] fl True y by simp
        qed
      qed
    qed
  qed
qed

section \<open>Properties\<close>


text \<open>A toy library: every byte is changed, and a byte goes in front.\<close>

definition toy_kc :: kcrypto where
  "toy_kc = \<lparr>kc_length = (\<lambda>n. Some (n + 1)), kc_encrypt = (\<lambda>u iv p. Some (7 # List.map (\<lambda>x. x XOR 90) p, iv)),
     kc_decrypt = (\<lambda>u iv c. case c of [] \<Rightarrow> None | _ # p \<Rightarrow> Some (List.map (\<lambda>x. x XOR 90) p, iv)),
     kc_block_size = Some 8, kc_init_state = (\<lambda>u. Some [of_nat u]), kc_fixed_iv = False\<rparr>"

lemma toy_kc_ok: "kc_ok toy_kc"
  by (simp add: kc_ok_def kc_lengths_def kc_inverse_def toy_kc_def xor.assoc o_def)

definition toy_client :: kstream where "toy_client = the (rcmd_stream_init_krb5 toy_kc True True True False)"
definition toy_server :: kstream where "toy_server = the (rcmd_stream_init_krb5 toy_kc True True False False)"

lemma toy_init:
  "rcmd_stream_init_krb5 toy_kc True True True False = Some toy_client"
  "rcmd_stream_init_krb5 toy_kc True True (\<not> True) False = Some toy_server"
  by (simp_all add: toy_client_def toy_server_def rcmd_stream_init_krb5_def toy_kc_def Let_def)

definition toy_ops :: "fifo_op list" where
  "toy_ops = [Put [1, 2, 3], Get 2, Put [4], Get 9]"


text \<open>
  C31. No read or write of an encrypted stream leaves its buffers, whatever a peer sends: with a length function as
  the library documents it, the bytes stored stay within the storage, nothing outside of it changes, a read gives no
  more than was asked for, and a packet fits the output buffer.
\<close>

theorem stream_in_bounds:
  assumes "kc_lengths K" "ks_bounded s"
  shows "(let ((n, xs), s', f') = v5_des_read K sec len s f
          in ks_bounded s' \<and> outside_same s' s \<and> n \<le> int len \<and> int (length xs) \<le> int len) \<and>
    (case ks_packet K sec s buf of None \<Rightarrow> True | Some (pkt, _) \<Rightarrow> int (length pkt) \<le> 2 * KRCMD_BUFSIZ + 4)"
proof
  show "let ((n, xs), s', f') = v5_des_read K sec len s f
         in ks_bounded s' \<and> outside_same s' s \<and> n \<le> int len \<and> int (length xs) \<le> int len"
  proof (cases "int len \<le> ks_nstored s")
    case True
    then show ?thesis
      using ks_get_bounded [OF assms(2), of "int len"] by (auto simp: v5_des_read_def split: prod.splits)
  next
    case False
    obtain pre s1 where g: "ks_get (ks_nstored s) s = (pre, s1)" by fastforce
    have "0 \<le> ks_nstored s" using assms(2) by (simp add: ks_bounded_def)
    from ks_get_bounded [OF assms(2) this order_refl g]
    have b: "ks_bounded s1" "outside_same s1 s" "int (length pre) = ks_nstored s" by simp_all
    obtain n xs s' f' where nx: "ks_next K sec (int len - int (length pre)) pre s1 f = ((n, xs), s', f')"
      by (metis prod_cases3 surj_pair)
    have "ks_bounded s' \<and> outside_same s' s1 \<and> n \<le> int len \<and> int (length xs) \<le> int len"
      using ks_next_bounded [OF b(1) assms(1) _ nx] False b(3) by simp
    then show ?thesis using False g nx b(2) by (simp add: v5_des_read_def outside_same_def)
  qed
  show "case ks_packet K sec s buf of None \<Rightarrow> True | Some (pkt, _) \<Rightarrow> int (length pkt) \<le> 2 * KRCMD_BUFSIZ + 4"
    by (auto simp: ks_packet_def split: option.splits if_splits)
qed

lemma stream_in_bounds_witness:
  "(let ((n, xs), s', f') = v5_des_read toy_kc True 3 toy_server (on_wire [0, 0, 0, 9, 1] [Io_fail])
    in ks_bounded s' \<and> outside_same s' toy_server \<and> n \<le> int 3 \<and> int (length xs) \<le> int 3) \<and>
   (case ks_packet toy_kc True toy_server [5] of None \<Rightarrow> True | Some (pkt, _) \<Rightarrow> int (length pkt) \<le> 2 * KRCMD_BUFSIZ + 4)"
proof (rule stream_in_bounds)
  show "kc_lengths toy_kc" using toy_kc_ok by (simp add: kc_ok_def)
  show "ks_bounded toy_server" by code_simp
qed

text \<open>
  C32. The last bytes of a stream can be lost: a read that asks for more than what is stored waits for the next
  packet, and when the stream ends instead it returns 0, the end of the file. The bytes that were stored have
  been taken out of the store, and the caller cannot know that they are in its buffer.
\<close>

theorem stream_tail_lost:
  assumes "0 \<le> ks_nstored s" "ks_nstored s < int len" "fd_data f = []" "no_fail f"
  shows "\<exists>s' f'. v5_des_read K sec len s f = ((0, stored s), s', f') \<and> ks_nstored s' = 0"
proof -
  obtain pre s1 where g: "ks_get (ks_nstored s) s = (pre, s1)" by fastforce
  note gs = ks_get_stored [OF assms(1) order_refl g]
  have "\<exists>f'. full_read 1 f = (Some [], f')" by (rule full_read_eof [OF assms(4,3)])
  then obtain f' where "ks_first (ks_lencheck s1) f = (Some [], f')"
    by (auto simp: ks_first.simps [of _ f])
  then have "v5_des_read K sec len s f = ((0, pre), s1, f')"
    using assms(2) g by (simp add: v5_des_read_def ks_next_def)
  then show ?thesis using gs(1,3) length_stored [OF assms(1)] by simp
qed

lemma stream_tail_lost_witness:
  "\<exists>s' f'. v5_des_read toy_kc False 9 (toy_server\<lparr>ks_nstored := 1\<rparr>) (on_wire [] []) =
     ((0, stored (toy_server\<lparr>ks_nstored := 1\<rparr>)), s', f') \<and> ks_nstored s' = 0"
  by (rule stream_tail_lost) (simp_all add: on_wire_def no_fail_def)

end
