(* ===== verification/SecureData.thy ===== *)
theory SecureData
  imports "KStream"
begin

text \<open>
  The protected data connection of FTP: gssftp/ftp/secure.c, which the client and the server share, and
  the loops over it in \<open>send_data\<close> and \<open>receive_data\<close> (gssftp/ftpd/ftpd.c) and in \<open>sendrequest\<close> and
  \<open>recvrequest\<close> (gssftp/ftp/ftp.c).
\<close>

section \<open>State\<close>

datatype prot = PROT_C | PROT_S | PROT_P

text \<open>
  The GSS library: the largest message whose sealed form has at most the given size, sealing, and
  unsealing. The context numbers its messages, so sealing and unsealing depend on how many have gone before.
\<close>

record gss =
  gss_limit :: "bool \<Rightarrow> nat \<Rightarrow> nat option"
  gss_seal :: "bool \<Rightarrow> nat \<Rightarrow> byte list \<Rightarrow> byte list option"
  gss_unseal :: "nat \<Rightarrow> byte list \<Rightarrow> byte list option"

text \<open>
  The variables of secure.c and those it shares with the program. \<open>se_ucbuf\<close> is as long as it has been
  allocated; it serves both directions. \<open>se_c\<close> is the static variable of \<open>secure_read\<close>.
\<close>

record secure =
  se_gssapi :: bool
  se_dlevel :: prot
  se_maxbuf :: nat
  se_ucbuf :: "byte list"
  se_nout :: nat
  se_smaxbuf :: nat
  se_smaxqueue :: nat
  se_nin :: nat
  se_bufp :: nat
  se_c :: int
  se_sealed :: nat
  se_unsealed :: nat

definition ERR :: int where "ERR = - 2"
definition EOF :: int where "EOF = - 1"

definition conf :: "secure \<Rightarrow> bool" where
  "conf s = (se_dlevel s = PROT_P)"

section \<open>Streams\<close>

text \<open>
  The files behind the data connection and on disk are streams of the standard library. Their buffering does
  not show; a stream on which calls fail is in its error state.
\<close>

definition ferror :: "fd \<Rightarrow> bool" where
  "ferror f = (Io_fail \<in> set (fd_replies f))"

definition stdio_putc :: "byte \<Rightarrow> fd \<Rightarrow> int \<times> fd" where
  "stdio_putc c f = (if ferror f then (EOF, f) else (uint c, f\<lparr>fd_written := fd_written f @ [c]\<rparr>))"

definition stdio_getc :: "fd \<Rightarrow> int \<times> fd" where
  "stdio_getc f = (case fd_data f of [] \<Rightarrow> (EOF, f) | c # cs \<Rightarrow> (uint c, f\<lparr>fd_data := cs\<rparr>))"

section \<open>Sending\<close>

definition secure_determine_constants :: "gss \<Rightarrow> secure \<Rightarrow> int \<times> secure" where
  "secure_determine_constants G s =
     (let s = s\<lparr>se_smaxbuf := se_maxbuf s, se_smaxqueue := se_maxbuf s\<rparr>
      in if se_gssapi s then
           (case gss_limit G (conf s) (se_maxbuf s) of
              None \<Rightarrow> (ERR, s)
            | Some mlen \<Rightarrow> (0, s\<lparr>se_smaxqueue := mlen\<rparr>))
         else (0, s))"

text \<open>
  A message: its length in four bytes and its sealed form. Only with GSSAPI is there one; the allocation of
  the buffer for it succeeds.
\<close>

definition secure_putbuf :: "gss \<Rightarrow> byte list \<Rightarrow> secure \<Rightarrow> fd \<Rightarrow> int \<times> secure \<times> fd" where
  "secure_putbuf G buf s f =
     (case (if se_gssapi s then gss_seal G (conf s) (se_sealed s) buf else Some []) of
        None \<Rightarrow> (ERR, s, f)
      | Some out_buf \<Rightarrow>
          let s = (if se_gssapi s then s\<lparr>se_sealed := Suc (se_sealed s)\<rparr> else s)
          in case looping_write (be32 (length out_buf)) f of
               (False, f) \<Rightarrow> (- 1, s, f)
             | (True, f) \<Rightarrow>
                 (case looping_write out_buf f of
                    (False, f) \<Rightarrow> (- 1, s, f)
                  | (True, f) \<Rightarrow> (0, s, f)))"

text \<open>\<open>None\<close> is a store behind the end of \<open>ucbuf\<close>.\<close>

definition secure_putbyte :: "gss \<Rightarrow> byte \<Rightarrow> secure \<Rightarrow> fd \<Rightarrow> (int \<times> secure \<times> fd) option" where
  "secure_putbyte G c s f =
     (case (if se_smaxbuf s = 0 \<or> se_smaxqueue s = 0 \<or> se_smaxbuf s \<noteq> se_maxbuf s
            then secure_determine_constants G s else (0, s)) of
        (ret, s) \<Rightarrow>
          if ret \<noteq> 0 then Some (ret, s, f)
          else if se_nout s \<ge> length (se_ucbuf s) then None
          else
            let s = s\<lparr>se_ucbuf := (se_ucbuf s)[se_nout s := c], se_nout := Suc (se_nout s)\<rparr>
            in if se_nout s = se_smaxqueue s then
                 (case secure_putbuf G (take (se_smaxqueue s) (se_ucbuf s)) (s\<lparr>se_nout := 0\<rparr>) f of
                    (ret, s, f) \<Rightarrow> Some (if ret \<noteq> 0 then ret else uint c, s, f))
               else Some (uint c, s, f))"

definition secure_flush :: "gss \<Rightarrow> secure \<Rightarrow> fd \<Rightarrow> int \<times> secure \<times> fd" where
  "secure_flush G s f =
     (if se_dlevel s = PROT_C then (0, s, f)
      else
        case (if se_nout s \<noteq> 0 then secure_putbuf G (take (se_nout s) (se_ucbuf s)) s f else (0, s, f)) of
          (ret, s, f) \<Rightarrow> if ret \<noteq> 0 then (ret, s, f) else secure_putbuf G [] (s\<lparr>se_nout := 0\<rparr>) f)"

definition secure_putc :: "gss \<Rightarrow> byte \<Rightarrow> secure \<Rightarrow> fd \<Rightarrow> (int \<times> secure \<times> fd) option" where
  "secure_putc G c s f =
     (if se_dlevel s = PROT_C then (case stdio_putc c f of (ret, f) \<Rightarrow> Some (ret, s, f))
      else secure_putbyte G c s f)"

fun put_bytes :: "gss \<Rightarrow> byte list \<Rightarrow> nat \<Rightarrow> secure \<Rightarrow> fd \<Rightarrow> (int \<times> secure \<times> fd) option" where
  "put_bytes G [] i s f = Some (int i, s, f)"
| "put_bytes G (x # xs) i s f =
     (case secure_putbyte G x s f of
        None \<Rightarrow> None
      | Some (c, s, f) \<Rightarrow> if c < 0 then Some (c, s, f) else put_bytes G xs (Suc i) s f)"

definition secure_write :: "gss \<Rightarrow> byte list \<Rightarrow> secure \<Rightarrow> fd \<Rightarrow> (int \<times> secure \<times> fd) option" where
  "secure_write G buf s f =
     (if se_dlevel s = PROT_C then
        (case write_fd buf f of
           (Io_got ys, f) \<Rightarrow> Some (int (length ys), s, f)
         | (_, f) \<Rightarrow> Some (- 1, s, f))
      else put_bytes G buf 0 s f)"

section \<open>Receiving\<close>

text \<open>
  The next message into \<open>ucbuf\<close>: whether there was one. \<open>None\<close> is again a store behind the end of \<open>ucbuf\<close>. What
  a failed read has put there is not looked at again and not modelled. Lengths are below 2147483648.
\<close>

definition se_unseal :: "gss \<Rightarrow> byte list \<Rightarrow> secure \<Rightarrow> (bool \<times> secure) option" where
  "se_unseal G xs s =
     (if length xs > length (se_ucbuf s) then None
      else
        let s = s\<lparr>se_ucbuf := xs @ drop (length xs) (se_ucbuf s)\<rparr>
        in if \<not> se_gssapi s then Some (True, s)
           else case gss_unseal G (se_unsealed s) xs of
                  None \<Rightarrow> Some (False, s)
                | Some msg \<Rightarrow>
                    if length msg > length (se_ucbuf s) then None
                    else Some (True, s\<lparr>se_ucbuf := msg @ drop (length msg) (se_ucbuf s), se_nin := length msg,
                                       se_bufp := length msg, se_unsealed := Suc (se_unsealed s)\<rparr>))"

definition secure_fill :: "gss \<Rightarrow> secure \<Rightarrow> fd \<Rightarrow> (bool \<times> secure \<times> fd) option" where
  "secure_fill G s f =
     (case looping_read 4 f of
        (None, f) \<Rightarrow> Some (False, s, f)
      | (Some h, f) \<Rightarrow>
          if length h \<noteq> 4 \<or> un32 h > se_maxbuf s then Some (False, s, f)
          else case looping_read (un32 h) f of
                 (None, f) \<Rightarrow> Some (False, s, f)
               | (Some xs, f) \<Rightarrow>
                   if length xs \<noteq> un32 h then Some (False, s, f)
                   else (case se_unseal G xs s of None \<Rightarrow> None | Some (ok, s) \<Rightarrow> Some (ok, s, f)))"

definition secure_getbyte :: "gss \<Rightarrow> secure \<Rightarrow> fd \<Rightarrow> (int \<times> secure \<times> fd) option" where
  "secure_getbyte G s f =
     (case (if se_nin s = 0 then secure_fill G s f else Some (True, s, f)) of
        None \<Rightarrow> None
      | Some (ok, s, f) \<Rightarrow>
          if \<not> ok then Some (ERR, s, f)
          else if se_nin s = 0 then Some (EOF, s, f)
          else Some (uint (se_ucbuf s ! (se_bufp s - se_nin s)), s\<lparr>se_nin := se_nin s - 1\<rparr>, f))"

definition secure_getc :: "gss \<Rightarrow> secure \<Rightarrow> fd \<Rightarrow> (int \<times> secure \<times> fd) option" where
  "secure_getc G s f =
     (if se_dlevel s = PROT_C then (case stdio_getc f of (c, f) \<Rightarrow> Some (c, s, f)) else secure_getbyte G s f)"

text \<open>What the call returns and the bytes it has put into the buffer, which follow those of \<open>acc\<close>.\<close>

fun read_bytes :: "gss \<Rightarrow> nat \<Rightarrow> byte list \<Rightarrow> secure \<Rightarrow> fd \<Rightarrow> (int \<times> byte list \<times> secure \<times> fd) option" where
  "read_bytes G 0 acc s f = Some (int (length acc), acc, s, f)"
| "read_bytes G (Suc n) acc s f =
     (case secure_getbyte G s f of
        None \<Rightarrow> None
      | Some (c, s, f) \<Rightarrow>
          if c = ERR then Some (ERR, acc, s\<lparr>se_c := c\<rparr>, f)
          else if c = EOF then Some (int (length acc), acc, s\<lparr>se_c := if acc = [] then 0 else c\<rparr>, f)
          else read_bytes G n (acc @ [of_int c]) (s\<lparr>se_c := c\<rparr>) f)"

definition secure_read :: "gss \<Rightarrow> nat \<Rightarrow> secure \<Rightarrow> fd \<Rightarrow> (int \<times> byte list \<times> secure \<times> fd) option" where
  "secure_read G n s f =
     (if se_dlevel s = PROT_C then
        (case read_fd n f of
           (Io_got xs, f) \<Rightarrow> Some (int (length xs), xs, s, f)
         | (_, f) \<Rightarrow> Some (- 1, [], s, f))
      else if se_c s = EOF then Some (0, [], s\<lparr>se_c := 0\<rparr>, f)
      else read_bytes G n [] s f)"

end
