(* ===== verification/FtpTransfer.thy ===== *)
theory FtpTransfer
  imports SecureData
begin

text \<open>
  The transfer of a file over the data connection: \<open>send_data\<close> and \<open>receive_data\<close> of the FTP server
  (gssftp/ftpd/ftpd.c) and the loops of \<open>sendrequest\<close> and \<open>recvrequest\<close> of the client
  (gssftp/ftp/ftp.c), over the protection of \<open>SecureData\<close>.
\<close>

section \<open>A byte that is received consumes something\<close>

lemma se_unseal_same:
  "se_unseal G xs s = Some (ok, s') \<Longrightarrow> se_dlevel s' = se_dlevel s \<and> se_maxbuf s' = se_maxbuf s \<and>
     length (se_ucbuf s') = length (se_ucbuf s)"
  by (auto simp: se_unseal_def Let_def split: if_splits option.splits)

lemma looping_read_data: "looping_read n f = (Some xs, f') \<Longrightarrow> fd_data f = xs @ fd_data f'"
  by (simp add: looping_read_def full_read_data)

lemma secure_fill_consumes:
  "secure_fill G s f = Some (True, s', f') \<Longrightarrow>
     length (fd_data f') < length (fd_data f) \<and> se_dlevel s' = se_dlevel s \<and> se_maxbuf s' = se_maxbuf s"
  by (auto simp: secure_fill_def dest!: looping_read_data se_unseal_same split: option.splits prod.splits if_splits)

text \<open>Less is to come: fewer bytes on the wire, or the same and fewer in the buffer.\<close>

definition less_to_come :: "secure \<Rightarrow> fd \<Rightarrow> secure \<Rightarrow> fd \<Rightarrow> bool" where
  "less_to_come s' f' s f =
     (length (fd_data f') < length (fd_data f) \<or> length (fd_data f') = length (fd_data f) \<and> se_nin s' < se_nin s)"

lemma less_to_come_trans:
  "less_to_come s2 f2 s1 f1 \<Longrightarrow> less_to_come s1 f1 s f \<Longrightarrow> less_to_come s2 f2 s f"
  by (auto simp: less_to_come_def)

lemma secure_getbyte_consumes:
  assumes "secure_getbyte G s f = Some (c, s', f')" "c \<noteq> ERR"
  shows "less_to_come s' f' s f"
  using assms
  by (auto simp: secure_getbyte_def ERR_def EOF_def less_to_come_def split: option.splits prod.splits if_splits
      dest: secure_fill_consumes)

lemma secure_getc_consumes:
  assumes "secure_getc G s f = Some (c, s', f')" "0 \<le> c"
  shows "less_to_come s' f' s f"
  using assms
  by (auto simp: secure_getc_def stdio_getc_def EOF_def ERR_def less_to_come_def split: if_splits prod.splits list.splits
      dest: secure_getbyte_consumes [unfolded less_to_come_def])

lemma read_bytes_consumes:
  "read_bytes G n acc s f = Some (r, xs, s', f') \<Longrightarrow> r \<noteq> ERR \<Longrightarrow> n > 0 \<Longrightarrow> less_to_come s' f' s f"
proof (induction G n acc s f rule: read_bytes.induct)
  case (2 G n acc s f)
  obtain c t g where g: "secure_getbyte G s f = Some (c, t, g)"
    using "2.prems"(1) by (auto split: option.splits)
  with "2.prems" have c: "c \<noteq> ERR" by (auto split: if_splits)
  have l: "less_to_come t g s f" using secure_getbyte_consumes [OF g c] .
  show ?case
  proof (cases "c = EOF \<or> n = 0")
    case True
    then show ?thesis using "2.prems"(1) g c l by (auto simp: less_to_come_def split: if_splits)
  next
    case False
    then have "less_to_come s' f' (t\<lparr>se_c := c\<rparr>) g" using "2.IH" [OF g refl refl c] "2.prems" g c by simp
    then show ?thesis using l by (auto simp: less_to_come_def)
  qed
qed simp

lemma secure_read_consumes:
  "secure_read G n s f = Some (r, xs, s', f') \<Longrightarrow> 0 < r \<Longrightarrow> n > 0 \<Longrightarrow> less_to_come s' f' s f"
  by (auto simp: secure_read_def ERR_def read_fd_def Let_def less_to_come_def split: if_splits prod.splits io_result.splits
      list.splits io_reply.splits
      dest: read_bytes_consumes [unfolded less_to_come_def ERR_def])

section \<open>The server sends\<close>

text \<open>
  What a transfer leaves: the replies on the control connection, the count of bytes, and the states. A
  transfer that fails for the library has been reported by secure.c, with reply 535. Whether a stream is in
  its error state is only of interest when it is used as a stream, that is without protection.
\<close>

datatype ftp_type = TYPE_A | TYPE_E | TYPE_I | TYPE_L

definition stream_error :: "secure \<Rightarrow> fd \<Rightarrow> bool" where
  "stream_error s f = (se_dlevel s = PROT_C \<and> ferror f)"

text \<open>The labels \<open>data_err\<close> and \<open>file_err\<close>.\<close>

definition data_err :: "int \<Rightarrow> nat list" where
  "data_err ret = (if ret \<noteq> ERR then [426] else [535])"

fun send_ascii :: "gss \<Rightarrow> byte list \<Rightarrow> nat \<Rightarrow> secure \<Rightarrow> fd \<Rightarrow> (int \<times> nat \<times> secure \<times> fd) option" where
  "send_ascii G [] n s out = Some (0, n, s, out)"
| "send_ascii G (c # cs) n s out =
     (case (if c = 10 then
              if stream_error s out then Some (- 1, s, out) else secure_putc G 13 s out
            else Some (0, s, out)) of
        None \<Rightarrow> None
      | Some (ret, s, out) \<Rightarrow>
          if ret < 0 then Some (ret, Suc n, s, out)
          else case secure_putc G c s out of
                 None \<Rightarrow> None
               | Some (ret, s, out) \<Rightarrow>
                   if ret < 0 then Some (ret, Suc n, s, out) else send_ascii G cs (Suc n) s out)"

function send_blocks ::
  "gss \<Rightarrow> nat \<Rightarrow> fd \<Rightarrow> nat \<Rightarrow> secure \<Rightarrow> fd \<Rightarrow> (int \<times> int \<times> nat \<times> secure \<times> fd) option" where
  "send_blocks G blksize src n s out =
     (case read_fd blksize src of
        (Io_got xs, src) \<Rightarrow>
          if xs = [] then Some (0, 0, n, s, out)
          else (case secure_write G xs s out of
                  None \<Rightarrow> None
                | Some (ret, s, out) \<Rightarrow>
                    if ret = int (length xs) then send_blocks G blksize src (n + length xs) s out
                    else Some (int (length xs), ret, n, s, out))
      | (_, src) \<Rightarrow> Some (- 1, 0, n, s, out))"
  by auto
termination
  by (relation "measure (\<lambda>(_, _, src, _, _, _). length (fd_data src))")
    (auto simp: read_fd_def Let_def split: list.splits io_reply.splits)

declare send_blocks.simps [simp del]

definition send_data :: "gss \<Rightarrow> ftp_type \<Rightarrow> nat \<Rightarrow> fd \<Rightarrow> secure \<Rightarrow> fd \<Rightarrow> (nat list \<times> nat \<times> secure \<times> fd) option" where
  "send_data G type blksize instr s out =
     (case type of
        TYPE_A \<Rightarrow>
          (case send_ascii G (fd_data instr) 0 s out of
             None \<Rightarrow> None
           | Some (ret, n, s, out) \<Rightarrow>
               if ret < 0 then Some (data_err ret, n, s, out)
               else if ferror instr then Some ([551], n, s, out)
               else if stream_error s out then Some (data_err 0, n, s, out)
               else (case secure_flush G s out of
                       (ret, s, out) \<Rightarrow> Some (if ret < 0 then data_err ret else [226], n, s, out)))
      | TYPE_E \<Rightarrow> Some ([550], 0, s, out)
      | _ \<Rightarrow>
          (case send_blocks G blksize instr 0 s out of
             None \<Rightarrow> None
           | Some (cnt, ret, n, s, out) \<Rightarrow>
               if cnt < 0 then Some ([551], n, s, out)
               else if cnt > 0 then Some (data_err ret, n, s, out)
               else (case secure_flush G s out of
                       (ret, s, out) \<Rightarrow> Some (if ret < 0 then data_err ret else [226], n, s, out))))"

section \<open>The server receives\<close>

text \<open>
  \<open>cr_loop\<close> is the inner loop of the text mode: it starts with the character \<open>c\<close> and either leaves one that is
  to be treated further, or has dealt with all (\<open>contin2\<close>), or has found the output in error. A line end is
  written to the file without its carriage return; a carriage return before another character is kept, and the
  null byte behind it dropped.
\<close>

datatype cr_result = Cr_char int | Cr_next | Cr_error

function cr_loop :: "gss \<Rightarrow> int \<Rightarrow> secure \<Rightarrow> fd \<Rightarrow> fd \<Rightarrow> (cr_result \<times> secure \<times> fd \<times> fd) option" where
  "cr_loop G c s f out =
     (if c \<noteq> 13 then Some (Cr_char c, s, f, out)
      else if ferror out then Some (Cr_error, s, f, out)
      else case secure_getc G s f of
             None \<Rightarrow> None
           | Some (c, s, f) \<Rightarrow>
               if c = 10 then Some (Cr_char c, s, f, out)
               else
                 let out = snd (stdio_putc 13 out)
                 in if c = 0 then Some (Cr_next, s, f, out)
                    else if c < 0 then Some (Cr_char c, s, f, out)
                    else cr_loop G c s f out)"
  by auto
termination
  by (relation "inv_image (less_than <*lex*> less_than) (\<lambda>(_, _, s, f, _). (length (fd_data f), se_nin s))")
    (auto dest: secure_getc_consumes [unfolded less_to_come_def])

declare cr_loop.simps [simp del]

lemma cr_loop_consumes:
  "cr_loop G c s f out = Some (r, s', f', out') \<Longrightarrow> less_to_come s' f' s f \<or> s' = s \<and> f' = f \<or> (\<exists>c. r = Cr_char c \<and> c < 0)"
proof (induction G c s f out rule: cr_loop.induct)
  case (1 G c s f out)
  show ?case
  proof (cases "c \<noteq> 13 \<or> ferror out")
    case False
    then obtain d t g where g: "secure_getc G s f = Some (d, t, g)"
      using "1.prems" by (cases "secure_getc G s f") (auto simp: cr_loop.simps [of G _ s f out])
    let ?out = "snd (stdio_putc 13 out)"
    show ?thesis
    proof (cases "d = 10 \<or> d \<le> 0")
      case True
      then show ?thesis using False g "1.prems" secure_getc_consumes [OF g]
        by (auto simp: cr_loop.simps [of G _ s f out] Let_def split: if_splits)
    next
      case d: False
      then have "cr_loop G d t g ?out = Some (r, s', f', out')"
        using False g "1.prems" by (simp add: cr_loop.simps [of G _ s f out] Let_def)
      then show ?thesis
        using "1.IH" [of "(d, t, g)" d "(t, g)" t g ?out] False d g secure_getc_consumes [OF g] less_to_come_trans by auto
    qed
  qed (use "1.prems" in \<open>auto simp: cr_loop.simps [of G _ s f out] split: if_splits\<close>)
qed

text \<open>The outer loop, with the counts of bytes and of bare line feeds, and the last character (or the error).\<close>

datatype rx_end = Rx_end int | Rx_error

function receive_ascii ::
  "gss \<Rightarrow> nat \<Rightarrow> nat \<Rightarrow> secure \<Rightarrow> fd \<Rightarrow> fd \<Rightarrow> (rx_end \<times> nat \<times> nat \<times> secure \<times> fd \<times> fd) option" where
  "receive_ascii G n lfs s f out =
     (case secure_getc G s f of
        None \<Rightarrow> None
      | Some (c, s, f) \<Rightarrow>
          if c < 0 then Some (Rx_end c, n, lfs, s, f, out)
          else
            let lfs = (if c = 10 then Suc lfs else lfs)
            in case cr_loop G c s f out of
                 None \<Rightarrow> None
               | Some (Cr_error, s, f, out) \<Rightarrow> Some (Rx_error, Suc n, lfs, s, f, out)
               | Some (Cr_next, s, f, out) \<Rightarrow> receive_ascii G (Suc n) lfs s f out
               | Some (Cr_char c, s, f, out) \<Rightarrow>
                   if c < 0 then Some (Rx_end c, Suc n, lfs, s, f, out)
                   else receive_ascii G (Suc n) lfs s f (snd (stdio_putc (of_int c) out)))"
  by auto
termination
  by (relation "inv_image (less_than <*lex*> less_than) (\<lambda>(_, _, _, s, f, _). (length (fd_data f), se_nin s))")
    (auto dest!: secure_getc_consumes [unfolded less_to_come_def] cr_loop_consumes [unfolded less_to_come_def])

declare receive_ascii.simps [simp del]

function receive_blocks ::
  "gss \<Rightarrow> nat \<Rightarrow> nat \<Rightarrow> secure \<Rightarrow> fd \<Rightarrow> fd \<Rightarrow> (int option \<times> nat \<times> secure \<times> fd \<times> fd) option" where
  "receive_blocks G k n s f out =
     (case secure_read G (Suc k) s f of
        None \<Rightarrow> None
      | Some (cnt, xs, s, f) \<Rightarrow>
          if cnt > 0 then
            (case write_fd xs out of
               (Io_got ys, out) \<Rightarrow>
                 if length ys \<noteq> length xs then Some (None, n, s, f, out)
                 else receive_blocks G k (n + nat cnt) s f out
             | (_, out) \<Rightarrow> Some (None, n, s, f, out))
          else Some (Some cnt, n, s, f, out))"
  by auto
termination
  by (relation "inv_image (less_than <*lex*> less_than) (\<lambda>(_, _, _, s, f, _). (length (fd_data f), se_nin s))")
    (auto dest!: secure_read_consumes [unfolded less_to_come_def])

definition receive_data ::
  "gss \<Rightarrow> ftp_type \<Rightarrow> nat \<Rightarrow> secure \<Rightarrow> fd \<Rightarrow> fd \<Rightarrow> (int \<times> nat list \<times> nat \<times> secure \<times> fd \<times> fd) option" where
  "receive_data G type k s instr out =
     (case type of
        TYPE_A \<Rightarrow>
          (case receive_ascii G 0 0 s instr out of
             None \<Rightarrow> None
           | Some (Rx_error, n, lfs, s, instr, out) \<Rightarrow> Some (- 1, data_err 0, n, s, instr, out)
           | Some (Rx_end c, n, lfs, s, instr, out) \<Rightarrow>
               if c = ERR \<or> stream_error s instr then Some (- 1, data_err c, n, s, instr, out)
               else if ferror out then Some (- 1, [452], n, s, instr, out)
               else Some (0, if lfs > 0 then [226, 0] else [], n, s, instr, out))
      | TYPE_E \<Rightarrow> Some (- 1, [553], 0, s, instr, out)
      | _ \<Rightarrow>
          (case receive_blocks G k 0 s instr out of
             None \<Rightarrow> None
           | Some (None, n, s, instr, out) \<Rightarrow> Some (- 1, [452], n, s, instr, out)
           | Some (Some cnt, n, s, instr, out) \<Rightarrow>
               if cnt < 0 then Some (- 1, data_err cnt, n, s, instr, out) else Some (0, [], n, s, instr, out)))"

section \<open>The client sends\<close>

text \<open>The result is \<open>bytes\<close>, which is -1 after an error; the marks for \<open>hash\<close> are not modelled.\<close>

function write_all :: "gss \<Rightarrow> byte list \<Rightarrow> int \<Rightarrow> secure \<Rightarrow> fd \<Rightarrow> (int \<times> secure \<times> fd) option" where
  "write_all G xs d s out =
     (if xs = [] then Some (d, s, out)
      else case secure_write G xs s out of
             None \<Rightarrow> None
           | Some (d, s, out) \<Rightarrow> if d \<le> 0 then Some (d, s, out) else write_all G (drop (nat d) xs) d s out)"
  by auto
termination
  by (relation "measure (\<lambda>(_, xs, _, _, _). length xs)") auto

declare write_all.simps [simp del]

function client_send_blocks ::
  "gss \<Rightarrow> nat \<Rightarrow> fd \<Rightarrow> nat \<Rightarrow> int \<Rightarrow> secure \<Rightarrow> fd \<Rightarrow> (int \<times> nat \<times> secure \<times> fd) option" where
  "client_send_blocks G bufsize fin n d s out =
     (case read_fd bufsize fin of
        (Io_got xs, fin) \<Rightarrow>
          if xs = [] then Some (d, n, s, out)
          else (case write_all G xs d s out of
                  None \<Rightarrow> None
                | Some (d, s, out) \<Rightarrow>
                    if d \<le> 0 then Some (d, n + length xs, s, out)
                    else client_send_blocks G bufsize fin (n + length xs) d s out)
      | (_, fin) \<Rightarrow> Some (d, n, s, out))"
  by auto
termination
  by (relation "measure (\<lambda>(_, _, fin, _, _, _, _). length (fd_data fin))")
    (auto simp: read_fd_def Let_def split: list.splits io_reply.splits)

declare client_send_blocks.simps [simp del]

fun client_send_ascii :: "gss \<Rightarrow> byte list \<Rightarrow> nat \<Rightarrow> secure \<Rightarrow> fd \<Rightarrow> (nat \<times> secure \<times> fd) option" where
  "client_send_ascii G [] n s out = Some (n, s, out)"
| "client_send_ascii G (c # cs) n s out =
     (case (if c = 10 then
              if stream_error s out then Some (- 1, s, out) else secure_putc G 13 s out
            else Some (0, s, out)) of
        None \<Rightarrow> None
      | Some (ret, s, out) \<Rightarrow>
          if ret < 0 then Some (n, s, out)
          else
            let n = (if c = 10 then Suc n else n)
            in case secure_putc G c s out of
                 None \<Rightarrow> None
               | Some (ret, s, out) \<Rightarrow> if ret < 0 then Some (n, s, out) else client_send_ascii G cs (Suc n) s out)"

definition client_send :: "gss \<Rightarrow> ftp_type \<Rightarrow> nat \<Rightarrow> fd \<Rightarrow> secure \<Rightarrow> fd \<Rightarrow> (int \<times> secure \<times> fd) option" where
  "client_send G type bufsize fin s out =
     (case type of
        TYPE_A \<Rightarrow>
          (case client_send_ascii G (fd_data fin) 0 s out of
             None \<Rightarrow> None
           | Some (n, s, out) \<Rightarrow>
               if stream_error s out then Some (- 1, s, out)
               else (case secure_flush G s out of (d, s, out) \<Rightarrow> Some (if d < 0 then - 1 else int n, s, out)))
      | TYPE_E \<Rightarrow> Some (0, s, out)
      | _ \<Rightarrow>
          (case client_send_blocks G bufsize fin 0 0 s out of
             None \<Rightarrow> None
           | Some (d, n, s, out) \<Rightarrow>
               if d < 0 then Some (- 1, s, out)
               else (case secure_flush G s out of (d, s, out) \<Rightarrow> Some (if d < 0 then - 1 else int n, s, out))))"

section \<open>The client receives\<close>

text \<open>With \<open>tcr\<close> (\<open>tcrflag\<close>) the carriage return before a line feed is kept as well.\<close>

function client_cr ::
  "gss \<Rightarrow> bool \<Rightarrow> int \<Rightarrow> nat \<Rightarrow> secure \<Rightarrow> fd \<Rightarrow> fd \<Rightarrow> (cr_result \<times> nat \<times> secure \<times> fd \<times> fd) option" where
  "client_cr G tcr c n s f out =
     (if c \<noteq> 13 then Some (Cr_char c, n, s, f, out)
      else case secure_getc G s f of
             None \<Rightarrow> None
           | Some (c, s, f) \<Rightarrow>
               if c \<noteq> 10 \<or> tcr then
                 if ferror out then Some (Cr_error, Suc n, s, f, out)
                 else
                   let out = snd (stdio_putc 13 out)
                   in if c = 0 then Some (Cr_next, n + 2, s, f, out)
                      else if c \<noteq> 13 then Some (Cr_char c, Suc n, s, f, out)
                      else client_cr G tcr c (Suc n) s f out
               else Some (Cr_char c, Suc n, s, f, out))"
  by auto
termination
  by (relation "inv_image (less_than <*lex*> less_than) (\<lambda>(_, _, _, _, s, f, _). (length (fd_data f), se_nin s))")
    (auto dest: secure_getc_consumes [unfolded less_to_come_def])

declare client_cr.simps [simp del]

lemma client_cr_consumes:
  "client_cr G tcr c n s f out = Some (r, n', s', f', out') \<Longrightarrow>
     less_to_come s' f' s f \<or> s' = s \<and> f' = f \<or> r = Cr_error \<or> (\<exists>c. r = Cr_char c \<and> c < 0)"
proof (induction G tcr c n s f out rule: client_cr.induct)
  case (1 G tcr c n s f out)
  show ?case
  proof (cases "c \<noteq> 13")
    case False
    then obtain d t g where g: "secure_getc G s f = Some (d, t, g)"
      using "1.prems" by (cases "secure_getc G s f") (auto simp: client_cr.simps [of G _ _ n s f out])
    let ?out = "snd (stdio_putc 13 out)"
    show ?thesis
    proof (cases "d \<noteq> 13 \<or> ferror out")
      case True
      then show ?thesis using False g "1.prems" secure_getc_consumes [OF g]
        by (auto simp: client_cr.simps [of G _ _ n s f out] Let_def split: if_splits)
    next
      case d: False
      then have "client_cr G tcr d (Suc n) t g ?out = Some (r, n', s', f', out')"
        using False g "1.prems" by (simp add: client_cr.simps [of G _ _ n s f out] Let_def)
      then show ?thesis
        using "1.IH" [of "(d, t, g)" d "(t, g)" t g ?out] False d g secure_getc_consumes [OF g] less_to_come_trans by auto
    qed
  qed (use "1.prems" in \<open>auto simp: client_cr.simps [of G _ _ n s f out] split: if_splits\<close>)
qed

function client_receive_ascii ::
  "gss \<Rightarrow> bool \<Rightarrow> nat \<Rightarrow> nat \<Rightarrow> secure \<Rightarrow> fd \<Rightarrow> fd \<Rightarrow> (rx_end \<times> nat \<times> nat \<times> secure \<times> fd \<times> fd) option" where
  "client_receive_ascii G tcr n lfs s f out =
     (case secure_getc G s f of
        None \<Rightarrow> None
      | Some (c, s, f) \<Rightarrow>
          if c < 0 then Some (Rx_end c, n, lfs, s, f, out)
          else
            let lfs = (if c = 10 then Suc lfs else lfs)
            in case client_cr G tcr c n s f out of
                 None \<Rightarrow> None
               | Some (Cr_error, n, s, f, out) \<Rightarrow> Some (Rx_error, n, lfs, s, f, out)
               | Some (Cr_next, n, s, f, out) \<Rightarrow> client_receive_ascii G tcr n lfs s f out
               | Some (Cr_char c, n, s, f, out) \<Rightarrow>
                   if c < 0 then Some (Rx_end c, n, lfs, s, f, out)
                   else client_receive_ascii G tcr (Suc n) lfs s f (snd (stdio_putc (of_int c) out)))"
  by auto
termination
  by (relation "inv_image (less_than <*lex*> less_than) (\<lambda>(_, _, _, _, s, f, _). (length (fd_data f), se_nin s))")
    (auto dest!: secure_getc_consumes [unfolded less_to_come_def] client_cr_consumes [unfolded less_to_come_def])

declare client_receive_ascii.simps [simp del]

function client_receive_blocks ::
  "gss \<Rightarrow> nat \<Rightarrow> nat \<Rightarrow> secure \<Rightarrow> fd \<Rightarrow> fd \<Rightarrow> (int \<times> nat \<times> secure \<times> fd \<times> fd) option" where
  "client_receive_blocks G k n s f out =
     (case secure_read G (Suc k) s f of
        None \<Rightarrow> None
      | Some (c, xs, s, f) \<Rightarrow>
          if c > 0 then
            (case write_fd xs out of
               (Io_got ys, out) \<Rightarrow>
                 if length ys \<noteq> length xs then Some (c, n, s, f, out)
                 else client_receive_blocks G k (n + nat c) s f out
             | (_, out) \<Rightarrow> Some (c, n, s, f, out))
          else Some (c, n, s, f, out))"
  by auto
termination
  by (relation "inv_image (less_than <*lex*> less_than) (\<lambda>(_, _, _, s, f, _). (length (fd_data f), se_nin s))")
    (auto dest!: secure_read_consumes [unfolded less_to_come_def])

declare client_receive_blocks.simps [simp del] receive_blocks.simps [simp del]

definition client_receive ::
  "gss \<Rightarrow> ftp_type \<Rightarrow> bool \<Rightarrow> nat \<Rightarrow> secure \<Rightarrow> fd \<Rightarrow> fd \<Rightarrow> (int \<times> secure \<times> fd \<times> fd) option" where
  "client_receive G type tcr k s din fout =
     (case type of
        TYPE_A \<Rightarrow>
          (case client_receive_ascii G tcr 0 0 s din fout of
             None \<Rightarrow> None
           | Some (e, n, lfs, s, din, fout) \<Rightarrow>
               Some (if stream_error s din \<or> ferror fout \<or> e = Rx_end ERR then - 1 else int n, s, din, fout))
      | TYPE_E \<Rightarrow> Some (0, s, din, fout)
      | _ \<Rightarrow>
          (case client_receive_blocks G k 0 s din fout of
             None \<Rightarrow> None
           | Some (c, n, s, din, fout) \<Rightarrow> Some (if c < 0 then - 1 else int n, s, din, fout)))"

end
