(* ===== verification/SecureProps.thy ===== *)
theory SecureProps
  imports FtpTransfer "KStreamProps"
begin

text \<open>
  The messages of a protected data connection: what one side puts is what the other side gets, as long
  as their bounds agree.
\<close>

section \<open>The library\<close>

text \<open>
  What the code relies on: unsealing gives back what was sealed as the message of the same number; a sealed
  message is at least as long as its contents; within a limit that is not zero the sealed form keeps the size
  asked for (zero is the answer when even an empty message does not). It works when sealing succeeds.
\<close>

definition gss_inverse :: "gss \<Rightarrow> bool" where
  "gss_inverse G =
     (\<forall>cf n p x. gss_seal G cf n p = Some x \<longrightarrow> gss_unseal G n x = Some p \<and> length p \<le> length x)"

definition gss_limits :: "gss \<Rightarrow> bool" where
  "gss_limits G =
     (\<forall>cf m k n p x. gss_limit G cf m = Some k \<longrightarrow> 0 < k \<longrightarrow> length p \<le> k \<longrightarrow> gss_seal G cf n p = Some x \<longrightarrow> length x \<le> m)"

definition gss_seals :: "gss \<Rightarrow> bool \<Rightarrow> bool" where
  "gss_seals G cf = (\<forall>n p. gss_seal G cf n p \<noteq> None)"

definition gss_ok :: "gss \<Rightarrow> bool \<Rightarrow> bool" where
  "gss_ok G cf = (gss_inverse G \<and> gss_limits G \<and> gss_seals G cf)"

lemma gss_limit_le:
  assumes "gss_ok G cf" "gss_limit G cf m = Some q" shows "q \<le> m"
proof (cases "0 < q")
  case True
  have ok: "gss_inverse G" "gss_limits G" "gss_seals G cf" using assms(1) by (simp_all add: gss_ok_def)
  then obtain x where x: "gss_seal G cf 0 (replicate q 0) = Some x" by (auto simp: gss_seals_def)
  have "length x \<le> m" using ok(2) assms(2) x True by (simp add: gss_limits_def) (metis length_replicate order_refl)
  moreover have "q \<le> length x" using ok(1) x by (metis gss_inverse_def length_replicate)
  ultimately show ?thesis by simp
qed simp

section \<open>Messages on the wire\<close>

fun packets :: "gss \<Rightarrow> bool \<Rightarrow> nat \<Rightarrow> byte list list \<Rightarrow> byte list option" where
  "packets G cf n [] = Some []"
| "packets G cf n (p # ps) =
     (case gss_seal G cf n p of
        None \<Rightarrow> None
      | Some x \<Rightarrow> map_option (\<lambda>w. be32 (length x) @ x @ w) (packets G cf (Suc n) ps))"

lemma packets_append:
  "packets G cf n ps = Some w \<Longrightarrow> packets G cf (n + length ps) qs = Some v \<Longrightarrow> packets G cf n (ps @ qs) = Some (w @ v)"
  by (induction ps arbitrary: n w) (auto split: option.splits)

section \<open>The sender\<close>

definition sends :: "gss \<Rightarrow> nat \<Rightarrow> secure \<Rightarrow> bool" where
  "sends G q s =
     (se_gssapi s \<and> se_dlevel s \<noteq> PROT_C \<and> gss_limit G (conf s) (se_maxbuf s) = Some q \<and> 0 < q \<and>
      se_maxbuf s \<le> length (se_ucbuf s) \<and> se_nout s \<le> q \<and>
      (se_smaxbuf s = 0 \<or> se_smaxqueue s = 0 \<or> se_smaxbuf s \<noteq> se_maxbuf s \<or> se_smaxqueue s = q))"

text \<open>What has been sent: whole messages on the wire and the rest in the buffer.\<close>

definition sent :: "gss \<Rightarrow> nat \<Rightarrow> bool \<Rightarrow> nat \<Rightarrow> byte list \<Rightarrow> byte list \<Rightarrow> secure \<Rightarrow> fd \<Rightarrow> bool" where
  "sent G q cf n0 w0 D s f =
     (sends G q s \<and> conf s = cf \<and> no_fail f \<and>
      (\<exists>ps w. packets G cf n0 ps = Some w \<and> fd_written f = w0 @ w \<and> se_sealed s = n0 + length ps \<and>
         concat ps @ take (se_nout s) (se_ucbuf s) = D \<and> (\<forall>p\<in>set ps. p \<noteq> [] \<and> length p \<le> q)))"

lemma sent_start:
  "sends G q s \<Longrightarrow> no_fail f \<Longrightarrow>
     sent G q (conf s) (se_sealed s) (fd_written f) (take (se_nout s) (se_ucbuf s)) s f"
  by (auto simp: sent_def intro!: exI [of _ "[]"])

lemma secure_putbuf_message:
  assumes "gss_ok G (conf s)" "se_gssapi s" "no_fail f"
  obtains x f' where "gss_seal G (conf s) (se_sealed s) buf = Some x"
    "secure_putbuf G buf s f = (0, s\<lparr>se_sealed := Suc (se_sealed s)\<rparr>, f')"
    "fd_written f' = fd_written f @ be32 (length x) @ x" "no_fail f'"
proof -
  obtain x where x: "gss_seal G (conf s) (se_sealed s) buf = Some x"
    using assms(1) by (auto simp: gss_ok_def gss_seals_def)
  obtain f1 where f1: "looping_write (be32 (length x)) f = (True, f1)" "fd_written f1 = fd_written f @ be32 (length x)"
      "no_fail f1"
    using looping_write_all [OF assms(3)] by blast
  obtain f2 where f2: "looping_write x f1 = (True, f2)" "fd_written f2 = fd_written f1 @ x" "no_fail f2"
    using looping_write_all [OF f1(3)] by blast
  show ?thesis by (rule that [OF x, of f2]) (use assms(2) x f1 f2 in \<open>auto simp: secure_putbuf_def\<close>)
qed

lemma secure_putbuf_nout:
  "secure_putbuf G buf (s\<lparr>se_nout := n\<rparr>) f =
     (case secure_putbuf G buf s f of (r, s', f') \<Rightarrow> (r, s'\<lparr>se_nout := n\<rparr>, f'))"
  by (cases s) (auto simp: secure_putbuf_def conf_def Let_def split: option.splits prod.splits bool.splits)

lemma sent_putbuf:
  assumes "gss_ok G cf" "sent G q cf n0 w0 D s f" "se_nout s > 0"
  obtains s' f' where "secure_putbuf G (take (se_nout s) (se_ucbuf s)) (s\<lparr>se_nout := 0\<rparr>) f = (0, s'\<lparr>se_nout := 0\<rparr>, f')"
    "secure_putbuf G (take (se_nout s) (se_ucbuf s)) s f = (0, s', f')"
    "sent G q cf n0 w0 D (s'\<lparr>se_nout := 0\<rparr>) f'"
proof -
  let ?p = "take (se_nout s) (se_ucbuf s)"
  have s: "sends G q s" "conf s = cf" "no_fail f" using assms(2) by (simp_all add: sent_def)
  then have len: "length ?p = se_nout s" "se_nout s \<le> q"
    using gss_limit_le [OF assms(1), of "se_maxbuf s" q] by (auto simp: sends_def)
  obtain ps w where ps: "packets G cf n0 ps = Some w" "fd_written f = w0 @ w" "se_sealed s = n0 + length ps"
      "concat ps @ ?p = D" "\<forall>p\<in>set ps. p \<noteq> [] \<and> length p \<le> q"
    using assms(2) by (auto simp: sent_def)
  obtain x f' where x: "gss_seal G cf (se_sealed s) ?p = Some x"
      "secure_putbuf G ?p s f = (0, s\<lparr>se_sealed := Suc (se_sealed s)\<rparr>, f')"
      "fd_written f' = fd_written f @ be32 (length x) @ x" "no_fail f'"
    using secure_putbuf_message [of G s f ?p] assms(1) s by (auto simp: sends_def)
  let ?s' = "s\<lparr>se_sealed := Suc (se_sealed s)\<rparr>"
  have "packets G cf n0 (ps @ [?p]) = Some (w @ be32 (length x) @ x)"
    using packets_append [OF ps(1), of "[?p]"] x(1) ps(3) by simp
  moreover have "?p \<noteq> []" using assms(3) len by auto
  ultimately have "sent G q cf n0 w0 D (?s'\<lparr>se_nout := 0\<rparr>) f'"
    unfolding sent_def using s ps x(3,4) len
    by (auto simp: sends_def conf_def intro!: exI [of _ "ps @ [?p]"] exI [of _ "w @ be32 (length x) @ x"])
  moreover have "secure_putbuf G ?p (s\<lparr>se_nout := 0\<rparr>) f = (0, ?s'\<lparr>se_nout := 0\<rparr>, f')"
    using x(2) by (simp add: secure_putbuf_nout)
  ultimately show ?thesis using x(2) that by blast
qed

lemma determine_sends:
  assumes "sends G q s"
  shows "(if se_smaxbuf s = 0 \<or> se_smaxqueue s = 0 \<or> se_smaxbuf s \<noteq> se_maxbuf s
      then secure_determine_constants G s else (0, s)) = (0, s\<lparr>se_smaxbuf := se_maxbuf s, se_smaxqueue := q\<rparr>)"
proof (cases "se_smaxbuf s = 0 \<or> se_smaxqueue s = 0 \<or> se_smaxbuf s \<noteq> se_maxbuf s")
  case True
  have "secure_determine_constants G s = (0, s\<lparr>se_smaxbuf := se_maxbuf s, se_smaxqueue := q\<rparr>)"
    using assms by (simp add: sends_def secure_determine_constants_def conf_def Let_def)
  then show ?thesis using True by simp
next
  case False
  have "s\<lparr>se_smaxbuf := se_smaxbuf s, se_smaxqueue := se_smaxqueue s\<rparr> = s" by simp
  moreover have "se_smaxbuf s = se_maxbuf s" "se_smaxqueue s = q" using False assms by (auto simp: sends_def)
  ultimately show ?thesis using False by simp
qed

lemma take_snoc_update:
  "n < length xs \<Longrightarrow> take (Suc n) (xs[n := c]) = take n xs @ [c]"
  by (simp add: take_Suc_conv_app_nth)

lemma sent_putbyte:
  assumes "gss_ok G cf" "sent G q cf n0 w0 D s f" "se_nout s < q"
  obtains s' f' where "secure_putbyte G c s f = Some (uint c, s', f')" "sent G q cf n0 w0 (D @ [c]) s' f'"
    "se_nout s' < q"
proof -
  have s: "sends G q s" "conf s = cf" using assms(2) by (simp_all add: sent_def)
  then have le: "q \<le> length (se_ucbuf s)"
    using gss_limit_le [OF assms(1), of "se_maxbuf s" q] by (auto simp: sends_def)
  let ?t = "s\<lparr>se_smaxbuf := se_maxbuf s, se_smaxqueue := q\<rparr>"
  let ?u = "?t\<lparr>se_ucbuf := (se_ucbuf s)[se_nout s := c], se_nout := Suc (se_nout s)\<rparr>"
  have u: "sent G q cf n0 w0 (D @ [c]) ?u f"
    using assms(2,3) le by (auto simp: sent_def sends_def conf_def take_snoc_update)
  show ?thesis
  proof (cases "Suc (se_nout s) = q")
    case True
    obtain s' f' where p: "secure_putbuf G (take (se_nout ?u) (se_ucbuf ?u)) (?u\<lparr>se_nout := 0\<rparr>) f = (0, s'\<lparr>se_nout := 0\<rparr>, f')"
        "sent G q cf n0 w0 (D @ [c]) (s'\<lparr>se_nout := 0\<rparr>) f'"
    proof -
      have "se_nout ?u > 0" by simp
      then show ?thesis using sent_putbuf [OF assms(1) u] that by blast
    qed
    show ?thesis
      by (rule that [of "s'\<lparr>se_nout := 0\<rparr>" f'])
        (use p True le assms(3) in \<open>simp_all add: secure_putbyte_def determine_sends [OF s(1)] del: de_Morgan_disj\<close>)
  next
    case False
    show ?thesis
      by (rule that [of ?u f]) (use u False le assms(3) in \<open>simp_all add: secure_putbyte_def determine_sends [OF s(1)]\<close>)
  qed
qed

lemma put_bytes_sent:
  assumes "gss_ok G cf" "sent G q cf n0 w0 D s f" "se_nout s < q"
  shows "\<exists>s' f'. put_bytes G xs i s f = Some (int (i + length xs), s', f') \<and> sent G q cf n0 w0 (D @ xs) s' f' \<and>
    se_nout s' < q"
  using assms
proof (induction xs arbitrary: D i s f)
  case (Cons x xs)
  obtain s1 f1 where p: "secure_putbyte G x s f = Some (uint x, s1, f1)" "sent G q cf n0 w0 (D @ [x]) s1 f1" "se_nout s1 < q"
    using sent_putbyte [OF Cons.prems] by blast
  show ?case using Cons.IH [OF assms(1) p(2,3), of "Suc i"] p(1) by simp
qed simp

lemma sent_level: "sent G q cf n0 w0 D s f \<Longrightarrow> se_dlevel s \<noteq> PROT_C"
  by (simp add: sent_def sends_def)

lemma secure_write_sent:
  assumes "gss_ok G cf" "sent G q cf n0 w0 D s f" "se_nout s < q"
  obtains s' f' where "secure_write G xs s f = Some (int (length xs), s', f')" "sent G q cf n0 w0 (D @ xs) s' f'"
    "se_nout s' < q"
  using put_bytes_sent [OF assms, of xs 0] sent_level [OF assms(2)] by (auto simp: secure_write_def)

text \<open>After the flush the wire holds the data and the message that ends them, and nothing is left.\<close>

lemma secure_flush_sent:
  assumes "gss_ok G cf" "sent G q cf n0 w0 D s f"
  obtains s' f' ps w where "secure_flush G s f = (0, s', f')" "packets G cf n0 (ps @ [[]]) = Some w"
    "fd_written f' = w0 @ w" "concat ps = D" "\<forall>p\<in>set ps. p \<noteq> [] \<and> length p \<le> q" "se_nout s' = 0"
    "sent G q cf (se_sealed s') (fd_written f') [] s' f'"
proof -
  obtain s1 f1 where p: "(if se_nout s \<noteq> 0 then secure_putbuf G (take (se_nout s) (se_ucbuf s)) s f else (0, s, f)) =
        (0, s1, f1)" "sent G q cf n0 w0 D (s1\<lparr>se_nout := 0\<rparr>) f1"
  proof (cases "se_nout s = 0")
    case True
    have "s\<lparr>se_nout := se_nout s\<rparr> = s" by simp
    then have "s\<lparr>se_nout := 0\<rparr> = s" using True by simp
    then have "sent G q cf n0 w0 D (s\<lparr>se_nout := 0\<rparr>) f" using assms(2) by (simp only:)
    then show ?thesis using that [of s f] True by simp
  next
    case False
    then show ?thesis using sent_putbuf [OF assms] that by auto
  qed
  let ?s = "s1\<lparr>se_nout := 0\<rparr>"
  have s: "sends G q ?s" "conf ?s = cf" "no_fail f1" using p(2) by (simp_all add: sent_def)
  obtain x f' where x: "gss_seal G cf (se_sealed ?s) [] = Some x"
      "secure_putbuf G [] ?s f1 = (0, ?s\<lparr>se_sealed := Suc (se_sealed ?s)\<rparr>, f')"
      "fd_written f' = fd_written f1 @ be32 (length x) @ x" "no_fail f'"
    using secure_putbuf_message [of G ?s f1 "[]"] assms(1) s by (auto simp: sends_def)
  let ?s' = "?s\<lparr>se_sealed := Suc (se_sealed ?s)\<rparr>"
  obtain ps w where ps: "packets G cf n0 ps = Some w" "fd_written f1 = w0 @ w" "se_sealed ?s = n0 + length ps"
      "concat ps = D" "\<forall>p\<in>set ps. p \<noteq> [] \<and> length p \<le> q"
    using p(2) by (auto simp: sent_def)
  have "packets G cf n0 (ps @ [[]]) = Some (w @ be32 (length x) @ x)"
    using packets_append [OF ps(1), of "[[]]"] x(1) ps(3) by simp
  moreover have "secure_flush G s f = (0, ?s', f')"
    using sent_level [OF assms(2)] p(1) x(2) by (simp add: secure_flush_def)
  moreover have "sent G q cf (se_sealed ?s') (fd_written f') [] ?s' f'"
    using sent_start [of G q ?s' f'] s x(4) by (simp add: sends_def conf_def)
  ultimately show ?thesis using that [of ?s' f' ps "w @ be32 (length x) @ x"] ps x(3) by auto
qed

section \<open>The receiver\<close>

definition pending :: "secure \<Rightarrow> byte list" where
  "pending s = take (se_nin s) (drop (se_bufp s - se_nin s) (se_ucbuf s))"

text \<open>
  What is still to be received: what is left in the buffer, and whole messages on the wire, which an empty
  one ends. \<open>rest\<close> is behind them.
\<close>

definition receives :: "gss \<Rightarrow> secure \<Rightarrow> bool" where
  "receives G s =
     (se_gssapi s \<and> se_dlevel s \<noteq> PROT_C \<and> gss_inverse G \<and> se_maxbuf s \<le> length (se_ucbuf s) \<and>
      se_maxbuf s < 4294967296 \<and> se_nin s \<le> se_bufp s \<and> se_bufp s \<le> length (se_ucbuf s))"

definition fits :: "gss \<Rightarrow> bool \<Rightarrow> nat \<Rightarrow> byte list \<Rightarrow> bool" where
  "fits G cf m p = (\<forall>n x. gss_seal G cf n p = Some x \<longrightarrow> length x \<le> m)"

definition to_receive :: "gss \<Rightarrow> bool \<Rightarrow> byte list \<Rightarrow> secure \<Rightarrow> fd \<Rightarrow> byte list \<Rightarrow> bool" where
  "to_receive G cf D s f rest =
     (receives G s \<and> no_fail f \<and>
      (\<exists>ps w. packets G cf (se_unsealed s) (ps @ [[]]) = Some w \<and> fd_data f = w @ rest \<and>
         pending s @ concat ps = D \<and> (\<forall>p\<in>set (ps @ [[]]). fits G cf (se_maxbuf s) p) \<and> [] \<notin> set ps))"

lemma un32_be32_append: "n < 4294967296 \<Longrightarrow> un32 (take 4 (be32 n @ xs)) = n"
  by (simp add: un32_be32)

lemma secure_fill_packet:
  assumes "receives G s" "no_fail f" "gss_seal G cf (se_unsealed s) p = Some x" "fits G cf (se_maxbuf s) p"
    and "fd_data f = be32 (length x) @ x @ w"
  obtains s' f' where "secure_fill G s f = Some (True, s', f')" "receives G s'" "no_fail f'" "fd_data f' = w"
    "pending s' = p" "se_nin s' = length p" "se_unsealed s' = Suc (se_unsealed s)" "se_maxbuf s' = se_maxbuf s"
    "se_dlevel s' = se_dlevel s" "se_c s' = se_c s"
proof -
  have "length x \<le> se_maxbuf s" using assms(3,4) by (auto simp: fits_def)
  then have len: "length x \<le> se_maxbuf s" "length x < 4294967296" "length x \<le> length (se_ucbuf s)"
    using assms(1) by (auto simp: receives_def)
  have inv: "gss_unseal G (se_unsealed s) x = Some p" "length p \<le> length x"
    using assms(1,3) by (auto simp: receives_def gss_inverse_def)
  obtain f1 where f1: "looping_read 4 f = (Some (be32 (length x)), f1)" "fd_data f1 = x @ w" "no_fail f1"
    using full_read_enough [OF assms(2), of 4] assms(5) by (auto simp: looping_read_def)
  obtain f2 where f2: "looping_read (length x) f1 = (Some x, f2)" "fd_data f2 = w" "no_fail f2"
    using full_read_enough [OF f1(3), of "length x"] f1(2) by (auto simp: looping_read_def)
  let ?uc = "x @ drop (length x) (se_ucbuf s)"
  let ?s' = "s\<lparr>se_ucbuf := p @ drop (length p) ?uc, se_nin := length p, se_bufp := length p,
     se_unsealed := Suc (se_unsealed s)\<rparr>"
  have "secure_fill G s f = Some (True, ?s', f2)"
    using f1 f2 len inv assms(1) by (simp add: secure_fill_def un32_be32 se_unseal_def receives_def)
  moreover have "receives G ?s'" using assms(1) len inv by (auto simp: receives_def)
  ultimately show ?thesis using that [of ?s' f2] f2 by (simp add: pending_def)
qed

lemma pending_Cons:
  assumes "0 < se_nin s" "se_nin s \<le> se_bufp s" "se_bufp s \<le> length (se_ucbuf s)"
  shows "pending s = se_ucbuf s ! (se_bufp s - se_nin s) # pending (s\<lparr>se_nin := se_nin s - 1\<rparr>)"
proof -
  have "drop (se_bufp s - se_nin s) (se_ucbuf s) =
      se_ucbuf s ! (se_bufp s - se_nin s) # drop (Suc (se_bufp s - se_nin s)) (se_ucbuf s)"
    using assms by (intro Cons_nth_drop_Suc [symmetric]) simp
  moreover have "se_bufp s - (se_nin s - 1) = Suc (se_bufp s - se_nin s)" using assms by simp
  ultimately show ?thesis using assms(1) by (cases "se_nin s") (simp_all add: pending_def)
qed

lemma pending_Nil: "receives G s \<Longrightarrow> pending s = [] \<longleftrightarrow> se_nin s = 0"
  by (auto simp: pending_def receives_def)

lemma getbyte_pending:
  assumes "receives G s" "pending s = c # D"
  obtains s' where "secure_getbyte G s f = Some (uint c, s', f)" "pending s' = D" "receives G s'"
    "se_unsealed s' = se_unsealed s" "se_maxbuf s' = se_maxbuf s" "se_dlevel s' = se_dlevel s" "se_c s' = se_c s"
proof -
  have n: "0 < se_nin s" "se_nin s \<le> se_bufp s" "se_bufp s \<le> length (se_ucbuf s)"
    using assms pending_Nil [OF assms(1)] by (auto simp: receives_def)
  let ?s' = "s\<lparr>se_nin := se_nin s - 1\<rparr>"
  have "se_ucbuf s ! (se_bufp s - se_nin s) = c" "pending ?s' = D"
    using pending_Cons [OF n] assms(2) by simp_all
  moreover have "receives G ?s'" using assms(1) by (auto simp: receives_def)
  ultimately show ?thesis using that [of ?s'] n(1) by (simp add: secure_getbyte_def)
qed

lemma getbyte_Cons:
  assumes "to_receive G cf (c # D) s f rest"
  obtains s' f' where "secure_getbyte G s f = Some (uint c, s', f')" "to_receive G cf D s' f' rest"
    "se_c s' = se_c s"
proof -
  obtain ps w where r: "receives G s" "no_fail f" "packets G cf (se_unsealed s) (ps @ [[]]) = Some w" "fd_data f = w @ rest"
      "pending s @ concat ps = c # D" "\<forall>p\<in>set (ps @ [[]]). fits G cf (se_maxbuf s) p" "[] \<notin> set ps"
    using assms by (auto simp: to_receive_def)
  show ?thesis
  proof (cases "pending s")
    case (Cons x xs)
    then obtain s' where s': "secure_getbyte G s f = Some (uint c, s', f)" "pending s' = xs" "receives G s'"
        "se_unsealed s' = se_unsealed s" "se_maxbuf s' = se_maxbuf s" "se_c s' = se_c s"
      using getbyte_pending [OF r(1), of c xs f] r(5) by auto
    then have "to_receive G cf D s' f rest"
      unfolding to_receive_def using r Cons by (intro conjI exI [of _ ps] exI [of _ w]) simp_all
    then show ?thesis using that s' by blast
  next
    case Nil
    then have n: "se_nin s = 0" using pending_Nil [OF r(1)] by simp
    obtain p qs where ps: "ps = p # qs" using r(5) Nil by (cases ps) auto
    obtain x v where x: "gss_seal G cf (se_unsealed s) p = Some x" "packets G cf (Suc (se_unsealed s)) (qs @ [[]]) = Some v"
        "w = be32 (length x) @ x @ v"
      using r(3) ps by (auto split: option.splits)
    have d: "fd_data f = be32 (length x) @ x @ v @ rest" and fp: "fits G cf (se_maxbuf s) p"
      using r(4,6) ps x(3) by simp_all
    obtain s1 f1 where s1: "secure_fill G s f = Some (True, s1, f1)" "receives G s1" "no_fail f1" "fd_data f1 = v @ rest"
        "pending s1 = p" "se_nin s1 = length p" "se_unsealed s1 = Suc (se_unsealed s)" "se_maxbuf s1 = se_maxbuf s"
        "se_c s1 = se_c s"
      using secure_fill_packet [OF r(1,2) x(1) fp d] by metis
    obtain y ys where y: "p = y # ys" using r(7) ps by (cases p) auto
    then have cy: "y = c" "ys @ concat qs = D" using r(5) Nil ps by auto
    obtain s' where s': "secure_getbyte G s1 f1 = Some (uint c, s', f1)" "pending s' = ys" "receives G s'"
        "se_unsealed s' = se_unsealed s1" "se_maxbuf s' = se_maxbuf s1" "se_c s' = se_c s1"
      using getbyte_pending [OF s1(2), of c ys f1] s1(5) y cy by auto
    have "secure_getbyte G s f = Some (uint c, s', f1)"
      using s'(1) s1(1,6) n y by (simp add: secure_getbyte_def)
    moreover have "to_receive G cf D s' f1 rest"
      unfolding to_receive_def using r s1 s' ps x cy
      by (intro conjI exI [of _ qs] exI [of _ v]) simp_all
    ultimately show ?thesis using that s'(6) s1(9) by simp
  qed
qed

lemma getbyte_Nil:
  assumes "to_receive G cf [] s f rest"
  obtains s' f' where "secure_getbyte G s f = Some (EOF, s', f')" "fd_data f' = rest" "no_fail f'" "se_nin s' = 0"
    "receives G s'" "se_c s' = se_c s"
proof -
  obtain ps w where r: "receives G s" "no_fail f" "packets G cf (se_unsealed s) (ps @ [[]]) = Some w" "fd_data f = w @ rest"
      "pending s @ concat ps = []" "\<forall>p\<in>set (ps @ [[]]). fits G cf (se_maxbuf s) p" "[] \<notin> set ps"
    using assms by (auto simp: to_receive_def)
  have "ps = []" using r(5,7) by (cases ps) auto
  have n: "se_nin s = 0" using pending_Nil [OF r(1)] r(5) by simp
  obtain x where x: "gss_seal G cf (se_unsealed s) [] = Some x" "w = be32 (length x) @ x"
    using r(3) \<open>ps = []\<close> by (auto split: option.splits)
  have d: "fd_data f = be32 (length x) @ x @ rest" and fp: "fits G cf (se_maxbuf s) []"
    using r(4,6) x(2) by simp_all
  obtain s1 f1 where s1: "secure_fill G s f = Some (True, s1, f1)" "receives G s1" "no_fail f1" "fd_data f1 = rest"
      "se_nin s1 = 0" "se_c s1 = se_c s"
    using secure_fill_packet [OF r(1,2) x(1) fp d] by (metis list.size(3))
  then show ?thesis using that [of s1 f1] n by (simp add: secure_getbyte_def)
qed

end
