(* ===== verification/FtpProps.thy ===== *)
theory FtpProps
  imports "SecureProps"
begin

text \<open>
  A file that one side of an FTP transfer sends over a protected data connection is the file the other
  side writes, in both directions and both transfer types; client and server receive text alike; what is left
  over by a transfer that has failed.
\<close>

section \<open>Text on the network\<close>

definition net_text :: "byte list \<Rightarrow> byte list" where
  "net_text xs = concat (List.map (\<lambda>c. if c = 10 then [13, 10] else [c]) xs)"

text \<open>What a receiver makes of it, also behind a carriage return, and how many bare line feeds it counts.\<close>

fun file_text :: "byte list \<Rightarrow> byte list" and cr_text :: "byte list \<Rightarrow> byte list" where
  "file_text [] = []"
| "file_text (c # cs) = (if c = 13 then cr_text cs else c # file_text cs)"
| "cr_text [] = [13]"
| "cr_text (c # cs) =
     (if c = 10 then c # file_text cs
      else if c = 0 then 13 # file_text cs
      else if c = 13 then 13 # cr_text cs
      else 13 # c # file_text cs)"

fun bare_lfs :: "byte list \<Rightarrow> nat" and cr_lfs :: "byte list \<Rightarrow> nat" where
  "bare_lfs [] = 0"
| "bare_lfs (c # cs) = (if c = 13 then cr_lfs cs else (if c = 10 then 1 else 0) + bare_lfs cs)"
| "cr_lfs [] = 0"
| "cr_lfs (c # cs) = (if c = 13 then cr_lfs cs else bare_lfs cs)"

text \<open>Of a file nothing is changed but that a null byte behind a carriage return is lost.\<close>

fun drop_nul :: "byte list \<Rightarrow> byte list" where
  "drop_nul [] = []"
| "drop_nul [c] = [c]"
| "drop_nul (c # d # cs) = (if c = 13 \<and> d = 0 then c # drop_nul cs else c # drop_nul (d # cs))"

lemma net_text_simps [simp]:
  "net_text [] = []" "net_text (c # cs) = (if c = 10 then 13 # 10 # net_text cs else c # net_text cs)"
  by (simp_all add: net_text_def)

lemma file_text_net_text:
  "file_text (net_text xs) = drop_nul xs \<and> bare_lfs (net_text xs) = 0 \<and>
   cr_text (net_text xs) = drop_nul (13 # xs) \<and> cr_lfs (net_text xs) = 0"
proof (induction "length xs" arbitrary: xs rule: less_induct)
  case less
  show ?case
  proof (cases xs)
    case (Cons c cs)
    have IH: "file_text (net_text cs) = drop_nul cs" "bare_lfs (net_text cs) = 0"
        "cr_text (net_text cs) = drop_nul (13 # cs)" "cr_lfs (net_text cs) = 0"
      using less [of cs] Cons by simp_all
    then show ?thesis using Cons by (cases cs) auto
  qed simp
qed

section \<open>Sending\<close>

text \<open>A file on disk: reads give a part or all of it, and do not fail.\<close>

definition plain_file :: "fd \<Rightarrow> bool" where
  "plain_file f = (\<forall>r\<in>set (fd_replies f). \<exists>k. r = Io_chunk k)"

lemma read_plain_file:
  assumes "plain_file f"
  obtains xs f' where "read_fd (Suc b) f = (Io_got xs, f')" "fd_data f = xs @ fd_data f'" "plain_file f'"
    "fd_data f \<noteq> [] \<Longrightarrow> xs \<noteq> []"
proof (cases "fd_replies f")
  case Nil
  then show ?thesis using that [of "take (Suc b) (fd_data f)" "f\<lparr>fd_data := drop (Suc b) (fd_data f)\<rparr>"] assms
    by (simp add: read_fd_def plain_file_def)
next
  case (Cons a rs)
  then obtain k where "a = Io_chunk k" using assms by (auto simp: plain_file_def)
  then show ?thesis
    using that [of "take (min (Suc b) (Suc k)) (fd_data f)"
        "f\<lparr>fd_data := drop (min (Suc b) (Suc k)) (fd_data f), fd_replies := rs\<rparr>"] assms Cons
    by (auto simp: read_fd_def plain_file_def Let_def)
qed

lemma send_blocks_sent:
  assumes "gss_ok G cf" "sent G q cf n0 w0 D s out" "se_nout s < q" "plain_file src"
  shows "\<exists>s' out'. send_blocks G (Suc b) src n s out = Some (0, 0, n + length (fd_data src), s', out') \<and>
    sent G q cf n0 w0 (D @ fd_data src) s' out'"
  using assms(2-4)
proof (induction "length (fd_data src)" arbitrary: src n s out D rule: less_induct)
  case less
  obtain xs src' where r: "read_fd (Suc b) src = (Io_got xs, src')" "fd_data src = xs @ fd_data src'" "plain_file src'"
      "fd_data src \<noteq> [] \<Longrightarrow> xs \<noteq> []"
    using read_plain_file [OF less.prems(3)] by blast
  show ?case
  proof (cases "xs = []")
    case True
    then have "fd_data src = []" using r(4) by blast
    then show ?thesis using r True less.prems(1) by (simp add: send_blocks.simps [of G _ src])
  next
    case False
    obtain s1 out1 where w: "secure_write G xs s out = Some (int (length xs), s1, out1)"
        "sent G q cf n0 w0 (D @ xs) s1 out1" "se_nout s1 < q"
      using secure_write_sent [OF assms(1) less.prems(1,2)] by blast
    have "length (fd_data src') < length (fd_data src)" using r(2) False by simp
    from less.hyps [OF this w(2,3) r(3), of "n + length xs"]
    show ?thesis using r(1,2) w(1) False by (simp add: send_blocks.simps [of G _ src] add.assoc)
  qed
qed

lemma secure_putc_sent:
  assumes "gss_ok G cf" "sent G q cf n0 w0 D s f" "se_nout s < q"
  obtains s' f' where "secure_putc G c s f = Some (uint c, s', f')" "sent G q cf n0 w0 (D @ [c]) s' f'"
    "se_nout s' < q"
  using sent_putbyte [OF assms, of c] sent_level [OF assms(2)] by (auto simp: secure_putc_def)

lemma no_stream_error: "sent G q cf n0 w0 D s f \<Longrightarrow> \<not> stream_error s f"
  by (simp add: stream_error_def sent_level)

text \<open>A line of the file in the text mode, common to server and client: what is put for one character.\<close>

lemma put_text_sent:
  assumes "gss_ok G cf" "sent G q cf n0 w0 D s f" "se_nout s < q"
  obtains r s1 f1 s' f' where
    "(if c = 10 then if stream_error s f then Some (- 1, s, f) else secure_putc G 13 s f else Some (0, s, f)) = Some (r, s1, f1)"
    "0 \<le> r" "secure_putc G c s1 f1 = Some (uint c, s', f')" "sent G q cf n0 w0 (D @ net_text [c]) s' f'" "se_nout s' < q"
proof (cases "c = 10")
  case True
  obtain s1 f1 where p: "secure_putc G 13 s f = Some (uint (13 :: byte), s1, f1)" "sent G q cf n0 w0 (D @ [13]) s1 f1" "se_nout s1 < q"
    using secure_putc_sent [OF assms] by blast
  obtain s2 f2 where p2: "secure_putc G c s1 f1 = Some (uint c, s2, f2)" "sent G q cf n0 w0 ((D @ [13]) @ [c]) s2 f2" "se_nout s2 < q"
    using secure_putc_sent [OF assms(1) p(2,3)] by blast
  show ?thesis
    by (rule that [of "uint (13 :: byte)" s1 f1 s2 f2]) (use p p2 True no_stream_error [OF assms(2)] in simp_all)
next
  case False
  obtain s2 f2 where p2: "secure_putc G c s f = Some (uint c, s2, f2)" "sent G q cf n0 w0 (D @ [c]) s2 f2" "se_nout s2 < q"
    using secure_putc_sent [OF assms] by blast
  show ?thesis by (rule that [of 0 s f s2 f2]) (use p2 False in simp_all)
qed

lemma net_text_Cons: "net_text (c # cs) = net_text [c] @ net_text cs"
  by (simp add: net_text_def)

lemma send_ascii_sent:
  assumes "gss_ok G cf" "sent G q cf n0 w0 D s f" "se_nout s < q"
  shows "\<exists>s' f'. send_ascii G xs n s f = Some (0, n + length xs, s', f') \<and> sent G q cf n0 w0 (D @ net_text xs) s' f'"
  using assms
proof (induction xs arbitrary: n s f D)
  case (Cons c cs)
  obtain r s1 f1 s' f' where p:
    "(if c = 10 then if stream_error s f then Some (- 1, s, f) else secure_putc G 13 s f else Some (0, s, f)) = Some (r, s1, f1)"
    "0 \<le> r" "secure_putc G c s1 f1 = Some (uint c, s', f')" "sent G q cf n0 w0 (D @ net_text [c]) s' f'" "se_nout s' < q"
    using put_text_sent [OF Cons.prems] by blast
  show ?case
    using Cons.IH [OF assms(1) p(4,5), of "Suc n"] p(1-3) net_text_Cons [of c cs] by (simp del: net_text_simps)
qed simp

lemma client_send_ascii_sent:
  assumes "gss_ok G cf" "sent G q cf n0 w0 D s f" "se_nout s < q"
  shows "\<exists>n' s' f'. client_send_ascii G xs n s f = Some (n', s', f') \<and> sent G q cf n0 w0 (D @ net_text xs) s' f'"
  using assms
proof (induction xs arbitrary: n s f D)
  case (Cons c cs)
  obtain r s1 f1 s' f' where p:
    "(if c = 10 then if stream_error s f then Some (- 1, s, f) else secure_putc G 13 s f else Some (0, s, f)) = Some (r, s1, f1)"
    "0 \<le> r" "secure_putc G c s1 f1 = Some (uint c, s', f')" "sent G q cf n0 w0 (D @ net_text [c]) s' f'" "se_nout s' < q"
    using put_text_sent [OF Cons.prems] by blast
  show ?case
    using Cons.IH [OF assms(1) p(4,5), of "Suc (if c = 10 then Suc n else n)"] p(1-3) net_text_Cons [of c cs]
    by (simp add: Let_def del: net_text_simps)
qed simp

lemma client_send_blocks_sent:
  assumes "gss_ok G cf" "sent G q cf n0 w0 D s out" "se_nout s < q" "plain_file src" "0 \<le> d"
  shows "\<exists>d' s' out'. client_send_blocks G (Suc b) src n d s out = Some (d', n + length (fd_data src), s', out') \<and>
    0 \<le> d' \<and> sent G q cf n0 w0 (D @ fd_data src) s' out'"
  using assms(2-)
proof (induction "length (fd_data src)" arbitrary: src n d s out D rule: less_induct)
  case less
  obtain xs src' where r: "read_fd (Suc b) src = (Io_got xs, src')" "fd_data src = xs @ fd_data src'" "plain_file src'"
      "fd_data src \<noteq> [] \<Longrightarrow> xs \<noteq> []"
    using read_plain_file [OF less.prems(3)] by blast
  show ?case
  proof (cases "xs = []")
    case True
    then have "fd_data src = []" using r(4) by blast
    then show ?thesis using r True less.prems by (simp add: client_send_blocks.simps [of G _ src])
  next
    case False
    obtain s1 out1 where w: "secure_write G xs s out = Some (int (length xs), s1, out1)"
        "sent G q cf n0 w0 (D @ xs) s1 out1" "se_nout s1 < q"
      using secure_write_sent [OF assms(1) less.prems(1,2)] by blast
    have a: "write_all G xs d s out = Some (int (length xs), s1, out1)"
      using w(1) False by (simp add: write_all.simps [of G xs] write_all.simps [of G "[]"])
    have "length (fd_data src') < length (fd_data src)" using r(2) False by simp
    from less.hyps [OF this w(2,3) r(3), of "int (length xs)" "n + length xs"]
    show ?thesis using r(1,2) a False by (simp add: client_send_blocks.simps [of G _ src] add.assoc)
  qed
qed

section \<open>A whole transfer: the sender\<close>

definition message_of :: "gss \<Rightarrow> bool \<Rightarrow> nat \<Rightarrow> nat \<Rightarrow> byte list \<Rightarrow> byte list \<Rightarrow> bool" where
  "message_of G cf q n D w =
     (\<exists>ps. packets G cf n (ps @ [[]]) = Some w \<and> concat ps = D \<and> (\<forall>p\<in>set ps. p \<noteq> [] \<and> length p \<le> q))"

definition net_form :: "ftp_type \<Rightarrow> byte list \<Rightarrow> byte list" where
  "net_form type xs = (if type = TYPE_A then net_text xs else xs)"

lemma flush_message:
  assumes "gss_ok G cf" "sent G q cf n0 w0 D s f"
  obtains s' f' w where "secure_flush G s f = (0, s', f')" "fd_written f' = w0 @ w" "message_of G cf q n0 D w"
  using secure_flush_sent [OF assms] unfolding message_of_def by metis

lemma plain_file_error: "plain_file f \<Longrightarrow> \<not> ferror f"
  by (auto simp: plain_file_def ferror_def)

lemma send_data_message:
  assumes "gss_ok G (conf s)" "sends G q s" "se_nout s < q" "no_fail out" "plain_file src" "type \<noteq> TYPE_E"
  obtains s' out' w where "send_data G type (Suc b) src s out = Some ([226], length (fd_data src), s', out')"
    "fd_written out' = fd_written out @ w" "message_of G (conf s) q (se_sealed s) (take (se_nout s) (se_ucbuf s) @ net_form type (fd_data src)) w"
proof -
  let ?old = "take (se_nout s) (se_ucbuf s)"
  have s: "sent G q (conf s) (se_sealed s) (fd_written out) ?old s out" "se_nout s < q"
    using sent_start [OF assms(2,4)] assms(3) by simp_all
  show ?thesis
  proof (cases "type = TYPE_A")
    case True
    obtain s1 f1 where a: "send_ascii G (fd_data src) 0 s out = Some (0, length (fd_data src), s1, f1)"
        "sent G q (conf s) (se_sealed s) (fd_written out) (?old @ net_text (fd_data src)) s1 f1"
      using send_ascii_sent [OF assms(1) s, of "fd_data src" 0] by auto
    obtain s' f' w where "secure_flush G s1 f1 = (0, s', f')" "fd_written f' = fd_written out @ w"
        "message_of G (conf s) q (se_sealed s) (?old @ net_text (fd_data src)) w"
      using flush_message [OF assms(1) a(2)] .
    then show ?thesis
      using that [of s' f' w] True a(1) plain_file_error [OF assms(5)] no_stream_error [OF a(2)]
      by (simp add: send_data_def net_form_def)
  next
    case False
    obtain s1 f1 where a: "send_blocks G (Suc b) src 0 s out = Some (0, 0, length (fd_data src), s1, f1)"
        "sent G q (conf s) (se_sealed s) (fd_written out) (?old @ fd_data src) s1 f1"
      using send_blocks_sent [OF assms(1) s assms(5), of b 0] by auto
    obtain s' f' w where "secure_flush G s1 f1 = (0, s', f')" "fd_written f' = fd_written out @ w"
        "message_of G (conf s) q (se_sealed s) (?old @ fd_data src) w"
      using flush_message [OF assms(1) a(2)] .
    then show ?thesis
      using that [of s' f' w] False assms(6) a(1) by (cases type) (simp_all add: send_data_def net_form_def)
  qed
qed

lemma client_send_message:
  assumes "gss_ok G (conf s)" "sends G q s" "se_nout s < q" "no_fail out" "plain_file src" "type \<noteq> TYPE_E"
  obtains n s' out' w where "client_send G type (Suc b) src s out = Some (int n, s', out')"
    "fd_written out' = fd_written out @ w" "message_of G (conf s) q (se_sealed s) (take (se_nout s) (se_ucbuf s) @ net_form type (fd_data src)) w"
proof -
  let ?old = "take (se_nout s) (se_ucbuf s)"
  have s: "sent G q (conf s) (se_sealed s) (fd_written out) ?old s out" "se_nout s < q"
    using sent_start [OF assms(2,4)] assms(3) by simp_all
  show ?thesis
  proof (cases "type = TYPE_A")
    case True
    obtain n s1 f1 where a: "client_send_ascii G (fd_data src) 0 s out = Some (n, s1, f1)"
        "sent G q (conf s) (se_sealed s) (fd_written out) (?old @ net_text (fd_data src)) s1 f1"
      using client_send_ascii_sent [OF assms(1) s, of "fd_data src" 0] by auto
    obtain s' f' w where "secure_flush G s1 f1 = (0, s', f')" "fd_written f' = fd_written out @ w"
        "message_of G (conf s) q (se_sealed s) (?old @ net_text (fd_data src)) w"
      using flush_message [OF assms(1) a(2)] .
    then show ?thesis
      using that [of n s' f' w] True a(1) no_stream_error [OF a(2)] by (simp add: client_send_def net_form_def)
  next
    case False
    obtain d s1 f1 where a: "client_send_blocks G (Suc b) src 0 0 s out = Some (d, length (fd_data src), s1, f1)" "0 \<le> d"
        "sent G q (conf s) (se_sealed s) (fd_written out) (?old @ fd_data src) s1 f1"
      using client_send_blocks_sent [OF assms(1) s assms(5), of 0 b 0] by auto
    obtain s' f' w where f: "secure_flush G s1 f1 = (0, s', f')" "fd_written f' = fd_written out @ w"
        "message_of G (conf s) q (se_sealed s) (?old @ fd_data src) w"
      using flush_message [OF assms(1) a(3)] .
    have "type = TYPE_I \<or> type = TYPE_L" using False assms(6) by (cases type) simp_all
    then have "client_send G type (Suc b) src s out = Some (int (length (fd_data src)), s', f')"
      using a(1,2) f(1) by (auto simp: client_send_def)
    then show ?thesis using that f(2,3) False by (simp add: net_form_def)
  qed
qed

section \<open>Receiving\<close>

definition at_end :: "secure \<Rightarrow> fd \<Rightarrow> byte list \<Rightarrow> bool" where
  "at_end s f rest = (fd_data f = rest \<and> no_fail f \<and> se_nin s = 0 \<and> se_dlevel s \<noteq> PROT_C)"

lemma uint_not_error [simp]: "uint (c :: byte) \<noteq> - 1" "uint c \<noteq> - 2" "\<not> uint c < 0"
proof -
  have "0 \<le> uint c" by simp
  then show "uint c \<noteq> - 1" "uint c \<noteq> - 2" "\<not> uint c < 0" by linarith+
qed

lemma to_receive_c: "to_receive G cf D (s\<lparr>se_c := c\<rparr>) f rest = to_receive G cf D s f rest"
  by (simp add: to_receive_def receives_def pending_def)

lemma read_bytes_enough:
  assumes "to_receive G cf D s f rest" "n \<le> length D" "se_c s \<noteq> EOF"
  shows "\<exists>s' f'. read_bytes G n acc s f = Some (int (length acc + n), acc @ take n D, s', f') \<and>
    to_receive G cf (drop n D) s' f' rest \<and> se_c s' \<noteq> EOF"
  using assms
proof (induction n arbitrary: acc D s f)
  case (Suc n)
  then obtain c cs where D: "D = c # cs" by (cases D) auto
  obtain s1 f1 where g: "secure_getbyte G s f = Some (uint c, s1, f1)" "to_receive G cf cs s1 f1 rest"
    using getbyte_Cons [of G cf c cs s f rest] Suc.prems(1) D by blast
  have "to_receive G cf cs (s1\<lparr>se_c := uint c\<rparr>) f1 rest" using g(2) by (simp add: to_receive_c)
  from Suc.IH [OF this, of "acc @ [c]"] Suc.prems(2) D
  show ?case using g(1) by (simp add: ERR_def EOF_def)
qed auto

lemma read_bytes_short:
  assumes "to_receive G cf D s f rest" "length D < n" "se_c s \<noteq> EOF"
  shows "\<exists>s' f'. read_bytes G n acc s f = Some (int (length (acc @ D)), acc @ D, s', f') \<and>
    at_end s' f' rest \<and> se_c s' = (if acc @ D = [] then 0 else EOF)"
  using assms
proof (induction n arbitrary: acc D s f)
  case (Suc n)
  show ?case
  proof (cases D)
    case Nil
    obtain s1 f1 where g: "secure_getbyte G s f = Some (EOF, s1, f1)" "fd_data f1 = rest" "no_fail f1" "se_nin s1 = 0"
        "receives G s1"
      using getbyte_Nil [of G cf s f rest] Suc.prems(1) Nil by blast
    then show ?thesis using Nil by (simp add: ERR_def EOF_def at_end_def receives_def)
  next
    case (Cons c cs)
    obtain s1 f1 where g: "secure_getbyte G s f = Some (uint c, s1, f1)" "to_receive G cf cs s1 f1 rest"
      using getbyte_Cons [of G cf c cs s f rest] Suc.prems(1) Cons by blast
    have "to_receive G cf cs (s1\<lparr>se_c := uint c\<rparr>) f1 rest" using g(2) by (simp add: to_receive_c)
    from Suc.IH [OF this, of "acc @ [c]"] Suc.prems(2) Cons
    show ?thesis using g(1) by (simp add: ERR_def EOF_def)
  qed
qed simp

lemma to_receive_level: "to_receive G cf D s f rest \<Longrightarrow> se_dlevel s \<noteq> PROT_C"
  by (simp add: to_receive_def receives_def)

text \<open>A file that is written: everything at once, without error.\<close>

definition appended :: "byte list \<Rightarrow> fd \<Rightarrow> fd" where
  "appended xs f = f\<lparr>fd_written := fd_written f @ xs\<rparr>"

lemma appended_simps [simp]:
  "appended [] f = f" "appended ys (appended xs f) = appended (xs @ ys) f" "fd_replies (appended xs f) = fd_replies f"
  "fd_written (appended xs f) = fd_written f @ xs" "ferror (appended xs f) = ferror f"
  by (simp_all add: appended_def ferror_def)

lemma ferror_putc [simp]: "ferror (snd (stdio_putc c f)) = ferror f"
  by (simp add: stdio_putc_def ferror_def)

lemma cr_loop_other: "c \<noteq> 13 \<Longrightarrow> cr_loop G c s f out = Some (Cr_char c, s, f, out)"
  by (simp add: cr_loop.simps [of G c s f out])

lemma write_appended: "fd_replies f = [] \<Longrightarrow> write_fd xs f = (Io_got xs, appended xs f)"
  by (simp add: write_fd_def appended_def)

lemma putc_appended: "\<not> ferror f \<Longrightarrow> snd (stdio_putc c f) = appended [c] f"
  by (simp add: stdio_putc_def appended_def)

lemma receive_blocks_all:
  assumes "to_receive G cf D s f rest" "se_c s \<noteq> EOF" "fd_replies out = []"
  shows "\<exists>n' s' f'. receive_blocks G k n s f out = Some (Some 0, n', s', f', appended D out) \<and> at_end s' f' rest \<and>
    client_receive_blocks G k n s f out = Some (0, n', s', f', appended D out) \<and> n' = n + length D"
  using assms
proof (induction "length D" arbitrary: D n s f out rule: less_induct)
  case less
  note lev = to_receive_level [OF less.prems(1)]
  show ?case
  proof (cases "length D < Suc k")
    case True
    obtain s1 f1 where r: "secure_read G (Suc k) s f = Some (int (length D), D, s1, f1)" "at_end s1 f1 rest"
        "se_c s1 = (if D = [] then 0 else EOF)"
      using read_bytes_short [OF less.prems(1) True less.prems(2), of "[]"] lev less.prems(2)
      by (auto simp: secure_read_def simp del: read_bytes.simps)
    show ?thesis
    proof (cases "D = []")
      case True
      then show ?thesis using r
        by (simp add: receive_blocks.simps [of G k n s f] client_receive_blocks.simps [of G k n s f])
    next
      case False
      have r2: "secure_read G (Suc k) s1 f1 = Some (0, [], s1\<lparr>se_c := 0\<rparr>, f1)"
        using r(2,3) False by (simp add: secure_read_def at_end_def)
      have e: "at_end (s1\<lparr>se_c := 0\<rparr>) f1 rest" using r(2) by (simp add: at_end_def)
      show ?thesis using r(1) r2 e False write_appended [OF less.prems(3), of D]
        by (simp add: receive_blocks.simps [of G k _ s f] receive_blocks.simps [of G k _ s1 f1]
            client_receive_blocks.simps [of G k _ s f] client_receive_blocks.simps [of G k _ s1 f1])
    qed
  next
    case False
    then have le: "Suc k \<le> length D" by simp
    obtain s1 f1 where r: "secure_read G (Suc k) s f = Some (int (Suc k), take (Suc k) D, s1, f1)"
        "to_receive G cf (drop (Suc k) D) s1 f1 rest" "se_c s1 \<noteq> EOF"
      using read_bytes_enough [OF less.prems(1) le less.prems(2), of "[]"] lev less.prems(2)
      by (auto simp: secure_read_def simp del: read_bytes.simps)
    have "length (drop (Suc k) D) < length D" using le by simp
    from less.hyps [OF this r(2,3), of "appended (take (Suc k) D) out" "n + Suc k"]
    show ?thesis using r(1) le write_appended [OF less.prems(3), of "take (Suc k) D"] less.prems(3)
      by (auto simp: receive_blocks.simps [of G k n s f] client_receive_blocks.simps [of G k n s f] min_def simp del: of_nat_Suc)
  qed
qed

lemma uint_codes [simp]:
  "(uint (c :: byte) = 13) = (c = 13)" "(uint c = 10) = (c = 10)" "(uint c = 0) = (c = 0)"
  using word_uint_eq_iff [of c 13] word_uint_eq_iff [of c 10] word_uint_eq_iff [of c 0] by simp_all

lemma getc_Cons:
  assumes "to_receive G cf (c # D) s f rest"
  obtains s' f' where "secure_getc G s f = Some (uint c, s', f')" "to_receive G cf D s' f' rest"
proof -
  obtain s' f' where "secure_getbyte G s f = Some (uint c, s', f')" "to_receive G cf D s' f' rest"
    using getbyte_Cons [OF assms] by blast
  then show ?thesis using that to_receive_level [OF assms] by (simp add: secure_getc_def)
qed

lemma getc_Nil:
  assumes "to_receive G cf [] s f rest"
  obtains s' f' where "secure_getc G s f = Some (EOF, s', f')" "at_end s' f' rest"
proof -
  obtain s' f' where "secure_getbyte G s f = Some (EOF, s', f')" "fd_data f' = rest" "no_fail f'" "se_nin s' = 0" "receives G s'"
    using getbyte_Nil [OF assms] by blast
  then show ?thesis using that to_receive_level [OF assms] by (simp add: secure_getc_def at_end_def receives_def)
qed

text \<open>The rest of a round of the outer loop, behind the inner one.\<close>

definition after_cr where
  "after_cr G n lfs r =
     (case r of
        None \<Rightarrow> None
      | Some (Cr_error, s, f, out) \<Rightarrow> Some (Rx_error, Suc n, lfs, s, f, out)
      | Some (Cr_next, s, f, out) \<Rightarrow> receive_ascii G (Suc n) lfs s f out
      | Some (Cr_char c, s, f, out) \<Rightarrow>
          if c < 0 then Some (Rx_end c, Suc n, lfs, s, f, out)
          else receive_ascii G (Suc n) lfs s f (snd (stdio_putc (of_int c) out)))"

lemma receive_ascii_round:
  "secure_getc G s f = Some (uint (c :: byte), s', f') \<Longrightarrow>
     receive_ascii G n lfs s f out = after_cr G n (if c = 10 then Suc lfs else lfs) (cr_loop G (uint c) s' f' out)"
  by (simp add: receive_ascii.simps [of G n lfs s f out] after_cr_def Let_def)

lemma receive_ascii_all:
  shows "to_receive G cf D s f rest \<Longrightarrow> \<not> ferror out \<Longrightarrow>
      \<exists>n' s' f'. receive_ascii G n lfs s f out =
          Some (Rx_end EOF, n', lfs + bare_lfs D, s', f', appended (file_text D) out) \<and> at_end s' f' rest"
    and "to_receive G cf D s f rest \<Longrightarrow> \<not> ferror out \<Longrightarrow>
      \<exists>n' s' f'. after_cr G n lfs (cr_loop G 13 s f out) =
          Some (Rx_end EOF, n', lfs + cr_lfs D, s', f', appended (cr_text D) out) \<and> at_end s' f' rest"
proof (induction D arbitrary: n lfs s f out)
  case Nil
  {
    case 1
    obtain s1 f1 where "secure_getc G s f = Some (EOF, s1, f1)" "at_end s1 f1 rest" using getc_Nil [OF 1(1)] .
    then show ?case by (simp add: receive_ascii.simps [of G n lfs s f out] EOF_def)
  next
    case 2
    obtain s1 f1 where "secure_getc G s f = Some (EOF, s1, f1)" "at_end s1 f1 rest" using getc_Nil [OF 2(1)] .
    then show ?case using 2(2) putc_appended [OF 2(2), of 13]
      by (simp add: cr_loop.simps [of G 13 s f out] after_cr_def EOF_def Let_def)
  }
next
  case (Cons c cs)
  {
    case 1
    obtain s1 f1 where g: "secure_getc G s f = Some (uint c, s1, f1)" "to_receive G cf cs s1 f1 rest"
      using getc_Cons [OF 1(1)] .
    show ?case
    proof (cases "c = 13")
      case True
      then show ?thesis using Cons.IH(2) [OF g(2) 1(2)] receive_ascii_round [OF g(1), of n lfs out] by simp
    next
      case False
      show ?thesis
        using Cons.IH(1) [OF g(2), of "appended [c] out" "Suc n" "if c = 10 then Suc lfs else lfs"] False 1(2)
          receive_ascii_round [OF g(1), of n lfs out] putc_appended [OF 1(2), of c]
        by (cases "c = 10") (simp_all add: after_cr_def cr_loop.simps [of G _ s1 f1 out])
    qed
  next
    case 2
    obtain s1 f1 where g: "secure_getc G s f = Some (uint c, s1, f1)" "to_receive G cf cs s1 f1 rest"
      using getc_Cons [OF 2(1)] .
    have e: "\<not> ferror (appended [13] out)" using 2(2) by simp
    consider "c = 10" | "c = 0" | "c = 13" | "c \<noteq> 10" "c \<noteq> 0" "c \<noteq> 13" by blast
    then show ?case
    proof cases
      case 1
      then show ?thesis
        using Cons.IH(1) [OF g(2), of "appended [c] out" "Suc n" lfs] 2(2) g(1) putc_appended [OF 2(2), of c]
        by (simp add: cr_loop.simps [of G 13 s f out] after_cr_def)
    next
      case c: 2
      then show ?thesis
        using Cons.IH(1) [OF g(2), of "appended [13] out" "Suc n" lfs] 2(2) g(1) putc_appended [OF 2(2), of 13]
        by (simp add: cr_loop.simps [of G 13 s f out] after_cr_def Let_def)
    next
      case 3
      then show ?thesis
        using Cons.IH(2) [OF g(2) e, of n lfs] 2(2) g(1) putc_appended [OF 2(2), of 13]
        by (simp add: cr_loop.simps [of G 13 s f out] Let_def)
    next
      case 4
      then show ?thesis
        using Cons.IH(1) [OF g(2), of "appended [13, c] out" "Suc n" lfs] 2(2) g(1) putc_appended [OF 2(2), of 13]
          putc_appended [OF e, of c]
        by (simp add: cr_loop.simps [of G 13 s f out] cr_loop.simps [of G "uint c"] after_cr_def Let_def)
    qed
  }
qed

section \<open>Client and server receive text alike\<close>

text \<open>What the two loops have in common: all but their counts of bytes.\<close>

definition no_count where "no_count = map_option (\<lambda>(r, n, x). (r, x))"

lemma no_count_simps [simp]: "no_count None = None" "no_count (Some (r, n, x)) = Some (r, x)"
  by (simp_all add: no_count_def)

lemma client_cr_same:
  "\<not> ferror out \<Longrightarrow> no_count (client_cr G False c n s f out) = cr_loop G c s f out"
proof (induction G c s f out arbitrary: n rule: cr_loop.induct)
  case (1 G c s f out)
  show ?case
  proof (cases "c = 13")
    case True
    show ?thesis
    proof (cases "secure_getc G s f")
      case (Some r)
      obtain d t g where r: "r = (d, t, g)" by (cases r)
      have IH: "no_count (client_cr G False 13 (Suc n) t g (appended [13] out)) = cr_loop G 13 t g (appended [13] out)"
        if "d = 13"
        using "1.IH" [of r d "(t, g)" t g "appended [13] out" "Suc n"] that True Some r "1.prems" by (simp add: putc_appended)
      show ?thesis
        using True Some r "1.prems" IH putc_appended [OF "1.prems", of 13]
        by (cases "d = 13")
          (simp_all add: client_cr.simps [of G False 13 n s f out] cr_loop.simps [of G 13 s f out] Let_def cr_loop_other)
    qed (use True "1.prems" in \<open>simp add: client_cr.simps [of G False 13 n s f out] cr_loop.simps [of G 13 s f out]\<close>)
  qed (simp add: client_cr.simps [of G False c n s f out] cr_loop.simps [of G c s f out])
qed

lemma cr_loop_out:
  "cr_loop G c s f out = Some (r, s', f', out') \<Longrightarrow> \<not> ferror out \<Longrightarrow> \<not> ferror out' \<and> r \<noteq> Cr_error"
proof (induction G c s f out rule: cr_loop.induct)
  case (1 G c s f out)
  show ?case
  proof (cases "c = 13")
    case True
    then obtain d t g where g: "secure_getc G s f = Some (d, t, g)"
      using "1.prems" by (cases "secure_getc G s f") (auto simp: cr_loop.simps [of G _ s f out])
    show ?thesis
    proof (cases "d = 10 \<or> d \<le> 0")
      case True
      then show ?thesis using \<open>c = 13\<close> g "1.prems" putc_appended [OF "1.prems"(2), of 13]
        by (auto simp: cr_loop.simps [of G _ s f out] Let_def split: if_splits)
    next
      case d: False
      then have "cr_loop G d t g (appended [13] out) = Some (r, s', f', out')"
        using \<open>c = 13\<close> g "1.prems" putc_appended [OF "1.prems"(2), of 13] by (simp add: cr_loop.simps [of G 13 s f out] Let_def)
      then show ?thesis
        using "1.IH" [of "(d, t, g)" d "(t, g)" t g "appended [13] out"] \<open>c = 13\<close> d g "1.prems"
          putc_appended [OF "1.prems"(2), of 13] by simp
    qed
  qed (use "1.prems" in \<open>auto simp: cr_loop.simps [of G c s f out] split: if_splits\<close>)
qed

text \<open>
  Without \<open>tcrflag\<close> and with an output file that is not in error, the loops of \<open>recvrequest\<close> and
  \<open>receive_data\<close> are the same function but for the count of bytes: the same text is written, the same bare line
  feeds are counted, and the streams are left in the same state, on every input and error.
\<close>

lemma receive_ascii_same:
  "\<not> ferror out \<Longrightarrow>
     no_count (client_receive_ascii G False n lfs s f out) = no_count (receive_ascii G m lfs s f out)"
proof (induction G m lfs s f out arbitrary: n rule: receive_ascii.induct)
  case (1 G m lfs s f out)
  show ?case
  proof (cases "secure_getc G s f")
    case (Some r)
    obtain c t g where r: "r = (c, t, g)" by (cases r)
    let ?lfs = "if c = 10 then Suc lfs else lfs"
    have g: "secure_getc G s f = Some (c, t, g)" using Some r by simp
    note rounds = client_receive_ascii.simps [of G False n lfs s f out] receive_ascii.simps [of G m lfs s f out]
    note same = client_cr_same [OF "1.prems", of G c n t g]
    show ?thesis
    proof (cases "c < 0")
      case True
      then show ?thesis using g by (simp add: rounds)
    next
      case nc: False
      show ?thesis
      proof (cases "client_cr G False c n t g out")
        case None
        then show ?thesis using same g nc by (simp add: rounds)
      next
        case (Some q)
        obtain e n1 t1 g1 o1 where q: "q = (e, n1, t1, g1, o1)" by (cases q)
        have l: "cr_loop G c t g out = Some (e, t1, g1, o1)" using same Some q by simp
        have o1: "\<not> ferror o1" "e \<noteq> Cr_error" using cr_loop_out [OF l "1.prems"] by simp_all
        show ?thesis
        proof (cases e)
          case (Cr_char d)
          show ?thesis
          proof (cases "d < 0")
            case True
            then show ?thesis using g nc Some q l Cr_char by (simp add: rounds Let_def)
          next
            case False
            have "no_count (client_receive_ascii G False (Suc n1) ?lfs t1 g1 (snd (stdio_putc (word_of_int d) o1))) =
                no_count (receive_ascii G (Suc m) ?lfs t1 g1 (snd (stdio_putc (word_of_int d) o1)))"
              by (rule "1.IH"(1) [OF g refl refl nc refl l [unfolded Cr_char] refl refl refl refl False])
                (simp add: o1(1))
            then show ?thesis using g nc Some q l Cr_char False by (simp add: rounds Let_def)
          qed
        next
          case Cr_next
          have "no_count (client_receive_ascii G False n1 ?lfs t1 g1 o1) =
              no_count (receive_ascii G (Suc m) ?lfs t1 g1 o1)"
            by (rule "1.IH"(2) [OF g refl refl nc refl l [unfolded Cr_next] refl refl refl refl o1(1)])
          then show ?thesis using g nc Some q l Cr_next by (simp add: rounds Let_def)
        qed (use o1(2) in simp)
      qed
    qed
  qed (simp add: client_receive_ascii.simps [of G False n lfs s f out] receive_ascii.simps [of G m lfs s f out])
qed

section \<open>A whole transfer\<close>

definition file_form :: "ftp_type \<Rightarrow> byte list \<Rightarrow> byte list" where
  "file_form type xs = (if type = TYPE_A then drop_nul xs else xs)"

text \<open>The receiver's side agrees with the sender's when its buffer is as large and the messages are in step.\<close>

definition agrees :: "gss \<Rightarrow> secure \<Rightarrow> secure \<Rightarrow> bool" where
  "agrees G s r =
     (receives G r \<and> se_maxbuf s \<le> se_maxbuf r \<and> se_unsealed r = se_sealed s \<and> se_nin r = 0 \<and> se_c r \<noteq> EOF)"

lemma message_to_receive:
  assumes "gss_ok G cf" "gss_limit G cf (se_maxbuf s) = Some q" "agrees G s r" "message_of G cf q (se_sealed s) D w"
    and "no_fail f" "fd_data f = w" "0 < q"
  shows "to_receive G cf D r f []"
proof -
  obtain ps where ps: "packets G cf (se_sealed s) (ps @ [[]]) = Some w" "concat ps = D"
      "\<forall>p\<in>set ps. p \<noteq> [] \<and> length p \<le> q"
    using assms(4) by (auto simp: message_of_def)
  have f: "fits G cf (se_maxbuf r) p" if "length p \<le> q" for p
    using assms(1-3,7) that unfolding fits_def gss_ok_def gss_limits_def agrees_def by (meson le_trans)
  have "pending r = []" using assms(3) by (simp add: agrees_def pending_def)
  then show ?thesis
    unfolding to_receive_def using assms(3,5,6) ps f by (intro conjI exI [of _ ps] exI [of _ w]) (auto simp: agrees_def)
qed

lemma receive_message:
  assumes "to_receive G cf (net_form type D) r f rest" "se_c r \<noteq> EOF" "fd_replies out = []" "type \<noteq> TYPE_E"
  obtains n m r1 f1 r2 f2 where "receive_data G type k r f out = Some (0, [], n, r1, f1, appended (file_form type D) out)"
    "client_receive G type False k r f out = Some (int m, r2, f2, appended (file_form type D) out)"
    "at_end r1 f1 rest" "at_end r2 f2 rest"
proof (cases "type = TYPE_A")
  case True
  have nf: "\<not> ferror out" using assms(3) by (simp add: ferror_def)
  obtain n r1 f1 where a: "receive_ascii G 0 0 r f out = Some (Rx_end EOF, n, 0, r1, f1, appended (drop_nul D) out)"
      "at_end r1 f1 rest"
    using receive_ascii_all(1) [of G cf "net_text D" r f rest out 0 0] assms(1) nf True file_text_net_text [of D]
    by (auto simp: net_form_def)
  obtain m where c: "client_receive_ascii G False 0 0 r f out = Some (Rx_end EOF, m, 0, r1, f1, appended (drop_nul D) out)"
    using receive_ascii_same [OF nf, of G 0 0 r f 0] a(1)
    by (cases "client_receive_ascii G False 0 0 r f out") auto
  have e: "\<not> stream_error r1 f1" using a(2) by (simp add: stream_error_def at_end_def)
  show ?thesis
    by (rule that [of n r1 f1 m r1 f1])
      (use a c e nf True in \<open>simp_all add: receive_data_def client_receive_def file_form_def EOF_def ERR_def\<close>)
next
  case False
  obtain n r1 f1 where a: "receive_blocks G k 0 r f out = Some (Some 0, n, r1, f1, appended D out)"
      "client_receive_blocks G k 0 r f out = Some (0, n, r1, f1, appended D out)" "at_end r1 f1 rest"
    using receive_blocks_all [of G cf D r f rest out k 0] assms(1-3) False by (auto simp: net_form_def)
  have t: "type = TYPE_I \<or> type = TYPE_L" using False assms(4) by (cases type) simp_all
  show ?thesis
    by (rule that [of n r1 f1 n r1 f1])
      (use a t False in \<open>auto simp: receive_data_def client_receive_def file_form_def\<close>)
qed

lemma on_wire_written: "fd_written (on_wire w rs) = []"
  by (simp add: on_wire_def)


text \<open>
  C24. Client and server receive text alike: without \<open>tcrflag\<close>, and with an output file that is not in error, the
  loop of \<open>recvrequest\<close> and that of \<open>receive_data\<close> are the same function but for their counts of bytes. They write
  the same text, count the same bare line feeds, end for the same reason and leave the same state, on every input
  and whatever the library answers.
\<close>

theorem text_received_alike:
  assumes "\<not> ferror out"
  shows "no_count (client_receive_ascii G False n lfs s f out) = no_count (receive_ascii G m lfs s f out)"
  by (rule receive_ascii_same [OF assms])

text \<open>A small library: two or three bytes in front of the data.\<close>

definition demo_gss :: gss where
  "demo_gss =
     \<lparr>gss_limit = (\<lambda>cf m. Some (m - (if cf then 3 else 2))),
      gss_seal = (\<lambda>cf n p. Some (of_nat n # (if cf then [1, 0] else [0]) @ p)),
      gss_unseal = (\<lambda>n x. case x of
          h # t # p \<Rightarrow> if h = of_nat n then Some (if t = 1 then drop 1 p else p) else None
        | _ \<Rightarrow> None)\<rparr>"

definition demo_secure :: "prot \<Rightarrow> secure" where
  "demo_secure level =
     \<lparr>se_gssapi = True, se_dlevel = level, se_maxbuf = 8, se_ucbuf = replicate 8 0, se_nout = 0, se_smaxbuf = 0,
      se_smaxqueue = 0, se_nin = 0, se_bufp = 0, se_c = 0, se_sealed = 0, se_unsealed = 0\<rparr>"

lemma demo_gss_ok: "gss_ok demo_gss cf"
  by (auto simp: gss_ok_def gss_inverse_def gss_limits_def gss_seals_def demo_gss_def)

lemma demo_sends: "sends demo_gss 5 (demo_secure PROT_P)"
  by (simp add: sends_def conf_def demo_gss_def demo_secure_def)

lemma demo_agrees: "agrees demo_gss (demo_secure PROT_P) (demo_secure PROT_P)"
  using demo_gss_ok [of True] by (simp add: agrees_def receives_def gss_ok_def demo_secure_def EOF_def)

definition demo_file :: "byte list \<Rightarrow> fd" where
  "demo_file xs = \<lparr>fd_data = xs, fd_written = [], fd_replies = []\<rparr>"

lemma demo_file_plain: "plain_file (demo_file xs)" "fd_replies (demo_file xs) = []" "fd_data (demo_file xs) = xs"
  by (simp_all add: plain_file_def demo_file_def)


lemma text_received_alike_witness:
  "no_count (client_receive_ascii demo_gss False 0 0 (demo_secure PROT_C) (demo_file [104, 13, 10, 13, 65]) (demo_file [])) =
   no_count (receive_ascii demo_gss 0 0 (demo_secure PROT_C) (demo_file [104, 13, 10, 13, 65]) (demo_file []))"
  by (rule text_received_alike) (simp add: ferror_def demo_file_plain)

section \<open>What goes wrong\<close>

lemma put_bytes_wait:
  assumes "gss_ok G (conf s)" "sends G q s" "se_nout s + length xs < q"
  shows "\<exists>s'. put_bytes G xs i s f = Some (int (i + length xs), s', f) \<and> sends G q s' \<and>
    se_nout s' = se_nout s + length xs \<and> take (se_nout s') (se_ucbuf s') = take (se_nout s) (se_ucbuf s) @ xs \<and>
    conf s' = conf s \<and> se_sealed s' = se_sealed s"
  using assms
proof (induction xs arbitrary: i s)
  case (Cons x xs)
  have le: "q \<le> length (se_ucbuf s)"
    using gss_limit_le [OF Cons.prems(1), of "se_maxbuf s" q] Cons.prems(2) by (auto simp: sends_def)
  let ?s = "s\<lparr>se_smaxbuf := se_maxbuf s, se_smaxqueue := q, se_ucbuf := (se_ucbuf s)[se_nout s := x],
    se_nout := Suc (se_nout s)\<rparr>"
  have p: "secure_putbyte G x s f = Some (uint x, ?s, f)"
    using Cons.prems(3) le by (simp add: secure_putbyte_def determine_sends [OF Cons.prems(2)])
  have s: "sends G q ?s" "conf ?s = conf s" "take (se_nout ?s) (se_ucbuf ?s) = take (se_nout s) (se_ucbuf s) @ [x]"
    using Cons.prems(2,3) le by (auto simp: sends_def conf_def take_snoc_update)
  have "gss_ok G (conf ?s)" using Cons.prems(1) s(2) by simp
  from Cons.IH [OF this s(1), of "Suc i"] show ?case using Cons.prems(3) p s by simp
qed simp

text \<open>
  C25. A transfer that fails on the file leaves its bytes behind. When reading the file fails, \<open>send_data\<close>
  gives reply 551 and returns without a flush and without emptying \<open>ucbuf\<close>; the bytes of the first file that
  were waiting there are sent at the head of the next file, whose transfer is reported as complete.
\<close>

theorem stale_bytes_sent:
  assumes "gss_ok G (conf s)" "sends G q s" "se_nout s = 0" "xs \<noteq> []" "length xs < q" "length xs \<le> Suc b"
    and "no_fail out" "no_fail out2" "plain_file src2" "type \<noteq> TYPE_E"
  shows "\<exists>s1 s2 w out2'.
      send_data G TYPE_I (Suc b) \<lparr>fd_data = xs @ ys, fd_written = [], fd_replies = [Io_chunk (length xs - 1), Io_fail]\<rparr> s out =
        Some ([551], length xs, s1, out) \<and>
      send_data G type (Suc b) src2 s1 out2 = Some ([226], length (fd_data src2), s2, out2') \<and>
      fd_written out2' = fd_written out2 @ w \<and>
      message_of G (conf s) q (se_sealed s) (xs @ net_form type (fd_data src2)) w"
proof -
  let ?src = "\<lparr>fd_data = xs @ ys, fd_written = [], fd_replies = [Io_chunk (length xs - 1), Io_fail]\<rparr>"
  let ?src' = "?src\<lparr>fd_data := ys, fd_replies := [Io_fail]\<rparr>"
  have lev: "se_dlevel s \<noteq> PROT_C" and n: "se_nout s + length xs < q"
    using assms(2,3,5) by (simp_all add: sends_def)
  obtain s1 where s1: "put_bytes G xs 0 s out = Some (int (length xs), s1, out)" "sends G q s1"
      "se_nout s1 = length xs" "take (se_nout s1) (se_ucbuf s1) = xs" "conf s1 = conf s" "se_sealed s1 = se_sealed s"
    using put_bytes_wait [OF assms(1,2) n, of 0 out] assms(3) by auto
  have w: "secure_write G xs s out = Some (int (length xs), s1, out)" using s1(1) lev by (simp add: secure_write_def)
  have "min (Suc b) (Suc (length xs - 1)) = length xs" using assms(4,6) by (cases xs) simp_all
  then have r: "read_fd (Suc b) ?src = (Io_got xs, ?src')" by (simp add: read_fd_def)
  have r': "read_fd (Suc b) ?src' = (Io_error, ?src'\<lparr>fd_replies := []\<rparr>)" by (simp add: read_fd_def)
  have "send_blocks G (Suc b) ?src' (0 + length xs) s1 out = Some (- 1, 0, length xs, s1, out)"
    by (subst send_blocks.simps) (simp only: r' prod.case io_result.case add_0)
  then have "send_blocks G (Suc b) ?src 0 s out = Some (- 1, 0, length xs, s1, out)"
    by (subst send_blocks.simps) (simp only: r prod.case io_result.case assms(4) if_False w option.case simp_thms if_True)
  then have first: "send_data G TYPE_I (Suc b) ?src s out = Some ([551], length xs, s1, out)" by (simp add: send_data_def)
  have ok: "gss_ok G (conf s1)" "se_nout s1 < q" using assms(1,5) s1(3,5) by simp_all
  obtain s2 o2 w2 where "send_data G type (Suc b) src2 s1 out2 = Some ([226], length (fd_data src2), s2, o2)"
      "fd_written o2 = fd_written out2 @ w2"
      "message_of G (conf s) q (se_sealed s) (xs @ net_form type (fd_data src2)) w2"
    using send_data_message [OF ok(1) s1(2) ok(2) assms(8-10), of b, unfolded s1(4-6)] by blast
  then show ?thesis using first by blast
qed

text \<open>A file of which three bytes can be read, and then another one.\<close>

lemma stale_bytes_sent_witness:
  "\<exists>s1 s2 w out2'.
     send_data demo_gss TYPE_I (Suc 9) \<lparr>fd_data = [115, 101, 99, 114], fd_written = [], fd_replies = [Io_chunk 2, Io_fail]\<rparr>
       (demo_secure PROT_P) (demo_file []) = Some ([551], 3, s1, demo_file []) \<and>
     send_data demo_gss TYPE_I (Suc 9) (demo_file [104, 105]) s1 (demo_file []) = Some ([226], 2, s2, out2') \<and>
     fd_written out2' = w \<and> message_of demo_gss True 5 0 ([115, 101, 99] @ [104, 105]) w"
proof -
  have n: "se_nout (demo_secure PROT_P) = 0" "conf (demo_secure PROT_P)" "se_sealed (demo_secure PROT_P) = 0"
    by (simp_all add: demo_secure_def conf_def)
  have f: "no_fail (demo_file [])" "length (fd_data (demo_file [104, 105])) = 2"
      "net_form TYPE_I (fd_data (demo_file [104, 105])) = [104, 105]" "fd_written (demo_file []) = []"
    by (simp_all add: no_fail_def demo_file_def net_form_def)
  have x: "[115, 101, 99] \<noteq> ([] :: byte list)" "length [115, 101, 99 :: byte] < 5" "length [115, 101, 99 :: byte] \<le> Suc 9"
    by simp_all
  show ?thesis
    using stale_bytes_sent [OF demo_gss_ok demo_sends n(1) x f(1) f(1) demo_file_plain(1), of TYPE_I "[114]" "[104, 105]",
        unfolded f n(3)] n(2) by (simp add: numeral_2_eq_2 numeral_3_eq_3)
qed

text \<open>
  C26. A protection buffer too small for one message is overrun. \<open>PBSZ\<close> takes any size; when the library's
  limit for it is zero, \<open>secure_putbyte\<close> never finds its buffer full, and the byte behind the last one of \<open>ucbuf\<close> is
  written to.
\<close>

theorem small_buffer_overrun:
  assumes "se_gssapi s" "se_dlevel s \<noteq> PROT_C" "gss_limit G (conf s) (se_maxbuf s) = Some 0"
    and "se_smaxqueue s = 0" "se_nout s \<le> length (se_ucbuf s)" "length (se_ucbuf s) < se_nout s + length xs"
  shows "secure_write G xs s f = None"
proof -
  have "put_bytes G xs i s f = None" for i
    using assms
  proof (induction xs arbitrary: i s)
    case (Cons x xs)
    let ?s = "s\<lparr>se_smaxbuf := se_maxbuf s, se_smaxqueue := 0, se_ucbuf := (se_ucbuf s)[se_nout s := x],
      se_nout := Suc (se_nout s)\<rparr>"
    have d: "secure_determine_constants G s = (0, s\<lparr>se_smaxbuf := se_maxbuf s, se_smaxqueue := 0\<rparr>)"
      using Cons.prems by (simp add: secure_determine_constants_def conf_def Let_def)
    show ?case
    proof (cases "se_nout s < length (se_ucbuf s)")
      case True
      have "put_bytes G xs (Suc i) ?s f = None" by (rule Cons.IH) (use Cons.prems True in \<open>simp_all add: conf_def\<close>)
      then show ?thesis using Cons.prems(4) d True by (simp add: secure_putbyte_def)
    qed (use Cons.prems(4) d in \<open>simp add: secure_putbyte_def\<close>)
  qed (use assms in simp)
  then show ?thesis using assms(2) by (simp add: secure_write_def)
qed

lemma small_buffer_overrun_witness:
  "secure_write demo_gss [1, 2, 3] (demo_secure PROT_P\<lparr>se_maxbuf := 2, se_ucbuf := [0, 0]\<rparr>) (demo_file []) = None"
  by (rule small_buffer_overrun) (simp_all add: demo_secure_def demo_gss_def conf_def)

lemma put_bytes_full:
  assumes "se_gssapi s" "se_smaxbuf s = se_maxbuf s" "se_maxbuf s \<noteq> 0" "xs \<noteq> []"
    and "se_nout s + length xs = se_smaxqueue s" "se_smaxqueue s \<le> length (se_ucbuf s)" "no_fail f"
    and "gss_seal G (conf s) (se_sealed s) (take (se_nout s) (se_ucbuf s) @ xs) = Some x"
  shows "\<exists>s' f'. put_bytes G xs i s f = Some (int (i + length xs), s', f') \<and>
    fd_written f' = fd_written f @ be32 (length x) @ x"
  using assms
proof (induction xs arbitrary: i s)
  case (Cons y ys)
  let ?s = "s\<lparr>se_ucbuf := (se_ucbuf s)[se_nout s := y], se_nout := Suc (se_nout s)\<rparr>"
  have le: "se_nout s < length (se_ucbuf s)" "se_smaxqueue s \<noteq> 0" using Cons.prems(5,6) by simp_all
  have t: "take (Suc (se_nout s)) ((se_ucbuf s)[se_nout s := y]) = take (se_nout s) (se_ucbuf s) @ [y]"
    using take_snoc_update [OF le(1)] .
  show ?case
  proof (cases "ys = []")
    case True
    then have q: "Suc (se_nout s) = se_smaxqueue s" using Cons.prems(5) by simp
    obtain f1 where f1: "looping_write (be32 (length x)) f = (True, f1)" "fd_written f1 = fd_written f @ be32 (length x)"
        "no_fail f1"
      using looping_write_all [OF Cons.prems(7)] by blast
    obtain f2 where f2: "looping_write x f1 = (True, f2)" "fd_written f2 = fd_written f1 @ x"
      using looping_write_all [OF f1(3)] by blast
    have "secure_putbuf G (take (se_nout s) (se_ucbuf s) @ [y]) (?s\<lparr>se_nout := 0\<rparr>) f =
        (0, ?s\<lparr>se_nout := 0, se_sealed := Suc (se_sealed s)\<rparr>, f2)"
      using Cons.prems(1,8) True f1(1) f2(1) by (simp add: secure_putbuf_def conf_def)
    then show ?thesis
      using Cons.prems(2,3) le True q t f1(2) f2(2) by (simp add: secure_putbyte_def)
  next
    case False
    have p: "secure_putbyte G y s f = Some (uint y, ?s, f)"
    proof -
      have "Suc (se_nout s) \<noteq> se_smaxqueue s" using Cons.prems(5) False by (cases ys) auto
      then show ?thesis using Cons.prems(2,3) le by (simp add: secure_putbyte_def Let_def)
    qed
    have "\<exists>s' f'. put_bytes G ys (Suc i) ?s f = Some (int (Suc i + length ys), s', f') \<and>
        fd_written f' = fd_written f @ be32 (length x) @ x"
      by (rule Cons.IH) (use Cons.prems False t in \<open>simp_all add: conf_def\<close>)
    then show ?thesis using p by simp
  qed
qed simp



end
