(* ===== verification/Glob.thy ===== *)
theory Glob
  imports "Prelude" "HOL-Library.List_Lexorder"
begin

text \<open>
  File name patterns (gssftp/ftp/glob.c, linked into the FTP client and the server): \<open>ftpglob\<close> and all that it
  calls. Strings are the lists of their characters without the final null; a path under construction is the
  string in front of \<open>gpathp\<close>. The file system, the password file and the sizes from the build are a
  parameter; the file system does not change during a call.
\<close>

section \<open>Parameters and state\<close>

text \<open>
  What the system calls answer: the entries of a directory with their inode numbers, whether a file exists
  and is a directory, the home directory of a user, the value of \<open>home\<close>; and \<open>FTP_BUFSIZ\<close> and \<open>NCARGS\<close>.
\<close>

record globenv =
  ge_readdir :: "cstr \<Rightarrow> (nat \<times> cstr) list option"
  ge_stat :: "cstr \<Rightarrow> bool option"
  ge_getpwnam :: "cstr \<Rightarrow> cstr option"
  ge_home :: cstr
  ge_bufsiz :: nat
  ge_ncargs :: nat

datatype glob_error = Unknown_user | Bad_components | Args_too_long | Path_too_long

text \<open>
  The static variables. \<open>g_argv\<close> is \<open>gargv\<close> with \<open>gargc\<close> elements, \<open>g_sortbas\<close> the number of those in front of
  \<open>sortbas\<close>.
\<close>

record globst =
  g_path :: cstr
  g_argv :: "cstr list"
  g_left :: int
  g_sortbas :: nat
  g_globbed :: bool
  g_cnt :: nat
  g_err :: "glob_error option"
  g_entp :: cstr

definition globchars :: cstr where "globchars = [96, 123, 91, 42, 63]"

definition any :: "byte \<Rightarrow> cstr \<Rightarrow> bool" where "any c s = (c \<in> set s)"

definition letter :: "byte \<Rightarrow> bool" where
  "letter c = (97 \<le> c \<and> c \<le> 122 \<or> 65 \<le> c \<and> c \<le> 90 \<or> c = 95)"

definition digit :: "byte \<Rightarrow> bool" where "digit c = (48 \<le> c \<and> c \<le> 57)"

definition GAVSIZ :: "globenv \<Rightarrow> nat" where "GAVSIZ E = ge_ncargs E div 6"

section \<open>The list of results\<close>

definition Gcat :: "globenv \<Rightarrow> cstr \<Rightarrow> cstr \<Rightarrow> globst \<Rightarrow> globst" where
  "Gcat E s1 s2 st =
     (let len = int (length s1) + int (length s2) + 1
      in if len \<ge> g_left st \<or> length (g_argv st) \<ge> GAVSIZ E - 1 then st\<lparr>g_err := Some Args_too_long\<rparr>
         else st\<lparr>g_argv := g_argv st @ [s1 @ s2], g_left := g_left st - len\<rparr>)"

definition addpath :: "globenv \<Rightarrow> byte \<Rightarrow> globst \<Rightarrow> globst" where
  "addpath E c st =
     (if length (g_path st) \<ge> ge_bufsiz E - 1 then st\<lparr>g_err := Some Path_too_long\<rparr>
      else st\<lparr>g_path := g_path st @ [c]\<rparr>)"

text \<open>
  The exchange sort of \<open>sort\<close>: one round of the inner loop puts the least of the strings into the first place,
  where strings compare as \<open>strcmp\<close> compares them.
\<close>

fun sort_inner :: "cstr \<Rightarrow> cstr list \<Rightarrow> cstr \<times> cstr list" where
  "sort_inner x [] = (x, [])"
| "sort_inner x (y # ys) =
     (if x > y then (case sort_inner y ys of (z, zs) \<Rightarrow> (z, x # zs))
      else (case sort_inner x ys of (z, zs) \<Rightarrow> (z, y # zs)))"

lemma sort_inner_length [simp]: "length (snd (sort_inner x ys)) = length ys"
  by (induction ys arbitrary: x) (simp_all add: case_prod_beta)

function sort_outer :: "cstr list \<Rightarrow> cstr list" where
  "sort_outer [] = []"
| "sort_outer (x # xs) = (case sort_inner x xs of (z, zs) \<Rightarrow> z # sort_outer zs)"
  by pat_completeness auto
termination
by (relation "measure length") (simp, simp, metis sort_inner_length snd_conv lessI)

definition sort_args :: "globst \<Rightarrow> globst" where
  "sort_args st =
     st\<lparr>g_argv := take (g_sortbas st) (g_argv st) @ sort_outer (drop (g_sortbas st) (g_argv st)),
        g_sortbas := length (g_argv st)\<rparr>"

section \<open>Character classes\<close>

text \<open>
  The loop over a class, behind its bracket, with the character \<open>scc\<close> to be found: no match, the rest of the
  pattern behind the class, or a read behind the end of the pattern. \<open>lc\<close> is the last member. A class that is
  not closed ends with the pattern.
\<close>

datatype class_result = Class_no | Class_yes cstr | Class_over

fun class_match :: "int \<Rightarrow> bool \<Rightarrow> int \<Rightarrow> cstr \<Rightarrow> class_result" where
  "class_match scc ok lc [] = (if ok then Class_yes [] else Class_no)"
| "class_match scc ok lc (cc # p) =
     (if cc = 93 then if ok then Class_yes p else Class_no
      else if cc = 45 then
        if lc \<le> scc then
          (case p of
             [] \<Rightarrow> Class_over
           | d # q \<Rightarrow> class_match scc (ok \<or> scc \<le> sint d) lc q)
        else class_match scc ok lc p
      else class_match scc (ok \<or> scc = sint cc) (sint cc) p)"

lemma class_match_shorter: "class_match scc ok lc p = Class_yes q \<Longrightarrow> length q \<le> length p"
  by (induction scc ok lc p rule: class_match.induct) (auto split: if_splits list.splits)

section \<open>Braces\<close>

text \<open>What is behind a class in a group, and behind the group: from its closing brace, empty when there is none.\<close>

fun skip_class :: "cstr \<Rightarrow> cstr" where
  "skip_class [] = []"
| "skip_class (c # p) = (if c = 93 then p else skip_class p)"

lemma skip_class_shorter: "length (skip_class p) \<le> length p"
  by (induction p) auto

function brace_end :: "nat \<Rightarrow> cstr \<Rightarrow> cstr" where
  "brace_end lev [] = []"
| "brace_end lev (c # p) =
     (if c = 123 then brace_end (Suc lev) p
      else if c = 125 then if lev = 0 then c # p else brace_end (lev - 1) p
      else if c = 91 then brace_end lev (skip_class p)
      else brace_end lev p)"
  by pat_completeness auto
termination
  by (relation "measure (\<lambda>(_, p). length p)") (auto simp: le_imp_less_Suc skip_class_shorter)

text \<open>
  The alternatives of a group: those that end at a comma or at the closing brace, and whether the loop ends
  inside an inner group, when it goes on to overwrite the byte behind the end of the pattern. \<open>pl\<close> is what has
  been passed of the current alternative. The comma with its highest bit set counts as a comma.
\<close>

function brace_parts :: "nat \<Rightarrow> cstr \<Rightarrow> cstr \<Rightarrow> cstr list \<times> bool" where
  "brace_parts lev pl [] = ([], lev > 0)"
| "brace_parts lev pl (c # p) =
     (if c = 123 then brace_parts (Suc lev) (pl @ [c]) p
      else if c = 125 then if lev > 0 then brace_parts (lev - 1) (pl @ [c]) p else ([pl], False)
      else if c = 44 \<or> c = 172 then
        if lev > 0 then brace_parts lev (pl @ [c]) p
        else (case brace_parts lev [] p of (ps, over) \<Rightarrow> (pl # ps, over))
      else if c = 91 then
        brace_parts lev (pl @ c # take (length p - length (skip_class p)) p) (skip_class p)
      else brace_parts lev (pl @ [c]) p)"
  by pat_completeness auto
termination
  by (relation "measure (\<lambda>(_, _, p). length p)") (auto simp: le_imp_less_Suc skip_class_shorter)

text \<open>What stands in front of the first opening brace, and the buffer \<open>restbuf\<close> for one alternative.\<close>

definition before_brace :: "cstr \<Rightarrow> cstr" where "before_brace p = takeWhile (\<lambda>c. c \<noteq> 123) p"
definition behind_brace :: "cstr \<Rightarrow> cstr" where "behind_brace p = drop 1 (dropWhile (\<lambda>c. c \<noteq> 123) p)"

definition restbuf :: "globenv \<Rightarrow> cstr \<Rightarrow> cstr \<Rightarrow> cstr" where
  "restbuf E p part =
     (let lm = before_brace p;
          pe = brace_end 0 (behind_brace p)
      in take (ge_bufsiz E + 1) (take (ge_bufsiz E + 1) (lm @ part) @ drop 1 pe))"

lemma brace_end_shorter: "length (brace_end lev p) \<le> length p"
proof (induction lev p rule: brace_end.induct)
  case (2 lev c p)
  then show ?case using skip_class_shorter [of p] by (auto intro: le_SucI le_trans)
qed simp

lemma brace_parts_shorter:
  "q \<in> set (fst (brace_parts lev pl p)) \<Longrightarrow> length q + length (brace_end lev p) \<le> length pl + length p"
proof (induction lev pl p rule: brace_parts.induct)
  case (2 lev pl c p)
  have e: "length (brace_end l p) \<le> length p" "length (brace_end l (skip_class p)) \<le> length p" for l
    using brace_end_shorter [of l p] brace_end_shorter [of l "skip_class p"] skip_class_shorter [of p] by simp_all
  show ?case
  proof (cases "c = 44 \<or> c = 172")
    case True
    then show ?thesis
      using 2 e [of 0] by (cases "lev > 0") (auto split: prod.splits)
  next
    case False
    then show ?thesis using 2 e skip_class_shorter [of p] by (auto split: if_splits)
  qed
qed simp

section \<open>Expansion\<close>

text \<open>A tilde at the front: the name is copied and replaced with a home directory.\<close>

definition gethdir :: "globenv \<Rightarrow> cstr \<Rightarrow> bool \<times> cstr" where
  "gethdir E user =
     (case ge_getpwnam E user of
        None \<Rightarrow> (False, user)
      | Some dir \<Rightarrow> (length dir < ge_bufsiz E - 2, take (ge_bufsiz E - 3) dir))"

fun copy_user :: "globenv \<Rightarrow> cstr \<Rightarrow> globst \<Rightarrow> cstr \<times> globst" where
  "copy_user E [] st = ([], st)"
| "copy_user E (c # cs) st =
     (if letter c \<or> digit c \<or> c = 45 then copy_user E cs (addpath E c st) else (c # cs, st))"

definition expand_tilde :: "globenv \<Rightarrow> cstr \<Rightarrow> globst \<Rightarrow> cstr \<times> globst" where
  "expand_tilde E as st =
     (if as \<noteq> [] \<and> hd as = 126 \<and> g_path st = [] then
        (case copy_user E (tl as) (addpath E 126 st) of
           (cs, st) \<Rightarrow>
             if cs = [] \<or> hd cs = 47 then
               if length (g_path st) \<noteq> 1 then
                 (case gethdir E (drop 1 (g_path st)) of
                    (ok, dir) \<Rightarrow>
                      (cs, st\<lparr>g_err := if ok then g_err st else Some Unknown_user, g_path := take (ge_bufsiz E - 1) dir\<rparr>))
               else (cs, st\<lparr>g_path := take (ge_bufsiz E - 1) (ge_home E)\<rparr>)
             else (cs, st))
      else (as, st))"

text \<open>The characters in front of the first special one are added to the path.\<close>

fun copy_plain :: "globenv \<Rightarrow> cstr \<Rightarrow> globst \<Rightarrow> cstr \<times> globst" where
  "copy_plain E [] st = ([], st)"
| "copy_plain E (c # cs) st = (if any c globchars then (c # cs, st) else copy_plain E cs (addpath E c st))"

text \<open>Back to the component that holds the special character, in the pattern \<open>as\<close> and in the path.\<close>

definition component_start :: "cstr \<Rightarrow> cstr \<Rightarrow> cstr" where
  "component_start as cs =
     (let before = take (length as - length cs) as
      in rev (takeWhile (\<lambda>c. c \<noteq> 47) (rev before)) @ cs)"

definition drop_path :: "nat \<Rightarrow> globst \<Rightarrow> globst" where
  "drop_path n st = st\<lparr>g_path := take (length (g_path st) - n) (g_path st)\<rparr>"

lemma copy_user_shorter: "copy_user E cs st = (cs', st') \<Longrightarrow> length cs' \<le> length cs"
  by (induction E cs st rule: copy_user.induct) (auto split: if_splits)

lemma expand_tilde_shorter: "expand_tilde E as st = (cs', st') \<Longrightarrow> length cs' \<le> length as"
  by (auto simp: expand_tilde_def dest: copy_user_shorter split: if_splits prod.splits)

lemma copy_plain_shorter: "copy_plain E cs st = (cs', st') \<Longrightarrow> length cs' \<le> length cs"
  by (induction E cs st rule: copy_plain.induct) (auto split: if_splits)

lemma component_start_shorter: "length cs \<le> length as \<Longrightarrow> length (component_start as cs) \<le> length as"
proof -
  assume "length cs \<le> length as"
  moreover have "length (takeWhile (\<lambda>c. c \<noteq> 47) (rev (take (length as - length cs) as))) \<le> length as - length cs"
    using length_takeWhile_le [of "\<lambda>c. c \<noteq> 47" "rev (take (length as - length cs) as)"] by simp
  ultimately show ?thesis by (simp add: component_start_def Let_def)
qed

lemma restbuf_shorter:
  assumes "part \<in> set (fst (brace_parts 0 [] (behind_brace p)))"
  shows "length (restbuf E p part) < length p"
proof -
  let ?b = "behind_brace p"
  have ne: "dropWhile (\<lambda>c. c \<noteq> 123) p \<noteq> []"
  proof
    assume "dropWhile (\<lambda>c. c \<noteq> 123) p = []"
    then have "?b = []" by (simp only: behind_brace_def drop_Nil)
    then show False using assms by simp
  qed
  have "length p = length (before_brace p) + length (dropWhile (\<lambda>c. c \<noteq> 123) p)"
    by (metis before_brace_def length_append takeWhile_dropWhile_id)
  then have p: "length p = length (before_brace p) + Suc (length ?b)"
    using ne by (simp add: behind_brace_def)
  have "length part + length (brace_end 0 ?b) \<le> length ?b" using brace_parts_shorter [OF assms] by simp
  moreover have "length (restbuf E p part) \<le> length (before_brace p) + length part + (length (brace_end 0 ?b) - 1)"
    unfolding restbuf_def Let_def length_take length_append length_drop by linarith
  ultimately show ?thesis using p by linarith
qed

lemma expand_component:
  assumes "(cs, st1) = expand_tilde E as st" "(cs', st2) = copy_plain E cs st1"
  shows "length (component_start as cs') \<le> length as"
proof (rule component_start_shorter)
  show "length cs' \<le> length as"
    using expand_tilde_shorter [of E as st cs st1] copy_plain_shorter [of E cs st1 cs' st2] assms by simp
qed

text \<open>For termination: the length, plus one, of the longest of some strings.\<close>

fun longest :: "cstr list \<Rightarrow> nat" where
  "longest [] = 0"
| "longest (r # rs) = max (Suc (length r)) (longest rs)"

lemma longest_restbuf:
  "longest (List.map (restbuf E p) (fst (brace_parts 0 [] (behind_brace p)))) \<le> length p"
proof -
  have "(\<forall>q\<in>set qs. length (restbuf E p q) < length p) \<Longrightarrow> longest (List.map (restbuf E p) qs) \<le> length p" for qs
    by (induction qs) auto
  then show ?thesis using restbuf_shorter by blast
qed

lemma dropWhile_shorter: "length (dropWhile P xs) \<le> length xs"
  by (induction xs) auto

text \<open>
  The mutually recursive routines. \<open>None\<close> is an access outside of a string: a class read behind the end of the
  pattern or matched against the end of a name, a group left open inside another one, a component longer
  than \<open>restbuf\<close>. \<open>parts_loop\<close> is the loop of \<open>execbrc\<close> over the alternatives, \<open>dir_loop\<close> that of \<open>matchdir\<close> over the
  directory, \<open>star_loop\<close> that of \<open>amatch\<close> over the ends of the name, and \<open>amatch_slash\<close> what is behind its label.
\<close>

definition gcat_hit :: "globenv \<Rightarrow> cstr \<Rightarrow> globst \<Rightarrow> globst" where
  "gcat_hit E name st = (Gcat E (g_path st) name st)\<lparr>g_cnt := Suc (g_cnt st)\<rparr>"

definition expand_plain :: "globenv \<Rightarrow> globst \<Rightarrow> globst" where
  "expand_plain E st =
     (if \<not> g_globbed st then Gcat E (g_path st) [] st
      else if ge_stat E (g_path st) \<noteq> None then gcat_hit E [] st else st)"

definition add_entry :: "globenv \<Rightarrow> globst \<Rightarrow> globst" where
  "add_entry E st = addpath E 47 (fold (addpath E) (g_entp st) st)"

definition scc_of :: "cstr \<Rightarrow> int" where
  "scc_of s = (case s of [] \<Rightarrow> 0 | x # _ \<Rightarrow> uint (x AND 127))"

function expand :: "globenv \<Rightarrow> cstr \<Rightarrow> globst \<Rightarrow> globst option"
  and execbrc :: "globenv \<Rightarrow> cstr \<Rightarrow> cstr option \<Rightarrow> globst \<Rightarrow> (bool \<times> globst) option"
  and parts_loop :: "globenv \<Rightarrow> cstr list \<Rightarrow> cstr option \<Rightarrow> globst \<Rightarrow> (bool \<times> globst) option"
  and matchdir :: "globenv \<Rightarrow> cstr \<Rightarrow> globst \<Rightarrow> globst option"
  and dir_loop :: "globenv \<Rightarrow> (nat \<times> cstr) list \<Rightarrow> cstr \<Rightarrow> globst \<Rightarrow> globst option"
  and match_name :: "globenv \<Rightarrow> cstr \<Rightarrow> cstr \<Rightarrow> globst \<Rightarrow> (bool \<times> globst) option"
  and amatch :: "globenv \<Rightarrow> cstr \<Rightarrow> cstr \<Rightarrow> globst \<Rightarrow> (bool \<times> globst) option"
  and star_loop :: "globenv \<Rightarrow> cstr \<Rightarrow> cstr \<Rightarrow> globst \<Rightarrow> (bool \<times> globst) option"
  and amatch_slash :: "globenv \<Rightarrow> cstr \<Rightarrow> globst \<Rightarrow> (bool \<times> globst) option"
where
  "expand E as st =
     (case expand_tilde E as st of (cs, st1) \<Rightarrow>
        (case copy_plain E cs st1 of (cs, st2) \<Rightarrow>
           if cs = [] then Some ((expand_plain E st2)\<lparr>g_path := g_path st\<rparr>)
           else
             let comp = component_start as cs;
                 st3 = drop_path (length comp - length cs) st2
             in if hd cs = 123 then map_option snd (execbrc E comp None st3)
                else map_option (\<lambda>st4. st4\<lparr>g_path := g_path st\<rparr>) (matchdir E comp st3)))"
| "execbrc E p s st =
     (if length (before_brace p) > ge_bufsiz E + 1 then None
      else
        (case parts_loop E (List.map (restbuf E p) (fst (brace_parts 0 [] (behind_brace p)))) s st of
           None \<Rightarrow> None
         | Some (ok, st) \<Rightarrow>
             if \<not> ok \<and> snd (brace_parts 0 [] (behind_brace p)) then None else Some (ok, st)))"
| "parts_loop E rs s st =
     (case rs of
        [] \<Rightarrow> Some (False, st)
      | r # rs \<Rightarrow>
          (case s of
             None \<Rightarrow>
               (case expand E r st of
                  None \<Rightarrow> None
                | Some st1 \<Rightarrow> parts_loop E rs s (sort_args (st1\<lparr>g_path := g_path st\<rparr>)))
           | Some x \<Rightarrow>
               (case amatch E x r st of
                  None \<Rightarrow> None
                | Some (ok, st1) \<Rightarrow> if ok then Some (True, st1) else parts_loop E rs s (sort_args st1))))"
| "matchdir E p st =
     (case ge_readdir E (if g_path st = [] then [46] else g_path st) of
        None \<Rightarrow> Some (if g_globbed st then st else st\<lparr>g_err := Some Bad_components\<rparr>)
      | Some es \<Rightarrow> dir_loop E es p st)"
| "dir_loop E es p st =
     (case es of
        [] \<Rightarrow> Some st
      | (ino, name) # es \<Rightarrow>
          if ino = 0 then dir_loop E es p st
          else
            (case match_name E name p st of
               None \<Rightarrow> None
             | Some (ok, st1) \<Rightarrow> dir_loop E es p (if ok then gcat_hit E name st1 else st1)))"
| "match_name E s p st =
     (if s \<noteq> [] \<and> hd s = 46 \<and> (p = [] \<or> hd p \<noteq> 46) then Some (False, st)
      else
        map_option (\<lambda>(ok, st1). (ok, st1\<lparr>g_entp := g_entp st, g_globbed := g_globbed st\<rparr>))
          (amatch E s p (st\<lparr>g_entp := s\<rparr>)))"
| "amatch E s p st0 =
     (let st = st0\<lparr>g_globbed := True\<rparr>;
          scc = scc_of s
      in case p of
           [] \<Rightarrow> Some (scc = 0, st)
         | c # q \<Rightarrow>
             if c = 123 then execbrc E p (Some s) st
             else if c = 91 then
               (case class_match scc False 32767 q of
                  Class_no \<Rightarrow> Some (False, st)
                | Class_over \<Rightarrow> None
                | Class_yes r \<Rightarrow> if s = [] then None else amatch E (tl s) r st)
             else if c = 42 then
               let r = dropWhile (\<lambda>c. c = 42) q
               in if r = [] then Some (True, st)
                  else if hd r = 47 then amatch_slash E (tl r) st
                  else star_loop E s r st
             else if c = 63 then if scc = 0 then Some (False, st) else amatch E (tl s) q st
             else if c = 47 then if scc \<noteq> 0 then Some (False, st) else amatch_slash E q st
             else if sint c \<noteq> scc then Some (False, st) else amatch E (tl s) q st)"
| "star_loop E s p st =
     (case amatch E s p st of
        None \<Rightarrow> None
      | Some (ok, st1) \<Rightarrow>
          if ok then Some (True, st1)
          else (case s of [] \<Rightarrow> Some (False, st1) | _ # t \<Rightarrow> star_loop E t p st1))"
| "amatch_slash E p st =
     (let st1 = add_entry E st
      in if ge_stat E (g_path st1) = Some True then
           if p = [] then Some (False, (gcat_hit E [] st1)\<lparr>g_path := g_path st\<rparr>)
           else map_option (\<lambda>st2. (False, st2\<lparr>g_path := g_path st\<rparr>)) (expand E p st1)
         else Some (False, st1\<lparr>g_path := g_path st\<rparr>))"
  by pat_completeness auto
termination
  by (relation "measures [
      case_sum (case_sum (case_sum (\<lambda>(E, p, st). length p) (\<lambda>(E, p, s, st). length p))
          (case_sum (\<lambda>(E, rs, s, st). longest rs) (\<lambda>(E, p, st). length p)))
        (case_sum (case_sum (\<lambda>(E, es, p, st). length p) (\<lambda>(E, s, p, st). length p))
          (case_sum (\<lambda>(E, s, p, st). length p) (case_sum (\<lambda>(E, s, p, st). length p) (\<lambda>(E, p, st). length p)))),
      case_sum (case_sum (case_sum (\<lambda>_. 6) (\<lambda>_. 1)) (case_sum (\<lambda>_. 0) (\<lambda>_. 5)))
        (case_sum (case_sum (\<lambda>_. 4) (\<lambda>_. 3)) (case_sum (\<lambda>_. 2) (case_sum (\<lambda>_. 3) (\<lambda>_. 7)))),
      case_sum (case_sum (case_sum (\<lambda>_. 0) (\<lambda>_. 0)) (case_sum (\<lambda>(E, rs, s, st). length rs) (\<lambda>_. 0)))
        (case_sum (case_sum (\<lambda>(E, es, p, st). length es) (\<lambda>_. 0))
          (case_sum (\<lambda>_. 0) (case_sum (\<lambda>(E, s, p, st). length s) (\<lambda>_. 0))))]")
    (auto simp: less_Suc_eq_le dest!: class_match_shorter intro: le_neq_implies_less expand_component longest_restbuf
      dropWhile_shorter le_trans [OF diff_le_self])

declare expand.simps [simp del] execbrc.simps [simp del] parts_loop.simps [simp del] matchdir.simps [simp del]
  dir_loop.simps [simp del] match_name.simps [simp del] amatch.simps [simp del] star_loop.simps [simp del]
  amatch_slash.simps [simp del]

section \<open>The entry point\<close>

text \<open>\<open>rscan\<close> with \<open>tglob\<close>: the two bits of \<open>gflag\<close>, the first for a character that has to match something.\<close>

definition lone_brace :: "cstr \<Rightarrow> bool" where "lone_brace as = (as = [123] \<or> as = [123, 125])"

definition rscan :: "cstr \<Rightarrow> bool \<times> bool" where
  "rscan v =
     (let tilde = (v \<noteq> [] \<and> hd v = 126)
      in if \<not> tilde \<and> lone_brace v then (False, False)
         else (\<exists>c\<in>set v. any c globchars \<and> c \<noteq> 123, tilde \<or> 123 \<in> set v))"

definition ginit :: "globenv \<Rightarrow> globst" where
  "ginit E =
     \<lparr>g_path = [], g_argv = [], g_left = int (ge_ncargs E) - 4, g_sortbas = 0, g_globbed = False, g_cnt = 0,
      g_err = None, g_entp = []\<rparr>"

definition acollect :: "globenv \<Rightarrow> cstr \<Rightarrow> globst \<Rightarrow> globst option" where
  "acollect E as st =
     map_option (\<lambda>st1. if length (g_argv st1) \<noteq> length (g_argv st) then sort_args st1 else st1)
       (expand E as (st\<lparr>g_path := [], g_globbed := False\<rparr>))"

definition collect :: "globenv \<Rightarrow> cstr \<Rightarrow> globst \<Rightarrow> globst option" where
  "collect E as st = (if lone_brace as then Some (sort_args (Gcat E as [] st)) else acollect E as st)"

text \<open>The list that is returned, if one is, and \<open>globerr\<close>, which is not reset when there is nothing to do.\<close>

definition ftpglob :: "globenv \<Rightarrow> cstr \<Rightarrow> glob_error option \<Rightarrow> (cstr list option \<times> glob_error option) option" where
  "ftpglob E v globerr =
     (case rscan v of (must, other) \<Rightarrow>
        if \<not> must \<and> \<not> other then Some (Some [v], globerr)
        else
          map_option
            (\<lambda>st. (if g_cnt st = 0 \<and> must then None else Some (g_argv st), g_err st))
            (collect E v (ginit E)))"

end
