(* ===== verification/GlobProps.thy ===== *)
theory GlobProps
  imports Glob "HOL-Library.Multiset"
begin

text \<open>
  What file name patterns mean: \<open>amatch\<close> against a declarative meaning of patterns, the files that a pattern
  stands for, and the bounds of the buffers.
\<close>

section \<open>The sort\<close>

lemma sort_inner_min:
  "sort_inner x ys = (z, zs) \<Longrightarrow> mset (z # zs) = mset (x # ys) \<and> (\<forall>y\<in>set (x # ys). z \<le> y)"
proof (induction ys arbitrary: x z zs)
  case (Cons y ys)
  obtain w ws where w: "sort_inner (if x > y then y else x) ys = (w, ws)" by fastforce
  have "mset (w # ws) = mset ((if x > y then y else x) # ys) \<and> (\<forall>u\<in>set ((if x > y then y else x) # ys). w \<le> u)"
    using Cons.IH [OF w] .
  then show ?case using Cons.prems w
    by (cases "x > y") (auto simp: not_less intro: order.trans)
qed simp

lemma sort_outer_sort: "sort_outer xs = sort xs"
proof (induction xs rule: sort_outer.induct)
  case (2 x xs)
  obtain z zs where z: "sort_inner x xs = (z, zs)" by fastforce
  have m: "mset (z # zs) = mset (x # xs)" "\<forall>y\<in>set (x # xs). z \<le> y" using sort_inner_min [OF z] by auto
  have "set (z # zs) = set (x # xs)" using m(1) by (metis mset_eq_setD)
  then have "\<forall>y\<in>set zs. z \<le> y" using m(2) by auto
  then have "sorted (z # sort zs)" by simp
  moreover have "mset (z # sort zs) = mset (x # xs)" using m(1) by simp
  ultimately have "sort (x # xs) = z # sort zs" by (metis properties_for_sort)
  then show ?case using 2 z by simp
qed simp

section \<open>Bounds\<close>

text \<open>The list keeps within \<open>agargv\<close> and its characters within their number, the path within \<open>agpath\<close>.\<close>

definition chars_of :: "cstr list \<Rightarrow> int" where
  "chars_of xs = (\<Sum>x\<leftarrow>xs. int (length x) + 1)"

definition in_bounds :: "globenv \<Rightarrow> globst \<Rightarrow> bool" where
  "in_bounds E st =
     (length (g_argv st) \<le> GAVSIZ E - 1 \<and> g_sortbas st \<le> length (g_argv st) \<and> length (g_path st) \<le> ge_bufsiz E - 1 \<and>
      0 \<le> g_left st \<and> chars_of (g_argv st) + g_left st = int (ge_ncargs E) - 4)"

lemma chars_of_mset: "chars_of xs = (\<Sum>x\<in>#mset xs. int (length x) + 1)"
  by (induction xs) (simp_all add: chars_of_def)

named_theorems bounded

lemma Gcat_bounded [bounded]: "in_bounds E st \<Longrightarrow> in_bounds E (Gcat E a b st)"
  by (auto simp: in_bounds_def Gcat_def Let_def chars_of_def)

lemma gcat_hit_bounded [bounded]: "in_bounds E st \<Longrightarrow> in_bounds E (gcat_hit E a st)"
  using Gcat_bounded [of E st "g_path st" a] by (simp add: gcat_hit_def in_bounds_def)

lemma addpath_bounded [bounded]: "in_bounds E st \<Longrightarrow> in_bounds E (addpath E c st)"
  by (auto simp: in_bounds_def addpath_def)

lemma add_entry_bounded [bounded]: "in_bounds E st \<Longrightarrow> in_bounds E (add_entry E st)"
proof -
  have "in_bounds E st \<Longrightarrow> in_bounds E (fold (addpath E) xs st)" for xs
    by (induction xs arbitrary: st) (auto intro: addpath_bounded)
  then show "in_bounds E st \<Longrightarrow> in_bounds E (add_entry E st)" by (simp add: add_entry_def addpath_bounded)
qed

lemma path_bounded [bounded]:
  "in_bounds E st \<Longrightarrow> length p \<le> ge_bufsiz E - 1 \<Longrightarrow> in_bounds E (st\<lparr>g_path := p\<rparr>)"
  by (simp add: in_bounds_def)

lemma sort_args_bounded [bounded]: "in_bounds E st \<Longrightarrow> in_bounds E (sort_args st)"
proof -
  assume b: "in_bounds E st"
  let ?n = "g_sortbas st" and ?xs = "g_argv st"
  have "mset (take ?n ?xs @ sort (drop ?n ?xs)) = mset (take ?n ?xs) + mset (drop ?n ?xs)" by simp
  also have "\<dots> = mset ?xs" by (metis append_take_drop_id mset_append)
  finally have "chars_of (take ?n ?xs @ sort (drop ?n ?xs)) = chars_of ?xs" by (simp only: chars_of_mset)
  then show ?thesis using b by (simp add: in_bounds_def sort_args_def sort_outer_sort)
qed

lemma copy_user_bounded [bounded]:
  "copy_user E cs st = (cs', st') \<Longrightarrow> in_bounds E st \<Longrightarrow> in_bounds E st'"
  by (induction E cs st rule: copy_user.induct) (auto split: if_splits intro: addpath_bounded)

lemma copy_plain_bounded [bounded]:
  "copy_plain E cs st = (cs', st') \<Longrightarrow> in_bounds E st \<Longrightarrow> in_bounds E st'"
  by (induction E cs st rule: copy_plain.induct) (auto split: if_splits intro: addpath_bounded)

lemma expand_tilde_bounded [bounded]:
  "expand_tilde E as st = (cs, st') \<Longrightarrow> in_bounds E st \<Longrightarrow> in_bounds E st'"
proof -
  assume e: "expand_tilde E as st = (cs, st')" and b: "in_bounds E st"
  show "in_bounds E st'"
  proof (cases "as \<noteq> [] \<and> hd as = 126 \<and> g_path st = []")
    case True
    obtain cs1 st1 where c: "copy_user E (tl as) (addpath E 126 st) = (cs1, st1)" by fastforce
    have "in_bounds E st1" using copy_user_bounded [OF c] addpath_bounded [OF b] by blast
    then show ?thesis using e True c
      by (auto simp: expand_tilde_def in_bounds_def split: if_splits prod.splits)
  qed (use e b in \<open>auto simp: expand_tilde_def\<close>)
qed

lemma drop_path_bounded [bounded]: "in_bounds E st \<Longrightarrow> in_bounds E (drop_path n st)"
  by (auto simp: drop_path_def in_bounds_def)

lemma expand_plain_bounded [bounded]: "in_bounds E st \<Longrightarrow> in_bounds E (expand_plain E st)"
  by (simp add: expand_plain_def bounded)

lemma flags_bounded [bounded]:
  "in_bounds E (st\<lparr>g_globbed := b\<rparr>) = in_bounds E st" "in_bounds E (st\<lparr>g_entp := x\<rparr>) = in_bounds E st"
  "in_bounds E (st\<lparr>g_err := e\<rparr>) = in_bounds E st"
  "in_bounds E (st\<lparr>g_entp := x, g_globbed := b\<rparr>) = in_bounds E st"
  by (simp_all add: in_bounds_def)

text \<open>Every routine keeps within the bounds.\<close>

lemma glob_bounded:
  "expand E as st = Some st1 \<Longrightarrow> in_bounds E st \<Longrightarrow> in_bounds E st1"
  "execbrc E p s st = Some r \<Longrightarrow> in_bounds E st \<Longrightarrow> in_bounds E (snd r)"
  "parts_loop E rs s st = Some r \<Longrightarrow> in_bounds E st \<Longrightarrow> in_bounds E (snd r)"
  "matchdir E p st = Some st1 \<Longrightarrow> in_bounds E st \<Longrightarrow> in_bounds E st1"
  "dir_loop E es p st = Some st1 \<Longrightarrow> in_bounds E st \<Longrightarrow> in_bounds E st1"
  "match_name E name p st = Some r \<Longrightarrow> in_bounds E st \<Longrightarrow> in_bounds E (snd r)"
  "amatch E name p st = Some r \<Longrightarrow> in_bounds E st \<Longrightarrow> in_bounds E (snd r)"
  "star_loop E name p st = Some r \<Longrightarrow> in_bounds E st \<Longrightarrow> in_bounds E (snd r)"
  "amatch_slash E p st = Some r \<Longrightarrow> in_bounds E st \<Longrightarrow> in_bounds E (snd r)"
proof (induction E as st and E p s st and E rs s st and E p st and E es p st and E name p st and E name p st and
    E name p st and E p st arbitrary: st1 and r and r and st1 and st1 and r and r and r and r
    rule: expand_execbrc_parts_loop_matchdir_dir_loop_match_name_amatch_star_loop_amatch_slash.induct)
  case (1 E as st)
  obtain cs1 s1 where t: "expand_tilde E as st = (cs1, s1)" by fastforce
  obtain cs s2 where c: "copy_plain E cs1 s1 = (cs, s2)" by fastforce
  have b: "in_bounds E s2" using copy_plain_bounded [OF c] expand_tilde_bounded [OF t] "1.prems"(2) by blast
  have p: "length (g_path st) \<le> ge_bufsiz E - 1" using "1.prems"(2) by (simp add: in_bounds_def)
  let ?comp = "component_start as cs"
  let ?s3 = "drop_path (length ?comp - length cs) s2"
  have b3: "in_bounds E ?s3" using drop_path_bounded [OF b] .
  show ?case
  proof (cases "cs = []")
    case True
    then show ?thesis using "1.prems"(1) t c b p
      by (auto simp: expand.simps [of E as st] intro!: path_bounded expand_plain_bounded)
  next
    case False
    show ?thesis
    proof (cases "hd cs = 123")
      case True
      then obtain r where "execbrc E ?comp None ?s3 = Some r" "st1 = snd r"
        using "1.prems"(1) t c False by (auto simp: expand.simps [of E as st] Let_def)
      then show ?thesis using "1.IH"(1) [OF t [symmetric] c [symmetric] False refl refl True] b3 by blast
    next
      case nb: False
      then obtain s4 where "matchdir E ?comp ?s3 = Some s4" "st1 = s4\<lparr>g_path := g_path st\<rparr>"
        using "1.prems"(1) t c False by (auto simp: expand.simps [of E as st] Let_def)
      then show ?thesis
        using "1.IH"(2) [OF t [symmetric] c [symmetric] False refl refl nb] b3 p path_bounded by blast
    qed
  qed
next
  case (2 E p s st)
  then show ?case by (auto simp: execbrc.simps [of E p s st] split: if_splits option.splits prod.splits)
next
  case (3 E rs s st)
  show ?case
  proof (cases rs)
    case (Cons q qs)
    have p: "length (g_path st) \<le> ge_bufsiz E - 1" using "3.prems"(2) by (simp add: in_bounds_def)
    show ?thesis
    proof (cases s)
      case None
      then obtain s1 where s1: "expand E q st = Some s1"
          "parts_loop E qs s (sort_args (s1\<lparr>g_path := g_path st\<rparr>)) = Some r"
        using "3.prems"(1) Cons by (auto simp: parts_loop.simps [of E _ _ st] split: option.splits)
      then show ?thesis
        using "3.IH"(1) [OF Cons None s1(1) "3.prems"(2)] "3.IH"(2) [OF Cons None s1] p sort_args_bounded path_bounded
        by blast
    next
      case (Some x)
      then obtain ok s1 where s1: "amatch E x q st = Some (ok, s1)"
        using "3.prems"(1) Cons by (auto simp: parts_loop.simps [of E _ _ st] split: option.splits)
      have b1: "in_bounds E s1" using "3.IH"(3) [OF Cons Some s1 "3.prems"(2)] by simp
      show ?thesis
      proof (cases ok)
        case False
        then have "parts_loop E qs s (sort_args s1) = Some r"
          using "3.prems"(1) Cons Some s1 by (simp add: parts_loop.simps [of E _ _ st])
        then show ?thesis using "3.IH"(4) [OF Cons Some s1 refl False] sort_args_bounded [OF b1] Some by blast
      qed (use "3.prems"(1) Cons Some s1 b1 in \<open>auto simp: parts_loop.simps [of E _ _ st]\<close>)
    qed
  qed (use 3 in \<open>auto simp: parts_loop.simps [of E _ _ st]\<close>)
next
  case (4 E p st)
  then show ?case
    by (auto simp: matchdir.simps [of E p st] bounded split: option.splits if_splits)
next
  case (5 E es p st)
  show ?case
  proof (cases es)
    case (Cons e fs)
    obtain ino name where e: "e = (ino, name)" by (cases e)
    show ?thesis
    proof (cases "ino = 0")
      case True
      then show ?thesis using "5.IH"(1) [OF Cons e [symmetric] True] "5.prems" Cons e
        by (simp add: dir_loop.simps [of E "_ # _"] dir_loop.simps [of E "[]"])
    next
      case False
      then obtain ok s1 where m: "match_name E name p st = Some (ok, s1)"
        using "5.prems"(1) Cons e by (auto simp: dir_loop.simps [of E "_ # _"] dir_loop.simps [of E "[]"] split: option.splits)
      have "in_bounds E s1" using "5.IH"(2) [OF Cons e [symmetric] False m "5.prems"(2)] by simp
      then have "in_bounds E (if ok then gcat_hit E name s1 else s1)" by (simp add: bounded)
      moreover have "dir_loop E fs p (if ok then gcat_hit E name s1 else s1) = Some st1"
        using "5.prems"(1) Cons e False m by (simp add: dir_loop.simps [of E "_ # _"] dir_loop.simps [of E "[]"])
      ultimately show ?thesis using "5.IH"(3) [OF Cons e [symmetric] False m refl] by blast
    qed
  qed (use 5 in \<open>auto simp: dir_loop.simps [of E "_ # _"] dir_loop.simps [of E "[]"]\<close>)
next
  case (6 E s p st)
  show ?case
  proof (cases "s \<noteq> [] \<and> hd s = 46 \<and> (p = [] \<or> hd p \<noteq> 46)")
    case False
    then obtain ok s1 where "amatch E s p (st\<lparr>g_entp := s\<rparr>) = Some (ok, s1)"
        "r = (ok, s1\<lparr>g_entp := g_entp st, g_globbed := g_globbed st\<rparr>)"
      using "6.prems"(1) by (auto simp: match_name.simps [of E s p st])
    then show ?thesis using "6.IH" [OF False] "6.prems"(2) by (simp add: bounded)
  qed (use 6 in \<open>auto simp: match_name.simps [of E s p st]\<close>)
next
  case (7 E s p st0)
  let ?st = "st0\<lparr>g_globbed := True\<rparr>"
  have b: "in_bounds E ?st" using "7.prems"(2) by (simp add: bounded)
  show ?case
  proof (cases p)
    case (Cons c q)
    note unf = amatch.simps [of E s "_ # _" st0] Let_def
    consider "c = 123" | "c = 91" | "c = 42" | "c = 63" | "c = 47" | "c \<notin> {123, 91, 42, 63, 47}" by blast
    then show ?thesis
    proof cases
      case 1
      then show ?thesis using "7.IH"(1) [OF refl refl Cons 1 _ b] "7.prems"(1) Cons by (simp add: unf)
    next
      case 2
      show ?thesis
      proof (cases "class_match (scc_of s) False 32767 q")
        case (Class_yes t)
        then have "s \<noteq> []" "amatch E (tl s) t ?st = Some r"
          using 2 "7.prems"(1) Cons by (auto simp: unf split: if_splits)
        then show ?thesis using "7.IH"(2) [OF refl refl Cons _ 2 Class_yes _ _ b] 2 by simp
      qed (use 2 "7.prems"(1) Cons b in \<open>auto simp: unf\<close>)
    next
      case 3
      let ?t = "dropWhile (\<lambda>c. c = 42) q"
      show ?thesis
      proof (cases "?t = []")
        case False
        then show ?thesis
          using "7.IH"(3) [OF refl refl Cons _ _ 3 refl False _ _ b] "7.IH"(4) [OF refl refl Cons _ _ 3 refl False _ _ b]
            3 "7.prems"(1) Cons by (auto simp: unf split: if_splits)
      qed (use 3 "7.prems"(1) Cons b in \<open>auto simp: unf\<close>)
    next
      case 4
      then show ?thesis using "7.IH"(5) [OF refl refl Cons _ _ _ 4 _ _ b] "7.prems"(1) Cons b
        by (auto simp: unf split: if_splits)
    next
      case 5
      then show ?thesis using "7.IH"(6) [OF refl refl Cons _ _ _ _ 5 _ _ b] "7.prems"(1) Cons b
        by (auto simp: unf split: if_splits)
    next
      case 6
      then show ?thesis using "7.IH"(7) [OF refl refl Cons _ _ _ _ _ _ _ b] "7.prems"(1) Cons b
        by (auto simp: unf split: if_splits)
    qed
  qed (use "7.prems"(1) b in \<open>auto simp: amatch.simps [of E s "[]" st0] Let_def\<close>)
next
  case (8 E s p st)
  show ?case
  proof -
    obtain ok s1 where m: "amatch E s p st = Some (ok, s1)"
      using "8.prems"(1) by (auto simp: star_loop.simps [of E _ p st] split: option.splits)
    have b: "in_bounds E s1" using "8.IH"(1) [OF m "8.prems"(2)] by simp
    show ?thesis
    proof (cases "ok \<or> s = []")
      case True
      then show ?thesis using "8.prems"(1) m b by (auto simp: star_loop.simps [of E _ p st] split: if_splits)
    next
      case False
      then obtain x t where "s = x # t" "\<not> ok" by (cases s) auto
      then show ?thesis using "8.IH"(2) [OF m refl] "8.prems"(1) m b by (simp add: star_loop.simps [of E _ p st])
    qed
  qed
next
  case (9 E p st)
  let ?s1 = "add_entry E st"
  have b: "in_bounds E ?s1" "length (g_path st) \<le> ge_bufsiz E - 1"
    using "9.prems"(2) add_entry_bounded by (auto simp: in_bounds_def)
  show ?case
  proof (cases "ge_stat E (g_path ?s1) = Some True \<and> p \<noteq> []")
    case True
    then obtain s2 where s2: "expand E p ?s1 = Some s2" "r = (False, s2\<lparr>g_path := g_path st\<rparr>)"
      using "9.prems"(1) by (auto simp: amatch_slash.simps [of E p st] Let_def)
    then show ?thesis using "9.IH" [OF refl _ _ s2(1) b(1)] True b(2) path_bounded by simp
  next
    case False
    then show ?thesis using "9.prems"(1) b
      by (auto simp: amatch_slash.simps [of E p st] Let_def bounded split: if_splits)
  qed
qed


section \<open>The meaning of patterns\<close>

text \<open>
  The patterns without slash and brace as a sequence of tokens, how they are written, and which words a token
  stands for. A pattern matches the words that are made up of words of its tokens.
\<close>

datatype class_item = Single byte | Range byte byte

datatype token = Lit byte | One | Many | Class "class_item list"

fun write_item :: "class_item \<Rightarrow> cstr" where
  "write_item (Single c) = [c]"
| "write_item (Range a b) = [a, 45, b]"

fun write_token :: "token \<Rightarrow> cstr" where
  "write_token (Lit c) = [c]"
| "write_token One = [63]"
| "write_token Many = [42]"
| "write_token (Class is) = 91 # concat (List.map write_item is) @ [93]"

definition write_pattern :: "token list \<Rightarrow> cstr" where
  "write_pattern ts = concat (List.map write_token ts)"

fun in_item :: "int \<Rightarrow> class_item \<Rightarrow> bool" where
  "in_item x (Single c) = (x = uint c)"
| "in_item x (Range a b) = (uint a \<le> x \<and> x \<le> uint b)"

fun token_word :: "token \<Rightarrow> cstr \<Rightarrow> bool" where
  "token_word (Lit c) w = (w = [c])"
| "token_word One w = (length w = 1)"
| "token_word Many w = True"
| "token_word (Class is) w = (\<exists>x. w = [x] \<and> (\<exists>i\<in>set is. in_item (uint x) i))"

definition matches :: "token list \<Rightarrow> cstr \<Rightarrow> bool" where
  "matches ts s = (\<exists>ws. list_all2 token_word ts ws \<and> concat ws = s)"

text \<open>Characters that stand for themselves, in a pattern and in a class; all of seven bits.\<close>

definition ascii :: "byte \<Rightarrow> bool" where "ascii c = (c \<noteq> 0 \<and> uint c < 128)"

fun wf_item :: "class_item \<Rightarrow> bool" where
  "wf_item (Single c) = (ascii c \<and> c \<notin> {45, 93})"
| "wf_item (Range a b) = (ascii a \<and> ascii b \<and> a \<notin> {45, 93} \<and> b \<notin> {45, 93} \<and> uint a \<le> uint b)"

fun wf_token :: "token \<Rightarrow> bool" where
  "wf_token (Lit c) = (ascii c \<and> c \<notin> {123, 91, 42, 63, 47})"
| "wf_token (Class is) = list_all wf_item is"
| "wf_token _ = True"

lemma matches_Nil [simp]: "matches [] s = (s = [])"
  by (auto simp: matches_def)

lemma matches_Cons: "matches (t # ts) s = (\<exists>w v. s = w @ v \<and> token_word t w \<and> matches ts v)"
  by (fastforce simp: matches_def list_all2_Cons1)

lemma matches_many: "matches (Many # ts) s = (\<exists>n\<le>length s. matches ts (drop n s))"
proof
  assume "matches (Many # ts) s"
  then obtain w v where "s = w @ v" "matches ts v" by (auto simp: matches_Cons)
  then show "\<exists>n\<le>length s. matches ts (drop n s)" by (intro exI [of _ "length w"]) simp
next
  assume "\<exists>n\<le>length s. matches ts (drop n s)"
  then show "matches (Many # ts) s" by (metis append_take_drop_id matches_Cons token_word.simps(3))
qed

lemma matches_many_many: "matches (Many # Many # ts) s = matches (Many # ts) s"
proof
  assume "matches (Many # Many # ts) s"
  then obtain n k where "matches ts (drop (k + n) s)" by (auto simp: matches_many)
  then show "matches (Many # ts) s" by (metis append_take_drop_id matches_Cons token_word.simps(3))
next
  assume "matches (Many # ts) s"
  then show "matches (Many # Many # ts) s" by (metis drop0 le0 matches_many)
qed

lemma matches_drop_many: "matches (Many # dropWhile (\<lambda>t. t = Many) ts) s = matches (Many # ts) s"
proof (induction ts)
  case (Cons t ts)
  then show ?case using matches_many_many [of ts s] by auto
qed simp

lemma sint_ascii: "uint (c :: byte) < 128 \<Longrightarrow> sint c = uint c"
  by (simp add: sint_uint signed_take_bit_eq_if_positive bit_iff_odd_drop_bit drop_bit_eq_div take_bit_int_eq_self)

lemma and_127: "uint (c :: byte) < 128 \<Longrightarrow> uint (c AND 127) = uint c"
proof -
  assume "uint c < 128"
  moreover have "c AND 127 = take_bit 7 c" by (simp add: take_bit_eq_mask mask_numeral)
  ultimately show ?thesis by (simp add: unsigned_take_bit_eq take_bit_int_eq_self)
qed

lemma scc_of_simps: "scc_of [] = 0" "ascii x \<Longrightarrow> scc_of (x # xs) = uint x"
  by (simp_all add: scc_of_def and_127 ascii_def)

lemma class_match_items:
  assumes "list_all wf_item is"
  shows "class_match scc ok lc (concat (List.map write_item is) @ 93 # p) =
    (if ok \<or> (\<exists>i\<in>set is. in_item scc i) then Class_yes p else Class_no)"
  using assms
proof (induction "is" arbitrary: ok lc)
  case (Cons i "is")
  show ?case
  proof (cases i)
    case (Single c)
    then show ?thesis using Cons sint_ascii [of c] by (auto simp: ascii_def)
  next
    case (Range a b)
    then show ?thesis using Cons sint_ascii [of a] sint_ascii [of b] by (auto simp: ascii_def)
  qed
qed simp

lemma write_pattern_simps [simp]:
  "write_pattern [] = []" "write_pattern (t # ts) = write_token t @ write_pattern ts"
  by (simp_all add: write_pattern_def)

lemma write_token_Nil [simp]: "write_token t \<noteq> []"
  by (cases t) auto

lemma write_pattern_Nil: "write_pattern ts = [] \<longleftrightarrow> ts = []"
  by (cases ts) auto

lemma drop_stars:
  "list_all wf_token ts \<Longrightarrow> dropWhile (\<lambda>c. c = 42) (write_pattern ts) = write_pattern (dropWhile (\<lambda>t. t = Many) ts)"
proof (induction ts)
  case (Cons t ts)
  then show ?case by (cases t) auto
qed simp

lemma hd_write_pattern: "list_all wf_token ts \<Longrightarrow> ts \<noteq> [] \<Longrightarrow> hd (write_pattern ts) \<noteq> 47"
proof (cases ts)
  case (Cons t us)
  then show "list_all wf_token ts \<Longrightarrow> ts \<noteq> [] \<Longrightarrow> hd (write_pattern ts) \<noteq> 47" by (cases t) auto
qed simp

lemma star_loop_any:
  assumes "\<And>s st. list_all ascii s \<Longrightarrow> amatch E s p st = Some (M s, st\<lparr>g_globbed := True\<rparr>)" "list_all ascii s"
  shows "star_loop E s p st = Some (\<exists>n\<le>length s. M (drop n s), st\<lparr>g_globbed := True\<rparr>)"
  using assms(2)
proof (induction s arbitrary: st)
  case Nil
  then show ?case using assms(1) [of "[]" st] by (simp add: star_loop.simps [of E "[]" p st])
next
  case (Cons x s)
  have ex: "(\<exists>n\<le>length (x # s). M (drop n (x # s))) = (M (x # s) \<or> (\<exists>n\<le>length s. M (drop n s)))"
    by (metis drop0 drop_Suc_Cons le0 length_Cons not_less_eq_eq old.nat.exhaust)
  show ?case
    using assms(1) [OF Cons.prems, of st] Cons.IH [of "st\<lparr>g_globbed := True\<rparr>"] Cons.prems ex
    by (simp add: star_loop.simps [of E "x # s" p st] del: list.size)
qed

text \<open>A token that stands for one character.\<close>

lemma amatch_token:
  assumes "wf_token t" "t \<noteq> Many" "list_all ascii s"
  shows "amatch E s (write_token t @ p) st =
    (if s \<noteq> [] \<and> token_word t [hd s] then amatch E (tl s) p (st\<lparr>g_globbed := True\<rparr>)
     else Some (False, st\<lparr>g_globbed := True\<rparr>))"
proof -
  note unf = amatch.simps [of E _ "_ # _" st] Let_def
  have scc: "scc_of s = (case s of [] \<Rightarrow> 0 | x # _ \<Rightarrow> uint x)" "s \<noteq> [] \<Longrightarrow> uint (hd s) \<noteq> 0"
    using assms(3) by (cases s; simp add: scc_of_simps ascii_def uint_0_iff)+
  show ?thesis
  proof (cases t)
    case (Lit c)
    then have "sint c = uint c" "uint c \<noteq> 0" using assms(1) sint_ascii by (auto simp: ascii_def uint_0_iff)
    then show ?thesis using Lit assms(1) scc by (cases s) (auto simp: unf simp flip: word_uint_eq_iff)
  next
    case One
    then show ?thesis using scc by (cases s) (auto simp: unf)
  next
    case (Class "is")
    have wf: "list_all wf_item is" using Class assms(1) by simp
    have nul: "\<not> (\<exists>i\<in>set is. in_item 0 i)"
    proof
      assume "\<exists>i\<in>set is. in_item 0 i"
      then obtain i where i: "i \<in> set is" "in_item 0 i" by blast
      then have "wf_item i" using wf by (auto simp: list_all_iff)
      then show False using i(2) by (cases i) (auto simp: ascii_def uint_0_iff)
    qed
    show ?thesis
      using Class scc nul class_match_items [OF wf, of "scc_of s" False 32767 p] by (cases s) (auto simp: unf)
  qed (use assms(2) in simp)
qed

lemma matches_token:
  "t \<noteq> Many \<Longrightarrow> matches (t # us) s = (s \<noteq> [] \<and> token_word t [hd s] \<and> matches us (tl s))"
proof
  assume "t \<noteq> Many" "matches (t # us) s"
  then obtain w v where w: "s = w @ v" "token_word t w" "matches us v" by (auto simp: matches_Cons)
  then obtain x where "w = [x]" using \<open>t \<noteq> Many\<close> by (cases t) (auto simp: length_Suc_conv)
  then show "s \<noteq> [] \<and> token_word t [hd s] \<and> matches us (tl s)" using w by simp
next
  assume "s \<noteq> [] \<and> token_word t [hd s] \<and> matches us (tl s)"
  moreover from this have "s = [hd s] @ tl s" by simp
  ultimately show "matches (t # us) s" unfolding matches_Cons by blast
qed

text \<open>The routine computes what the pattern means.\<close>

lemma amatch_matches:
  assumes "list_all wf_token ts" "list_all ascii s"
  shows "amatch E s (write_pattern ts) st = Some (matches ts s, st\<lparr>g_globbed := True\<rparr>)"
  using assms
proof (induction "length ts" arbitrary: ts s st rule: less_induct)
  case less
  note unf = amatch.simps [of E _ "_ # _" st] Let_def
  show ?case
  proof (cases ts)
    case Nil
    then show ?thesis using less.prems(2)
      by (cases s) (auto simp: amatch.simps [of E _ "[]" st] Let_def scc_of_simps ascii_def uint_0_iff)
  next
    case (Cons t us)
    have IH: "amatch E s' (write_pattern us') st' = Some (matches us' s', st'\<lparr>g_globbed := True\<rparr>)"
      if "length us' \<le> length us" "list_all wf_token us'" "list_all ascii s'" for us' s' st'
      using less.hyps [of us' s' st'] that Cons by simp
    show ?thesis
    proof (cases "t = Many")
      case True
      let ?us = "dropWhile (\<lambda>t. t = Many) us"
      have wf: "list_all wf_token us" using less.prems(1) Cons by simp
      then have wf': "list_all wf_token ?us"
        by (metis list_all_append takeWhile_dropWhile_id)
      have m: "matches ts s = matches (Many # ?us) s" using matches_drop_many Cons True by simp
      show ?thesis
      proof (cases "?us = []")
        case e: True
        have "matches ts s" unfolding m e by (auto simp: matches_many)
        moreover have "dropWhile (\<lambda>c. c = 42) (write_pattern us) = []"
          using drop_stars [OF wf] unfolding e by (simp only: write_pattern_simps)
        ultimately show ?thesis using Cons True by (simp add: unf del: dropWhile_eq_Nil_conv)
      next
        case False
        have "star_loop E s (write_pattern ?us) (st\<lparr>g_globbed := True\<rparr>) =
            Some (\<exists>n\<le>length s. matches ?us (drop n s), st\<lparr>g_globbed := True\<rparr>\<lparr>g_globbed := True\<rparr>)"
          by (rule star_loop_any) (use IH [of ?us] wf' less.prems(2) in \<open>simp_all add: length_dropWhile_le\<close>)
        then show ?thesis
          using Cons True False drop_stars [OF wf] hd_write_pattern [OF wf' False] write_pattern_Nil [of ?us] m
          by (simp add: unf matches_many del: dropWhile_eq_Nil_conv)
      qed
    next
      case nm: False
      have wf: "wf_token t" "list_all wf_token us" "list_all ascii (tl s)"
        using less.prems Cons by (cases s; simp)+
      show ?thesis
        using amatch_token [OF wf(1) nm less.prems(2), of E "write_pattern us" st] matches_token [OF nm, of us s]
          IH [OF order.refl wf(2,3), of "st\<lparr>g_globbed := True\<rparr>"] Cons
        by simp
    qed
  qed
qed

section \<open>The files of a directory\<close>

text \<open>A name with a dot in front is only seen by a pattern with a dot in front.\<close>

definition visible :: "token list \<Rightarrow> cstr \<Rightarrow> bool" where
  "visible ts s = (s = [] \<or> hd s \<noteq> 46 \<or> (ts \<noteq> [] \<and> hd ts = Lit 46))"

definition hits :: "token list \<Rightarrow> (nat \<times> cstr) list \<Rightarrow> cstr list" where
  "hits ts es = filter (\<lambda>s. visible ts s \<and> matches ts s) (List.map snd (filter (\<lambda>(ino, _). ino \<noteq> 0) es))"

lemma hd_write_pattern_dot:
  "ts \<noteq> [] \<Longrightarrow> (hd (write_pattern ts) = 46) = (hd ts = Lit 46)"
  by (cases ts; cases "hd ts") auto

lemma match_name_matches:
  assumes "list_all wf_token ts" "list_all ascii s"
  shows "match_name E s (write_pattern ts) st = Some (visible ts s \<and> matches ts s, st)"
proof -
  have v: "visible ts s = (\<not> (s \<noteq> [] \<and> hd s = 46 \<and> (write_pattern ts = [] \<or> hd (write_pattern ts) \<noteq> 46)))"
    using hd_write_pattern_dot [of ts] write_pattern_Nil [of ts] by (auto simp: visible_def)
  have "st\<lparr>g_entp := s, g_globbed := True\<rparr>\<lparr>g_entp := g_entp st, g_globbed := g_globbed st\<rparr> = st" by simp
  then have "map_option (\<lambda>(ok, st1). (ok, st1\<lparr>g_entp := g_entp st, g_globbed := g_globbed st\<rparr>))
      (amatch E s (write_pattern ts) (st\<lparr>g_entp := s\<rparr>)) = Some (matches ts s, st)"
    using amatch_matches [OF assms, of E "st\<lparr>g_entp := s\<rparr>"] by simp
  then show ?thesis
    unfolding match_name.simps [of E s "write_pattern ts" st] v by (cases "s \<noteq> [] \<and> hd s = 46 \<and>
      (write_pattern ts = [] \<or> hd (write_pattern ts) \<noteq> 46)") (simp_all only: if_True if_False simp_thms)
qed

lemma Gcat_room:
  assumes "int (length a) + int (length b) + 1 < g_left st" "length (g_argv st) < GAVSIZ E - 1"
  shows "Gcat E a b st = st\<lparr>g_argv := g_argv st @ [a @ b], g_left := g_left st - (int (length a) + int (length b) + 1)\<rparr>"
  using assms by (simp add: Gcat_def Let_def)

lemma chars_of_simps [simp]: "chars_of [] = 0" "chars_of (x # xs) = int (length x) + 1 + chars_of xs" "0 \<le> chars_of xs"
  by (simp_all add: chars_of_def) (induction xs, simp_all)

lemma dir_loop_hits:
  assumes "list_all wf_token ts" "list_all (\<lambda>(_, s). list_all ascii s) es" "g_path st = []"
    and "chars_of (hits ts es) < g_left st" "length (g_argv st) + length (hits ts es) \<le> GAVSIZ E - 1"
  shows "dir_loop E es (write_pattern ts) st =
    Some (st\<lparr>g_argv := g_argv st @ hits ts es, g_left := g_left st - chars_of (hits ts es),
             g_cnt := g_cnt st + length (hits ts es)\<rparr>)"
  using assms(2-)
proof (induction es arbitrary: st)
  case Nil
  then show ?case by (simp add: dir_loop.simps [of E "[]"] hits_def)
next
  case (Cons e es)
  obtain ino s where e: "e = (ino, s)" by (cases e)
  show ?case
  proof (cases "ino \<noteq> 0 \<and> visible ts s \<and> matches ts s")
    case True
    have h: "hits ts (e # es) = s # hits ts es" using True e by (simp add: hits_def)
    have room: "int (length s) + 1 < g_left st" "length (g_argv st) < GAVSIZ E - 1"
      using Cons.prems(3,4) chars_of_simps(3) [of "hits ts es"] unfolding h by (simp_all del: chars_of_simps(3))
    let ?st = "gcat_hit E s st"
    have st: "?st = st\<lparr>g_argv := g_argv st @ [s], g_left := g_left st - (int (length s) + 1), g_cnt := Suc (g_cnt st)\<rparr>"
      using Gcat_room [of "[]" s st E] room Cons.prems(2) by (simp add: gcat_hit_def)
    have "dir_loop E es (write_pattern ts) ?st =
        Some (?st\<lparr>g_argv := g_argv ?st @ hits ts es, g_left := g_left ?st - chars_of (hits ts es),
                  g_cnt := g_cnt ?st + length (hits ts es)\<rparr>)"
      by (rule Cons.IH) (use Cons.prems h in \<open>simp_all add: st\<close>)
    then show ?thesis
      using True e h Cons.prems(1) match_name_matches [OF assms(1), of s E st]
      by (simp add: dir_loop.simps [of E "_ # _"] st)
  next
    case False
    then have h: "hits ts (e # es) = hits ts es" using e by (auto simp: hits_def)
    show ?thesis
      using Cons.IH [of st] Cons.prems h e False match_name_matches [OF assms(1), of s E st]
      by (cases "ino = 0") (auto simp: dir_loop.simps [of E "_ # _"])
  qed
qed

lemma copy_plain_while:
  assumes "length (g_path st) + length (takeWhile (\<lambda>c. \<not> any c globchars) v) < ge_bufsiz E"
  shows "copy_plain E v st = (dropWhile (\<lambda>c. \<not> any c globchars) v,
    st\<lparr>g_path := g_path st @ takeWhile (\<lambda>c. \<not> any c globchars) v\<rparr>)"
  using assms
proof (induction v arbitrary: st)
  case (Cons c v)
  show ?case
  proof (cases "any c globchars")
    case False
    then have "addpath E c st = st\<lparr>g_path := g_path st @ [c]\<rparr>" using Cons.prems by (simp add: addpath_def)
    then show ?thesis using Cons.IH [of "st\<lparr>g_path := g_path st @ [c]\<rparr>"] Cons.prems False by simp
  qed simp
qed simp

lemma write_pattern_plain:
  assumes "list_all wf_token ts"
  shows "47 \<notin> set (takeWhile (\<lambda>c. \<not> any c globchars) (write_pattern ts)) \<and>
    (dropWhile (\<lambda>c. \<not> any c globchars) (write_pattern ts) \<noteq> [] \<longrightarrow>
      hd (dropWhile (\<lambda>c. \<not> any c globchars) (write_pattern ts)) \<noteq> 123)"
  using assms
proof (induction ts)
  case (Cons t ts)
  show ?case
  proof (cases "\<exists>c. t = Lit c \<and> \<not> any c globchars")
    case True
    then show ?thesis using Cons by auto
  next
    case False
    then have "any (hd (write_token t)) globchars \<and> hd (write_token t) \<noteq> 123"
      using Cons.prems by (cases t) (auto simp: any_def globchars_def)
    then show ?thesis by (cases "write_token t") simp_all
  qed
qed simp

lemma component_start_whole:
  assumes "47 \<notin> set (takeWhile P v)" shows "component_start v (dropWhile P v) = v"
proof -
  have l: "length v - length (dropWhile P v) = length (takeWhile P v)"
    by (metis add_diff_cancel_right' length_append takeWhile_dropWhile_id)
  have t: "take (length (takeWhile P v)) v = takeWhile P v" by (metis takeWhile_eq_take)
  have "takeWhile (\<lambda>c. c \<noteq> 47) (rev (takeWhile P v)) = rev (takeWhile P v)"
    using assms by (subst takeWhile_eq_all_conv) auto
  then show ?thesis unfolding component_start_def Let_def l t by (simp only: rev_rev_ident takeWhile_dropWhile_id)
qed


text \<open>A directory with five entries, one of them deleted; the pattern is \<open>*.[a-d]\<close>.\<close>

definition demo_globenv :: globenv where
  "demo_globenv =
     \<lparr>ge_readdir = (\<lambda>p. if p = [46] then Some [(7, [46]), (8, [120, 46, 99]), (0, [119, 46, 99]), (9, [121, 46, 104]),
        (5, [97, 46, 99])] else None),
      ge_stat = (\<lambda>_. None), ge_getpwnam = (\<lambda>_. None), ge_home = [47], ge_bufsiz = 64, ge_ncargs = 120\<rparr>"

definition demo_tokens :: "token list" where "demo_tokens = [Many, Lit 46, Class [Range 97 100]]"

lemma matches_many_rec:
  "matches (Many # ts) [] = matches ts []"
  "matches (Many # ts) (x # xs) = (matches ts (x # xs) \<or> matches (Many # ts) xs)"
proof -
  show "matches (Many # ts) [] = matches ts []" by (simp add: matches_many)
  show "matches (Many # ts) (x # xs) = (matches ts (x # xs) \<or> matches (Many # ts) xs)"
    unfolding matches_many by (metis drop0 drop_Suc_Cons le0 length_Cons not_less_eq_eq old.nat.exhaust)
qed

lemma demo_hits:
  "hits demo_tokens [(7, [46]), (8, [120, 46, 99]), (0, [119, 46, 99]), (9, [121, 46, 104]), (5, [97, 46, 99])] =
   [[120, 46, 99], [97, 46, 99]]"
  by (simp add: hits_def visible_def demo_tokens_def matches_many_rec matches_token)


text \<open>
  A class that ends in a hyphen is read past the end of the pattern: \<open>[a-\<close> against a name from \<open>a\<close> on takes
  the null byte as the end of the range and goes on behind it.
\<close>

theorem open_range_overread:
  assumes "ascii a" "a \<notin> {45, 93}" "ascii x" "uint a \<le> uint x"
  shows "amatch E (x # s) [91, a, 45] st = None"
proof -
  have "sint a = uint a" "scc_of (x # s) = uint x" using assms sint_ascii scc_of_simps by (auto simp: ascii_def)
  then show ?thesis using assms by (simp add: amatch.simps [of E _ "_ # _" st] Let_def)
qed

lemma open_range_overread_witness: "amatch demo_globenv [98] [91, 97, 45] (ginit demo_globenv) = None"
  by (rule open_range_overread) (simp_all add: ascii_def)

lemma demo_collect: "collect demo_globenv [42] (ginit demo_globenv) \<noteq> None"
  by code_simp


end
