(* ===== verification/FtpControl.thy ===== *)
theory FtpControl
  imports "SecureData" "Radix" "Telnet_Proto"
begin

text \<open>
  The control connection of FTP. The server: \<open>ftpd_getline\<close> (gssftp/ftpd/ftpcmd.y) with \<open>reply\<close> and \<open>lreply\<close>
  (gssftp/ftpd/ftpd.c); the client: \<open>secure_command\<close>, \<open>command\<close> and \<open>getreply\<close> (gssftp/ftp/ftp.c). After the
  authentication commands travel as the argument of MIC or ENC and replies as the text of a 631 or 632, both
  sealed and in the radix encoding.
\<close>

section \<open>The server's state\<close>

text \<open>
  What the program is started with and what it gets from the libraries: GSS, the texts of a GSS error, for
  its major and its minor status, \<open>FTP_BUFSIZ\<close>, and the options \<open>-a\<close> and \<open>-A\<close>, \<open>-C\<close> and \<open>-c\<close>.
\<close>

record ftpd_conf =
  fc_gss :: gss
  fc_gss_text :: "(bool \<times> cstr) list"
  fc_bufsiz :: nat
  fc_authlevel :: nat
  fc_want_creds :: bool
  fc_allow_ccc :: bool

text \<open>
  The variables of the control connection, with the two streams: what has not been read of standard input and
  what has been written to standard output. \<open>ct_sec\<close> holds those that are shared with the data
  connection: \<open>dlevel\<close>, \<open>maxbuf\<close> and the GSS context, which numbers its messages.
\<close>

record ctl =
  ct_auth_type :: "cstr option"
  ct_clevel :: prot
  ct_ccc_ok :: bool
  ct_tmpline :: cstr
  ct_sec :: secure
  ct_in :: "byte list"
  ct_out :: "byte list"

definition GSSAPI :: cstr where "GSSAPI = c_string ''GSSAPI''"

definition put_out :: "byte list \<Rightarrow> 'a ctl_scheme \<Rightarrow> 'a ctl_scheme" where
  "put_out xs st = st\<lparr>ct_out := ct_out st @ xs\<rparr>"

section \<open>Replies\<close>

text \<open>A reply code, of three digits, as \<open>%d\<close> prints it; there is none when it is 0.\<close>

definition code_digits :: "nat \<Rightarrow> cstr" where
  "code_digits n = [of_nat (n div 100) + 48, of_nat (n div 10 mod 10) + 48, of_nat (n mod 10) + 48]"

text \<open>
  \<open>reply\<close> with the value of \<open>cont_char\<close>. When the sealing fails the length stays 0, and an empty text is sent; a
  text that is too long to be encoded is sent as it is.
\<close>

definition reply_text :: "'a ftpd_conf_scheme \<Rightarrow> byte \<Rightarrow> nat \<Rightarrow> cstr \<Rightarrow> cstr" where
  "reply_text E cont_char n buf =
     take (fc_bufsiz E * 3 div 2 - 1) ((if n \<noteq> 0 then code_digits n @ [cont_char] else []) @ take (fc_bufsiz E - 1) buf)"

definition reply_with :: "'a ftpd_conf_scheme \<Rightarrow> byte \<Rightarrow> nat \<Rightarrow> cstr \<Rightarrow> 'c ctl_scheme \<Rightarrow> 'c ctl_scheme" where
  "reply_with E cont_char n buf st =
     (case ct_auth_type st of
        None \<Rightarrow>
          put_out ((if n \<noteq> 0 then code_digits n @ [cont_char] else []) @ take (fc_bufsiz E - 1) buf @ [13, 10]) st
      | Some ty \<Rightarrow>
          let text = reply_text E cont_char n buf;
              private = (ct_clevel st = PROT_P);
              sealed =
                (if ty = GSSAPI then gss_seal (fc_gss E) private (se_sealed (ct_sec st)) text else None);
              st = (if sealed = None then st
                    else st\<lparr>ct_sec := (ct_sec st)\<lparr>se_sealed := Suc (se_sealed (ct_sec st))\<rparr>\<rparr>);
              out = (case sealed of None \<Rightarrow> [] | Some x \<Rightarrow> x)
          in if length out \<ge> fc_bufsiz E * 3 div 2 div 4 * 3 then put_out (text @ [13, 10]) st
             else put_out (c_string (if private then ''632'' else ''631'') @ [if n \<noteq> 0 then cont_char else 45] @
                    radix_encode out @ [13, 10]) st)"

definition reply :: "'a ftpd_conf_scheme \<Rightarrow> nat \<Rightarrow> cstr \<Rightarrow> 'c ctl_scheme \<Rightarrow> 'c ctl_scheme" where
  "reply E n buf st = reply_with E 32 n buf st"

definition lreply :: "'a ftpd_conf_scheme \<Rightarrow> nat \<Rightarrow> cstr \<Rightarrow> 'c ctl_scheme \<Rightarrow> 'c ctl_scheme" where
  "lreply E n buf st = reply_with E 45 n (take (fc_bufsiz E - 1) buf) st"

definition reply_gss_error :: "'a ftpd_conf_scheme \<Rightarrow> nat \<Rightarrow> cstr \<Rightarrow> 'c ctl_scheme \<Rightarrow> 'c ctl_scheme" where
  "reply_gss_error E code s st =
     reply E code (c_string ''GSSAPI error: '' @ s)
       (fold (\<lambda>(major, msg).
            lreply E code (c_string ''GSSAPI error '' @ c_string (if major then ''major'' else ''minor'') @
              c_string '': '' @ msg))
          (fc_gss_text E) st)"

section \<open>Commands\<close>

text \<open>
  The loop over standard input, with what the buffer holds and the room that is left: the buffer, whether the
  input has ended, what has not been read, and the answers to telnet options. At the end of the input an
  IAC counts as a character.
\<close>

fun read_line :: "nat \<Rightarrow> cstr \<Rightarrow> byte list \<Rightarrow> byte list \<Rightarrow> cstr \<times> bool \<times> byte list \<times> byte list" where
  "read_line n s [] out = (s, True, [], out)"
| "read_line n s [c] out =
     (if c = IAC then (s @ [255], True, [], out) else (s @ [c], n > 1 \<and> c \<noteq> 10, [], out))"
| "read_line n s (c # d # cs) out =
     (if c = IAC then
        if d = WILL \<or> d = WONT then
          (case cs of
             [] \<Rightarrow> (s, True, [], out @ [IAC, DONT, 255])
           | e # es \<Rightarrow> read_line n s es (out @ [IAC, DONT, e]))
        else if d = DO \<or> d = DONT then
          (case cs of
             [] \<Rightarrow> (s, True, [], out @ [IAC, WONT, 255])
           | e # es \<Rightarrow> read_line n s es (out @ [IAC, WONT, e]))
        else if d = IAC then
          if n \<le> 1 then (s @ [d], False, cs, out) else read_line (n - 1) (s @ [d]) cs out
        else read_line n s cs out
      else if n \<le> 1 \<or> c = 10 then (s @ [c], False, d # cs, out)
      else read_line (n - 1) (s @ [c]) (d # cs) out)"

definition upper_line :: "cstr \<Rightarrow> cstr" where
  "upper_line s = List.map (\<lambda>c. if 97 \<le> c \<and> c \<le> 122 then c - 32 else c) s"

definition starts :: "cstr \<Rightarrow> string \<Rightarrow> bool" where
  "starts s pre = (take (length pre) s = c_string pre)"

definition word_end :: "byte \<Rightarrow> bool" where "word_end c = (c \<in> {32, 13, 10})"

text \<open>
  What \<open>getline\<close> does with the line \<open>s\<close> it has read: the command in it. \<open>None\<close> is an access in front of the
  buffer, when a sealed message is empty. \<open>gss_unseal\<close> never asks to be continued.
\<close>

definition unprotect :: "'a ftpd_conf_scheme \<Rightarrow> bool \<Rightarrow> cstr \<Rightarrow> 'c ctl_scheme \<Rightarrow> (cstr \<times> 'c ctl_scheme) option" where
  "unprotect E mic cs st =
     (case radix_decode (takeWhile (\<lambda>c. \<not> word_end c) cs) of
        Inl kerror \<Rightarrow>
          Some ([], reply E 501 (c_string ''Can't base 64 decode argument to '' @
            c_string (if mic then ''MIC'' else ''ENC'') @ c_string '' command ('' @
            c_string (radix_error kerror) @ c_string '')'') st)
      | Inr xmit_buf \<Rightarrow>
          let st = st\<lparr>ct_clevel := if mic then PROT_S else PROT_P\<rparr>
          in case gss_unseal (fc_gss E) (se_unsealed (ct_sec st)) xmit_buf of
               None \<Rightarrow>
                 Some ([], reply_gss_error E 535
                   (c_string (if mic then ''failed unsealing MIC message'' else ''failed unsealing ENC message'')) st)
             | Some msg \<Rightarrow>
                 if msg = [] then None
                 else
                   let st = st\<lparr>ct_sec := (ct_sec st)\<lparr>se_unsealed := Suc (se_unsealed (ct_sec st))\<rparr>\<rparr>;
                       s = cstring ((if last msg = 0 then butlast msg else msg) @ [13, 10])
                   in if fc_authlevel E \<noteq> 0 \<and> mic \<and> starts s ''PASS'' then
                        Some ([],
                          reply E 530 (c_string ''Enable encryption before logging in, or update your ftp program.'')
                            (lreply E 530
                              (c_string ''There is a problem with your ftp client. Password refused.'') st))
                      else Some (s, st))"

definition line_command :: "'a ftpd_conf_scheme \<Rightarrow> cstr \<Rightarrow> 'c ctl_scheme \<Rightarrow> (cstr \<times> 'c ctl_scheme) option" where
  "line_command E s st =
     (if ct_auth_type st \<noteq> None then
        if (starts s ''ENC'' \<or> starts s ''MIC'' \<or> starts s ''AUTH'' \<or> starts s ''CONF'') \<and> list_ex word_end s then
          unprotect E (\<not> starts s ''ENC'') (drop 1 (dropWhile (\<lambda>c. \<not> word_end c) s)) st
        else if ct_ccc_ok st then Some (upper_line s, st\<lparr>ct_clevel := PROT_C\<rparr>)
        else Some ([], reply E 533 (c_string ''All commands must be protected.'') st)
      else if starts s ''ENC'' \<or> starts s ''MIC'' \<or> starts s ''CONF'' then
        Some ([], reply E 503 (c_string ''Must perform authentication before sending protected commands'') st)
      else Some (s, st))"

text \<open>
  \<open>ftpd_getline\<close> with a buffer of \<open>n\<close> characters: \<open>Some None\<close> is its null pointer, at the end of the input.
  \<open>tmpline\<close> is what the handler of urgent data has read. A control connection has no end of file at an
  urgent mark, so \<open>urgsafe_getc\<close> is \<open>getc\<close>.
\<close>

definition ftpd_getline :: "'a ftpd_conf_scheme \<Rightarrow> nat \<Rightarrow> 'c ctl_scheme \<Rightarrow> (cstr option \<times> 'c ctl_scheme) option" where
  "ftpd_getline E n st =
     (let saved = take (n - 1) (ct_tmpline st);
          st = st\<lparr>ct_tmpline := []\<rparr>
      in if 10 \<in> set saved then Some (Some (takeWhile (\<lambda>c. c \<noteq> 10) saved @ [10]), st)
         else
           (case read_line (n - length saved) saved (ct_in st) [] of
              (s, eof, rest, out) \<Rightarrow>
                let st = put_out out (st\<lparr>ct_in := rest\<rparr>)
                in if eof \<and> s = [] then Some (None, st)
                   else map_option (\<lambda>(l, st). (Some l, st)) (line_command E (cstring s) st)))"

section \<open>The client's side\<close>

text \<open>
  \<open>cc_cout\<close> is what has been written to the server and \<open>cc_in\<close> what has not been read from it; \<open>cc_connected\<close>
  stands for the streams being open. \<open>cc_parse\<close> and \<open>cc_reply_buf\<close> are \<open>reply_parse\<close> and \<open>reply_buf\<close>. What is
  shown to the user is not modelled.
\<close>

record cctl =
  cc_auth_type :: "cstr option"
  cc_clevel :: prot
  cc_sec :: secure
  cc_connected :: bool
  cc_cpend :: bool
  cc_code :: int
  cc_reply_string :: cstr
  cc_parse :: "cstr option"
  cc_reply_buf :: cstr
  cc_pasv :: cstr
  cc_in :: "byte list"
  cc_cout :: "byte list"

definition lostpeer :: "cctl \<Rightarrow> cctl" where
  "lostpeer st =
     (if cc_connected st then
        st\<lparr>cc_connected := False, cc_auth_type := None, cc_clevel := PROT_C,
           cc_sec := (cc_sec st)\<lparr>se_dlevel := PROT_C\<rparr>\<rparr>
      else st)"

text \<open>
  \<open>None\<close> is a use of the length that is only set when the sealing succeeds, or of more than the two buffers
  hold, each of \<open>B\<close> characters.
\<close>

definition secure_command :: "gss \<Rightarrow> nat \<Rightarrow> cstr \<Rightarrow> cctl \<Rightarrow> cctl option" where
  "secure_command G B cmd st =
     (if cc_auth_type st \<noteq> None \<and> cc_clevel st \<noteq> PROT_C then
        (case gss_seal G (cc_clevel st = PROT_P) (se_sealed (cc_sec st)) (cmd @ [0]) of
           None \<Rightarrow> None
         | Some x \<Rightarrow>
             if length x > B \<or> length (radix_encode x) \<ge> B then None
             else
               Some (st\<lparr>cc_sec := (cc_sec st)\<lparr>se_sealed := Suc (se_sealed (cc_sec st))\<rparr>,
                        cc_cout := cc_cout st @ c_string (if cc_clevel st = PROT_P then ''ENC '' else ''MIC '') @
                          radix_encode x @ [13, 10]\<rparr>))
      else Some (st\<lparr>cc_cout := cc_cout st @ cmd @ [13, 10]\<rparr>))"

subsection \<open>Reading a reply\<close>

text \<open>
  The local variables of \<open>getreply\<close>: those of a line and, from \<open>rl_cont\<close> on, those of the call. \<open>rl_buf\<close> is
  \<open>reply_buf\<close> up to \<open>reply_ptr\<close>. A store behind a buffer is \<open>None\<close>; \<open>pasv\<close> has \<open>64\<close> characters.
\<close>

record reply_line =
  rl_dig :: nat
  rl_n :: byte
  rl_code :: nat
  rl_str :: cstr
  rl_obuf :: cstr
  rl_cont :: nat
  rl_pflag :: nat
  rl_pasv :: cstr
  rl_buf :: cstr

definition isdigit :: "byte \<Rightarrow> bool" where "isdigit c = (48 \<le> c \<and> c \<le> 57)"

definition line_collect :: "nat \<Rightarrow> bool \<Rightarrow> bool \<Rightarrow> byte \<Rightarrow> reply_line \<Rightarrow> reply_line option" where
  "line_collect B protected parse c r =
     (if protected \<and> (rl_n r = 54 \<or> rl_cont r > 0) then
        if c \<noteq> 13 \<and> rl_dig r > 4 then
          if length (rl_obuf r) \<ge> B then None else Some (r\<lparr>rl_obuf := rl_obuf r @ [c]\<rparr>)
        else Some r
      else if parse then
        if length (rl_buf r) \<ge> B then None else Some (r\<lparr>rl_buf := rl_buf r @ [c]\<rparr>)
      else Some r)"

definition line_pasv :: "byte \<Rightarrow> reply_line \<Rightarrow> reply_line option" where
  "line_pasv c r =
     (let r = (if rl_pflag r = 0 \<and> rl_code r = 227 then r\<lparr>rl_pflag := 1\<rparr> else r);
          r = (if rl_dig r > 4 \<and> rl_pflag r = 1 \<and> isdigit c then r\<lparr>rl_pflag := 2\<rparr> else r)
      in if rl_pflag r = 2 then
           if length (rl_pasv r) \<ge> 64 then None
           else if c \<noteq> 13 \<and> c \<noteq> 41 then Some (r\<lparr>rl_pasv := rl_pasv r @ [c]\<rparr>)
           else Some (r\<lparr>rl_pflag := 3\<rparr>)
         else Some r)"

text \<open>One character of a line; \<open>protected\<close> when it comes from the connection after the authentication.\<close>

definition line_char :: "nat \<Rightarrow> bool \<Rightarrow> bool \<Rightarrow> byte \<Rightarrow> reply_line \<Rightarrow> reply_line option" where
  "line_char B protected parse c r =
     (let r = r\<lparr>rl_dig := Suc (rl_dig r)\<rparr>;
          r = (if rl_n r = 0 then r\<lparr>rl_n := c\<rparr> else r)
      in case line_collect B protected parse c r of
           None \<Rightarrow> None
         | Some r \<Rightarrow>
             if protected \<and> rl_n r \<noteq> 54 then Some r
             else
               let r = (if rl_dig r < 4 \<and> isdigit c then r\<lparr>rl_code := rl_code r * 10 + (unat c - 48)\<rparr> else r)
               in case line_pasv c r of
                    None \<Rightarrow> None
                  | Some r \<Rightarrow>
                      let r = (if rl_dig r = 4 \<and> c = 45 \<and> rl_n r \<noteq> 54
                               then r\<lparr>rl_code := if rl_cont r > 0 then 0 else rl_code r, rl_cont := Suc (rl_cont r)\<rparr>
                               else r)
                      in Some (if length (rl_str r) < B - 1 then r\<lparr>rl_str := rl_str r @ [c]\<rparr> else r))"

datatype line_end = Line_end | Input_end

text \<open>
  A line of the decoded text in \<open>ibuf\<close>, an array of \<open>char\<close>, in which the byte 255 is the value of \<open>EOF\<close>. When there is
  no line end \<open>getreply\<close> reads on behind what was stored there.
\<close>

fun ibuf_line :: "nat \<Rightarrow> bool \<Rightarrow> byte list \<Rightarrow> reply_line \<Rightarrow> (line_end \<times> reply_line) option" where
  "ibuf_line B parse [] r = None"
| "ibuf_line B parse (c # cs) r =
     (if c = 10 then Some (Line_end, r)
      else if c = 255 then Some (Input_end, r)
      else (case line_char B False parse c r of None \<Rightarrow> None | Some r \<Rightarrow> ibuf_line B parse cs r))"

text \<open>A line from the connection, with what is left of the input and the answers to telnet options.\<close>

fun net_line :: "nat \<Rightarrow> bool \<Rightarrow> bool \<Rightarrow> byte list \<Rightarrow> reply_line \<Rightarrow> byte list \<Rightarrow>
    (line_end \<times> reply_line \<times> byte list \<times> byte list) option" where
  "net_line B auth parse [] r out = Some (Input_end, r, [], out)"
| "net_line B auth parse (c # cs) r out =
     (if c = 10 then Some (Line_end, r, cs, out)
      else if c = IAC then
        (case cs of
           [] \<Rightarrow> Some (Input_end, r, [], out)
         | d # ds \<Rightarrow>
             if d = WILL \<or> d = WONT then
               (case ds of
                  [] \<Rightarrow> Some (Input_end, r, [], out @ [IAC, DONT, 255])
                | e # es \<Rightarrow> net_line B auth parse es r (out @ [IAC, DONT, e]))
             else if d = DO \<or> d = DONT then
               (case ds of
                  [] \<Rightarrow> Some (Input_end, r, [], out @ [IAC, WONT, 255])
                | e # es \<Rightarrow> net_line B auth parse es r (out @ [IAC, WONT, e]))
             else net_line B auth parse ds r out)
      else
        (case line_char B auth parse c r of
           None \<Rightarrow> None
         | Some r \<Rightarrow> net_line B auth parse cs r out))"

lemma net_line_shorter: "net_line B auth parse inp r out = Some (Line_end, r', rest, out') \<Longrightarrow> length rest < length inp"
  by (induction B auth parse inp r out rule: net_line.induct) (auto split: if_splits list.splits option.splits)

lemma line_collect_clear: "line_collect B False parse c r = Some r' \<Longrightarrow> rl_obuf r' = rl_obuf r"
  by (auto simp: line_collect_def split: if_splits)

lemma line_pasv_obuf: "line_pasv c r = Some r' \<Longrightarrow> rl_obuf r' = rl_obuf r"
  by (simp add: line_pasv_def Let_def split: if_splits) auto

lemma line_char_clear:
  assumes "line_char B False parse c r = Some r'" shows "rl_obuf r' = rl_obuf r"
proof -
  define r0 where "r0 = (let r = r\<lparr>rl_dig := Suc (rl_dig r)\<rparr> in if rl_n r = 0 then r\<lparr>rl_n := c\<rparr> else r)"
  have r0: "rl_obuf r0 = rl_obuf r" by (simp add: r0_def Let_def)
  obtain r1 where r1: "line_collect B False parse c r0 = Some r1"
    using assms by (auto simp: line_char_def r0_def Let_def split: option.splits)
  define r2 where "r2 = (if rl_dig r1 < 4 \<and> isdigit c then r1\<lparr>rl_code := rl_code r1 * 10 + (unat c - 48)\<rparr> else r1)"
  have r2: "rl_obuf r2 = rl_obuf r1" by (simp add: r2_def)
  obtain r3 where r3: "line_pasv c r2 = Some r3"
    using assms r1 by (simp add: line_char_def r0_def r2_def Let_def split: option.splits)
  have "rl_obuf r' = rl_obuf r3"
    using assms r1 r3 by (auto simp: line_char_def r0_def r2_def Let_def)
  then show ?thesis using line_pasv_obuf [OF r3] r2 line_collect_clear [OF r1] r0 by simp
qed

lemma ibuf_line_clear: "ibuf_line B parse cs r = Some (e, r') \<Longrightarrow> rl_obuf r' = rl_obuf r"
  by (induction B parse cs r rule: ibuf_line.induct) (auto simp: line_char_clear split: if_splits option.splits)

text \<open>What is left of a string in an array after the characters in front of it have been stored again.\<close>

definition overlay :: "cstr \<Rightarrow> cstr \<Rightarrow> cstr" where
  "overlay s old = s @ drop (length s) old"

definition line_done :: "reply_line \<Rightarrow> byte list \<Rightarrow> byte list \<Rightarrow> cctl \<Rightarrow> cctl" where
  "line_done r inp out st =
     st\<lparr>cc_in := inp, cc_cout := cc_cout st @ out, cc_code := int (rl_code r),
        cc_reply_string := overlay (rl_str r) (cc_reply_string st),
        cc_pasv := if rl_pflag r = 3 then rl_pasv r else overlay (rl_pasv r) (cc_pasv st)\<rparr>"

fun strstr :: "cstr \<Rightarrow> cstr \<Rightarrow> cstr option" where
  "strstr [] pat = (if pat = [] then Some [] else None)"
| "strstr (c # cs) pat = (if take (length pat) (c # cs) = pat then Some (c # cs) else strstr cs pat)"

text \<open>The text behind \<open>reply_parse\<close> in the reply.\<close>

definition parse_reply :: "cstr \<Rightarrow> cstr \<Rightarrow> cstr option" where
  "parse_reply buf pat =
     map_option (\<lambda>s. takeWhile (\<lambda>c. c \<noteq> 32 \<and> c \<noteq> 13) (drop (length pat) s)) (strstr (cstring buf) pat)"

definition reply_done :: "byte \<Rightarrow> nat \<Rightarrow> reply_line \<Rightarrow> cctl \<Rightarrow> int \<times> cctl" where
  "reply_done n originalcode r st =
     (let st = st\<lparr>cc_reply_string := rl_str r, cc_cpend := if n \<noteq> 49 then False else cc_cpend st\<rparr>;
          st = (if rl_code r = 421 \<or> originalcode = 421 then lostpeer st else st);
          st = (case cc_parse st of
                  None \<Rightarrow> st
                | Some pat \<Rightarrow> st\<lparr>cc_parse := parse_reply (rl_buf r) pat, cc_reply_buf := rl_buf r\<rparr>)
      in (uint n - 48, st))"

definition new_line :: "reply_line \<Rightarrow> reply_line" where
  "new_line r = r\<lparr>rl_dig := 0, rl_n := 0, rl_code := 0, rl_str := [], rl_obuf := []\<rparr>"

definition new_reply :: reply_line where
  "new_reply =
     \<lparr>rl_dig = 0, rl_n = 0, rl_code = 0, rl_str = [], rl_obuf = [], rl_cont = 0, rl_pflag = 0, rl_pasv = [], rl_buf = []\<rparr>"

definition from_ibuf :: "byte list \<Rightarrow> bool" where "from_ibuf ibuf = (ibuf \<noteq> [] \<and> hd ibuf \<noteq> 0)"

text \<open>
  One round of the loop over the lines of a reply, with what is in \<open>ibuf\<close>: the value that is returned, or the
  state of the next round. An unprotected line after the authentication starts the reply again. After a
  failure to decode a line of a longer reply the loop reads what is left in \<open>ibuf\<close>; this is \<open>None\<close> when
  the encoding was wrong.
\<close>

datatype reply_round =
    Reply_done "int \<times> cctl"
  | Next_line "byte list" nat reply_line cctl

definition getreply_decode :: "gss \<Rightarrow> nat \<Rightarrow> nat \<Rightarrow> byte \<Rightarrow> reply_line \<Rightarrow> cctl \<Rightarrow> reply_round option" where
  "getreply_decode G B originalcode n r st =
     (let more = (rl_cont r > 0 \<and> rl_code r \<noteq> originalcode);
          original = (if originalcode = 0 then rl_code r else originalcode);
          obuf = cstring (rl_obuf r)
      in if obuf = [] then
           Some (if more then Next_line [] original r st else Reply_done (reply_done n originalcode r st))
         else
           (case radix_decode obuf of
              Inl kerror \<Rightarrow> if more then None else Some (Reply_done (reply_done 53 originalcode r st))
            | Inr x \<Rightarrow>
                (case gss_unseal G (se_unsealed (cc_sec st)) x of
                   None \<Rightarrow>
                     Some (if more then Next_line x original r st else Reply_done (reply_done 53 originalcode r st))
                 | Some msg \<Rightarrow>
                     Some (Next_line (if length msg < B - 3 then msg @ [13, 10] else x) originalcode r
                       (st\<lparr>cc_sec := (cc_sec st)\<lparr>se_unsealed := Suc (se_unsealed (cc_sec st))\<rparr>\<rparr>)))))"

definition getreply_round :: "gss \<Rightarrow> nat \<Rightarrow> bool \<Rightarrow> byte list \<Rightarrow> nat \<Rightarrow> reply_line \<Rightarrow> cctl \<Rightarrow> reply_round option" where
  "getreply_round G B expecteof ibuf originalcode r st =
     (let auth = (cc_auth_type st \<noteq> None);
          parse = (cc_parse st \<noteq> None)
      in case (if from_ibuf ibuf
               then map_option (\<lambda>(e, r). (e, r, cc_in st, [])) (ibuf_line B parse ibuf (new_line r))
               else net_line B auth parse (cc_in st) (new_line r) []) of
           None \<Rightarrow> None
         | Some (Input_end, r, inp, out) \<Rightarrow>
             let st = line_done r inp out st
             in Some (Reply_done (if expecteof then (0, st\<lparr>cc_code := 221\<rparr>) else (4, (lostpeer st)\<lparr>cc_code := 421\<rparr>)))
         | Some (Line_end, r, inp, out) \<Rightarrow>
             let st = line_done r inp out st
             in if auth \<and> \<not> from_ibuf ibuf \<and> rl_n r \<noteq> 54 then Some (Next_line [] 0 new_reply st)
                else
                  getreply_decode G B originalcode
                    (if rl_code r \<noteq> 0 \<and> rl_n r = 54 \<and> rl_code r \<notin> {631, 632, 633} then 53 else rl_n r) r st)"

definition round_size :: "byte list \<Rightarrow> cctl \<Rightarrow> nat" where
  "round_size ibuf st = 2 * length (cc_in st) + (if ibuf = [] then 0 else 1)"

lemma getreply_decode_size:
  assumes "getreply_decode G B orig n r st = Some (Next_line ibuf' orig' r' st')"
  shows "round_size ibuf' st' \<le> Suc (2 * length (cc_in st))" "rl_obuf r = [] \<Longrightarrow> round_size ibuf' st' = 2 * length (cc_in st)"
  using assms by (auto simp: getreply_decode_def round_size_def Let_def cstring_def split: if_splits sum.splits option.splits)

lemma getreply_round_size:
  assumes "getreply_round G B e ibuf orig r st = Some (Next_line ibuf' orig' r' st')"
  shows "round_size ibuf' st' < round_size ibuf st"
proof (cases "from_ibuf ibuf")
  case True
  then obtain l r1 where l: "ibuf_line B (cc_parse st \<noteq> None) ibuf (new_line r) = Some (l, r1)"
    using assms by (auto simp: getreply_round_def Let_def split: option.splits)
  have o: "rl_obuf r1 = []" using ibuf_line_clear [OF l] by (simp add: new_line_def)
  have "ibuf \<noteq> []" using True by (simp add: from_ibuf_def)
  moreover have "round_size ibuf' st' = 2 * length (cc_in st)"
    using assms True l o getreply_decode_size(2) [of G B orig _ r1 "line_done r1 (cc_in st) [] st" ibuf' orig' r' st']
    by (simp add: getreply_round_def Let_def line_done_def split: line_end.splits if_splits)
  ultimately show ?thesis by (simp add: round_size_def)
next
  case False
  then obtain r1 inp out where l: "net_line B (cc_auth_type st \<noteq> None) (cc_parse st \<noteq> None) (cc_in st) (new_line r) [] =
      Some (Line_end, r1, inp, out)"
    using assms by (auto simp: getreply_round_def Let_def split: option.splits line_end.splits prod.splits)
  have "round_size ibuf' st' \<le> Suc (2 * length inp)"
    using assms False l getreply_decode_size(1) [of G B orig _ r1 "line_done r1 inp out st" ibuf' orig' r' st']
    by (auto simp: getreply_round_def Let_def line_done_def round_size_def split: if_splits)
  then show ?thesis using net_line_shorter [OF l] by (simp add: round_size_def)
qed

function getreply_loop :: "gss \<Rightarrow> nat \<Rightarrow> bool \<Rightarrow> byte list \<Rightarrow> nat \<Rightarrow> reply_line \<Rightarrow> cctl \<Rightarrow> (int \<times> cctl) option" where
  "getreply_loop G B expecteof ibuf originalcode r st =
     (case getreply_round G B expecteof ibuf originalcode r st of
        None \<Rightarrow> None
      | Some (Reply_done x) \<Rightarrow> Some x
      | Some (Next_line ibuf originalcode r st) \<Rightarrow> getreply_loop G B expecteof ibuf originalcode r st)"
  by pat_completeness auto
termination
  by (relation "measure (\<lambda>(G, B, e, ibuf, orig, r, st). round_size ibuf st)") (auto dest: getreply_round_size)

declare getreply_loop.simps [simp del]

definition getreply :: "gss \<Rightarrow> nat \<Rightarrow> bool \<Rightarrow> cctl \<Rightarrow> (int \<times> cctl) option" where
  "getreply G B expecteof st = getreply_loop G B expecteof [] 0 new_reply st"

text \<open>
  \<open>command\<close> with the text of the command, \<open>quit\<close> when the format is \<open>QUIT\<close>: what the server has answered is in
  the input. The reply is repeated under MIC when \<open>getreply\<close> returns 533; it returns the first digit.
\<close>

definition command_once :: "gss \<Rightarrow> nat \<Rightarrow> cstr \<Rightarrow> bool \<Rightarrow> cctl \<Rightarrow> (int \<times> cctl) option" where
  "command_once G B cmd quit st =
     (case secure_command G B cmd st of
        None \<Rightarrow> None
      | Some st \<Rightarrow> getreply G B quit (st\<lparr>cc_cpend := True\<rparr>))"

definition command :: "gss \<Rightarrow> nat \<Rightarrow> cstr \<Rightarrow> bool \<Rightarrow> cctl \<Rightarrow> (int \<times> cctl) option" where
  "command G B text quit st =
     (if \<not> cc_connected st then Some (0, st\<lparr>cc_code := - 1\<rparr>)
      else
        let cmd = take (B - 1) text
        in case command_once G B cmd quit st of
             None \<Rightarrow> None
           | Some (r, st) \<Rightarrow>
               if r = 533 \<and> cc_clevel st = PROT_P then command_once G B cmd quit (st\<lparr>cc_clevel := PROT_S\<rparr>)
               else Some (r, st))"

end
