(* ===== verification/FtpControlProps.thy ===== *)
theory FtpControlProps
  imports FtpControl "FtpProps"
begin

text \<open>What the control connection of FTP guarantees, and where it does not.\<close>

section \<open>Lines\<close>

lemma radix_decode_encode: "radix_decode (radix_encode xs) = Inr xs"
  using radix_decode_encode_loop [of 0 0 0 "[]" xs] by (simp add: radix_decode_def)

lemma radix_encode_plain:
  "c \<in> set (radix_encode xs) \<Longrightarrow> c \<noteq> 0 \<and> c \<noteq> 10 \<and> c \<noteq> 13 \<and> c \<noteq> 32 \<and> c \<noteq> 255"
  using radix_encode_alphabet [of c xs] by (auto simp: radixN_eq radix_pad_def)

lemma radix_encode_word: "takeWhile (\<lambda>c. \<not> word_end c) (radix_encode x @ 13 # ys) = radix_encode x"
proof -
  have "\<forall>c\<in>set (radix_encode x). \<not> word_end c" using radix_encode_plain by (fastforce simp: word_end_def)
  then show ?thesis by (simp add: takeWhile_append2 word_end_def)
qed

lemma cstring_id: "0 \<notin> set xs \<Longrightarrow> cstring xs = xs"
  unfolding cstring_def by (rule takeWhile_eq_all_conv [THEN iffD2]) metis

lemma read_line_plain:
  assumes "\<forall>c\<in>set l. c \<noteq> 10 \<and> c \<noteq> 255" "length l < n"
  shows "read_line n s (l @ 10 # rest) out = (s @ l @ [10], False, rest, out)"
  using assms
proof (induction l arbitrary: n s)
  case Nil
  then show ?case by (cases rest) (simp_all add: IAC_def)
next
  case (Cons c l)
  then show ?case by (cases l) (simp_all add: IAC_def)
qed

lemma c_string_simps: "c_string (a # s) = of_char a # c_string s" "c_string [] = []"
  by (simp_all add: c_string_def)

lemma starts_simps:
  "starts s [] = True" "starts (c # s) (a # pre) = (c = of_char a \<and> starts s pre)" "starts [] (a # pre) = False"
  by (auto simp: starts_def c_string_def)


section \<open>Commands arrive\<close>

lemma starts_append: "starts (cmd @ [13, 10]) pre = starts cmd pre" if "13 \<notin> set (c_string pre)"
  using that
proof (induction pre arbitrary: cmd)
  case (Cons a pre)
  then show ?case by (cases cmd) (auto simp: starts_simps c_string_simps)
qed (simp add: starts_simps)

lemma starts_pass: "starts (cmd @ [13, 10]) ''PASS'' = starts cmd ''PASS''"
  by (rule starts_append) (simp add: c_string_def)

lemma put_out_Nil [simp]: "put_out [] st = st"
  by (simp add: put_out_def)

lemma getline_protected:
  assumes "ct_auth_type s = Some GSSAPI" "gss_inverse (fc_gss E)" "ct_tmpline s = []" "0 \<notin> set cmd"
    and "gss_seal (fc_gss E) cf (se_unsealed (ct_sec s)) (cmd @ [0]) = Some x"
    and "ct_in s = c_string (if cf then ''ENC '' else ''MIC '') @ radix_encode x @ [13, 10] @ rest"
    and "length (radix_encode x) + 6 \<le> N" "cf \<or> fc_authlevel E = 0 \<or> \<not> starts cmd ''PASS''"
  shows "ftpd_getline E N s =
    Some (Some (cmd @ [13, 10]), s\<lparr>ct_in := rest, ct_clevel := if cf then PROT_P else PROT_S,
      ct_sec := (ct_sec s)\<lparr>se_unsealed := Suc (se_unsealed (ct_sec s))\<rparr>\<rparr>)"
proof -
  let ?w = "c_string (if cf then ''ENC '' else ''MIC '')" and ?b = "radix_encode x"
  have u: "gss_unseal (fc_gss E) (se_unsealed (ct_sec s)) x = Some (cmd @ [0])"
    using assms(2,5) by (auto simp: gss_inverse_def)
  have c: "\<forall>c\<in>set (?w @ ?b @ [13]). c \<noteq> 10 \<and> c \<noteq> 255 \<and> c \<noteq> 0"
    using radix_encode_plain [of _ x] by (auto simp: c_string_def)
  have r: "read_line (N - 0) [] (ct_in s) [] = (?w @ ?b @ [13, 10], False, rest, [])"
    using read_line_plain [of "?w @ ?b @ [13]" "N - 0" "[]" rest "[]"] c assms(6,7)
    by (auto simp: c_string_def)
  have l: "cstring (?w @ ?b @ [13, 10]) = ?w @ ?b @ [13, 10]" using c by (intro cstring_id) auto
  have d: "drop 1 (dropWhile (\<lambda>c. \<not> word_end c) (?w @ ?b @ [13, 10])) = ?b @ [13, 10]"
    by (simp add: c_string_def word_end_def)
  have m: "cstring (cmd @ [13, 10]) = cmd @ [13, 10]" using assms(4) by (intro cstring_id) auto
  have "starts (?w @ ?b @ [13, 10]) ''ENC'' = cf" "starts (?w @ ?b @ [13, 10]) ''MIC'' = (\<not> cf)"
    "list_ex word_end (?w @ ?b @ [13, 10])"
    by (simp_all add: c_string_def starts_simps word_end_def)
  then have "line_command E (?w @ ?b @ [13, 10]) (s\<lparr>ct_tmpline := [], ct_in := rest\<rparr>) =
      unprotect E (\<not> cf) (?b @ [13, 10]) (s\<lparr>ct_tmpline := [], ct_in := rest\<rparr>)"
    using assms(1) d by (cases cf) (simp_all add: line_command_def)
  also have "\<dots> = Some (cmd @ [13, 10], s\<lparr>ct_tmpline := [], ct_in := rest, ct_clevel := if cf then PROT_P else PROT_S,
      ct_sec := (ct_sec s)\<lparr>se_unsealed := Suc (se_unsealed (ct_sec s))\<rparr>\<rparr>)"
    using assms(8) radix_encode_word [of x "[10]"]
    by (auto simp: unprotect_def radix_decode_encode u m starts_pass Let_def)
  finally have "line_command E (?w @ ?b @ [13, 10]) (s\<lparr>ct_tmpline := [], ct_in := rest\<rparr>) = \<dots>" .
  then show ?thesis
    using r l assms(3) by (simp add: ftpd_getline_def Let_def put_out_def)
qed

fun send_commands :: "gss \<Rightarrow> nat \<Rightarrow> cstr list \<Rightarrow> cctl \<Rightarrow> cctl option" where
  "send_commands G B [] c = Some c"
| "send_commands G B (cmd # cmds) c =
     (case secure_command G B cmd c of None \<Rightarrow> None | Some c \<Rightarrow> send_commands G B cmds c)"

fun get_commands :: "'a ftpd_conf_scheme \<Rightarrow> nat \<Rightarrow> nat \<Rightarrow> 'c ctl_scheme \<Rightarrow> (cstr option list \<times> 'c ctl_scheme) option" where
  "get_commands E N 0 s = Some ([], s)"
| "get_commands E N (Suc k) s =
     (case ftpd_getline E N s of
        None \<Rightarrow> None
      | Some (l, s) \<Rightarrow> map_option (\<lambda>(ls, s). (l # ls, s)) (get_commands E N k s))"

text \<open>Sealing a text of at most \<open>m\<close> characters gives one whose encoding fits a line of \<open>N\<close>.\<close>

definition seal_fits :: "gss \<Rightarrow> nat \<Rightarrow> nat \<Rightarrow> bool" where
  "seal_fits G m N =
     (\<forall>cf k p x. length p \<le> m \<longrightarrow> gss_seal G cf k p = Some x \<longrightarrow> length (radix_encode x) + 6 \<le> N)"

text \<open>
  C1. Commands arrive. What the client sends under MIC or ENC, any number of commands one after the other,
  \<open>ftpd_getline\<close> gives to the server's parser as it was, each with its line end, in order and without a
  reply, and it takes the client's protection level for its own. The exception is a password under MIC when
  the server insists on authentication.
\<close>

theorem commands_arrive:
  assumes "cc_auth_type c = Some GSSAPI" "ct_auth_type s = Some GSSAPI" "cc_clevel c \<noteq> PROT_C"
    and "se_unsealed (ct_sec s) = se_sealed (cc_sec c)" "gss_inverse (fc_gss E)" "ct_tmpline s = []"
    and "seal_fits (fc_gss E) m N" "\<forall>cmd\<in>set cmds. length cmd < m \<and> 0 \<notin> set cmd"
    and "fc_authlevel E = 0 \<or> cc_clevel c = PROT_P \<or> (\<forall>cmd\<in>set cmds. \<not> starts cmd ''PASS'')"
    and "send_commands (fc_gss E) B cmds c = Some c'"
    and "cc_cout c' = cc_cout c @ w" "ct_in s = w @ rest"
  shows "\<exists>s'. get_commands E N (length cmds) s = Some (map (\<lambda>cmd. Some (cmd @ [13, 10])) cmds, s') \<and>
    ct_in s' = rest \<and> ct_out s' = ct_out s \<and> se_unsealed (ct_sec s') = se_sealed (cc_sec c') \<and>
    (cmds \<noteq> [] \<longrightarrow> ct_clevel s' = cc_clevel c)"
  using assms
proof (induction cmds arbitrary: c s w)
  case Nil
  then show ?case by simp
next
  case (Cons cmd cmds)
  let ?P = "cc_clevel c = PROT_P" and ?w = "c_string (if cc_clevel c = PROT_P then ''ENC '' else ''MIC '')"
  obtain x where x: "gss_seal (fc_gss E) ?P (se_sealed (cc_sec c)) (cmd @ [0]) = Some x"
      "secure_command (fc_gss E) B cmd c = Some (c\<lparr>cc_sec := (cc_sec c)\<lparr>se_sealed := Suc (se_sealed (cc_sec c))\<rparr>,
         cc_cout := cc_cout c @ ?w @ radix_encode x @ [13, 10]\<rparr>)" (is "_ = Some ?c1")
    using Cons.prems(1,3,10) by (auto simp: secure_command_def split: option.splits if_splits)
  have grow: "send_commands (fc_gss E) B cs d = Some d' \<Longrightarrow> \<exists>v. cc_cout d' = cc_cout d @ v" for cs d d'
    by (induction cs arbitrary: d) (fastforce simp: secure_command_def split: option.splits if_splits)+
  have run: "send_commands (fc_gss E) B cmds ?c1 = Some c'" using Cons.prems(10) x(2) by simp
  obtain v where v: "cc_cout c' = cc_cout ?c1 @ v" using grow [OF run] by blast
  then have w: "w = ?w @ radix_encode x @ [13, 10] @ v" using Cons.prems(11) by simp
  have fit: "length (radix_encode x) + 6 \<le> N"
    using Cons.prems(7) [unfolded seal_fits_def, rule_format, OF _ x(1)] Cons.prems(8) by simp
  let ?s1 = "s\<lparr>ct_in := v @ rest, ct_clevel := if ?P then PROT_P else PROT_S,
      ct_sec := (ct_sec s)\<lparr>se_unsealed := Suc (se_unsealed (ct_sec s))\<rparr>\<rparr>"
  have lev: "(if ?P then PROT_P else PROT_S) = cc_clevel c" using Cons.prems(3) by (cases "cc_clevel c") auto
  have line: "ftpd_getline E N s = Some (Some (cmd @ [13, 10]), ?s1)"
    by (rule getline_protected [OF Cons.prems(2,5,6) _ _ _ fit])
      (use Cons.prems(4,8,9,12) x(1) w in auto)
  have "\<exists>s'. get_commands E N (length cmds) ?s1 = Some (map (\<lambda>cmd. Some (cmd @ [13, 10])) cmds, s') \<and>
      ct_in s' = rest \<and> ct_out s' = ct_out ?s1 \<and> se_unsealed (ct_sec s') = se_sealed (cc_sec c') \<and>
      (cmds \<noteq> [] \<longrightarrow> ct_clevel s' = cc_clevel ?c1)"
    by (rule Cons.IH [OF _ _ _ _ Cons.prems(5) _ Cons.prems(7) _ _ run v]) (use Cons.prems in auto)
  moreover have "get_commands E N 0 ?s1 = Some ([], ?s1)" by simp
  ultimately show ?case using line lev by (cases cmds) auto
qed


section \<open>Replies arrive\<close>

definition reply_fits :: "'a ftpd_conf_scheme \<Rightarrow> nat \<Rightarrow> nat \<Rightarrow> bool" where
  "reply_fits E m B =
     ((\<forall>cf k p x. length p \<le> m + 4 \<longrightarrow> gss_seal (fc_gss E) cf k p = Some x \<longrightarrow>
         length x < fc_bufsiz E * 3 div 2 div 4 * 3 \<and> length (radix_encode x) \<le> B) \<and>
      m < fc_bufsiz E \<and> m + 4 < fc_bufsiz E * 3 div 2 \<and> m + 8 \<le> B)"

definition reply_line_text :: "nat \<Rightarrow> byte \<Rightarrow> cstr \<Rightarrow> cstr" where
  "reply_line_text n cc t = code_digits n @ cc # t"

lemma reply_with_sealed:
  assumes "ct_auth_type s = Some GSSAPI" "gss_seals (fc_gss E) (ct_clevel s = PROT_P)" "reply_fits E m B" "length t \<le> m"
    and "n \<noteq> 0"
  obtains x where "gss_seal (fc_gss E) (ct_clevel s = PROT_P) (se_sealed (ct_sec s)) (reply_line_text n cc t) = Some x"
    "length (radix_encode x) \<le> B"
    "reply_with E cc n t s = s\<lparr>ct_sec := (ct_sec s)\<lparr>se_sealed := Suc (se_sealed (ct_sec s))\<rparr>,
       ct_out := ct_out s @ c_string (if ct_clevel s = PROT_P then ''632'' else ''631'') @ cc # radix_encode x @ [13, 10]\<rparr>"
proof -
  have f: "m < fc_bufsiz E" "m + 4 < fc_bufsiz E * 3 div 2" using assms(3) by (simp_all add: reply_fits_def)
  have len: "length (reply_line_text n cc t) \<le> m + 4" using assms(4) by (simp add: reply_line_text_def code_digits_def)
  have text_is: "reply_text E cc n t = reply_line_text n cc t"
    using f assms(4,5) len by (simp add: reply_text_def reply_line_text_def code_digits_def)
  obtain x where x: "gss_seal (fc_gss E) (ct_clevel s = PROT_P) (se_sealed (ct_sec s)) (reply_line_text n cc t) = Some x"
    using assms(2) by (auto simp: gss_seals_def)
  have b: "length x < fc_bufsiz E * 3 div 2 div 4 * 3" "length (radix_encode x) \<le> B"
    using assms(3) len x by (auto simp: reply_fits_def)
  show thesis
    by (rule that [OF x b(2)])
      (use assms(1,5) x b(1) in \<open>simp add: reply_with_def text_is put_out_def Let_def split del: if_split\<close>)
qed

lemma line_pasv_quiet: "rl_pflag r = 0 \<Longrightarrow> rl_code r \<noteq> 227 \<Longrightarrow> line_pasv c r = Some r"
  by (simp add: line_pasv_def Let_def)

definition add_str :: "nat \<Rightarrow> byte \<Rightarrow> reply_line \<Rightarrow> reply_line" where
  "add_str B c r = (if length (rl_str r) < B - 1 then r\<lparr>rl_str := rl_str r @ [c]\<rparr> else r)"

lemma add_str_simps [simp]:
  "rl_dig (add_str B c r) = rl_dig r" "rl_n (add_str B c r) = rl_n r" "rl_code (add_str B c r) = rl_code r"
  "rl_obuf (add_str B c r) = rl_obuf r" "rl_cont (add_str B c r) = rl_cont r" "rl_pflag (add_str B c r) = rl_pflag r"
  "rl_pasv (add_str B c r) = rl_pasv r" "rl_buf (add_str B c r) = rl_buf r"
  by (simp_all add: add_str_def)

lemma line_char_body:
  assumes "rl_n r = 54" "4 \<le> rl_dig r" "rl_pflag r = 0" "rl_code r \<noteq> 227" "c = 13 \<or> length (rl_obuf r) < B"
  shows "line_char B True parse c r =
    Some (add_str B c (r\<lparr>rl_dig := Suc (rl_dig r), rl_obuf := if c = 13 then rl_obuf r else rl_obuf r @ [c]\<rparr>))"
proof -
  have "line_collect B True parse c (r\<lparr>rl_dig := Suc (rl_dig r)\<rparr>) =
      Some (r\<lparr>rl_dig := Suc (rl_dig r), rl_obuf := if c = 13 then rl_obuf r else rl_obuf r @ [c]\<rparr>)"
    using assms by (auto simp: line_collect_def)
  then show ?thesis
    using assms by (simp add: line_char_def Let_def line_pasv_quiet add_str_def)
qed

text \<open>The client on one such line: the letters of the encoding, then the text.\<close>

lemma net_line_body:
  assumes "\<forall>c\<in>set b. c \<noteq> 10 \<and> c \<noteq> 13 \<and> c \<noteq> 255" "rl_n r = 54" "4 \<le> rl_dig r" "rl_pflag r = 0" "rl_code r \<noteq> 227"
    and "length (rl_obuf r) + length b \<le> B"
  shows "\<exists>r'. net_line B True False (b @ 13 # 10 # rest) r [] = Some (Line_end, r', rest, []) \<and>
    rl_n r' = 54 \<and> rl_code r' = rl_code r \<and> rl_obuf r' = rl_obuf r @ b \<and> rl_cont r' = rl_cont r \<and> rl_pflag r' = 0 \<and>
    rl_pasv r' = rl_pasv r \<and> rl_buf r' = rl_buf r"
  using assms
proof (induction b arbitrary: r)
  case Nil
  then show ?case by (simp add: line_char_body IAC_def)
next
  case (Cons c b)
  let ?r = "add_str B c (r\<lparr>rl_dig := Suc (rl_dig r), rl_obuf := rl_obuf r @ [c]\<rparr>)"
  have c: "c \<noteq> 10" "c \<noteq> 13" "c \<noteq> IAC" "length (rl_obuf r) < B" using Cons.prems by (auto simp: IAC_def)
  have "line_char B True False c r = Some ?r" using line_char_body [of r c B False] Cons.prems c by simp
  moreover have "\<exists>r'. net_line B True False (b @ 13 # 10 # rest) ?r [] = Some (Line_end, r', rest, []) \<and>
    rl_n r' = 54 \<and> rl_code r' = rl_code ?r \<and> rl_obuf r' = rl_obuf ?r @ b \<and> rl_cont r' = rl_cont ?r \<and> rl_pflag r' = 0 \<and>
    rl_pasv r' = rl_pasv ?r \<and> rl_buf r' = rl_buf ?r"
    by (rule Cons.IH) (use Cons.prems in auto)
  ultimately show ?case using c by simp
qed

lemma line_char_head:
  assumes "rl_n r = 54 \<or> rl_n r = 0 \<and> c = 54" "rl_dig r < 4" "rl_pflag r = 0" "protected"
    and "(if rl_dig r < 3 \<and> isdigit c then rl_code r * 10 + (unat c - 48) else rl_code r) \<noteq> 227"
  shows "line_char B protected parse c r =
    Some (add_str B c (r\<lparr>rl_dig := Suc (rl_dig r), rl_n := 54,
      rl_code := if rl_dig r < 3 \<and> isdigit c then rl_code r * 10 + (unat c - 48) else rl_code r\<rparr>))"
proof -
  let ?r = "r\<lparr>rl_dig := Suc (rl_dig r), rl_n := 54\<rparr>"
  have n: "(if rl_n (r\<lparr>rl_dig := Suc (rl_dig r)\<rparr>) = 0 then r\<lparr>rl_dig := Suc (rl_dig r), rl_n := c\<rparr> else r\<lparr>rl_dig := Suc (rl_dig r)\<rparr>) = ?r"
    using assms(1) by (cases r) auto
  have "line_collect B protected parse c ?r = Some ?r"
    using assms by (simp add: line_collect_def)
  moreover define r2 where "r2 = (if rl_dig ?r < 4 \<and> isdigit c then ?r\<lparr>rl_code := rl_code ?r * 10 + (unat c - 48)\<rparr> else ?r)"
  moreover have "line_pasv c r2 = Some r2"
    using assms(2,3,5) by (intro line_pasv_quiet) (auto simp: r2_def less_Suc_eq)
  ultimately have "line_char B protected parse c r = Some (add_str B c r2)"
    using n assms(4) by (simp add: line_char_def Let_def add_str_def r2_def)
  then show ?thesis using assms(2) by (simp add: r2_def less_Suc_eq numeral_eq_Suc)
qed

lemma net_line_sealed:
  assumes "\<forall>c\<in>set b. c \<noteq> 10 \<and> c \<noteq> 13 \<and> c \<noteq> 255" "rl_pflag r = 0" "length b \<le> B" "cc \<in> {32, 45}"
  shows "\<exists>r'. net_line B True False (c_string (if cf then ''632'' else ''631'') @ cc # b @ 13 # 10 # rest) (new_line r) [] =
      Some (Line_end, r', rest, []) \<and>
    rl_n r' = 54 \<and> rl_code r' = (if cf then 632 else 631) \<and> rl_obuf r' = b \<and> rl_cont r' = rl_cont r \<and> rl_pflag r' = 0 \<and>
    rl_pasv r' = rl_pasv r \<and> rl_buf r' = rl_buf r"
proof -
  have "\<exists>r1. net_line B True False (c_string (if cf then ''632'' else ''631'') @ cc # b @ 13 # 10 # rest) (new_line r) [] =
        net_line B True False (b @ 13 # 10 # rest) r1 [] \<and>
      rl_n r1 = 54 \<and> rl_dig r1 = 4 \<and> rl_code r1 = (if cf then 632 else 631) \<and> rl_obuf r1 = [] \<and> rl_cont r1 = rl_cont r \<and>
      rl_pflag r1 = 0 \<and> rl_pasv r1 = rl_pasv r \<and> rl_buf r1 = rl_buf r"
    using assms(2,4)
    by (cases cf) (auto simp: c_string_def IAC_def new_line_def isdigit_def line_char_head)
  then show ?thesis using net_line_body [OF assms(1), of _ B rest] assms(3) by fastforce
qed

text \<open>The client on the decoded text.\<close>

lemma byte_neqI: "unat v \<noteq> unat w \<Longrightarrow> v \<noteq> w" for v w :: byte
  by auto

lemma digit_byte:
  assumes "d < 10"
  shows "unat (of_nat d + 48 :: byte) = d + 48" "isdigit (of_nat d + 48)" "of_nat d + 48 \<noteq> (10 :: byte)" "of_nat d + 48 \<noteq> (255 :: byte)"
    "of_nat d + 48 \<noteq> (0 :: byte)"
proof -
  show u: "unat (of_nat d + 48 :: byte) = d + 48" using assms by (simp add: unat_word_ariths unat_of_nat)
  show "isdigit (of_nat d + 48)" using u assms by (simp add: isdigit_def word_le_nat_alt)
  show "of_nat d + 48 \<noteq> (10 :: byte)" "of_nat d + 48 \<noteq> (255 :: byte)" "of_nat d + 48 \<noteq> (0 :: byte)"
    by (rule byte_neqI, unfold u, use assms in simp)+
qed

definition dash :: "byte \<Rightarrow> reply_line \<Rightarrow> reply_line" where
  "dash c r = (if rl_dig r = 4 \<and> c = 45 \<and> rl_n r \<noteq> 54
     then r\<lparr>rl_code := if rl_cont r > 0 then 0 else rl_code r, rl_cont := Suc (rl_cont r)\<rparr> else r)"

lemma line_char_text:
  assumes "rl_pflag r = 0" "(if rl_dig r < 3 \<and> isdigit c then rl_code r * 10 + (unat c - 48) else rl_code r) \<noteq> 227"
  shows "line_char B False False c r =
    Some (add_str B c (dash c (r\<lparr>rl_dig := Suc (rl_dig r), rl_n := if rl_n r = 0 then c else rl_n r,
      rl_code := if rl_dig r < 3 \<and> isdigit c then rl_code r * 10 + (unat c - 48) else rl_code r\<rparr>)))"
proof -
  define r1 where "r1 = r\<lparr>rl_dig := Suc (rl_dig r), rl_n := if rl_n r = 0 then c else rl_n r\<rparr>"
  define r2 where "r2 = (if rl_dig r < 3 \<and> isdigit c then r1\<lparr>rl_code := rl_code r * 10 + (unat c - 48)\<rparr> else r1)"
  have r1: "(let r = r\<lparr>rl_dig := Suc (rl_dig r)\<rparr> in if rl_n r = 0 then r\<lparr>rl_n := c\<rparr> else r) = r1"
    "rl_dig r1 = Suc (rl_dig r)" "rl_code r1 = rl_code r" "rl_pflag r1 = rl_pflag r"
    by (simp_all add: r1_def)
  have r2: "(if rl_dig r1 < 4 \<and> isdigit c then r1\<lparr>rl_code := rl_code r1 * 10 + (unat c - 48)\<rparr> else r1) = r2"
    by (simp add: r1 r2_def less_Suc_eq numeral_eq_Suc)
  have p: "line_pasv c r2 = Some r2"
    using assms by (intro line_pasv_quiet) (auto simp: r2_def r1)
  have "line_char B False False c r = Some (add_str B c (dash c r2))"
    using r1(1) unfolding line_char_def Let_def by (simp add: line_collect_def r2 p add_str_def dash_def)
  moreover have "r2 = r\<lparr>rl_dig := Suc (rl_dig r), rl_n := if rl_n r = 0 then c else rl_n r,
      rl_code := if rl_dig r < 3 \<and> isdigit c then rl_code r * 10 + (unat c - 48) else rl_code r\<rparr>"
    by (simp add: r2_def r1_def)
  ultimately show ?thesis by simp
qed

lemma dash_simps [simp]:
  "rl_dig (dash c r) = rl_dig r" "rl_n (dash c r) = rl_n r" "rl_str (dash c r) = rl_str r"
  "rl_obuf (dash c r) = rl_obuf r" "rl_pflag (dash c r) = rl_pflag r"
  "rl_pasv (dash c r) = rl_pasv r" "rl_buf (dash c r) = rl_buf r" "rl_dig r \<noteq> 4 \<Longrightarrow> dash c r = r"
  by (simp_all add: dash_def)

lemma ibuf_line_body:
  assumes "\<forall>c\<in>set t. c \<noteq> 10 \<and> c \<noteq> 255" "4 \<le> rl_dig r" "rl_pflag r = 0" "rl_code r \<noteq> 227" "rl_n r \<noteq> 0"
    and "length (rl_str r) + length t + 1 < B"
  shows "\<exists>r'. ibuf_line B False (t @ [13, 10]) r = Some (Line_end, r') \<and>
    rl_n r' = rl_n r \<and> rl_code r' = rl_code r \<and> rl_obuf r' = rl_obuf r \<and> rl_cont r' = rl_cont r \<and> rl_pflag r' = 0 \<and>
    rl_pasv r' = rl_pasv r \<and> rl_buf r' = rl_buf r \<and> rl_str r' = rl_str r @ t @ [13]"
  using assms
proof (induction t arbitrary: r)
  case Nil
  then show ?case by (simp add: line_char_text add_str_def)
next
  case (Cons c t)
  let ?r = "add_str B c (r\<lparr>rl_dig := Suc (rl_dig r)\<rparr>)"
  have s: "rl_str ?r = rl_str r @ [c]" using Cons.prems(6) by (simp add: add_str_def)
  have "line_char B False False c r = Some ?r" using Cons.prems by (simp add: line_char_text)
  moreover have "\<exists>r'. ibuf_line B False (t @ [13, 10]) ?r = Some (Line_end, r') \<and>
    rl_n r' = rl_n ?r \<and> rl_code r' = rl_code ?r \<and> rl_obuf r' = rl_obuf ?r \<and> rl_cont r' = rl_cont ?r \<and> rl_pflag r' = 0 \<and>
    rl_pasv r' = rl_pasv ?r \<and> rl_buf r' = rl_buf ?r \<and> rl_str r' = rl_str ?r @ t @ [13]"
    by (rule Cons.IH) (use Cons.prems s in auto)
  ultimately show ?case using Cons.prems(1) s by simp
qed

lemma ibuf_line_digits:
  assumes d: "d1 < 10" "d2 < 10" "d3 < 10" "d1 < 6" and n: "(d1 * 10 + d2) * 10 + d3 = n" and "n \<noteq> 227" "cc \<in> {32, 45}"
    and "\<forall>c\<in>set t. c \<noteq> 10 \<and> c \<noteq> 255" "length t + 8 \<le> B" "rl_pflag r = 0"
  shows "\<exists>r'. ibuf_line B False ([of_nat d1 + 48, of_nat d2 + 48, of_nat d3 + 48] @ cc # t @ [13, 10]) (new_line r) =
      Some (Line_end, r') \<and>
    rl_n r' = of_nat d1 + 48 \<and> rl_code r' = (if cc = 45 \<and> rl_cont r > 0 then 0 else n) \<and>
    rl_cont r' = (if cc = 45 then Suc (rl_cont r) else rl_cont r) \<and> rl_obuf r' = [] \<and> rl_pflag r' = 0 \<and>
    rl_pasv r' = rl_pasv r \<and> rl_buf r' = rl_buf r \<and>
    rl_str r' = [of_nat d1 + 48, of_nat d2 + 48, of_nat d3 + 48] @ cc # t @ [13]"
proof -
  note asm = assms(6-10)
  have ne: "d1 \<noteq> 227" "d1 * 10 + d2 \<noteq> 227" using d by auto
  note D = digit_byte [OF d(1)] digit_byte [OF d(2)] digit_byte [OF d(3)]
  have six: "of_nat d1 + 48 \<noteq> (54 :: byte)"
    by (rule byte_neqI, unfold digit_byte(1) [OF d(1)]) (use d(4) in simp)
  define r1 where "r1 = add_str B (of_nat d1 + 48) ((new_line r)\<lparr>rl_dig := 1, rl_n := of_nat d1 + 48, rl_code := d1\<rparr>)"
  have r1: "line_char B False False (of_nat d1 + 48) (new_line r) = Some r1"
    using ne asm(5) D by (simp add: line_char_text new_line_def r1_def)
  define r2 where "r2 = add_str B (of_nat d2 + 48) (r1\<lparr>rl_dig := 2, rl_n := of_nat d1 + 48, rl_code := d1 * 10 + d2\<rparr>)"
  have f1: "rl_dig r1 = 1" "rl_n r1 = of_nat d1 + 48" "rl_code r1 = d1" "rl_pflag r1 = 0" using asm(5)
    by (simp_all add: r1_def new_line_def)
  have r2: "line_char B False False (of_nat d2 + 48) r1 = Some r2"
    using ne D f1 by (simp add: line_char_text r2_def numeral_2_eq_2)
  define r3 where "r3 = add_str B (of_nat d3 + 48) (r2\<lparr>rl_dig := 3, rl_n := of_nat d1 + 48, rl_code := n\<rparr>)"
  have f2: "rl_dig r2 = 2" "rl_n r2 = of_nat d1 + 48" "rl_code r2 = d1 * 10 + d2" "rl_pflag r2 = 0"
    by (simp_all add: r2_def f1)
  have r3: "line_char B False False (of_nat d3 + 48) r2 = Some r3"
    using n asm(1) D f2 by (simp add: line_char_text r3_def numeral_3_eq_3)
  define r4 where "r4 = add_str B cc (dash cc (r3\<lparr>rl_dig := 4, rl_n := of_nat d1 + 48, rl_code := n\<rparr>))"
  have f3: "rl_dig r3 = 3" "rl_n r3 = of_nat d1 + 48" "rl_code r3 = n" "rl_pflag r3 = 0" "rl_obuf r3 = []"
      "rl_cont r3 = rl_cont r" "rl_pasv r3 = rl_pasv r" "rl_buf r3 = rl_buf r"
    by (simp_all add: r3_def f2) (simp_all add: r2_def r1_def new_line_def)
  have r4: "line_char B False False cc r3 = Some r4"
    using asm(1) f3 D(5) by (simp add: line_char_text r4_def)
  have s4: "rl_str r4 = [of_nat d1 + 48, of_nat d2 + 48, of_nat d3 + 48, cc]"
    using asm(4) by (simp add: r4_def r3_def r2_def r1_def new_line_def add_str_def) auto
  have f4: "rl_dig r4 = 4" "rl_n r4 = of_nat d1 + 48" "rl_pflag r4 = 0" "rl_obuf r4 = []" "rl_pasv r4 = rl_pasv r"
      "rl_buf r4 = rl_buf r" "rl_code r4 = (if cc = 45 \<and> rl_cont r > 0 then 0 else n)"
      "rl_cont r4 = (if cc = 45 then Suc (rl_cont r) else rl_cont r)"
    using six f3 asm(2) by (auto simp: r4_def dash_def)
  have "ibuf_line B False ([of_nat d1 + 48, of_nat d2 + 48, of_nat d3 + 48] @ cc # t @ [13, 10]) (new_line r) = ibuf_line B False (t @ [13, 10]) r4"
    using D r1 r2 r3 r4 asm(2) by auto
  moreover have "\<exists>r'. ibuf_line B False (t @ [13, 10]) r4 = Some (Line_end, r') \<and>
    rl_n r' = rl_n r4 \<and> rl_code r' = rl_code r4 \<and> rl_obuf r' = rl_obuf r4 \<and> rl_cont r' = rl_cont r4 \<and> rl_pflag r' = 0 \<and>
    rl_pasv r' = rl_pasv r4 \<and> rl_buf r' = rl_buf r4 \<and> rl_str r' = rl_str r4 @ t @ [13]"
    by (rule ibuf_line_body) (use asm(1,3,4) f4 s4 D(5) in auto)
  ultimately show ?thesis using f4 s4 by auto
qed

lemma ibuf_line_text:
  assumes "n < 600" "n \<noteq> 227" "cc \<in> {32, 45}" "\<forall>c\<in>set t. c \<noteq> 10 \<and> c \<noteq> 255" "length t + 8 \<le> B" "rl_pflag r = 0"
  shows "\<exists>r'. ibuf_line B False (reply_line_text n cc t @ [13, 10]) (new_line r) = Some (Line_end, r') \<and>
    rl_n r' = of_nat (n div 100) + 48 \<and> rl_code r' = (if cc = 45 \<and> rl_cont r > 0 then 0 else n) \<and>
    rl_cont r' = (if cc = 45 then Suc (rl_cont r) else rl_cont r) \<and> rl_obuf r' = [] \<and> rl_pflag r' = 0 \<and>
    rl_pasv r' = rl_pasv r \<and> rl_buf r' = rl_buf r \<and> rl_str r' = reply_line_text n cc t @ [13]"
proof -
  have d: "n div 100 < 10" "n div 10 mod 10 < 10" "n mod 10 < 10" "n div 100 < 6" using assms(1) by auto
  have "n div 100 = n div 10 div 10" by (simp add: div_mult2_eq [symmetric])
  then have n: "(n div 100 * 10 + n div 10 mod 10) * 10 + n mod 10 = n" by (simp only: div_mult_mod_eq)
  from ibuf_line_digits [OF d n assms(2-6)] show ?thesis
    by (simp add: reply_line_text_def code_digits_def)
qed

text \<open>A line of the server, seen by the client: two rounds of the loop.\<close>

definition line_read :: "byte list \<Rightarrow> cctl \<Rightarrow> cctl \<Rightarrow> bool" where
  "line_read rest st st' =
     (cc_auth_type st' = cc_auth_type st \<and> cc_parse st' = cc_parse st \<and> cc_in st' = rest \<and> cc_cout st' = cc_cout st \<and>
      cc_clevel st' = cc_clevel st \<and> cc_connected st' = cc_connected st \<and> cc_cpend st' = cc_cpend st \<and>
      cc_sec st' = (cc_sec st)\<lparr>se_unsealed := Suc (se_unsealed (cc_sec st))\<rparr>)"

lemma sealed_line_rounds:
  assumes c: "cc_auth_type st = Some GSSAPI" "cc_parse st = None" "rl_pflag r = 0"
    and seal: "gss_inverse G" "gss_seal G cf (se_unsealed (cc_sec st)) (reply_line_text n cc t) = Some x"
    and len: "length (radix_encode x) \<le> B" "length t + 8 \<le> B"
    and t: "100 \<le> n" "n < 600" "n \<noteq> 227" "cc \<in> {32, 45}" "\<forall>c\<in>set t. c \<noteq> 10 \<and> c \<noteq> 255"
    and inp: "cc_in st = c_string (if cf then ''632'' else ''631'') @ cc # radix_encode x @ 13 # 10 # rest"
  shows "\<exists>r' st'. getreply_loop G B e [] orig r st =
      (case getreply_decode G B orig (of_nat (n div 100) + 48) r' st' of
         None \<Rightarrow> None
       | Some (Reply_done v) \<Rightarrow> Some v
       | Some (Next_line ibuf orig r st) \<Rightarrow> getreply_loop G B e ibuf orig r st) \<and>
    line_read rest st st' \<and> cc_code st' = int (rl_code r') \<and>
    rl_code r' = (if cc = 45 \<and> rl_cont r > 0 then 0 else n) \<and> rl_cont r' = (if cc = 45 then Suc (rl_cont r) else rl_cont r) \<and>
    rl_obuf r' = [] \<and> rl_pflag r' = 0 \<and> rl_str r' = reply_line_text n cc t @ [13]"
proof -
  let ?msg = "reply_line_text n cc t"
  have b: "\<forall>c\<in>set (radix_encode x). c \<noteq> 10 \<and> c \<noteq> 13 \<and> c \<noteq> 255" "0 \<notin> set (radix_encode x)"
    using radix_encode_plain [of _ x] by blast+
  obtain r1 where r1: "net_line B True False (cc_in st) (new_line r) [] = Some (Line_end, r1, rest, [])"
      "rl_n r1 = 54" "rl_code r1 = (if cf then 632 else 631)" "rl_obuf r1 = radix_encode x" "rl_cont r1 = rl_cont r"
      "rl_pflag r1 = 0"
    using net_line_sealed [OF b(1) c(3) len(1) t(4), of cf rest] unfolding inp by blast
  have u: "gss_unseal G (se_unsealed (cc_sec st)) x = Some ?msg" "length ?msg \<le> length x"
    using seal by (auto simp: gss_inverse_def)
  have x: "x \<noteq> []" using u(2) by (auto simp: reply_line_text_def)
  have "length (radix_encode x) \<noteq> 0" using x by (cases x) (simp_all add: radix_encode_length)
  then have o: "cstring (rl_obuf r1) = radix_encode x" "radix_encode x \<noteq> []" using r1(4) b(2) by (simp_all add: cstring_id)
  have m: "length ?msg < B - 3" using len(2) by (simp add: reply_line_text_def code_digits_def)
  define st1 where "st1 = (line_done r1 rest [] st)\<lparr>cc_sec := (cc_sec st)\<lparr>se_unsealed := Suc (se_unsealed (cc_sec st))\<rparr>\<rparr>"
  have code: "(if cf then 632 else 631) \<in> {631, 632, 633 :: nat}" by simp
  have "getreply_decode G B orig 54 r1 (line_done r1 rest [] st) = Some (Next_line (?msg @ [13, 10]) orig r1 st1)"
    using o u(1) m by (simp add: getreply_decode_def Let_def radix_decode_encode st1_def) (simp add: line_done_def)
  then have "getreply_round G B e [] orig r st = Some (Next_line (?msg @ [13, 10]) orig r1 st1)"
    using r1(1-3) c code by (simp add: getreply_round_def from_ibuf_def Let_def)
  then have first: "getreply_loop G B e [] orig r st = getreply_loop G B e (?msg @ [13, 10]) orig r1 st1"
    by (simp add: getreply_loop.simps [of G B e "[]"])
  have d: "n div 100 < 10" "n div 100 < 6" using t(2) by auto
  have six: "of_nat (n div 100) + 48 \<noteq> (54 :: byte)"
    by (rule byte_neqI, unfold digit_byte(1) [OF d(1)]) (use d(2) in simp)
  have hd: "from_ibuf (?msg @ [13, 10])"
    using digit_byte(5) [OF d(1)] by (simp add: from_ibuf_def reply_line_text_def code_digits_def)
  obtain r2 where r2: "ibuf_line B False (?msg @ [13, 10]) (new_line r1) = Some (Line_end, r2)"
      "rl_n r2 = of_nat (n div 100) + 48" "rl_code r2 = (if cc = 45 \<and> rl_cont r > 0 then 0 else n)"
      "rl_cont r2 = (if cc = 45 then Suc (rl_cont r) else rl_cont r)" "rl_obuf r2 = []" "rl_pflag r2 = 0"
      "rl_str r2 = ?msg @ [13]"
    using ibuf_line_text [OF t(2-5) len(2) r1(6)] r1(5) by auto
  have p: "cc_parse st1 = None" "cc_in st1 = rest" using c(2) by (simp_all add: st1_def line_done_def)
  have "getreply_round G B e (?msg @ [13, 10]) orig r1 st1 =
      getreply_decode G B orig (of_nat (n div 100) + 48) r2 (line_done r2 rest [] st1)"
    using hd r2(1,2) p six by (simp add: getreply_round_def Let_def)
  then have "getreply_loop G B e [] orig r st =
      (case getreply_decode G B orig (of_nat (n div 100) + 48) r2 (line_done r2 rest [] st1) of
         None \<Rightarrow> None
       | Some (Reply_done v) \<Rightarrow> Some v
       | Some (Next_line ibuf orig r st) \<Rightarrow> getreply_loop G B e ibuf orig r st)"
    using first by (simp add: getreply_loop.simps [of G B e "_ @ _"])
  moreover have "line_read rest st (line_done r2 rest [] st1)"
    by (simp add: line_read_def line_done_def st1_def)
  moreover have "cc_code (line_done r2 rest [] st1) = int (rl_code r2)" by (simp add: line_done_def)
  ultimately show ?thesis using r2 by blast
qed

fun lreplies :: "'a ftpd_conf_scheme \<Rightarrow> nat \<Rightarrow> cstr list \<Rightarrow> 'c ctl_scheme \<Rightarrow> 'c ctl_scheme" where
  "lreplies E n [] s = s"
| "lreplies E n (t # ts) s = lreplies E n ts (lreply E n t s)"

lemma reply_with_grow: "\<exists>v. ct_out (reply_with E cc n t s) = ct_out s @ v"
  by (auto simp: reply_with_def put_out_def Let_def split: option.splits)

lemma replies_grow: "\<exists>v. ct_out (reply E n t (lreplies E n ts s)) = ct_out s @ v"
proof (induction ts arbitrary: s)
  case Nil
  then show ?case using reply_with_grow [of E 32 n t s] by (simp add: reply_def)
next
  case (Cons u ts)
  obtain v where "ct_out (lreply E n u s) = ct_out s @ v"
    using reply_with_grow [of E 45 n _ s] by (auto simp: lreply_def)
  then show ?case using Cons [of "lreply E n u s"] by auto
qed

lemma reply_loop:
  assumes "ct_auth_type s = Some GSSAPI" "cc_auth_type c = Some GSSAPI" "cc_parse c = None"
    and "se_unsealed (cc_sec c) = se_sealed (ct_sec s)" "gss_inverse (fc_gss E)"
    and "gss_seals (fc_gss E) (ct_clevel s = PROT_P)" "reply_fits E m B"
    and "100 \<le> n" "n < 600" "n \<noteq> 227" "n \<noteq> 421"
    and "\<forall>t\<in>set (ts @ [t]). length t \<le> m \<and> (\<forall>c\<in>set t. c \<noteq> 10 \<and> c \<noteq> 255)"
    and "ct_out (reply E n t (lreplies E n ts s)) = ct_out s @ w" "cc_in c = w @ rest"
    and "rl_pflag r = 0" "orig = (if rl_cont r = 0 then 0 else n)"
  shows "\<exists>c'. getreply_loop (fc_gss E) B e [] orig r c = Some (int (n div 100), c') \<and> cc_code c' = int n \<and>
    cc_reply_string c' = code_digits n @ 32 # t @ [13] \<and> cc_in c' = rest \<and> cc_cout c' = cc_cout c \<and>
    se_unsealed (cc_sec c') = se_sealed (ct_sec (reply E n t (lreplies E n ts s)))"
  using assms
proof (induction ts arbitrary: s c w r orig)
  case Nil
  let ?P = "ct_clevel s = PROT_P"
  have t: "length t \<le> m" "\<forall>c\<in>set t. c \<noteq> 10 \<and> c \<noteq> 255" "n \<noteq> 0" "length t + 8 \<le> B"
    using Nil.prems(7,8,12) by (auto simp: reply_fits_def)
  obtain x where x: "gss_seal (fc_gss E) ?P (se_sealed (ct_sec s)) (reply_line_text n 32 t) = Some x"
      "length (radix_encode x) \<le> B"
      "reply_with E 32 n t s = s\<lparr>ct_sec := (ct_sec s)\<lparr>se_sealed := Suc (se_sealed (ct_sec s))\<rparr>,
         ct_out := ct_out s @ c_string (if ?P then ''632'' else ''631'') @ 32 # radix_encode x @ [13, 10]\<rparr>"
    using reply_with_sealed [OF Nil.prems(1,6,7) t(1,3)] by blast
  have w: "cc_in c = c_string (if ?P then ''632'' else ''631'') @ 32 # radix_encode x @ 13 # 10 # rest"
    using Nil.prems(13,14) x(3) by (auto simp: reply_def)
  have sl: "gss_seal (fc_gss E) ?P (se_unsealed (cc_sec c)) (reply_line_text n 32 t) = Some x"
    using x(1) Nil.prems(4) by simp
  have cc: "(32 :: byte) \<in> {32, 45}" by simp
  obtain r' c1 where r: "getreply_loop (fc_gss E) B e [] orig r c =
      (case getreply_decode (fc_gss E) B orig (of_nat (n div 100) + 48) r' c1 of
         None \<Rightarrow> None
       | Some (Reply_done v) \<Rightarrow> Some v
       | Some (Next_line ibuf orig r st) \<Rightarrow> getreply_loop (fc_gss E) B e ibuf orig r st)"
      "line_read rest c c1" "cc_code c1 = int (rl_code r')" "rl_code r' = n" "rl_cont r' = rl_cont r" "rl_obuf r' = []"
      "rl_str r' = reply_line_text n 32 t @ [13]"
    using sealed_line_rounds [where cc = 32 and e = e and orig = orig, OF Nil.prems(2,3,15,5) sl x(2) t(4) Nil.prems(8-10) cc t(2) w]
    by (elim exE conjE) (rule that, assumption+, simp_all)
  have d9: "n div 100 < 10" using Nil.prems(9) by auto
  have d: "uint (of_nat (n div 100) + 48 :: byte) - 48 = int (n div 100)"
    unfolding uint_nat digit_byte(1) [OF d9] by simp
  have n: "\<not> (rl_cont r > 0 \<and> n \<noteq> orig)" "orig \<noteq> 421" using Nil.prems(11,16) by auto
  have cp: "cc_parse c1 = None" using r(2) Nil.prems(3) by (simp add: line_read_def)
  have dec: "getreply_decode (fc_gss E) B orig (of_nat (n div 100) + 48) r' c1 =
      Some (Reply_done (reply_done (of_nat (n div 100) + 48) orig r' c1))"
    using n(1) r(4,5,6) by (simp add: getreply_decode_def Let_def cstring_def)
  have fin: "reply_done (of_nat (n div 100) + 48) orig r' c1 = (int (n div 100), c1\<lparr>cc_reply_string := rl_str r',
      cc_cpend := if of_nat (n div 100) + 48 \<noteq> (49 :: byte) then False else cc_cpend c1\<rparr>)"
    using r(4) Nil.prems(11) n(2) cp d by (simp add: reply_done_def)
  show ?case
    using r(1) dec fin r(2,3,4,7) x(3) Nil.prems(4)
    by (simp add: line_read_def reply_line_text_def reply_def del: of_nat_div)
next
  case (Cons u ts)
  let ?P = "ct_clevel s = PROT_P"
  have t: "length u \<le> m" "\<forall>c\<in>set u. c \<noteq> 10 \<and> c \<noteq> 255" "n \<noteq> 0" "length u + 8 \<le> B" "length u < fc_bufsiz E"
    using Cons.prems(7,8,12) by (auto simp: reply_fits_def)
  obtain x where x: "gss_seal (fc_gss E) ?P (se_sealed (ct_sec s)) (reply_line_text n 45 u) = Some x"
      "length (radix_encode x) \<le> B"
      "reply_with E 45 n u s = s\<lparr>ct_sec := (ct_sec s)\<lparr>se_sealed := Suc (se_sealed (ct_sec s))\<rparr>,
         ct_out := ct_out s @ c_string (if ?P then ''632'' else ''631'') @ 45 # radix_encode x @ [13, 10]\<rparr>"
    using reply_with_sealed [OF Cons.prems(1,6,7) t(1,3)] by blast
  define s1 where "s1 = lreply E n u s"
  have s1: "s1 = s\<lparr>ct_sec := (ct_sec s)\<lparr>se_sealed := Suc (se_sealed (ct_sec s))\<rparr>,
         ct_out := ct_out s @ c_string (if ?P then ''632'' else ''631'') @ 45 # radix_encode x @ [13, 10]\<rparr>"
    using x(3) t(5) by (simp add: s1_def lreply_def)
  obtain v where v: "ct_out (reply E n t (lreplies E n ts s1)) = ct_out s1 @ v" using replies_grow by blast
  then have w: "w = c_string (if ?P then ''632'' else ''631'') @ 45 # radix_encode x @ 13 # 10 # v"
    using Cons.prems(13) s1 by (auto simp: s1_def)
  have inp: "cc_in c = c_string (if ?P then ''632'' else ''631'') @ 45 # radix_encode x @ 13 # 10 # v @ rest"
    using Cons.prems(14) w by simp
  have sl: "gss_seal (fc_gss E) ?P (se_unsealed (cc_sec c)) (reply_line_text n 45 u) = Some x"
    using x(1) Cons.prems(4) by simp
  have cc: "(45 :: byte) \<in> {32, 45}" by simp
  obtain r' c1 where r: "getreply_loop (fc_gss E) B e [] orig r c =
      (case getreply_decode (fc_gss E) B orig (of_nat (n div 100) + 48) r' c1 of
         None \<Rightarrow> None
       | Some (Reply_done v) \<Rightarrow> Some v
       | Some (Next_line ibuf orig r st) \<Rightarrow> getreply_loop (fc_gss E) B e ibuf orig r st)"
      "line_read (v @ rest) c c1" "rl_code r' = (if rl_cont r > 0 then 0 else n)" "rl_cont r' = Suc (rl_cont r)"
      "rl_obuf r' = []" "rl_pflag r' = 0"
    using sealed_line_rounds [where cc = 45 and e = e and orig = orig, OF Cons.prems(2,3,15,5) sl x(2) t(4) Cons.prems(8-10) cc t(2) inp]
    by (elim exE conjE) (rule that, assumption+, simp_all)
  have dec: "getreply_decode (fc_gss E) B orig (of_nat (n div 100) + 48) r' c1 = Some (Next_line [] n r' c1)"
    using Cons.prems(16) t(3) r(3,4,5) by (simp add: getreply_decode_def Let_def cstring_def)
  have "\<exists>c'. getreply_loop (fc_gss E) B e [] n r' c1 = Some (int (n div 100), c') \<and> cc_code c' = int n \<and>
    cc_reply_string c' = code_digits n @ 32 # t @ [13] \<and> cc_in c' = rest \<and> cc_cout c' = cc_cout c1 \<and>
    se_unsealed (cc_sec c') = se_sealed (ct_sec (reply E n t (lreplies E n ts s1)))"
    by (rule Cons.IH [OF _ _ _ _ Cons.prems(5) _ Cons.prems(7-11) _ v])
      (use Cons.prems r s1 in \<open>auto simp: line_read_def\<close>)
  then show ?case using r(1,2) dec by (simp add: line_read_def s1_def del: of_nat_div)
qed

text \<open>
  C2. Replies arrive. After the authentication a reply of the server, of any number of lines, reaches the
  client whole: \<open>getreply\<close> returns the first digit of its code, and has the code, the last line
  in \<open>reply_string\<close> and nothing else of the input.
\<close>

theorem replies_arrive:
  assumes "ct_auth_type s = Some GSSAPI" "cc_auth_type c = Some GSSAPI" "cc_parse c = None"
    and "se_unsealed (cc_sec c) = se_sealed (ct_sec s)" "gss_inverse (fc_gss E)"
    and "gss_seals (fc_gss E) (ct_clevel s = PROT_P)" "reply_fits E m B"
    and "100 \<le> n" "n < 600" "n \<noteq> 227" "n \<noteq> 421"
    and "\<forall>t\<in>set (ts @ [t]). length t \<le> m \<and> (\<forall>c\<in>set t. c \<noteq> 10 \<and> c \<noteq> 255)"
    and "ct_out (reply E n t (lreplies E n ts s)) = ct_out s @ w" "cc_in c = w @ rest"
  shows "\<exists>c'. getreply (fc_gss E) B e c = Some (int (n div 100), c') \<and> cc_code c' = int n \<and>
    cc_reply_string c' = code_digits n @ 32 # t @ [13] \<and> cc_in c' = rest \<and> cc_cout c' = cc_cout c \<and>
    se_unsealed (cc_sec c') = se_sealed (ct_sec (reply E n t (lreplies E n ts s)))"
  unfolding getreply_def by (rule reply_loop [OF assms]) (simp_all add: new_reply_def)

section \<open>Replies are authentic\<close>

lemma line_pasv_cont: "line_pasv c r = Some r' \<Longrightarrow> rl_cont r' = rl_cont r \<and> rl_n r' = rl_n r \<and> rl_dig r' = rl_dig r"
  by (simp add: line_pasv_def Let_def split: if_splits) auto

lemma line_collect_cont: "line_collect B p q c r = Some r' \<Longrightarrow> rl_cont r' = rl_cont r \<and> rl_n r' = rl_n r \<and> rl_dig r' = rl_dig r"
  by (auto simp: line_collect_def split: if_splits)

lemma line_char_cont:
  assumes "line_char B True parse c r = Some r'" shows "rl_cont r' = rl_cont r"
proof -
  define r0 where "r0 = (let r = r\<lparr>rl_dig := Suc (rl_dig r)\<rparr> in if rl_n r = 0 then r\<lparr>rl_n := c\<rparr> else r)"
  have r0: "rl_cont r0 = rl_cont r" by (simp add: r0_def Let_def)
  obtain r1 where r1: "line_collect B True parse c r0 = Some r1"
    using assms by (auto simp: line_char_def r0_def Let_def split: option.splits)
  show ?thesis
  proof (cases "rl_n r1 = 54")
    case False
    then show ?thesis using assms r1 r0 line_collect_cont [OF r1] by (simp add: line_char_def r0_def Let_def)
  next
    case True
    define r2 where "r2 = (if rl_dig r1 < 4 \<and> isdigit c then r1\<lparr>rl_code := rl_code r1 * 10 + (unat c - 48)\<rparr> else r1)"
    have r2: "rl_cont r2 = rl_cont r1" "rl_n r2 = 54" using True by (simp_all add: r2_def)
    obtain r3 where r3: "line_pasv c r2 = Some r3"
      using assms r1 True by (simp add: line_char_def r0_def r2_def Let_def split: option.splits)
    have "r' = add_str B c r3"
      using assms r1 r3 True r2(2) line_pasv_cont [OF r3] by (simp add: line_char_def r0_def r2_def Let_def add_str_def)
    then show ?thesis using line_pasv_cont [OF r3] r2(1) line_collect_cont [OF r1] r0 by simp
  qed
qed

lemma net_line_cont: "net_line B True parse inp r out = Some (l, r', rest, out') \<Longrightarrow> rl_cont r' = rl_cont r"
proof (induction B "True" parse inp r out rule: net_line.induct)
  case (2 B parse c cs r out)
  then show ?case using line_char_cont by (auto split: if_splits list.splits option.splits)
qed auto

lemma loop_authentic:
  assumes "getreply_loop G B e ibuf orig r c = Some (v, c')" "ibuf = []" "rl_cont r = 0" "cc_auth_type c \<noteq> None" "v \<in> {1, 2, 3}"
  shows "\<exists>x msg. gss_unseal G (se_unsealed (cc_sec c)) x = Some msg"
  using assms
proof (induction G B e ibuf orig r c rule: getreply_loop.induct)
  case (1 G B e ibuf orig r c)
  have ib: "\<not> from_ibuf ibuf" using "1.prems"(2) by (simp add: from_ibuf_def)
  obtain rd where rd: "getreply_round G B e ibuf orig r c = Some rd"
    using "1.prems"(1) by (auto simp: getreply_loop.simps [of G B e ibuf] split: option.splits)
  have a: "(cc_auth_type c \<noteq> None) = True" using "1.prems"(4) by simp
  obtain l r1 inp out where n: "net_line B True (cc_parse c \<noteq> None) (cc_in c) (new_line r) [] = Some (l, r1, inp, out)"
    using rd ib a by (auto simp: getreply_round_def Let_def split: option.splits)
  let ?c = "line_done r1 inp out c"
  have cont: "rl_cont r1 = 0" using net_line_cont [OF n] "1.prems"(3) by (simp add: new_line_def)
  have auth: "cc_auth_type ?c \<noteq> None" "cc_sec ?c = cc_sec c" using "1.prems"(4) by (simp_all add: line_done_def)
  show ?case
  proof (cases l)
    case Input_end
    then show ?thesis
      using "1.prems"(1,5) rd n ib a by (auto simp: getreply_loop.simps [of G B e ibuf] getreply_round_def Let_def split: if_splits)
  next
    case Line_end
    show ?thesis
    proof (cases "rl_n r1 = 54")
      case False
      then have nx: "rd = Next_line [] 0 new_reply ?c"
        using rd n ib a Line_end by (simp add: getreply_round_def Let_def)
      have "getreply_loop G B e [] 0 new_reply ?c = Some (v, c')"
        using "1.prems"(1) rd nx by (simp add: getreply_loop.simps [of G B e ibuf])
      from "1.IH" [OF _ nx this] rd auth "1.prems"(5) show ?thesis by (simp add: new_reply_def)
    next
      case True
      then obtain n0 where d: "getreply_decode G B orig n0 r1 ?c = Some rd" "n0 \<in> {53, 54}"
        using rd n ib a Line_end by (auto simp: getreply_round_def Let_def split: if_splits)
      show ?thesis
      proof (rule ccontr)
        assume no: "\<not> ?thesis"
        then obtain n1 where "rd = Reply_done (reply_done n1 orig r1 ?c)" "n1 \<in> {53, 54}"
          using d cont auth by (auto simp: getreply_decode_def Let_def split: if_splits sum.splits option.splits)
        then have "Some (reply_done n1 orig r1 ?c) = Some (v, c')" "n1 \<in> {53, 54}"
          using "1.prems"(1) rd by (simp_all add: getreply_loop.simps [of G B e ibuf])
        then have "v = uint n1 - 48" by (simp add: reply_done_def Let_def)
        then show False using \<open>n1 \<in> {53, 54}\<close> "1.prems"(5) by auto
      qed
    qed
  qed
qed

text \<open>
  C3. After the authentication the client takes a reply for a positive one only when a message has come that
  the security context accepts as the next one of the server: lines in clear text are skipped, and what
  does not unseal is an error.
\<close>

theorem positive_reply_authentic:
  assumes "getreply G B e c = Some (v, c')" "v \<in> {1, 2, 3}" "cc_auth_type c = Some GSSAPI"
  shows "\<exists>x msg. gss_unseal G (se_unsealed (cc_sec c)) x = Some msg"
  by (rule loop_authentic [OF assms(1) [unfolded getreply_def] refl]) (use assms in \<open>simp_all add: new_reply_def\<close>)

text \<open>
  C4. A forged line is accepted. Within a reply of several lines a line whose text does not unseal is not
  refused: the decoded text is still in \<open>ibuf\<close>, and the loop reads it as if it had been unsealed. So after an
  authentic first line whoever is between the two ends the reply with a text of his own.
\<close>

theorem forged_reply_accepted:
  assumes c: "cc_auth_type c = Some GSSAPI" "cc_parse c = None"
    and seal: "gss_inverse G" "gss_seal G cf (se_unsealed (cc_sec c)) (reply_line_text n 45 u) = Some x"
    and len: "length (radix_encode x) \<le> B" "length u + 8 \<le> B" "length t + 8 \<le> B"
    and n: "100 \<le> n" "n < 600" "n \<noteq> 227" "n \<noteq> 421"
    and t: "\<forall>c\<in>set (u @ t). c \<noteq> 10 \<and> c \<noteq> 255"
    and forged: "forged = reply_line_text n 32 t @ [13, 10]" "length (radix_encode forged) \<le> B"
      "gss_unseal G (Suc (se_unsealed (cc_sec c))) forged = None"
    and inp: "cc_in c = c_string (if cf then ''632'' else ''631'') @ 45 # radix_encode x @ 13 # 10 #
      c_string ''631'' @ 32 # radix_encode forged @ 13 # 10 # rest"
  shows "\<exists>c'. getreply G B e c = Some (int (n div 100), c') \<and> cc_reply_string c' = reply_line_text n 32 t @ [13] \<and>
    cc_in c' = rest"
proof -
  have u: "\<forall>c\<in>set u. c \<noteq> 10 \<and> c \<noteq> 255" and v: "\<forall>c\<in>set t. c \<noteq> 10 \<and> c \<noteq> 255" using t by auto
  have cc: "(45 :: byte) \<in> {32, 45}" "(32 :: byte) \<in> {32, 45}" by simp_all
  have p0: "rl_pflag new_reply = 0" by (simp add: new_reply_def)
  obtain r1 c1 where r1: "getreply_loop G B e [] 0 new_reply c =
      (case getreply_decode G B 0 (of_nat (n div 100) + 48) r1 c1 of
         None \<Rightarrow> None
       | Some (Reply_done v) \<Rightarrow> Some v
       | Some (Next_line ibuf orig r st) \<Rightarrow> getreply_loop G B e ibuf orig r st)"
      "line_read (c_string ''631'' @ 32 # radix_encode forged @ 13 # 10 # rest) c c1" "cc_code c1 = int (rl_code r1)"
      "rl_code r1 = (if (45 :: byte) = 45 \<and> rl_cont new_reply > 0 then 0 else n)"
      "rl_cont r1 = (if (45 :: byte) = 45 then Suc (rl_cont new_reply) else rl_cont new_reply)"
      "rl_obuf r1 = []" "rl_pflag r1 = 0" "rl_str r1 = reply_line_text n 45 u @ [13]"
    using sealed_line_rounds [where cc = 45 and e = e and orig = 0, OF c p0 seal len(1,2) n(1-3) cc(1) u inp]
    by (elim exE conjE) (rule that, assumption+)
  have k: "rl_code r1 = n" "rl_cont r1 = 1" using r1(4,5) by (simp_all add: new_reply_def)
  have "getreply_decode G B 0 (of_nat (n div 100) + 48) r1 c1 = Some (Next_line [] n r1 c1)"
    using k r1(6) n(1) by (simp add: getreply_decode_def Let_def cstring_def)
  then have l1: "getreply_loop G B e [] 0 new_reply c = getreply_loop G B e [] n r1 c1" using r1(1) by simp
  have c1: "cc_auth_type c1 = Some GSSAPI" "cc_parse c1 = None"
      "cc_in c1 = c_string ''631'' @ 32 # radix_encode forged @ 13 # 10 # rest"
      "se_unsealed (cc_sec c1) = Suc (se_unsealed (cc_sec c))"
    using r1(2) c by (simp_all add: line_read_def)
  have b: "\<forall>c\<in>set (radix_encode forged). c \<noteq> 10 \<and> c \<noteq> 13 \<and> c \<noteq> 255" "0 \<notin> set (radix_encode forged)"
    using radix_encode_plain [of _ forged] by blast+
  obtain r2 where r2: "net_line B True False (cc_in c1) (new_line r1) [] = Some (Line_end, r2, rest, [])"
      "rl_n r2 = 54" "rl_code r2 = 631" "rl_obuf r2 = radix_encode forged" "rl_cont r2 = 1" "rl_pflag r2 = 0"
    using net_line_sealed [OF b(1) r1(7) forged(2) cc(2), of False rest] k(2) unfolding c1(3) by auto
  have "radix_encode forged \<noteq> []"
    using radix_encode_length [of forged] forged(1) by (auto simp: reply_line_text_def)
  then have o: "cstring (rl_obuf r2) = radix_encode forged" "radix_encode forged \<noteq> []" using r2(4) b(2) by (simp_all add: cstring_id)
  define c2 where "c2 = line_done r2 rest [] c1"
  have c2: "cc_parse c2 = None" "cc_in c2 = rest" "se_unsealed (cc_sec c2) = Suc (se_unsealed (cc_sec c))"
    using c1 by (simp_all add: c2_def line_done_def)
  have "getreply_decode G B n 54 r2 c2 = Some (Next_line forged n r2 c2)"
    using o c2(3) forged(3) r2(3,5) n(1,2) by (simp add: getreply_decode_def Let_def radix_decode_encode)
  then have "getreply_round G B e [] n r1 c1 = Some (Next_line forged n r2 c2)"
    using r2(1-3) c1(1,2) by (simp add: getreply_round_def from_ibuf_def Let_def c2_def)
  then have l2: "getreply_loop G B e [] n r1 c1 = getreply_loop G B e forged n r2 c2"
    by (simp add: getreply_loop.simps [of G B e "[]"])
  obtain r3 where r3: "ibuf_line B False forged (new_line r2) = Some (Line_end, r3)"
      "rl_n r3 = of_nat (n div 100) + 48" "rl_code r3 = n" "rl_cont r3 = 1" "rl_obuf r3 = []" "rl_str r3 = reply_line_text n 32 t @ [13]"
    using ibuf_line_text [OF n(2,3) cc(2) v len(3) r2(6)] r2(5) by (auto simp: forged(1))
  have d: "n div 100 < 10" "n div 100 < 6" using n(2) by auto
  have six: "of_nat (n div 100) + 48 \<noteq> (54 :: byte)"
    by (rule byte_neqI, unfold digit_byte(1) [OF d(1)]) (use d(2) in simp)
  have num: "uint (of_nat (n div 100) + 48 :: byte) - 48 = int (n div 100)"
    unfolding uint_nat digit_byte(1) [OF d(1)] by simp
  have hd: "from_ibuf forged"
    using digit_byte(5) [OF d(1)] by (simp add: forged(1) from_ibuf_def reply_line_text_def code_digits_def)
  define c3 where "c3 = line_done r3 rest [] c2"
  have c3: "cc_parse c3 = None" "cc_in c3 = rest" using c2 by (simp_all add: c3_def line_done_def)
  have "getreply_round G B e forged n r2 c2 = getreply_decode G B n (of_nat (n div 100) + 48) r3 c3"
    using hd r3(1,2) c2 six by (simp add: getreply_round_def Let_def c3_def)
  also have "\<dots> = Some (Reply_done (reply_done (of_nat (n div 100) + 48) n r3 c3))"
    using r3(3,5) by (simp add: getreply_decode_def Let_def cstring_def)
  also have "reply_done (of_nat (n div 100) + 48) n r3 c3 = (int (n div 100), c3\<lparr>cc_reply_string := rl_str r3,
      cc_cpend := if of_nat (n div 100) + 48 \<noteq> (49 :: byte) then False else cc_cpend c3\<rparr>)"
    using r3(3) n(4) c3 num by (simp add: reply_done_def)
  finally have "getreply_loop G B e forged n r2 c2 = Some (int (n div 100), c3\<lparr>cc_reply_string := rl_str r3,
      cc_cpend := if of_nat (n div 100) + 48 \<noteq> (49 :: byte) then False else cc_cpend c3\<rparr>)"
    by (simp add: getreply_loop.simps [of G B e forged])
  then show ?thesis using l1 l2 r3(6) c3 by (simp add: getreply_def)
qed

section \<open>Examples\<close>

definition demo_conf :: ftpd_conf where
  "demo_conf =
     \<lparr>fc_gss = demo_gss, fc_gss_text = [], fc_bufsiz = 40, fc_authlevel = 1, fc_want_creds = False,
      fc_allow_ccc = False\<rparr>"

definition demo_ctl :: "byte list \<Rightarrow> ctl" where
  "demo_ctl inp =
     \<lparr>ct_auth_type = Some GSSAPI, ct_clevel = PROT_P, ct_ccc_ok = False, ct_tmpline = [], ct_sec = demo_secure PROT_C,
      ct_in = inp, ct_out = []\<rparr>"

definition demo_cctl :: "byte list \<Rightarrow> cctl" where
  "demo_cctl inp =
     \<lparr>cc_auth_type = Some GSSAPI, cc_clevel = PROT_P, cc_sec = demo_secure PROT_C, cc_connected = True, cc_cpend = False,
      cc_code = 0, cc_reply_string = [], cc_parse = None, cc_reply_buf = [], cc_pasv = [], cc_in = inp, cc_cout = []\<rparr>"

lemma demo_simps:
  "cc_auth_type (demo_cctl i) = Some GSSAPI" "cc_clevel (demo_cctl i) = PROT_P" "cc_parse (demo_cctl i) = None"
  "cc_in (demo_cctl i) = i" "cc_cout (demo_cctl i) = []" "se_sealed (cc_sec (demo_cctl i)) = 0"
  "se_unsealed (cc_sec (demo_cctl i)) = 0" "ct_auth_type (demo_ctl i) = Some GSSAPI" "ct_clevel (demo_ctl i) = PROT_P"
  "ct_tmpline (demo_ctl i) = []" "ct_in (demo_ctl i) = i" "ct_out (demo_ctl i) = []"
  "se_sealed (ct_sec (demo_ctl i)) = 0" "se_unsealed (ct_sec (demo_ctl i)) = 0" "fc_gss demo_conf = demo_gss"
  "fc_authlevel demo_conf = 1" "fc_bufsiz demo_conf = 40"
  by (simp_all add: demo_cctl_def demo_ctl_def demo_conf_def demo_secure_def)

lemma demo_gss_length: "gss_seal demo_gss cf k p = Some x \<Longrightarrow> length x \<le> length p + 3"
  by (auto simp: demo_gss_def)

lemma demo_gss_laws: "gss_inverse demo_gss" "gss_seals demo_gss cf"
  using demo_gss_ok by (simp_all add: gss_ok_def)

lemma demo_fits: "seal_fits demo_gss 10 50" "reply_fits demo_conf 10 100"
proof -
  have fit: "length x < 40 * 3 div 2 div 4 * 3 \<and> length (radix_encode x) \<le> 24"
    if "length p \<le> 14" "gss_seal demo_gss cf k p = Some x" for cf k p x
  proof -
    have "length x \<le> 17" using demo_gss_length [OF that(2)] that(1) by simp
    then show ?thesis unfolding radix_encode_length using div_le_mono [of "length x + 2" 19 3] by simp
  qed
  show "seal_fits demo_gss 10 50"
    unfolding seal_fits_def
  proof (intro allI impI)
    fix cf k p x
    assume "length (p :: byte list) \<le> 10" "gss_seal demo_gss cf k p = Some x"
    then show "length (radix_encode x) + 6 \<le> 50" using fit [of p cf k x] by simp
  qed
  show "reply_fits demo_conf 10 100"
    unfolding reply_fits_def demo_simps
  proof (intro conjI allI impI)
    fix cf k p x
    assume "length (p :: byte list) \<le> 10 + 4" "gss_seal demo_gss cf k p = Some x"
    then show "length x < 40 * 3 div 2 div 4 * 3" "length (radix_encode x) \<le> 100" using fit [of p cf k x] by simp_all
  qed simp_all
qed

lemma commands_arrive_witness:
  "\<exists>c' s'. send_commands demo_gss 100 [[80, 87, 68], [80, 65, 83, 83, 32, 120]] (demo_cctl []) = Some c' \<and>
     get_commands demo_conf 50 (Suc (Suc 0)) (demo_ctl (cc_cout c')) =
       Some ([Some [80, 87, 68, 13, 10], Some [80, 65, 83, 83, 32, 120, 13, 10]], s')"
proof -
  let ?cmds = "[[80, 87, 68], [80, 65, 83, 83, 32, 120]] :: cstr list"
  have "send_commands demo_gss 100 ?cmds (demo_cctl []) \<noteq> None"
    by (simp add: secure_command_def demo_cctl_def demo_gss_def radix_encode_length demo_secure_def)
  then obtain c' where c': "send_commands (fc_gss demo_conf) 100 ?cmds (demo_cctl []) = Some c'" unfolding demo_simps by blast
  have "cc_cout c' = cc_cout (demo_cctl []) @ cc_cout c'" "ct_in (demo_ctl (cc_cout c')) = cc_cout c' @ []"
    by (simp_all add: demo_simps)
  from commands_arrive [where E = demo_conf and m = 10 and N = 50, OF _ _ _ _ _ _ _ _ _ c' this]
  show ?thesis using c' demo_gss_laws demo_fits by (auto simp: demo_simps)
qed

lemma replies_arrive_witness:
  "\<exists>w c'. ct_out (reply demo_conf 211 [101, 110, 100] (lreplies demo_conf 211 [[97], [98, 99]] (demo_ctl []))) = w \<and>
     getreply demo_gss 100 False (demo_cctl w) = Some (2, c') \<and>
     cc_reply_string c' = [50, 49, 49, 32, 101, 110, 100, 13]"
proof -
  let ?s = "reply demo_conf 211 [101, 110, 100] (lreplies demo_conf 211 [[97], [98, 99]] (demo_ctl []))"
  have w: "ct_out ?s = ct_out (demo_ctl []) @ ct_out ?s" "cc_in (demo_cctl (ct_out ?s)) = ct_out ?s @ []"
    by (simp_all add: demo_simps)
  from replies_arrive [where m = 10 and B = 100 and e = False, OF _ _ _ _ _ _ _ _ _ _ _ _ w]
  show ?thesis using demo_gss_laws demo_fits by (auto simp: demo_simps code_digits_def)
qed

text \<open>An authentic line, then one in clear text, which is skipped, and the last one.\<close>

definition demo_line :: "nat \<Rightarrow> byte \<Rightarrow> nat \<Rightarrow> cstr \<Rightarrow> byte list" where
  "demo_line k cc n t =
     c_string ''632'' @ cc # radix_encode (of_nat k # 1 # 0 # reply_line_text n cc t) @ [13, 10]"

lemma demo_sealed: "gss_seal demo_gss True k p = Some (of_nat k # 1 # 0 # p)"
  by (simp add: demo_gss_def)

lemma positive_reply_authentic_witness:
  "\<exists>v c'. getreply demo_gss 100 False (demo_cctl (demo_line 0 32 230 [111, 107])) = Some (v, c') \<and> v = 2 \<and>
     (\<exists>x msg. gss_unseal demo_gss 0 x = Some msg)"
proof -
  let ?c = "demo_cctl (demo_line 0 32 230 [111, 107])"
  have len: "length (radix_encode (0 # 1 # 0 # reply_line_text 230 32 [111, 107])) \<le> 100"
    unfolding radix_encode_length by (simp add: reply_line_text_def code_digits_def)
  have cc: "(32 :: byte) \<in> {32, 45}" by simp
  have seal: "gss_seal demo_gss True (se_unsealed (cc_sec ?c)) (reply_line_text 230 32 [111, 107]) =
      Some (0 # 1 # 0 # reply_line_text 230 32 [111, 107])"
    by (simp add: demo_sealed demo_simps)
  have inp: "cc_in ?c = c_string (if True then ''632'' else ''631'') @
      32 # radix_encode (0 # 1 # 0 # reply_line_text 230 32 [111, 107]) @ 13 # 10 # []"
    by (simp add: demo_simps demo_line_def)
  have p0: "rl_pflag new_reply = 0" by (simp add: new_reply_def)
  obtain r1 c1 where r1: "getreply_loop demo_gss 100 False [] 0 new_reply ?c =
      (case getreply_decode demo_gss 100 0 (of_nat (230 div 100) + 48) r1 c1 of
         None \<Rightarrow> None
       | Some (Reply_done v) \<Rightarrow> Some v
       | Some (Next_line ibuf orig r st) \<Rightarrow> getreply_loop demo_gss 100 False ibuf orig r st)"
      "rl_cont r1 = (if (32 :: byte) = 45 then Suc (rl_cont new_reply) else rl_cont new_reply)" "rl_obuf r1 = []"
    using sealed_line_rounds [where e = False and orig = 0, OF demo_simps(1,3) p0 demo_gss_laws(1) seal len _ _ _ _ cc _ inp]
    by auto
  then have "\<exists>c'. getreply demo_gss 100 False ?c = Some (2, c')"
    by (simp add: getreply_def getreply_decode_def cstring_def new_reply_def reply_done_def Let_def)
  then obtain c' where c': "getreply demo_gss 100 False ?c = Some (2, c')" by blast
  show ?thesis using positive_reply_authentic [OF c'] c' by (simp add: demo_simps)
qed

lemma forged_reply_accepted_witness:
  "\<exists>c'. getreply demo_gss 100 False
       (demo_cctl (demo_line 0 45 213 [97] @ c_string ''631'' @ 32 #
          radix_encode (reply_line_text 213 32 [104, 97, 33] @ [13, 10]) @ [13, 10])) = Some (2, c') \<and>
     cc_reply_string c' = [50, 49, 51, 32, 104, 97, 33, 13] \<and> cc_in c' = []"
proof -
  let ?f = "reply_line_text 213 32 [104, 97, 33] @ [13, 10]"
  let ?x = "0 # 1 # 0 # reply_line_text 213 45 [97]"
  let ?c = "demo_cctl (demo_line 0 45 213 [97] @ c_string ''631'' @ 32 # radix_encode ?f @ [13, 10])"
  have len: "length (radix_encode ?x) \<le> 100" "length (radix_encode ?f) \<le> 100"
    unfolding radix_encode_length by (simp_all add: reply_line_text_def code_digits_def)
  have seal: "gss_seal demo_gss True (se_unsealed (cc_sec ?c)) (reply_line_text 213 45 [97]) = Some ?x"
    by (simp add: demo_sealed demo_simps)
  have no: "gss_unseal demo_gss (Suc (se_unsealed (cc_sec ?c))) ?f = None"
    by (simp add: demo_gss_def reply_line_text_def code_digits_def demo_simps)
  have inp: "cc_in ?c = c_string (if True then ''632'' else ''631'') @ 45 # radix_encode ?x @ 13 # 10 #
      c_string ''631'' @ 32 # radix_encode ?f @ 13 # 10 # []"
    by (simp add: demo_simps demo_line_def)
  show ?thesis
    using forged_reply_accepted [where e = False, OF demo_simps(1,3) demo_gss_laws(1) seal len(1) _ _ _ _ _ _ _ refl len(2) no inp]
    by (simp add: reply_line_text_def code_digits_def)
qed

end
