(* ===== verification/FtpdLogin.thy ===== *)
theory FtpdLogin
  imports "FtpControl" "FtpTransfer" "Glob"
begin

text \<open>
  Who may use the FTP server (gssftp/ftpd/ftpd.c): the authentication (\<open>auth\<close>, \<open>auth_data\<close>), the login (\<open>user\<close>,
  \<open>pass\<close>, \<open>login\<close> and what they call), its end, and the protection of the data connection (\<open>setdlevel\<close>, and the
  actions for PBSZ, PROT and CCC of gssftp/ftpd/ftpcmd.y). Names and texts are C strings. The system calls, the
  password file, the Kerberos and the GSS library are a parameter.
\<close>

section \<open>Parameters\<close>

record passwd =
  pw_name :: cstr
  pw_passwd :: cstr
  pw_uid :: nat
  pw_gid :: nat
  pw_dir :: cstr
  pw_shell :: cstr

datatype gss_major = GSS_complete | GSS_continue | GSS_failure

text \<open>What \<open>gss_accept_sec_context\<close> returns: its status, the token to be sent, and whether there are credentials.\<close>

record gss_accepted =
  ga_major :: gss_major
  ga_token :: "byte list"
  ga_deleg :: bool

text \<open>
  A use of the file system on behalf of the client, and the record of one: by whom it is, whether he is
  logged in, and the effective user and the root of the process. The last three calls stand for the routines that
  list files, of which only the fact that they are called is modelled.
\<close>

datatype file_call =
    Call_stat cstr | Call_unlink cstr | Call_rmdir cstr | Call_mkdir cstr | Call_rename cstr cstr
  | Call_chmod cstr int | Call_chdir cstr | Call_getcwd | Call_umask "int option"
  | Call_open cstr cstr | Call_popen cstr | Call_list cstr | Call_status cstr | Call_size cstr

datatype file_result = File_error | File_dir | File_regular | File_other

record file_use =
  fu_call :: file_call
  fu_logged_in :: bool
  fu_guest :: bool
  fu_pw :: "passwd option"
  fu_euid :: nat
  fu_root :: "cstr list"

text \<open>
  Files are looked up below the current root, the directories of the \<open>chroot\<close> calls one below the other. The
  Kerberos calls are in the order of \<open>kpass\<close>: a name is parsed, the cache found and initialised, the server's
  principal built, the time read, credentials got with the password, and stored. A GSS context is
  what the library makes of the tokens it has been given. \<open>errno\<close> and its text are only of interest in replies.
  What a call on a file answers depends on the calls that have been made, the last of which it is; so does the
  content of a file that is opened, and what comes from a data connection.
\<close>

record ftpd_env = ftpd_conf +
  fe_getpwnam :: "cstr list \<Rightarrow> cstr \<Rightarrow> passwd option"
  fe_getspnam :: "cstr list \<Rightarrow> cstr \<Rightarrow> cstr option"
  fe_shells :: "cstr list \<Rightarrow> cstr list"
  fe_ftpusers :: "cstr list \<Rightarrow> byte list option"
  fe_crypt :: "cstr \<Rightarrow> cstr \<Rightarrow> cstr option"
  fe_parse_name :: "cstr \<Rightarrow> bool"
  fe_cc_resolve :: bool
  fe_cc_initialize :: "cstr \<Rightarrow> bool"
  fe_build_principal :: bool
  fe_timeofday :: bool
  fe_init_creds :: "cstr \<Rightarrow> cstr \<Rightarrow> bool"
  fe_store_cred :: bool
  fe_kuserok :: "cstr \<Rightarrow> cstr \<Rightarrow> bool"
  fe_hostname :: bool
  fe_canonical :: bool
  fe_accept :: "byte list list \<Rightarrow> gss_accepted"
  fe_display_name :: "byte list list \<Rightarrow> cstr option"
  fe_copy_ccache :: bool
  fe_setgid :: "nat \<Rightarrow> bool"
  fe_initgroups :: "cstr \<Rightarrow> nat \<Rightarrow> bool"
  fe_seteuid :: "nat \<Rightarrow> bool"
  fe_chroot :: "cstr list \<Rightarrow> cstr \<Rightarrow> bool"
  fe_chdir :: "cstr list \<Rightarrow> cstr \<Rightarrow> bool"
  fe_malloc :: "nat \<Rightarrow> byte list option"
  fe_glob :: "cstr list \<Rightarrow> globenv"
  fe_file :: "file_use list \<Rightarrow> file_result"
  fe_open :: "file_use list \<Rightarrow> fd option"
  fe_size :: "file_use list \<Rightarrow> nat"
  fe_seek :: bool
  fe_getcwd :: "cstr option"
  fe_socket :: bool
  fe_bind :: bool
  fe_listen :: bool
  fe_pasv_text :: cstr
  fe_accept_data :: bool
  fe_datasock :: bool
  fe_connect :: bool
  fe_stream :: "file_use list \<Rightarrow> fd"
  fe_maxtimeout :: nat
  fe_info :: "cstr \<Rightarrow> (bool \<times> nat \<times> cstr) list"
  fe_errno :: cstr
  fe_strerror :: cstr

section \<open>State\<close>

datatype ended = Running | Exited | Crashed

text \<open>
  The variables of the program; from \<open>f_root\<close> on the process: its root and working directory, its effective
  user and group and its groups, whether it has ended, and its uses of the file system. \<open>f_tokens\<close> is
  \<open>gcontext\<close>. \<open>home\<close> is used for file name patterns. \<open>f_port\<close> is \<open>data_dest\<close> when it has been set with PORT.
\<close>

record ftpd = ctl +
  f_temp_auth :: "cstr option"
  f_tokens :: "byte list list"
  f_client :: cstr
  f_authorized :: bool
  f_have_creds :: bool
  f_logged_in :: bool
  f_guest :: bool
  f_restricted :: bool
  f_askpasswd :: bool
  f_attempts :: nat
  f_pw :: "passwd option"
  f_home :: cstr
  f_type :: ftp_type
  f_port :: "(byte list \<times> nat) option"
  f_passive :: bool
  f_restart :: nat
  f_fromname :: "cstr option"
  f_timeout :: nat
  f_globerr :: "glob_error option"
  f_root :: "cstr list"
  f_cwd :: cstr
  f_euid :: nat
  f_egid :: nat
  f_groups :: "(cstr \<times> nat) option"
  f_end :: ended
  f_uses :: "file_use list"

definition krb5_seteuid :: "ftpd_env \<Rightarrow> nat \<Rightarrow> ftpd \<Rightarrow> bool \<times> ftpd" where
  "krb5_seteuid E uid st = (fe_seteuid E uid, if fe_seteuid E uid then st\<lparr>f_euid := uid\<rparr> else st)"

definition chdir :: "ftpd_env \<Rightarrow> cstr \<Rightarrow> ftpd \<Rightarrow> bool \<times> ftpd" where
  "chdir E dir st = (fe_chdir E (f_root st) dir, if fe_chdir E (f_root st) dir then st\<lparr>f_cwd := dir\<rparr> else st)"

definition dologout :: "ftpd_env \<Rightarrow> ftpd \<Rightarrow> ftpd" where
  "dologout E st = (if f_logged_in st then snd (krb5_seteuid E 0 st) else st)\<lparr>f_end := Exited\<rparr>"

section \<open>Accounts\<close>

definition sgetpwnam :: "ftpd_env \<Rightarrow> cstr list \<Rightarrow> cstr \<Rightarrow> passwd option" where
  "sgetpwnam E root name =
     map_option (\<lambda>p. case fe_getspnam E root name of None \<Rightarrow> p | Some h \<Rightarrow> p\<lparr>pw_passwd := h\<rparr>) (fe_getpwnam E root name)"

definition isspace :: "byte \<Rightarrow> bool" where "isspace c = (c = 32 \<or> 9 \<le> c \<and> c \<le> 13)"

text \<open>What \<open>fgets\<close> makes of a file with a buffer of \<open>n\<close> characters: its lines, longer ones in pieces.\<close>

fun fgets_lines :: "nat \<Rightarrow> cstr \<Rightarrow> byte list \<Rightarrow> cstr list" where
  "fgets_lines n s [] = (if s = [] then [] else [s])"
| "fgets_lines n s (c # cs) =
     (if c = 10 \<or> length s + 2 \<ge> n then (s @ [c]) # fgets_lines n [] cs else fgets_lines n (s @ [c]) cs)"

text \<open>One line of ftpusers: 1 when it disallows the user, \<open>- 1\<close> when it restricts him.\<close>

definition checkuser_line :: "cstr \<Rightarrow> cstr \<Rightarrow> int option" where
  "checkuser_line name s =
     (let line = cstring s
      in if 10 \<notin> set line then None
         else
           let line = takeWhile (\<lambda>c. c \<noteq> 10) line
           in if line \<noteq> [] \<and> hd line = 35 then None
              else if line = name then Some 1
              else if take (length name) line = name then
                let rest = drop (length name) line
                in if rest = [] \<or> \<not> isspace (hd rest) then None
                   else if dropWhile isspace (tl rest) = c_string ''restrict'' then Some (- 1)
                   else Some 1
              else None)"

fun checkuser_lines :: "cstr \<Rightarrow> cstr list \<Rightarrow> int" where
  "checkuser_lines name [] = 0"
| "checkuser_lines name (s # ss) = (case checkuser_line name s of Some r \<Rightarrow> r | None \<Rightarrow> checkuser_lines name ss)"

definition checkuser :: "ftpd_env \<Rightarrow> cstr list \<Rightarrow> cstr \<Rightarrow> int" where
  "checkuser E root name =
     (case fe_ftpusers E root of
        None \<Rightarrow> 0
      | Some text \<Rightarrow> checkuser_lines name (fgets_lines (fc_bufsiz E) [] text))"

definition disallowed_user :: "ftpd_env \<Rightarrow> cstr list \<Rightarrow> cstr \<Rightarrow> bool" where
  "disallowed_user E root name = (checkuser E root name = 1)"

definition restricted_user :: "ftpd_env \<Rightarrow> cstr list \<Rightarrow> cstr \<Rightarrow> bool" where
  "restricted_user E root name = (checkuser E root name = - 1)"

definition shell_ok :: "ftpd_env \<Rightarrow> cstr list \<Rightarrow> passwd \<Rightarrow> bool" where
  "shell_ok E root p = ((if pw_shell p = [] then c_string ''/bin/sh'' else pw_shell p) \<in> set (fe_shells E root))"

section \<open>Login\<close>

definition end_login :: "ftpd_env \<Rightarrow> ftpd \<Rightarrow> ftpd" where
  "end_login E st =
     (snd (krb5_seteuid E 0 st))\<lparr>f_have_creds := False, f_pw := None, f_logged_in := False, f_guest := False\<rparr>"

text \<open>\<open>login\<close> after the root has been changed, and its end.\<close>

definition login_done :: "ftpd_env \<Rightarrow> passwd \<Rightarrow> ftpd \<Rightarrow> ftpd" where
  "login_done E p st =
     (let st =
        (if f_guest st then reply E 230 (c_string ''Guest login ok, access restrictions apply.'') st
         else if f_askpasswd st then
           reply E 230 (c_string ''User '' @ pw_name p @ c_string '' logged in.'') (st\<lparr>f_askpasswd := False\<rparr>)
         else st)
      in st\<lparr>f_home := pw_dir p\<rparr>)"

definition login_home :: "ftpd_env \<Rightarrow> passwd \<Rightarrow> nat \<Rightarrow> ftpd \<Rightarrow> ftpd" where
  "login_home E p logincode st =
     (if f_guest st then
        (case chdir E (c_string ''/'') st of
           (ok, st) \<Rightarrow>
             if ok then login_done E p st
             else end_login E (reply E 550 (c_string ''Can't set guest privileges.'') st))
      else
        (case chdir E (if f_restricted st then c_string ''/'' else pw_dir p) st of
           (True, st) \<Rightarrow> login_done E p st
         | (False, st) \<Rightarrow>
             (case chdir E (c_string ''/'') st of
                (False, st) \<Rightarrow>
                  end_login E (reply E 530 (c_string ''User '' @ pw_name p @ c_string '': can't change directory to '' @
                    pw_dir p @ c_string ''.'') st)
              | (True, st) \<Rightarrow>
                  login_done E p (lreply E (if logincode = 0 then 230 else logincode)
                    (c_string ''No directory! Logging in with home=/'') st))))"

definition login_user :: "ftpd_env \<Rightarrow> passwd \<Rightarrow> nat \<Rightarrow> ftpd \<Rightarrow> ftpd" where
  "login_user E p logincode st =
     (case krb5_seteuid E (pw_uid p) st of
        (False, st) \<Rightarrow> end_login E (reply E 550 (c_string ''Can't set uid.'') st)
      | (True, st) \<Rightarrow> login_home E p logincode st)"

text \<open>Without an account the program follows a null pointer.\<close>

definition login :: "ftpd_env \<Rightarrow> nat \<Rightarrow> ftpd \<Rightarrow> ftpd" where
  "login E logincode st =
     (case f_pw st of
        None \<Rightarrow> st\<lparr>f_end := Crashed\<rparr>
      | Some p \<Rightarrow>
          if \<not> fe_setgid E (pw_gid p) then end_login E (reply E 550 (c_string ''Can't set gid.'') st)
          else
            let st = st\<lparr>f_egid := pw_gid p\<rparr>
            in if f_euid st = 0 \<and> \<not> fe_initgroups E (pw_name p) (pw_gid p) then
                 end_login E (reply E 550 (c_string ''Can't initialize groups.'') st)
               else
                 let st = (if f_euid st = 0 then st\<lparr>f_groups := Some (pw_name p, pw_gid p)\<rparr> else st)\<lparr>f_logged_in := True\<rparr>
                 in if f_guest st \<or> f_restricted st then
                      if fe_chroot E (f_root st) (pw_dir p) then
                        login_user E p logincode (st\<lparr>f_root := f_root st @ [pw_dir p]\<rparr>)
                      else end_login E (reply E 550 (c_string ''Can't set privileges.'') st)
                    else login_user E p logincode st)"

text \<open>A name that is known without a password: \<open>ftp\<close> or \<open>anonymous\<close>.\<close>

definition user_guest :: "ftpd_env \<Rightarrow> cstr \<Rightarrow> ftpd \<Rightarrow> ftpd" where
  "user_guest E name st =
     (if disallowed_user E (f_root st) (c_string ''ftp'') \<or> disallowed_user E (f_root st) (c_string ''anonymous'') then
        reply E 530 (c_string ''User '' @ name @ c_string '' access denied.'') st
      else
        let st = st\<lparr>f_pw := sgetpwnam E (f_root st) (c_string ''ftp'')\<rparr>
        in if f_pw st \<noteq> None then
             reply E 331 (c_string ''Guest login ok, send ident as password.'') (st\<lparr>f_guest := True, f_askpasswd := True\<rparr>)
           else reply E 530 (c_string ''User '' @ name @ c_string '' unknown.'') st)"

definition ftpd_gss_userok :: "ftpd_env \<Rightarrow> cstr \<Rightarrow> cstr \<Rightarrow> int" where
  "ftpd_gss_userok E client name =
     (if \<not> fe_parse_name E client then - 1 else if fe_kuserok E client name then 0 else 1)"

text \<open>
  A user who has authenticated; the only authentication type is GSSAPI. The text goes through a buffer of
  \<open>FTP_BUFSIZ\<close> characters.
\<close>

definition user_text :: "ftpd_env \<Rightarrow> cstr \<Rightarrow> bool \<Rightarrow> cstr \<Rightarrow> cstr" where
  "user_text E client authorized name =
     (let len = length (c_string ''GSSAPI user  is not authorized as ; Password required.'') + 1 + length client + length name;
          name = (if len \<ge> fc_bufsiz E then c_string ''[username too long]'' else name)
      in take (fc_bufsiz E - 1)
           (c_string ''GSSAPI user '' @ client @ c_string '' is'' @ (if authorized then [] else c_string '' not'') @
            c_string '' authorized as '' @ name))"

definition user_authenticated :: "ftpd_env \<Rightarrow> cstr \<Rightarrow> ftpd \<Rightarrow> ftpd" where
  "user_authenticated E name st =
     (let authorized = (ftpd_gss_userok E (f_client st) name = 0);
          st = st\<lparr>f_authorized := authorized\<rparr>;
          buf = user_text E (f_client st) authorized name
      in if \<not> authorized \<and> fc_authlevel E = 2 then
           reply E 530 (take (fc_bufsiz E - 1) (buf @ c_string ''; Access denied.'')) (st\<lparr>f_pw := None\<rparr>)
         else if \<not> authorized \<or> fc_want_creds E \<and> \<not> f_have_creds st then
           reply E 331 (take (fc_bufsiz E - 1) (buf @ c_string ''; Password required.'')) (st\<lparr>f_askpasswd := True\<rparr>)
         else
           let st = login E 232 st
           in if f_end st \<noteq> Running then st else reply E 232 buf st)"

definition user_account :: "ftpd_env \<Rightarrow> cstr \<Rightarrow> ftpd \<Rightarrow> ftpd" where
  "user_account E name st =
     (let st = st\<lparr>f_pw := sgetpwnam E (f_root st) name\<rparr>
      in case f_pw st of
           Some p \<Rightarrow>
             if \<not> shell_ok E (f_root st) p \<or> disallowed_user E (f_root st) name then
               (reply E 530 (c_string ''User '' @ name @ c_string '' access denied.'') st)\<lparr>f_pw := None\<rparr>
             else
               let st = st\<lparr>f_restricted := restricted_user E (f_root st) name\<rparr>
               in if ct_auth_type st \<noteq> None then user_authenticated E name st
                  else reply E 331 (c_string ''Password required for '' @ name @ c_string ''.'') (st\<lparr>f_askpasswd := True\<rparr>)
         | None \<Rightarrow>
             if ct_auth_type st \<noteq> None then user_authenticated E name st
             else reply E 331 (c_string ''Password required for '' @ name @ c_string ''.'') (st\<lparr>f_askpasswd := True\<rparr>))"

definition user :: "ftpd_env \<Rightarrow> cstr \<Rightarrow> ftpd \<Rightarrow> ftpd" where
  "user E name st =
     (if f_logged_in st \<and> f_guest st then reply E 530 (c_string ''Can't change user from guest login.'') st
      else
        let st = (if f_logged_in st then end_login E st else st);
            st = st\<lparr>f_authorized := False, f_guest := False\<rparr>
        in if name = c_string ''ftp'' \<or> name = c_string ''anonymous'' then user_guest E name st
           else if fc_authlevel E \<noteq> 0 \<and> ct_auth_type st = None then
             reply E 530 (c_string ''Must perform authentication before identifying USER.'') st
           else user_account E name st)"

definition kpass :: "ftpd_env \<Rightarrow> cstr \<Rightarrow> cstr \<Rightarrow> ftpd \<Rightarrow> bool \<times> ftpd" where
  "kpass E name passwd st =
     (if fe_parse_name E name \<and> fe_cc_resolve E \<and> fe_cc_initialize E name \<and> fe_build_principal E \<and> fe_timeofday E \<and>
         fe_init_creds E name passwd \<and> fe_store_cred E then
        if \<not> fc_want_creds E then (True, st) else (True, st\<lparr>f_have_creds := True\<rparr>)
      else (False, st))"

definition pass_failed :: "ftpd_env \<Rightarrow> ftpd \<Rightarrow> ftpd" where
  "pass_failed E st =
     (let st = st\<lparr>f_pw := None, f_attempts := Suc (f_attempts st)\<rparr>
      in if f_attempts st \<ge> 3 then dologout E (reply E 421 (c_string ''Login incorrect, closing connection.'') st)
         else reply E 530 (c_string ''Login incorrect.'') st)"

text \<open>\<open>crypt\<close> may fail; its null pointer goes to \<open>strcmp\<close>.\<close>

definition pass_check :: "ftpd_env \<Rightarrow> cstr \<Rightarrow> ftpd \<Rightarrow> ftpd" where
  "pass_check E passwd st =
     (case f_pw st of
        None \<Rightarrow> pass_failed E st
      | Some p \<Rightarrow>
          (case kpass E (pw_name p) passwd st of
             (ok, st) \<Rightarrow>
               if ok then login E 0 (st\<lparr>f_attempts := 0\<rparr>)
               else if fc_want_creds E \<or> pw_passwd p = [] then pass_failed E st
               else
                 (case fe_crypt E passwd (pw_passwd p) of
                    None \<Rightarrow> st\<lparr>f_end := Crashed\<rparr>
                  | Some xpasswd \<Rightarrow>
                      if xpasswd \<noteq> pw_passwd p then pass_failed E st else login E 0 (st\<lparr>f_attempts := 0\<rparr>))))"

definition pass :: "ftpd_env \<Rightarrow> cstr \<Rightarrow> ftpd \<Rightarrow> ftpd" where
  "pass E passwd st =
     (if f_authorized st \<and> \<not> fc_want_creds E then reply E 202 (c_string ''PASS command superfluous.'') st
      else if f_logged_in st \<or> \<not> f_askpasswd st then reply E 503 (c_string ''Login with USER first.'') st
      else if f_guest st then login E 0 (st\<lparr>f_attempts := 0\<rparr>)
      else pass_check E passwd st)"

section \<open>Authentication\<close>

definition auth :: "ftpd_env \<Rightarrow> cstr \<Rightarrow> ftpd \<Rightarrow> ftpd" where
  "auth E atype st =
     (case ct_auth_type st of
        Some ty \<Rightarrow> reply E 534 (c_string ''Authentication type already set to '' @ ty) st
      | None \<Rightarrow>
          if atype = GSSAPI then
            reply E 334 (c_string ''Using authentication type '' @ atype @ c_string ''; ADAT must follow'')
              (st\<lparr>f_temp_auth := Some atype\<rparr>)
          else reply E 504 (c_string ''Unknown authentication type: '' @ atype) st)"

definition ftpd_gss_convert_creds :: "ftpd_env \<Rightarrow> cstr \<Rightarrow> ftpd \<Rightarrow> ftpd" where
  "ftpd_gss_convert_creds E name st =
     (if fe_parse_name E name \<and> fe_cc_resolve E \<and> fe_cc_initialize E name \<and> fe_copy_ccache E
      then st\<lparr>f_have_creds := True\<rparr> else st)"

text \<open>After the context is complete, unless the answer has been sent with its token.\<close>

definition auth_complete :: "ftpd_env \<Rightarrow> bool \<Rightarrow> bool \<Rightarrow> ftpd \<Rightarrow> ftpd" where
  "auth_complete E replied deleg st =
     (case fe_display_name E (f_tokens st) of
        None \<Rightarrow> reply_gss_error E 535 (c_string ''extracting GSSAPI identity name'') st
      | Some client \<Rightarrow>
          let st = st\<lparr>f_client := client, ct_auth_type := f_temp_auth st, f_temp_auth := None\<rparr>;
              st = (if deleg \<and> fc_want_creds E then ftpd_gss_convert_creds E client st else st)
          in if replied then st
             else if deleg \<and> \<not> f_have_creds st then
               reply E 235 (c_string ''GSSAPI Authentication succeeded, but could not accept forwarded credentials'') st
             else reply E 235 (c_string ''GSSAPI Authentication succeeded'') st)"

text \<open>After the token has been accepted, whether or not there will be more of them.\<close>

definition auth_accepted :: "ftpd_env \<Rightarrow> gss_accepted \<Rightarrow> ftpd \<Rightarrow> ftpd" where
  "auth_accepted E r st =
     (let complete = (ga_major r = GSS_complete); token = ga_token r
      in if token \<noteq> [] \<and> length token \<ge> (fc_bufsiz E - 6) div 4 * 3 then reply E 535 (c_string ''ADAT: reply too long'') st
         else
           let st = (if token = [] then st
                     else reply E (if complete then 235 else 335) (c_string ''ADAT='' @ radix_encode token) st)
           in if complete then auth_complete E (token \<noteq> []) (ga_deleg r) st
              else if token = [] then reply E 335 (c_string ''more data needed'') st
              else st)"

definition auth_data :: "ftpd_env \<Rightarrow> cstr \<Rightarrow> ftpd \<Rightarrow> ftpd" where
  "auth_data E adata st =
     (if ct_auth_type st \<noteq> None then reply E 503 (c_string ''Authentication already established'') st
      else if f_temp_auth st = None then reply E 503 (c_string ''Must identify AUTH type before ADAT'') st
      else
        (case radix_decode adata of
           Inl kerror \<Rightarrow>
             reply E 501 (c_string ''Couldn't decode ADAT ('' @ c_string (radix_error kerror) @ c_string '')'') st
         | Inr tok \<Rightarrow>
             if \<not> fe_hostname E then reply E 501 (c_string ''couldn't get local hostname ('' @ fe_errno E @ c_string '')'' @ [10]) st
             else if \<not> fe_canonical E then reply E 501 (c_string ''couldn't canonicalize local hostname'' @ [10]) st
             else
               let st = st\<lparr>f_tokens := f_tokens st @ [tok]\<rparr>; r = fe_accept E (f_tokens st)
               in if ga_major r = GSS_failure then reply_gss_error E 535 (c_string ''accepting context'') st
                  else auth_accepted E r st))"

section \<open>Protection of the data connection\<close>

text \<open>The argument of PROT: \<open>None\<close> is E. The cases overlap as the labels of the \<open>switch\<close> do.\<close>

definition set_dlevel :: "prot \<Rightarrow> ftpd \<Rightarrow> ftpd" where
  "set_dlevel level st = st\<lparr>ct_sec := (ct_sec st)\<lparr>se_dlevel := level\<rparr>\<rparr>"

definition setdlevel :: "ftpd_env \<Rightarrow> prot option \<Rightarrow> ftpd \<Rightarrow> ftpd" where
  "setdlevel E level st =
     (let set = (\<lambda>l name. reply E 200 (c_string ''Data channel protection level set to '' @ name @ c_string ''.'') (set_dlevel l st));
          no = (\<lambda>name. reply E 536 (name @ c_string '' protection level not supported.'') st)
      in case level of
           Some PROT_S \<Rightarrow> if ct_auth_type st \<noteq> None then set PROT_S (c_string ''safe'') else no (c_string ''Safe'')
         | Some PROT_P \<Rightarrow> if ct_auth_type st \<noteq> None then set PROT_P (c_string ''private'') else no (c_string ''Private'')
         | Some PROT_C \<Rightarrow> set PROT_C (c_string ''clear'')
         | None \<Rightarrow> no (c_string ''Confidential''))"

definition prot_cmd :: "ftpd_env \<Rightarrow> prot option \<Rightarrow> ftpd \<Rightarrow> ftpd" where
  "prot_cmd E level st =
     (if se_maxbuf (ct_sec st) \<noteq> 0 then setdlevel E level st else reply E 503 (c_string ''Must first set PBSZ'') st)"

definition ccc_cmd :: "ftpd_env \<Rightarrow> ftpd \<Rightarrow> ftpd" where
  "ccc_cmd E st =
     (if \<not> fc_allow_ccc E then reply E 534 (c_string ''CCC not supported'') st
      else if ct_clevel st = PROT_C \<and> \<not> ct_ccc_ok st then
        reply E 533 (c_string ''CCC command must be integrity protected'') st
      else (reply E 200 (c_string ''CCC command successful.'') st)\<lparr>ct_ccc_ok := True\<rparr>)"

text \<open>\<open>atol\<close> as an unsigned number of 32 bits, and its text.\<close>

definition atol :: "cstr \<Rightarrow> int" where
  "atol s =
     (let s = dropWhile isspace s;
          digits = takeWhile isdigit (if s \<noteq> [] \<and> (hd s = 45 \<or> hd s = 43) then tl s else s);
          n = foldl (\<lambda>v c. v * 10 + (uint c - 48)) 0 digits
      in if s \<noteq> [] \<and> hd s = 45 then - n else n)"

fun unsigned_text :: "nat \<Rightarrow> cstr" where
  "unsigned_text n = (if n < 10 then [of_nat n + 48] else unsigned_text (n div 10) @ [of_nat (n mod 10) + 48])"

declare unsigned_text.simps [simp del]

function pbsz_alloc :: "ftpd_env \<Rightarrow> nat \<Rightarrow> ftpd \<Rightarrow> ftpd" where
  "pbsz_alloc E n st =
     (case fe_malloc E n of
        Some buf \<Rightarrow>
          (let st = st\<lparr>ct_sec := (ct_sec st)\<lparr>se_ucbuf := buf, se_maxbuf := n\<rparr>\<rparr>
           in reply E 200 (c_string ''PBSZ='' @ unsigned_text n) st)
      | None \<Rightarrow>
          if n \<noteq> 0 then pbsz_alloc E (n div 4) (lreply E 200 (c_string ''Trying '' @ unsigned_text (n div 4)) st)
          else dologout E (reply E 421 (c_string ''Local resource failure: malloc: '' @ fe_strerror E @ c_string ''.'') st))"
  by pat_completeness auto
termination
  by (relation "measure (\<lambda>(E, n, st). n)") auto

declare pbsz_alloc.simps [simp del]

definition pbsz_cmd :: "ftpd_env \<Rightarrow> cstr \<Rightarrow> ftpd \<Rightarrow> ftpd" where
  "pbsz_cmd E s st =
     (if ct_auth_type st = None then reply E 503 (c_string ''Must first perform authentication'') st
      else if length s > 10 \<or> length s = 10 \<and> s \<ge> c_string ''4294967296'' then
        reply E 501 (c_string ''Bad value for PBSZ: '' @ s) st
      else pbsz_alloc E (nat (atol s mod 4294967296)) st)"

end
