(* ===== verification/FtpdCmd.thy ===== *)
theory FtpdCmd
  imports FtpdLogin
begin

text \<open>
  What the commands of the FTP server do: the actions of its grammar (gssftp/ftpd/ftpcmd.y) and the routines
  they call in gssftp/ftpd/ftpd.c, down to the system calls, whose results are a parameter. \<open>HELP\<close>, \<open>STAT\<close> without a
  name and the listings of files only produce text; what they reply is a parameter too.
\<close>

section \<open>Files\<close>

definition file_use_of :: "file_call \<Rightarrow> ftpd \<Rightarrow> file_use" where
  "file_use_of call st =
     \<lparr>fu_call = call, fu_logged_in = f_logged_in st, fu_guest = f_guest st, fu_pw = f_pw st, fu_euid = f_euid st,
      fu_root = f_root st\<rparr>"

definition use_file :: "file_call \<Rightarrow> ftpd \<Rightarrow> ftpd" where
  "use_file call st = st\<lparr>f_uses := f_uses st @ [file_use_of call st]\<rparr>"

definition file_call :: "ftpd_env \<Rightarrow> file_call \<Rightarrow> ftpd \<Rightarrow> file_result \<times> ftpd" where
  "file_call E call st = (let st = use_file call st in (fe_file E (f_uses st), st))"

definition perror_reply :: "ftpd_env \<Rightarrow> nat \<Rightarrow> cstr \<Rightarrow> ftpd \<Rightarrow> ftpd" where
  "perror_reply E code s st =
     (let extra = length (fe_strerror E) + 15
      in if length s + extra > fc_bufsiz E then
           reply E code (c_string ''(truncated)'' @ take (fc_bufsiz E - extra) s @ c_string '': '' @ fe_strerror E @ c_string ''.'') st
         else reply E code (s @ c_string '': '' @ fe_strerror E @ c_string ''.'') st)"

definition ack :: "ftpd_env \<Rightarrow> string \<Rightarrow> ftpd \<Rightarrow> ftpd" where
  "ack E s st = reply E 250 (c_string s @ c_string '' command successful.'') st"

definition delete_file :: "ftpd_env \<Rightarrow> cstr \<Rightarrow> ftpd \<Rightarrow> ftpd" where
  "delete_file E name st =
     (case file_call E (Call_stat name) st of
        (File_error, st) \<Rightarrow> perror_reply E 550 name st
      | (r, st) \<Rightarrow>
          (case file_call E (if r = File_dir then Call_rmdir name else Call_unlink name) st of
             (File_error, st) \<Rightarrow> perror_reply E 550 name st
           | (_, st) \<Rightarrow> ack E ''DELE'' st))"

definition cwd :: "ftpd_env \<Rightarrow> cstr \<Rightarrow> ftpd \<Rightarrow> ftpd" where
  "cwd E path st =
     (case chdir E path (use_file (Call_chdir path) st) of
        (False, st) \<Rightarrow> perror_reply E 550 path st
      | (True, st) \<Rightarrow> ack E ''CWD'' st)"

definition makedir :: "ftpd_env \<Rightarrow> cstr \<Rightarrow> ftpd \<Rightarrow> ftpd" where
  "makedir E name st =
     (case file_call E (Call_mkdir name) st of
        (File_error, st) \<Rightarrow> perror_reply E 550 name st
      | (_, st) \<Rightarrow> reply E 257 (c_string ''MKD command successful.'') st)"

definition removedir :: "ftpd_env \<Rightarrow> cstr \<Rightarrow> ftpd \<Rightarrow> ftpd" where
  "removedir E name st =
     (case file_call E (Call_rmdir name) st of
        (File_error, st) \<Rightarrow> perror_reply E 550 name st
      | (_, st) \<Rightarrow> ack E ''RMD'' st)"

definition pwd :: "ftpd_env \<Rightarrow> ftpd \<Rightarrow> ftpd" where
  "pwd E st =
     (let st = use_file Call_getcwd st
      in case fe_getcwd E of
           None \<Rightarrow> perror_reply E 550 [] st
         | Some dir \<Rightarrow> reply E 257 (c_string ''\"'' @ dir @ c_string ''\" is current directory.'') st)"

definition renamefrom :: "ftpd_env \<Rightarrow> cstr \<Rightarrow> ftpd \<Rightarrow> cstr option \<times> ftpd" where
  "renamefrom E name st =
     (case file_call E (Call_stat name) st of
        (File_error, st) \<Rightarrow> (None, perror_reply E 550 name st)
      | (_, st) \<Rightarrow> (Some name, reply E 350 (c_string ''File exists, ready for destination name'') st))"

definition renamecmd :: "ftpd_env \<Rightarrow> cstr \<Rightarrow> cstr \<Rightarrow> ftpd \<Rightarrow> ftpd" where
  "renamecmd E from_name to_name st =
     (case file_call E (Call_rename from_name to_name) st of
        (File_error, st) \<Rightarrow> perror_reply E 550 (c_string ''rename'') st
      | (_, st) \<Rightarrow> ack E ''RNTO'' st)"

text \<open>\<open>gunique\<close>: the directory, then up to 99 names.\<close>

fun gunique_loop :: "ftpd_env \<Rightarrow> nat \<Rightarrow> cstr \<Rightarrow> nat \<Rightarrow> ftpd \<Rightarrow> cstr option \<times> ftpd" where
  "gunique_loop E 0 local count st = (None, reply E 452 (c_string ''Unique file name cannot be created.'') st)"
| "gunique_loop E (Suc fuel) local count st =
     (let name = local @ [46] @ unsigned_text count
      in case file_call E (Call_stat name) st of
           (File_error, st) \<Rightarrow> (Some name, st)
         | (_, st) \<Rightarrow> gunique_loop E fuel local (Suc count) st)"

definition gunique :: "ftpd_env \<Rightarrow> cstr \<Rightarrow> ftpd \<Rightarrow> cstr option \<times> ftpd" where
  "gunique E local st =
     (let dir = (if 47 \<in> set local then rev (drop 1 (dropWhile (\<lambda>c. c \<noteq> 47) (rev local))) else [46])
      in case file_call E (Call_stat dir) st of
           (File_error, st) \<Rightarrow> (None, perror_reply E 553 dir st)
         | (_, st) \<Rightarrow> gunique_loop E 99 local 1 st)"

section \<open>The data connection\<close>

definition fatal :: "ftpd_env \<Rightarrow> string \<Rightarrow> ftpd \<Rightarrow> ftpd" where
  "fatal E s st =
     dologout E (reply E 221 (c_string ''Closing connection due to server error.'')
       (reply E 451 (c_string ''Error in server: '' @ c_string s) st))"

text \<open>
  Both routines become the superuser and the user again. Without an account they follow a null
  pointer; the commands that call them make sure that there is one.
\<close>

definition passive_cmd :: "ftpd_env \<Rightarrow> ftpd \<Rightarrow> ftpd" where
  "passive_cmd E st =
     (if \<not> fe_socket E then perror_reply E 425 (c_string ''Can't open passive connection'') st
      else
        case f_pw st of
          None \<Rightarrow> st\<lparr>f_end := Crashed\<rparr>
        | Some p \<Rightarrow>
            let st = snd (krb5_seteuid E 0 st)
            in if \<not> fe_bind E then
                 perror_reply E 425 (c_string ''Can't open passive connection'')
                   ((snd (krb5_seteuid E (pw_uid p) st))\<lparr>f_passive := False\<rparr>)
               else
                 (case krb5_seteuid E (pw_uid p) st of
                    (False, st) \<Rightarrow> fatal E ''seteuid user'' st
                  | (True, st) \<Rightarrow>
                      if \<not> fe_listen E then
                        perror_reply E 425 (c_string ''Can't open passive connection'') (st\<lparr>f_passive := False\<rparr>)
                      else
                        reply E 227 (c_string ''Entering Passive Mode ('' @ fe_pasv_text E @ c_string '')'') (st\<lparr>f_passive := True\<rparr>)))"

definition getdatasock :: "ftpd_env \<Rightarrow> ftpd \<Rightarrow> bool \<times> ftpd" where
  "getdatasock E st =
     (case f_pw st of
        None \<Rightarrow> (False, st\<lparr>f_end := Crashed\<rparr>)
      | Some p \<Rightarrow>
          (case krb5_seteuid E (pw_uid p) (snd (krb5_seteuid E 0 st)) of
             (False, st) \<Rightarrow> (False, fatal E ''seteuid user'' st)
           | (True, st) \<Rightarrow> (fe_datasock E, st)))"

text \<open>
  The stream to the client, of a listing without a size. There never is an open data connection that could
  be used again: all routines close theirs. \<open>f_passive\<close> stays set until the caller closes the stream. The
  address in the text of one reply is left out.
\<close>

definition open_text :: "ftpd \<Rightarrow> cstr \<Rightarrow> nat option \<Rightarrow> cstr" where
  "open_text st name sz =
     c_string ''Opening '' @ c_string (if f_type st = TYPE_A then ''ASCII'' else ''BINARY'') @
     c_string '' mode data connection for '' @ name @
     (case sz of None \<Rightarrow> [] | Some n \<Rightarrow> c_string '' ('' @ unsigned_text n @ c_string '' bytes)'') @ c_string ''.''"

definition dataconn :: "ftpd_env \<Rightarrow> cstr \<Rightarrow> nat option \<Rightarrow> ftpd \<Rightarrow> fd option \<times> ftpd" where
  "dataconn E name sz st =
     (if f_passive st then
        if \<not> fe_accept_data E then (None, (reply E 425 (c_string ''Can't open data connection.'') st)\<lparr>f_passive := False\<rparr>)
        else (Some (fe_stream E (f_uses st)), reply E 150 (open_text st name sz) st)
      else
        case getdatasock E (st\<lparr>f_port := None\<rparr>) of
          (False, st) \<Rightarrow>
            if f_end st \<noteq> Running then (None, st)
            else (None, reply E 425 (c_string ''Can't create data socket: '' @ fe_strerror E @ c_string ''.'') st)
        | (True, st) \<Rightarrow>
            if \<not> fe_connect E then (None, perror_reply E 425 (c_string ''Can't build data connection'') st)
            else (Some (fe_stream E (f_uses st)), reply E 150 (open_text st name sz) st))"

section \<open>Transfers\<close>

text \<open>How far a text file is read to find its restart point; line feeds count twice.\<close>

fun skip_text :: "nat \<Rightarrow> byte list \<Rightarrow> byte list option" where
  "skip_text 0 cs = Some cs"
| "skip_text (Suc n) [] = None"
| "skip_text (Suc n) (c # cs) = skip_text (if c = 10 then n - 1 else n) cs"

text \<open>The file at its restart point; \<open>None\<close> when this cannot be reached.\<close>

definition at_restart :: "ftpd_env \<Rightarrow> ftpd \<Rightarrow> fd \<Rightarrow> fd option" where
  "at_restart E st f =
     (if f_restart st = 0 then Some f
      else if f_type st = TYPE_A then map_option (\<lambda>cs. f\<lparr>fd_data := cs\<rparr>) (skip_text (f_restart st) (fd_data f))
      else if fe_seek E then Some (f\<lparr>fd_data := drop (f_restart st) (fd_data f)\<rparr>) else None)"

text \<open>
  The texts that go with the replies of a transfer; 535 is what secure.c has reported. The code 0 is the second
  line of the warning about bare line feeds.
\<close>

definition type_number :: "ftp_type \<Rightarrow> nat" where
  "type_number t = (case t of TYPE_A \<Rightarrow> 1 | TYPE_E \<Rightarrow> 2 | TYPE_I \<Rightarrow> 3 | TYPE_L \<Rightarrow> 4)"

definition send_reply :: "ftpd_env \<Rightarrow> nat \<Rightarrow> ftpd \<Rightarrow> ftpd" where
  "send_reply E code st =
     (if code = 226 then reply E 226 (c_string ''Transfer complete.'') st
      else if code = 426 then perror_reply E 426 (c_string ''Data connection'') st
      else if code = 551 then perror_reply E 551 (c_string ''Error on input file'') st
      else if code = 535 then reply_gss_error E 535 (c_string ''protecting the data'') st
      else reply E 550 (c_string ''Unimplemented TYPE '' @ unsigned_text (type_number (f_type st)) @ c_string '' in send_data'') st)"

definition receive_reply :: "ftpd_env \<Rightarrow> nat \<Rightarrow> ftpd \<Rightarrow> ftpd" where
  "receive_reply E code st =
     (if code = 226 then lreply E 226 (c_string ''WARNING! bare linefeeds received in ASCII mode'') st
      else if code = 0 then reply E 0 (c_string ''   File may not have transferred correctly.'') st
      else if code = 426 then perror_reply E 426 (c_string ''Data Connection'') st
      else if code = 452 then perror_reply E 452 (c_string ''Error writing file'') st
      else if code = 535 then reply_gss_error E 535 (c_string ''unprotecting the data'') st
      else reply E 553 (c_string ''TYPE E not implemented.'') st)"

text \<open>\<open>retrieve\<close>, of a file and of the output of a command; the size of the blocks is taken as \<open>FTP_BUFSIZ\<close>.\<close>

definition retrieve_data :: "ftpd_env \<Rightarrow> cstr \<Rightarrow> nat option \<Rightarrow> fd \<Rightarrow> ftpd \<Rightarrow> ftpd" where
  "retrieve_data E name sz fin st =
     (case at_restart E st fin of
        None \<Rightarrow> perror_reply E 550 name st
      | Some fin \<Rightarrow>
          (case dataconn E name sz st of
             (None, st) \<Rightarrow> st
           | (Some dout, st) \<Rightarrow>
               (case send_data (fc_gss E) (f_type st) (fc_bufsiz E) fin (ct_sec st) dout of
                  None \<Rightarrow> st\<lparr>f_end := Crashed\<rparr>
                | Some (codes, n, sec, dout) \<Rightarrow> (fold (send_reply E) codes (st\<lparr>ct_sec := sec\<rparr>))\<lparr>f_passive := False\<rparr>)))"

definition retrieve_file :: "ftpd_env \<Rightarrow> cstr \<Rightarrow> ftpd \<Rightarrow> ftpd" where
  "retrieve_file E name st =
     (let st = use_file (Call_open name (c_string ''r'')) st
      in case fe_open E (f_uses st) of
           None \<Rightarrow> perror_reply E 550 name st
         | Some fin \<Rightarrow>
             (case file_call E (Call_stat name) st of
                (File_regular, st) \<Rightarrow> retrieve_data E name (Some (fe_size E (f_uses st))) fin st
              | (_, st) \<Rightarrow> reply E 550 (name @ c_string '': not a plain file.'') st))"

definition retrieve_cmd :: "ftpd_env \<Rightarrow> string \<Rightarrow> cstr \<Rightarrow> ftpd \<Rightarrow> ftpd" where
  "retrieve_cmd E cmd name st =
     (if length cmd + length name + 3 \<ge> fc_bufsiz E then reply E 501 (c_string ''filename too long'') st
      else
        let line = c_string cmd @ name; st = use_file (Call_popen line) st
        in case fe_open E (f_uses st) of
             None \<Rightarrow> perror_reply E 550 line st
           | Some fin \<Rightarrow> retrieve_data E line None fin st)"

definition store_data :: "ftpd_env \<Rightarrow> cstr \<Rightarrow> bool \<Rightarrow> fd \<Rightarrow> ftpd \<Rightarrow> ftpd" where
  "store_data E name unique fout st =
     (case at_restart E st fout of
        None \<Rightarrow> perror_reply E 550 name st
      | Some fout \<Rightarrow>
          (case dataconn E name None st of
             (None, st) \<Rightarrow> st
           | (Some din, st) \<Rightarrow>
               (case receive_data (fc_gss E) (f_type st) (fc_bufsiz E - 1) (ct_sec st) din fout of
                  None \<Rightarrow> st\<lparr>f_end := Crashed\<rparr>
                | Some (ret, codes, n, sec, din, fout) \<Rightarrow>
                    let st = fold (receive_reply E) codes (st\<lparr>ct_sec := sec\<rparr>);
                        st = (if ret \<noteq> 0 then st
                              else if unique then
                                reply E 226 (c_string ''Transfer complete (unique file name:'' @ name @ c_string '').'') st
                              else reply E 226 (c_string ''Transfer complete.'') st)
                    in st\<lparr>f_passive := False\<rparr>)))"

definition store_name :: "ftpd_env \<Rightarrow> cstr \<Rightarrow> string \<Rightarrow> bool \<Rightarrow> ftpd \<Rightarrow> ftpd" where
  "store_name E name fmode unique st =
     (let st = use_file (Call_open name (c_string (if f_restart st \<noteq> 0 then ''r+w'' else fmode))) st
      in case fe_open E (f_uses st) of
           None \<Rightarrow> perror_reply E 553 name st
         | Some fout \<Rightarrow> store_data E name unique fout st)"

definition store_file :: "ftpd_env \<Rightarrow> cstr \<Rightarrow> string \<Rightarrow> bool \<Rightarrow> ftpd \<Rightarrow> ftpd" where
  "store_file E name fmode unique st =
     (if \<not> unique then store_name E name fmode unique st
      else
        case file_call E (Call_stat name) st of
          (File_error, st) \<Rightarrow> store_name E name fmode unique st
        | (_, st) \<Rightarrow>
            (case gunique E name st of
               (None, st) \<Rightarrow> st
             | (Some name, st) \<Rightarrow> store_name E name fmode unique st))"


section \<open>The commands\<close>

text \<open>
  A command as the grammar takes it apart. The argument of PROT is \<open>None\<close> for E; of \<open>TYPE\<close> the form is a letter;
  \<open>C_info\<close> are HELP, STAT without a name and SYST.
\<close>

datatype type_code = Code_A byte | Code_E byte | Code_I | Code_L nat

datatype ftpd_cmd =
    C_user cstr | C_pass cstr | C_port "nat list" nat nat | C_pasv | C_prot "prot option" | C_ccc | C_pbsz cstr
  | C_type type_code | C_stru byte | C_mode byte | C_allo | C_retr cstr | C_stor cstr | C_appe cstr | C_stou cstr
  | C_nlst "cstr option" | C_list "cstr option" | C_stat cstr | C_dele cstr | C_rnfr cstr | C_rnto cstr | C_abor
  | C_cwd "cstr option" | C_cdup | C_pwd | C_info cstr | C_noop | C_mkd cstr | C_rmd cstr
  | C_umask "int option" | C_chmod int cstr | C_idle "nat option" | C_size cstr | C_mdtm cstr | C_rest nat
  | C_auth cstr | C_adat cstr | C_quit

definition check_login :: "ftpd_env \<Rightarrow> ftpd \<Rightarrow> bool \<times> ftpd" where
  "check_login E st =
     (if f_logged_in st then (True, st) else (False, reply E 530 (c_string ''Please login with USER and PASS.'') st))"

definition nonguest :: "ftpd_env \<Rightarrow> ftpd \<Rightarrow> bool \<times> ftpd" where
  "nonguest E st =
     (case check_login E st of
        (ok, st) \<Rightarrow>
          if f_guest st then (False, reply E 550 (c_string ''Operation prohibited for anonymous users.'') st)
          else (ok, st))"

definition glob_text :: "glob_error \<Rightarrow> cstr" where
  "glob_text e =
     c_string (case e of
        Unknown_user \<Rightarrow> ''Unknown user name after ~''
      | Bad_components \<Rightarrow> ''Bad directory components''
      | Args_too_long \<Rightarrow> ''Arguments too long''
      | Path_too_long \<Rightarrow> ''Pathname too long'')"

definition pathname :: "ftpd_env \<Rightarrow> cstr \<Rightarrow> ftpd \<Rightarrow> cstr option \<times> ftpd" where
  "pathname E s st =
     (if f_logged_in st \<and> s \<noteq> [] \<and> hd s = 126 then
        (case ftpglob ((fe_glob E (f_root st))\<lparr>ge_home := f_home st\<rparr>) s (f_globerr st) of
           None \<Rightarrow> (None, st\<lparr>f_end := Crashed\<rparr>)
         | Some (vv, globerr) \<Rightarrow>
             let st = st\<lparr>f_globerr := globerr\<rparr>
             in case vv of
                  Some (x # _) \<Rightarrow> (Some x, st)
                | _ \<Rightarrow>
                    (case globerr of
                       None \<Rightarrow> (Some s, st)
                     | Some e \<Rightarrow> (None, reply E 550 (glob_text e) st)))
      else (Some s, st))"

text \<open>An action on a file, behind the test that the client has logged in, or that he is not a guest.\<close>

definition on_path :: "(ftpd \<Rightarrow> bool \<times> ftpd) \<Rightarrow> ftpd_env \<Rightarrow> cstr \<Rightarrow> (cstr \<Rightarrow> ftpd \<Rightarrow> ftpd) \<Rightarrow> ftpd \<Rightarrow> ftpd" where
  "on_path guard E s act st =
     (case guard st of
        (ok, st) \<Rightarrow>
          (case pathname E s st of
             (None, st) \<Rightarrow> st
           | (Some name, st) \<Rightarrow> if ok then act name st else st))"

definition when_logged_in :: "ftpd_env \<Rightarrow> (ftpd \<Rightarrow> ftpd) \<Rightarrow> ftpd \<Rightarrow> ftpd" where
  "when_logged_in E act st = (case check_login E st of (ok, st) \<Rightarrow> if ok then act st else st)"

definition replies :: "ftpd_env \<Rightarrow> (bool \<times> nat \<times> cstr) list \<Rightarrow> ftpd \<Rightarrow> ftpd" where
  "replies E rs st = fold (\<lambda>(more, code, s). if more then lreply E code s else reply E code s) rs st"

definition listing :: "ftpd_env \<Rightarrow> file_call \<Rightarrow> cstr \<Rightarrow> ftpd \<Rightarrow> ftpd" where
  "listing E call name st = replies E (fe_info E name) (use_file call st)"

text \<open>A port below 1024 is refused, whatever the address.\<close>

definition port_cmd :: "ftpd_env \<Rightarrow> nat list \<Rightarrow> nat \<Rightarrow> nat \<Rightarrow> ftpd \<Rightarrow> ftpd" where
  "port_cmd E addr hi lo st =
     (let port = hi mod 256 * 256 + lo mod 256
      in if port < 1024 then reply E 504 (c_string ''Port number too low'') st
         else
           reply E 200 (c_string ''PORT command successful.'')
             (st\<lparr>f_port := Some (List.map of_nat addr, port), f_passive := False\<rparr>))"

definition type_cmd :: "ftpd_env \<Rightarrow> type_code \<Rightarrow> ftpd \<Rightarrow> ftpd" where
  "type_cmd E code st =
     (case code of
        Code_A form \<Rightarrow>
          if form = 78 then reply E 200 (c_string ''Type set to A.'') (st\<lparr>f_type := TYPE_A\<rparr>)
          else reply E 504 (c_string ''Form must be N.'') st
      | Code_E form \<Rightarrow> reply E 504 (c_string ''Type E not implemented.'') st
      | Code_I \<Rightarrow> reply E 200 (c_string ''Type set to I.'') (st\<lparr>f_type := TYPE_I\<rparr>)
      | Code_L bits \<Rightarrow>
          if bits = 8 then reply E 200 (c_string ''Type set to L (byte size 8).'') (st\<lparr>f_type := TYPE_L\<rparr>)
          else reply E 504 (c_string ''Byte size must be 8.'') st)"

text \<open>\<open>octal_number\<close>: the number whose decimal digits, read as octal ones, are those of \<open>n\<close>; \<open>- 1\<close> if there is none.\<close>

function octal_number :: "nat \<Rightarrow> int \<Rightarrow> int \<Rightarrow> int" where
  "octal_number n multby ret =
     (if n = 0 then ret
      else if n mod 10 > 7 then - 1
      else octal_number (n div 10) (multby * 8) (ret + int (n mod 10) * multby))"
  by auto
termination by (relation "measure (\<lambda>(n, _, _). n)") auto

declare octal_number.simps [simp del]

text \<open>The masks in the replies are left out.\<close>

definition umask_cmd :: "ftpd_env \<Rightarrow> int option \<Rightarrow> ftpd \<Rightarrow> ftpd" where
  "umask_cmd E um st =
     (case um of
        None \<Rightarrow> when_logged_in E (\<lambda>st. reply E 200 (c_string ''Current UMASK'') (use_file (Call_umask None) st)) st
      | Some m \<Rightarrow>
          (case nonguest E st of
             (ok, st) \<Rightarrow>
               if \<not> ok then st
               else if m = - 1 \<or> m > 511 then reply E 501 (c_string ''Bad UMASK value'') st
               else reply E 200 (c_string ''UMASK set'') (use_file (Call_umask (Some m)) st)))"

definition chmod_file :: "ftpd_env \<Rightarrow> int \<Rightarrow> cstr \<Rightarrow> ftpd \<Rightarrow> ftpd" where
  "chmod_file E m name st =
     (if m > 511 then reply E 501 (c_string ''CHMOD: Mode value must be between 0 and 0777'') st
      else
        case file_call E (Call_chmod name m) st of
          (File_error, st) \<Rightarrow> perror_reply E 550 name st
        | (_, st) \<Rightarrow> reply E 200 (c_string ''CHMOD command successful.'') st)"

definition idle_cmd :: "ftpd_env \<Rightarrow> nat option \<Rightarrow> ftpd \<Rightarrow> ftpd" where
  "idle_cmd E n st =
     (case n of
        None \<Rightarrow>
          reply E 200 (c_string ''Current IDLE time limit is '' @ unsigned_text (f_timeout st) @ c_string '' seconds; max '' @
            unsigned_text (fe_maxtimeout E)) st
      | Some n \<Rightarrow>
          if n < 30 \<or> n > fe_maxtimeout E then
            reply E 501 (c_string ''Maximum IDLE time must be between 30 and '' @ unsigned_text (fe_maxtimeout E) @
              c_string '' seconds'') st
          else
            reply E 200 (c_string ''Maximum IDLE time set to '' @ unsigned_text n @ c_string '' seconds'') (st\<lparr>f_timeout := n\<rparr>))"

definition mdtm_cmd :: "ftpd_env \<Rightarrow> cstr \<Rightarrow> ftpd \<Rightarrow> ftpd" where
  "mdtm_cmd E name st =
     (case file_call E (Call_stat name) st of
        (File_error, st) \<Rightarrow> perror_reply E 550 name st
      | (File_regular, st) \<Rightarrow> replies E (fe_info E name) st
      | (_, st) \<Rightarrow> reply E 550 (name @ c_string '': not a plain file.'') st)"

text \<open>\<open>rename\<close> refuses the null pointer of a pattern that has failed.\<close>

definition rnto_cmd :: "ftpd_env \<Rightarrow> cstr \<Rightarrow> ftpd \<Rightarrow> ftpd" where
  "rnto_cmd E s st =
     (case pathname E s st of
        (name, st) \<Rightarrow>
          if f_end st \<noteq> Running then st
          else
            case f_fromname st of
              None \<Rightarrow> reply E 503 (c_string ''Bad sequence of commands.'') st
            | Some old \<Rightarrow>
                (case name of
                   None \<Rightarrow> perror_reply E 550 (c_string ''rename'') st
                 | Some name \<Rightarrow> renamecmd E old name st)\<lparr>f_fromname := None\<rparr>)"

text \<open>The two commands that keep the name for RNTO, or the restart point, for the next one.\<close>

definition rnfr_cmd :: "ftpd_env \<Rightarrow> cstr \<Rightarrow> ftpd \<Rightarrow> ftpd" where
  "rnfr_cmd E s st =
     on_path (check_login E) E s
       (\<lambda>name st. case renamefrom E name st of (old, st) \<Rightarrow> st\<lparr>f_fromname := old\<rparr>) (st\<lparr>f_restart := 0\<rparr>)"

definition rest_cmd :: "ftpd_env \<Rightarrow> nat \<Rightarrow> ftpd \<Rightarrow> ftpd" where
  "rest_cmd E n st =
     reply E 350 (c_string ''Restarting at '' @ unsigned_text n @ c_string ''. Send STORE or RETRIEVE to initiate transfer.'')
       (st\<lparr>f_fromname := None, f_restart := n\<rparr>)"

definition cmd_action :: "ftpd_env \<Rightarrow> ftpd_cmd \<Rightarrow> ftpd \<Rightarrow> ftpd" where
  "cmd_action E cmd st =
     (case cmd of
        C_user name \<Rightarrow> user E name st
      | C_pass s \<Rightarrow> pass E s st
      | C_port addr hi lo \<Rightarrow> port_cmd E addr hi lo st
      | C_pasv \<Rightarrow> when_logged_in E (passive_cmd E) st
      | C_prot level \<Rightarrow> prot_cmd E level st
      | C_ccc \<Rightarrow> ccc_cmd E st
      | C_pbsz s \<Rightarrow> pbsz_cmd E s st
      | C_type code \<Rightarrow> type_cmd E code st
      | C_stru c \<Rightarrow> if c = 70 then reply E 200 (c_string ''STRU F ok.'') st
                    else reply E 504 (c_string ''Unimplemented STRU type.'') st
      | C_mode c \<Rightarrow> if c = 83 then reply E 200 (c_string ''MODE S ok.'') st
                    else reply E 502 (c_string ''Unimplemented MODE type.'') st
      | C_allo \<Rightarrow> reply E 202 (c_string ''ALLO command ignored.'') st
      | C_retr s \<Rightarrow> on_path (check_login E) E s (retrieve_file E) st
      | C_stor s \<Rightarrow> on_path (check_login E) E s (\<lambda>name. store_file E name ''w'' False) st
      | C_appe s \<Rightarrow> on_path (check_login E) E s (\<lambda>name. store_file E name ''a'' False) st
      | C_stou s \<Rightarrow> on_path (check_login E) E s (\<lambda>name. store_file E name ''w'' True) st
      | C_nlst None \<Rightarrow> when_logged_in E (listing E (Call_list [46]) [46]) st
      | C_nlst (Some s) \<Rightarrow> when_logged_in E (listing E (Call_list s) s) st
      | C_list None \<Rightarrow> when_logged_in E (retrieve_cmd E ''/bin/ls -lgA'' []) st
      | C_list (Some s) \<Rightarrow> on_path (check_login E) E s (retrieve_cmd E ''/bin/ls -lgA '') st
      | C_stat s \<Rightarrow> on_path (check_login E) E s (\<lambda>name. listing E (Call_status name) name) st
      | C_dele s \<Rightarrow> on_path (check_login E) E s (delete_file E) st
      | C_rnfr s \<Rightarrow> rnfr_cmd E s st
      | C_rnto s \<Rightarrow> rnto_cmd E s st
      | C_abor \<Rightarrow> reply E 225 (c_string ''ABOR command successful.'') st
      | C_cwd None \<Rightarrow>
          when_logged_in E (\<lambda>st. case f_pw st of None \<Rightarrow> st\<lparr>f_end := Crashed\<rparr> | Some p \<Rightarrow> cwd E (pw_dir p) st) st
      | C_cwd (Some s) \<Rightarrow> on_path (check_login E) E s (cwd E) st
      | C_cdup \<Rightarrow> when_logged_in E (cwd E (c_string ''..'')) st
      | C_pwd \<Rightarrow> when_logged_in E (pwd E) st
      | C_info s \<Rightarrow> replies E (fe_info E s) st
      | C_noop \<Rightarrow> reply E 200 (c_string ''NOOP command successful.'') st
      | C_mkd s \<Rightarrow> on_path (nonguest E) E s (makedir E) st
      | C_rmd s \<Rightarrow> on_path (nonguest E) E s (removedir E) st
      | C_umask m \<Rightarrow> umask_cmd E m st
      | C_chmod m s \<Rightarrow> on_path (nonguest E) E s (chmod_file E m) st
      | C_idle n \<Rightarrow> idle_cmd E n st
      | C_size s \<Rightarrow> on_path (check_login E) E s (\<lambda>name. listing E (Call_size name) name) st
      | C_mdtm s \<Rightarrow> on_path (check_login E) E s (mdtm_cmd E) st
      | C_rest n \<Rightarrow> rest_cmd E n st
      | C_auth s \<Rightarrow> auth E s st
      | C_adat s \<Rightarrow> auth_data E s st
      | C_quit \<Rightarrow> dologout E (reply E 221 (c_string ''Goodbye.'') st))"

text \<open>One command of the list: all but RNFR and REST end what these have begun.\<close>

definition ftpd_command :: "ftpd_env \<Rightarrow> ftpd_cmd \<Rightarrow> ftpd \<Rightarrow> ftpd" where
  "ftpd_command E cmd st =
     (if f_end st \<noteq> Running then st
      else
        let st = cmd_action E cmd st
        in case cmd of
             C_rnfr _ \<Rightarrow> st
           | C_rest _ \<Rightarrow> st
           | _ \<Rightarrow> st\<lparr>f_fromname := None, f_restart := 0\<rparr>)"

fun ftpd_commands :: "ftpd_env \<Rightarrow> ftpd_cmd list \<Rightarrow> ftpd \<Rightarrow> ftpd" where
  "ftpd_commands E [] st = st"
| "ftpd_commands E (cmd # cmds) st = ftpd_commands E cmds (ftpd_command E cmd st)"

end
