(* ===== verification/Spec2Isabelle.thy ===== *)
theory Spec2Isabelle
  imports Prelude Memory Fifo Cipher Ring Network Radix Telnet_Proto Genget EncState EncDes EncCipher
    Encrypt EncInv EncProps EncNet Auth AuthProps TnState Options OptSpec Pty Environ Suboption Telrcv TelrcvInv TelrcvData EnvironSpec
    Netbuf NetbufProps NetbufClear
    ClState ClEnv ClSlc ClOptions ClSub ClRcv Negotiation ClOptSpec Agree Settle ClProps FdIo KStream KStreamProps SecureData FtpTransfer SecureProps FtpProps Glob GlobProps FtpControl FtpControlProps FtpdLogin FtpdCmd
begin

text \<open>
  A verification development for the Kerberos 5 applications of MIT (krb5-appl).
\<close>

end
